(* ===== verification/NP_Prelude.thy ===== *)
theory NP_Prelude
  imports Main "HOL-Library.Word" "HOL-Library.Sublist"
begin

unbundle bit_operations_syntax

text \<open>
  The prelude of the NovaProva development: the machine types of the C++ sources, the
  error values that stand for their aborts, assertions and uncaught exceptions, the C
  string and character helpers, and the generic facts on lists and options that the
  component theories share. The platform is the 64-bit one of
  \<^verbatim>\<open>np/spiegel/common.hxx\<close> (\<^verbatim>\<open>_NP_ADDRSIZE == 8\<close>), little-endian.
\<close>

section \<open>Machine types\<close>

type_synonym u8 = "8 word"
type_synonym u16 = "16 word"
type_synonym u32 = "32 word"
type_synonym u64 = "64 word"

text \<open>\<^verbatim>\<open>addr_t\<close> and \<^verbatim>\<open>offset_t\<close> of \<^verbatim>\<open>np/spiegel/common.hxx\<close>.\<close>

type_synonym addr_t = "64 word"
type_synonym offset_t = "64 word"

section \<open>Errors\<close>

text \<open>
  What stops the C++ program: a null pointer dereference, a failed \<^verbatim>\<open>assert\<close>, an
  uncaught standard library exception, a call of \<^verbatim>\<open>fatal\<close>, a read past the end of an
  array, a value cast to an enumeration that does not have it, a pointer used as the wrong
  type. A fallible operation returns a value of type \<open>np_error + 'a\<close>.
\<close>

datatype np_error =
    Null_Deref
  | Assert_Failed
  | Length_Error
  | Out_Of_Range
  | Divide_By_Zero
  | Bad_Enum
  | Bad_Pointer
  | Fatal_Exit string

primrec bindE :: "'e + 'a \<Rightarrow> ('a \<Rightarrow> 'e + 'b) \<Rightarrow> 'e + 'b" where
  "bindE (Inl e) f = Inl e"
| "bindE (Inr x) f = f x"

lemma bindE_Inr_iff: "bindE m f = Inr y \<longleftrightarrow> (\<exists>x. m = Inr x \<and> f x = Inr y)"
  by (cases m) auto

lemma bindE_Inr_right [simp]: "bindE m Inr = m"
  by (cases m) auto

lemma bindE_assoc: "bindE (bindE m f) g = bindE m (\<lambda>x. bindE (f x) g)"
  by (cases m) auto

section \<open>Collections of facts\<close>

named_theorems reader_simps
named_theorems np_invs

section \<open>Characters, bytes and strings\<close>

definition byte_of_char :: "char \<Rightarrow> u8" where
  "byte_of_char c = of_nat (of_char c)"

definition char_of_byte :: "u8 \<Rightarrow> char" where
  "char_of_byte b = char_of (unat b)"

lemma char_of_byte_of_char [simp]: "char_of_byte (byte_of_char c) = c"
proof -
  have "(of_char c :: nat) < 256" by (rule nat_of_char_less_256)
  then have "unat (of_nat (of_char c) :: u8) = of_char c"
    by (simp add: unat_of_nat)
  then show ?thesis
    by (simp add: char_of_byte_def byte_of_char_def)
qed

lemma byte_of_char_of_byte [simp]: "byte_of_char (char_of_byte b) = b"
proof -
  have "unat b < 256" using unsigned_less [of b] by simp
  then show ?thesis
    by (simp add: char_of_byte_def byte_of_char_def of_char_of)
qed

lemma byte_of_char_inj [simp]: "byte_of_char a = byte_of_char b \<longleftrightarrow> a = b"
  by (metis char_of_byte_of_char)

definition NUL :: char where
  "NUL = char_of (0::nat)"

lemma byte_of_char_0_iff [simp]: "byte_of_char c = 0 \<longleftrightarrow> c = NUL"
proof -
  have "byte_of_char NUL = 0"
    by (simp add: byte_of_char_def NUL_def)
  then show ?thesis by (metis byte_of_char_inj)
qed

definition bytes_of_string :: "string \<Rightarrow> u8 list" where
  "bytes_of_string s = map byte_of_char s"

definition string_of_bytes :: "u8 list \<Rightarrow> string" where
  "string_of_bytes bs = map char_of_byte bs"

lemma string_of_bytes_of_string [simp]: "string_of_bytes (bytes_of_string s) = s"
  by (simp add: string_of_bytes_def bytes_of_string_def comp_def)

lemma bytes_of_string_of_bytes [simp]: "bytes_of_string (string_of_bytes bs) = bs"
  by (simp add: string_of_bytes_def bytes_of_string_def comp_def)

lemma length_bytes_of_string [simp]: "length (bytes_of_string s) = length s"
  by (simp add: bytes_of_string_def)

text \<open>A C string holds no terminator of its own.\<close>

definition c_string :: "string \<Rightarrow> bool" where
  "c_string s \<longleftrightarrow> NUL \<notin> set s"

lemma bytes_of_c_string: "c_string s \<Longrightarrow> 0 \<notin> set (bytes_of_string s)"
  by (auto simp: c_string_def bytes_of_string_def)

lemma takeWhile_notin: "c \<notin> set s \<Longrightarrow> takeWhile (\<lambda>x. x \<noteq> c) (s @ c # t) = s"
  by (induction s) auto

section \<open>Searching a string\<close>

text \<open>
  \<^verbatim>\<open>std::string::find_last_of\<close> with a single character: the index of its last
  occurrence, or none (\<^verbatim>\<open>npos\<close>).
\<close>

fun find_last_of :: "'a list \<Rightarrow> 'a \<Rightarrow> nat option" where
  "find_last_of [] c = None"
| "find_last_of (x # xs) c =
     (case find_last_of xs c of
        Some i \<Rightarrow> Some (Suc i)
      | None \<Rightarrow> if x = c then Some 0 else None)"

lemma find_last_of_None_iff: "find_last_of s c = None \<longleftrightarrow> c \<notin> set s"
  by (induction s) (auto split: option.splits)

lemma find_last_of_append_notin:
  "c \<notin> set t \<Longrightarrow> find_last_of (s @ c # t) c = Some (length s)"
proof (induction s)
  case Nil
  then have "find_last_of t c = None" by (simp add: find_last_of_None_iff)
  then show ?case by simp
qed simp

lemma find_last_of_Some_split:
  "find_last_of s c = Some i \<Longrightarrow> s = take i s @ c # drop (Suc i) s \<and> c \<notin> set (drop (Suc i) s)"
  by (induction s arbitrary: i)
     (auto split: option.splits if_splits simp: find_last_of_None_iff)

section \<open>Printing numbers\<close>

text \<open>
  The digits of a number in a base, as \<^verbatim>\<open>printf\<close> writes them for \<^verbatim>\<open>%u\<close>, \<^verbatim>\<open>%x\<close> and
  \<^verbatim>\<open>%X\<close>; \<open>dchars\<close> is the digit alphabet.
\<close>

definition lower_digits :: string where
  "lower_digits = ''0123456789abcdef''"

definition upper_digits :: string where
  "upper_digits = ''0123456789ABCDEF''"

function print_base :: "string \<Rightarrow> nat \<Rightarrow> nat \<Rightarrow> string" where
  "print_base dchars b n =
     (if b < 2 \<or> n < b then [dchars ! n]
      else print_base dchars b (n div b) @ [dchars ! (n mod b)])"
  by pat_completeness auto
termination
  by (relation "measure (\<lambda>(d, b, n). n)") auto

declare print_base.simps [simp del]

text \<open>Zero padding to a minimum width, as in \<^verbatim>\<open>%03u\<close>.\<close>

definition pad_zero :: "nat \<Rightarrow> string \<Rightarrow> string" where
  "pad_zero w s = replicate (w - length s) CHR ''0'' @ s"

section \<open>Words\<close>

lemma unat_of_nat_u64: "n < 2 ^ 64 \<Longrightarrow> unat (of_nat n :: u64) = n"
  by (simp add: unat_of_nat)

lemma unat_of_nat_u32: "n < 2 ^ 32 \<Longrightarrow> unat (of_nat n :: u32) = n"
  by (simp add: unat_of_nat)

lemma ucast_u64_u32: "ucast (ucast (v :: u32) :: u64) = v"
  by (simp add: bit_eq_iff bit_simps)

text \<open>
  Integers in memory, least significant byte first, and their reassembly from bytes.
\<close>

definition bytes_of_u16 :: "u16 \<Rightarrow> u8 list" where
  "bytes_of_u16 w = [ucast w, ucast (drop_bit 8 w)]"

definition bytes_of_u32 :: "u32 \<Rightarrow> u8 list" where
  "bytes_of_u32 w =
     [ucast w, ucast (drop_bit 8 w), ucast (drop_bit 16 w), ucast (drop_bit 24 w)]"

definition bytes_of_u64 :: "u64 \<Rightarrow> u8 list" where
  "bytes_of_u64 w =
     [ucast w, ucast (drop_bit 8 w), ucast (drop_bit 16 w), ucast (drop_bit 24 w),
      ucast (drop_bit 32 w), ucast (drop_bit 40 w), ucast (drop_bit 48 w), ucast (drop_bit 56 w)]"

fun word_of_bytes :: "u8 list \<Rightarrow> 'a::len word" where
  "word_of_bytes [] = 0"
| "word_of_bytes (b # bs) = ucast b OR push_bit 8 (word_of_bytes bs)"

lemma length_bytes_of [simp]:
  "length (bytes_of_u16 v) = 2" "length (bytes_of_u32 w) = 4" "length (bytes_of_u64 x) = 8"
  by (simp_all add: bytes_of_u16_def bytes_of_u32_def bytes_of_u64_def)

lemma bit_ucast_byte: "bit (ucast (b::u8) :: 'a::len word) n \<longleftrightarrow> n < LENGTH('a) \<and> bit b n"
  by (simp add: bit_ucast_iff)

lemma bit_byte_len: "bit (b::u8) n \<Longrightarrow> n < 8"
  by (drule bit_imp_le_length) simp

lemma bit_word_of_bytes:
  "bit (word_of_bytes bs :: 'a::len word) n \<longleftrightarrow>
     n < LENGTH('a) \<and> n div 8 < length bs \<and> bit (bs ! (n div 8)) (n mod 8)"
proof (induction bs arbitrary: n)
  case (Cons b bs)
  show ?case
  proof (cases "n < 8")
    case True
    then show ?thesis by (auto simp: bit_or_iff bit_push_bit_iff bit_ucast_byte)
  next
    case False
    then have "n div 8 = Suc ((n - 8) div 8)" "n mod 8 = (n - 8) mod 8" "\<not> bit b n"
      using bit_byte_len [of b n] by (auto simp: le_div_geq le_mod_geq)
    with False show ?thesis
      by (auto simp: bit_or_iff bit_push_bit_iff bit_ucast_byte Cons.IH)
  qed
qed simp

text \<open>The bytes of a word, lowest first: the general form of the three encodings.\<close>

lemma word_of_bytes_map:
  assumes "LENGTH('a) = 8 * k"
  shows "word_of_bytes (map (\<lambda>i. ucast (drop_bit (8 * i) w)) [0..<k]) = (w :: 'a::len word)"
proof (rule bit_eqI)
  fix n assume "possible_bit TYPE('a word) n"
  then have "n < LENGTH('a)" "n div 8 < k" using assms by auto
  moreover have "8 * (n div 8) + n mod 8 = n" by simp
  ultimately show "bit (word_of_bytes (map (\<lambda>i. ucast (drop_bit (8 * i) w)) [0..<k]) :: 'a word) n = bit w n"
    by (simp add: bit_word_of_bytes bit_ucast_iff bit_drop_bit_eq)
qed

lemma bytes_of_map:
  "bytes_of_u16 v = map (\<lambda>i. ucast (drop_bit (8 * i) v)) [0..<2]"
  "bytes_of_u32 w = map (\<lambda>i. ucast (drop_bit (8 * i) w)) [0..<4]"
  "bytes_of_u64 x = map (\<lambda>i. ucast (drop_bit (8 * i) x)) [0..<8]"
  by (simp_all add: bytes_of_u16_def bytes_of_u32_def bytes_of_u64_def upt_rec)

lemma word_of_bytes_u16 [simp]: "word_of_bytes (bytes_of_u16 w) = w"
  unfolding bytes_of_map by (rule word_of_bytes_map) simp

lemma word_of_bytes_u32 [simp]: "word_of_bytes (bytes_of_u32 w) = w"
  unfolding bytes_of_map by (rule word_of_bytes_map) simp

lemma word_of_bytes_u64 [simp]: "word_of_bytes (bytes_of_u64 w) = w"
  unfolding bytes_of_map by (rule word_of_bytes_map) simp

section \<open>Lists\<close>

lemma take_drop_nth: "i < length xs \<Longrightarrow> drop i xs = xs ! i # drop (Suc i) xs"
  by (simp add: Cons_nth_drop_Suc)

lemma drop_Cons_nth:
  assumes "drop i xs = c # cs"
  shows "i < length xs" "xs ! i = c" "drop (Suc i) xs = cs"
proof -
  show i: "i < length xs" using assms by (metis drop_eq_Nil list.distinct(1) not_le)
  then have "drop i xs = xs ! i # drop (Suc i) xs" by (rule take_drop_nth)
  with assms show "xs ! i = c" "drop (Suc i) xs = cs" by simp_all
qed

lemma find_append:
  "List.find P (xs @ ys) = (case List.find P xs of None \<Rightarrow> List.find P ys | Some x \<Rightarrow> Some x)"
  by (induction xs) auto

lemma filter_update_length:
  "i < length xs \<Longrightarrow> P (xs ! i) \<Longrightarrow> \<not> P y \<Longrightarrow>
     length (filter P (xs[i := y])) + 1 = length (filter P xs)"
proof -
  assume i: "i < length xs" and P: "P (xs ! i)" "\<not> P y"
  have "xs = take i xs @ xs ! i # drop (Suc i) xs"
    using i by (rule id_take_nth_drop)
  then have "length (filter P xs) = length (filter P (take i xs @ xs ! i # drop (Suc i) xs))"
    by simp
  with P i show ?thesis
    by (simp add: upd_conv_take_nth_drop)
qed

section \<open>Iterating a partial step\<close>

text \<open>
  \<open>chain f xs y\<close>: the step \<open>f\<close> leads from each element of \<open>xs\<close> to the next, and from the
  last one to \<open>y\<close>. \<open>unfold_steps\<close> collects what a loop over \<open>f\<close> visits, for a number of rounds.
\<close>

fun chain :: "('a \<Rightarrow> 'a option) \<Rightarrow> 'a list \<Rightarrow> 'a option \<Rightarrow> bool" where
  "chain f [] y \<longleftrightarrow> True"
| "chain f [x] y \<longleftrightarrow> f x = y"
| "chain f (x # x' # xs) y \<longleftrightarrow> f x = Some x' \<and> chain f (x' # xs) y"

fun unfold_steps :: "('a \<Rightarrow> 'a option) \<Rightarrow> nat \<Rightarrow> 'a option \<Rightarrow> 'a list" where
  "unfold_steps f 0 x = []"
| "unfold_steps f (Suc n) None = []"
| "unfold_steps f (Suc n) (Some x) = x # unfold_steps f n (f x)"

lemma chain_append:
  "xs \<noteq> [] \<Longrightarrow> ys \<noteq> [] \<Longrightarrow> chain f (xs @ ys) y \<longleftrightarrow> chain f xs (Some (hd ys)) \<and> chain f ys y"
proof (induction f xs y rule: chain.induct)
  case (2 f x y)
  then show ?case by (cases ys) auto
qed auto

lemma chain_Cons: "xs \<noteq> [] \<Longrightarrow> chain f (x # xs) y \<longleftrightarrow> f x = Some (hd xs) \<and> chain f xs y"
  by (cases xs) auto

lemma chain_last: "chain f xs y \<Longrightarrow> xs \<noteq> [] \<Longrightarrow> f (last xs) = y"
  by (induction f xs y rule: chain.induct) auto

lemma unfold_steps_None [simp]: "unfold_steps f n None = []"
  by (cases n) auto

lemma unfold_steps_chain:
  "chain f xs None \<Longrightarrow> xs \<noteq> [] \<Longrightarrow> length xs \<le> n \<Longrightarrow> unfold_steps f n (Some (hd xs)) = xs"
proof (induction f xs "None :: 'a option" arbitrary: n rule: chain.induct)
  case (2 f x)
  then show ?case by (cases n) auto
next
  case (3 f x x' xs)
  then show ?case by (cases n) auto
qed simp

end
