(* ===== verification/NP_Types.thy ===== *)
theory NP_Types
  imports NP_Prelude
begin

text \<open>
  \<^verbatim>\<open>np/types.hxx\<close> and \<^verbatim>\<open>np/types.cxx\<close>: the test result lattice and the
  classification of functions.
\<close>

section \<open>Test results\<close>

datatype result_t = R_UNKNOWN | R_PASS | R_NOTAPPLICABLE | R_FAIL

text \<open>The ordinals of the enumeration, which \<^verbatim>\<open>merge\<close> compares.\<close>

fun result_ord :: "result_t \<Rightarrow> nat" where
  "result_ord R_UNKNOWN = 0"
| "result_ord R_PASS = 1"
| "result_ord R_NOTAPPLICABLE = 2"
| "result_ord R_FAIL = 3"

lemma result_ord_inj [simp]: "result_ord a = result_ord b \<longleftrightarrow> a = b"
  by (cases a; cases b) auto

instantiation result_t :: linorder
begin

definition less_eq_result_t :: "result_t \<Rightarrow> result_t \<Rightarrow> bool" where
  "a \<le> b \<longleftrightarrow> result_ord a \<le> result_ord b"

definition less_result_t :: "result_t \<Rightarrow> result_t \<Rightarrow> bool" where
  "a < b \<longleftrightarrow> result_ord a < result_ord b"

instance
proof
  fix x y z :: result_t
  show "x < y \<longleftrightarrow> x \<le> y \<and> \<not> y \<le> x"
    by (auto simp: less_eq_result_t_def less_result_t_def)
  show "x \<le> x" by (simp add: less_eq_result_t_def)
  show "x \<le> y \<Longrightarrow> y \<le> z \<Longrightarrow> x \<le> z" by (simp add: less_eq_result_t_def)
  show "x \<le> y \<Longrightarrow> y \<le> x \<Longrightarrow> x = y" by (simp add: less_eq_result_t_def)
  show "x \<le> y \<or> y \<le> x" by (auto simp: less_eq_result_t_def)
qed

end

instantiation result_t :: order_bot
begin

definition bot_result_t :: result_t where
  "bot_result_t = R_UNKNOWN"

instance
  by standard (simp add: bot_result_t_def less_eq_result_t_def)

end

definition merge :: "result_t \<Rightarrow> result_t \<Rightarrow> result_t" where
  "merge r1 r2 = (if r1 > r2 then r1 else r2)"

lemma merge_max: "merge a b = max a b"
  by (auto simp: merge_def max_def)

lemma R_UNKNOWN_least [simp]: "R_UNKNOWN \<le> r"
  by (simp add: less_eq_result_t_def)

lemma R_FAIL_greatest [simp]: "r \<le> R_FAIL"
  by (cases r) (simp_all add: less_eq_result_t_def)

interpretation merge: semilattice_neutr merge R_UNKNOWN
  by unfold_locales (auto simp: merge_max ac_simps intro: max_absorb1)

lemma merge_FAIL_iff [simp]: "merge a b = R_FAIL \<longleftrightarrow> a = R_FAIL \<or> b = R_FAIL"
  by (cases a; cases b) (auto simp: merge_def less_result_t_def)

lemma merge_UNKNOWN_iff [simp]: "merge a b = R_UNKNOWN \<longleftrightarrow> a = R_UNKNOWN \<and> b = R_UNKNOWN"
  by (cases a; cases b) (auto simp: merge_def less_result_t_def)

lemma merge_FAIL [simp]: "merge R_FAIL r = R_FAIL" "merge r R_FAIL = R_FAIL"
  by simp_all

lemma merge_le_left [simp]: "a \<le> merge a b" and merge_le_right [simp]: "b \<le> merge a b"
  by (simp_all add: merge_max)

section \<open>Function classification\<close>

datatype functype_t = FT_UNKNOWN | FT_BEFORE | FT_TEST | FT_AFTER | FT_MOCK | FT_PARAM

fun functype_ord :: "functype_t \<Rightarrow> nat" where
  "functype_ord FT_UNKNOWN = 0"
| "functype_ord FT_BEFORE = 1"
| "functype_ord FT_TEST = 2"
| "functype_ord FT_AFTER = 3"
| "functype_ord FT_MOCK = 4"
| "functype_ord FT_PARAM = 5"

fun functype_as_string :: "functype_t \<Rightarrow> string" where
  "functype_as_string FT_UNKNOWN = ''unknown''"
| "functype_as_string FT_BEFORE = ''before''"
| "functype_as_string FT_TEST = ''test''"
| "functype_as_string FT_AFTER = ''after''"
| "functype_as_string FT_MOCK = ''mock''"
| "functype_as_string FT_PARAM = ''param''"

text \<open>
  The values of an enumeration as they are stored and sent through the event pipe. The cast
  \<^verbatim>\<open>(result_t)res\<close> has a meaning only for the four values of \<^verbatim>\<open>result_t\<close>; a
  \<^verbatim>\<open>functype_t\<close> is kept as the integer it was cast from, so that
  \<^verbatim>\<open>as_string\<close> can reach its \<^verbatim>\<open>default\<close> case.
\<close>

definition uint_of_result :: "result_t \<Rightarrow> u32" where
  "uint_of_result r = of_nat (result_ord r)"

definition result_of_uint :: "u32 \<Rightarrow> np_error + result_t" where
  "result_of_uint w =
     (if w = 0 then Inr R_UNKNOWN else if w = 1 then Inr R_PASS
      else if w = 2 then Inr R_NOTAPPLICABLE else if w = 3 then Inr R_FAIL
      else Inl Bad_Enum)"

lemma result_of_uint_of_result [simp]: "result_of_uint (uint_of_result r) = Inr r"
  by (cases r) (simp_all add: result_of_uint_def uint_of_result_def)

definition uint_of_functype :: "functype_t \<Rightarrow> u32" where
  "uint_of_functype ft = of_nat (functype_ord ft)"

definition functype_of_uint :: "u32 \<Rightarrow> functype_t option" where
  "functype_of_uint w =
     (if w = 0 then Some FT_UNKNOWN else if w = 1 then Some FT_BEFORE
      else if w = 2 then Some FT_TEST else if w = 3 then Some FT_AFTER
      else if w = 4 then Some FT_MOCK else if w = 5 then Some FT_PARAM
      else None)"

lemma functype_of_uint_of_functype [simp]: "functype_of_uint (uint_of_functype ft) = Some ft"
  by (cases ft) (simp_all add: functype_of_uint_def uint_of_functype_def)

definition as_string_uint :: "u32 \<Rightarrow> string" where
  "as_string_uint w =
     (case functype_of_uint w of
        Some ft \<Rightarrow> functype_as_string ft
      | None \<Rightarrow> ''INTERNAL ERROR!'')"

lemma as_string_uint_of_functype [simp]: "as_string_uint (uint_of_functype ft) = functype_as_string ft"
  by (simp add: as_string_uint_def)

end
