(* ===== verification/NP_Common.thy ===== *)
theory NP_Common
  imports NP_Prelude "HOL-Library.Signed_Division"
begin

text \<open>
  \<^verbatim>\<open>np/util/common.cxx\<close>: number formatting, the relative clock and its epoch shared
  with child processes, three-way comparison and page rounding. System calls
  (\<^verbatim>\<open>clock_gettime\<close>, \<^verbatim>\<open>getenv\<close>, \<^verbatim>\<open>sysconf\<close>, \<^verbatim>\<open>strftime\<close>) are arguments. A time in nanoseconds
  (\<^verbatim>\<open>int64_t\<close>) is an \<^typ>\<open>int\<close>; narrowing to \<^verbatim>\<open>int\<close> or \<^verbatim>\<open>unsigned\<close> is written out
  with \<^const>\<open>of_int\<close> into a word.
\<close>

section \<open>Formatting numbers\<close>

text \<open>\<^verbatim>\<open>snprintf\<close> into a buffer of \<open>n\<close> bytes keeps at most \<open>n - 1\<close> characters.\<close>

definition snprintf :: "nat \<Rightarrow> string \<Rightarrow> string" where
  "snprintf n s = take (n - 1) s"

definition hex :: "u64 \<Rightarrow> string" where
  "hex x = snprintf 32 (''0x'' @ print_base lower_digits 16 (unat x))"

definition HEX :: "u64 \<Rightarrow> string" where
  "HEX x = snprintf 32 (''0x'' @ print_base upper_digits 16 (unat x))"

definition dec :: "u32 \<Rightarrow> string" where
  "dec x = snprintf 32 (print_base lower_digits 10 (unat x))"

section \<open>Clocks\<close>

definition NANOSEC_PER_SEC :: int where
  "NANOSEC_PER_SEC = 1000000000"

text \<open>\<open>ts\<close> is what \<^verbatim>\<open>clock_gettime\<close> stores: seconds and nanoseconds.\<close>

definition posix_now :: "int \<times> int \<Rightarrow> int" where
  "posix_now ts = fst ts * NANOSEC_PER_SEC + snd ts"

datatype precision = NP_NANOSECONDS | NP_MICROSECONDS | NP_MILLISECONDS | NP_SECONDS

text \<open>
  \<open>strftime_local\<close> stands for \<^verbatim>\<open>strftime\<close> of \<^verbatim>\<open>localtime_r\<close> with the format
  \<^verbatim>\<open>%Y-%m-%dT%H:%M:%S\<close>; it writes nothing when the text does not fit. The
  result is the buffer's contents and the count \<^verbatim>\<open>used\<close> that is returned.
\<close>

definition abs_format_iso8601_buf ::
    "(int \<Rightarrow> string) \<Rightarrow> int \<Rightarrow> nat \<Rightarrow> precision \<Rightarrow> string \<times> nat" where
  "abs_format_iso8601_buf strftime_local absn maxlen prec =
     (let clock = absn sdiv NANOSEC_PER_SEC;
          ns = unat (of_int (absn smod NANOSEC_PER_SEC) :: u64);
          d = strftime_local clock;
          date = (if length d < maxlen then d else '''');
          used = length date;
          put = (\<lambda>s. (date @ snprintf (maxlen - used) s, used + length s))
      in case prec of
           NP_NANOSECONDS \<Rightarrow> put (''.'' @ pad_zero 9 (print_base lower_digits 10 ns))
         | NP_MICROSECONDS \<Rightarrow> put (''.'' @ pad_zero 6 (print_base lower_digits 10 (ns div 1000)))
         | NP_MILLISECONDS \<Rightarrow> put (''.'' @ pad_zero 3 (print_base lower_digits 10 (ns div 1000000)))
         | NP_SECONDS \<Rightarrow> (date, used))"

definition abs_format_iso8601 :: "(int \<Rightarrow> string) \<Rightarrow> int \<Rightarrow> precision \<Rightarrow> string" where
  "abs_format_iso8601 strftime_local absn prec =
     fst (abs_format_iso8601_buf strftime_local absn 32 prec)"

text \<open>The seconds and nanoseconds are narrowed to \<^verbatim>\<open>int\<close> and printed with \<^verbatim>\<open>%u\<close>.\<close>

definition rel_format_buf :: "int \<Rightarrow> nat \<Rightarrow> string" where
  "rel_format_buf rel maxlen =
     (let sign = (if rel < 0 then ''-'' else '''');
          r = (if rel < 0 then - rel else rel);
          sec = of_int (r sdiv NANOSEC_PER_SEC) :: u32;
          ns = of_int (r smod NANOSEC_PER_SEC) :: u32
      in snprintf maxlen
           (sign @ print_base lower_digits 10 (unat sec) @ ''.'' @
            pad_zero 3 (print_base lower_digits 10 (unat (of_int (sint ns sdiv 1000000) :: u32)))))"

definition rel_format :: "int \<Rightarrow> string" where
  "rel_format rel = rel_format_buf rel 32"

section \<open>The epoch\<close>

text \<open>
  \<^verbatim>\<open>strtoull(s, 0, 0)\<close>: leading white space, an optional sign, the base from the
  prefix, the longest run of digits, saturation at the type's maximum, negation modulo
  \<open>2 ^ 64\<close>.
\<close>

definition is_space :: "char \<Rightarrow> bool" where
  "is_space c \<longleftrightarrow> c \<in> {CHR '' '', CHR 0x09, CHR 0x0A, CHR 0x0B, CHR 0x0C, CHR 0x0D}"

definition digit_val :: "char \<Rightarrow> nat option" where
  "digit_val c =
     (let n = of_char c :: nat in
      if 48 \<le> n \<and> n \<le> 57 then Some (n - 48)
      else if 97 \<le> n \<and> n \<le> 102 then Some (n - 87)
      else if 65 \<le> n \<and> n \<le> 70 then Some (n - 55)
      else None)"

fun parse_base :: "nat \<Rightarrow> nat \<Rightarrow> string \<Rightarrow> nat" where
  "parse_base b acc [] = acc"
| "parse_base b acc (c # cs) =
     (case digit_val c of
        Some d \<Rightarrow> if d < b then parse_base b (acc * b + d) cs else acc
      | None \<Rightarrow> acc)"

definition strtoull_unsigned :: "string \<Rightarrow> nat" where
  "strtoull_unsigned s =
     (if prefix ''0x'' s \<or> prefix ''0X'' s then parse_base 16 0 (drop 2 s)
      else if prefix ''0'' s then parse_base 8 0 (drop 1 s)
      else parse_base 10 0 s)"

definition strtoull0 :: "string \<Rightarrow> u64" where
  "strtoull0 s =
     (let t = dropWhile is_space s;
          neg = prefix ''-'' t;
          u = (if neg \<or> prefix ''+'' t then drop 1 t else t);
          n = strtoull_unsigned u
      in if 2 ^ 64 \<le> n then - 1 else if neg then - of_nat n else of_nat n)"

text \<open>
  The process state of \<^verbatim>\<open>rel_time\<close>: its static variable and the environment variable
  \<^verbatim>\<open>__NP_EPOCH\<close>, which a forked or executed process inherits.
\<close>

record epoch_state =
  first :: int
  np_epoch :: "string option"

definition rel_time :: "int \<Rightarrow> epoch_state \<Rightarrow> int \<times> epoch_state" where
  "rel_time now st =
     (let st' =
        (if first st \<noteq> 0 then st
         else case np_epoch st of
           Some e \<Rightarrow> st\<lparr>first := sint (strtoull0 e)\<rparr>
         | None \<Rightarrow>
             st\<lparr>first := now,
                np_epoch := Some (print_base lower_digits 10 (unat (of_int now :: u64)))\<rparr>)
      in (now - first st', st'))"

section \<open>Comparison and page rounding\<close>

definition u32cmp :: "u32 \<Rightarrow> u32 \<Rightarrow> int" where
  "u32cmp ul1 ul2 = (if ul1 > ul2 then 1 else if ul1 < ul2 then - 1 else 0)"

definition u64cmp :: "u64 \<Rightarrow> u64 \<Rightarrow> int" where
  "u64cmp ull1 ull2 = (if ull1 > ull2 then 1 else if ull1 < ull2 then - 1 else 0)"

text \<open>\<open>ps\<close> is \<^verbatim>\<open>page_size()\<close>, that is \<^verbatim>\<open>sysconf(_SC_PAGESIZE)\<close>.\<close>

definition page_round_up :: "u64 \<Rightarrow> u64 \<Rightarrow> u64" where
  "page_round_up ps x = ((x + ps - 1) div ps) * ps"

definition page_round_down :: "u64 \<Rightarrow> u64 \<Rightarrow> u64" where
  "page_round_down ps x = (x div ps) * ps"

section \<open>Printing and reading back\<close>

lemma print_base_small: "n < b \<Longrightarrow> print_base d b n = [d ! n]"
  by (subst print_base.simps) simp

lemma print_base_step:
  "2 \<le> b \<Longrightarrow> b \<le> n \<Longrightarrow> print_base d b n = print_base d b (n div b) @ [d ! (n mod b)]"
  by (subst print_base.simps) simp

lemma print_base_induct [consumes 1, case_names small step]:
  assumes "2 \<le> b"
    and "\<And>n. n < b \<Longrightarrow> P n"
    and "\<And>n. b \<le> n \<Longrightarrow> P (n div b) \<Longrightarrow> P n"
  shows "P (n::nat)"
proof (induction n rule: less_induct)
  case (less n)
  show ?case
  proof (cases "n < b")
    case False
    with assms(1) have "n div b < n" by auto
    with less False assms(3) show ?thesis by auto
  qed (rule assms(2))
qed

lemma length_print_base_le:
  assumes "2 \<le> b"
  shows "n < b ^ Suc k \<Longrightarrow> length (print_base d b n) \<le> Suc k"
proof (induction k arbitrary: n)
  case 0
  then show ?case by (simp add: print_base_small)
next
  case (Suc k)
  show ?case
  proof (cases "n < b")
    case False
    from Suc.prems have "n div b < b ^ Suc k"
      by (simp add: less_mult_imp_div_less mult.commute)
    then have "length (print_base d b (n div b)) \<le> Suc k" by (rule Suc.IH)
    with False assms show ?thesis by (simp add: print_base_step)
  qed (simp add: print_base_small)
qed

lemma print_base_nonempty [simp]: "print_base d b n \<noteq> []"
  by (subst print_base.simps) simp

lemma digit_val_lower:
  assumes "i < 16"
  shows "digit_val (lower_digits ! i) = Some i"
proof -
  have "\<forall>i \<in> set [0..<16]. digit_val (lower_digits ! i) = Some i"
    by code_simp
  with assms show ?thesis by simp
qed

definition digits_in :: "nat \<Rightarrow> string \<Rightarrow> bool" where
  "digits_in b s \<longleftrightarrow> list_all (\<lambda>c. case digit_val c of Some d \<Rightarrow> d < b | None \<Rightarrow> False) s"

lemma parse_base_append:
  "digits_in b s \<Longrightarrow> parse_base b acc (s @ t) = parse_base b (parse_base b acc s) t"
  by (induction s arbitrary: acc) (auto simp: digits_in_def split: option.splits)

lemma digits_in_print_base:
  assumes "2 \<le> b" "b \<le> 16"
  shows "digits_in b (print_base lower_digits b n)"
  using assms(1)
proof (induction n rule: print_base_induct)
  case (small n)
  with assms(2) show ?case by (simp add: digits_in_def digit_val_lower print_base_small)
next
  case (step n)
  have m: "n mod b < b" using assms(1) by simp
  with assms(2) have "digit_val (lower_digits ! (n mod b)) = Some (n mod b)"
    by (simp add: digit_val_lower)
  with step m assms show ?case by (simp add: digits_in_def print_base_step)
qed

lemma parse_print_base:
  assumes "2 \<le> b" "b \<le> 16"
  shows "parse_base b 0 (print_base lower_digits b n) = n"
  using assms(1)
proof (induction n rule: print_base_induct)
  case (small n)
  with assms(2) show ?case by (simp add: digit_val_lower print_base_small)
next
  case (step n)
  have m: "n mod b < b" using assms(1) by simp
  with assms(2) have "digit_val (lower_digits ! (n mod b)) = Some (n mod b)"
    by (simp add: digit_val_lower)
  with m step assms show ?case
    by (simp add: print_base_step parse_base_append digits_in_print_base)
qed

lemma hd_print_base:
  assumes "2 \<le> b" "0 < n"
  shows "\<exists>i. 0 < i \<and> i < b \<and> hd (print_base d b n) = d ! i"
  using assms
proof (induction n rule: print_base_induct)
  case (small n)
  then show ?case by (auto simp: print_base_small)
next
  case (step n)
  with assms(1) have "0 < n div b" by (auto simp: div_greater_zero_iff)
  with step assms(1) show ?case by (simp add: print_base_step hd_append)
qed

lemma length_print_dec_u32: "length (print_base d 10 (unat (x::u32))) \<le> 10"
  using length_print_base_le [of 10 "unat x" 9 d] unsigned_less [of x, where ?'a = nat] by simp

lemma length_print_hex_u64: "length (print_base d 16 (unat (x::u64))) \<le> 16"
  using length_print_base_le [of 16 "unat x" 15 d] unsigned_less [of x, where ?'a = nat] by simp

lemma dec_eq: "dec x = print_base lower_digits 10 (unat x)"
  using length_print_dec_u32 [of lower_digits x] by (simp add: dec_def snprintf_def)

lemma hex_eq: "hex x = ''0x'' @ print_base lower_digits 16 (unat x)"
  using length_print_hex_u64 [of lower_digits x] by (simp add: hex_def snprintf_def)

lemma HEX_eq: "HEX x = ''0x'' @ print_base upper_digits 16 (unat x)"
  using length_print_hex_u64 [of upper_digits x] by (simp add: HEX_def snprintf_def)

lemma dec_nonempty [simp]: "dec x \<noteq> []"
  by (simp add: dec_eq)

lemma parse_dec: "parse_base 10 0 (dec x) = unat x"
  by (simp add: dec_eq parse_print_base)

lemma dec_inj: "dec x = dec y \<longleftrightarrow> x = y"
  by (metis parse_dec word_unat_eq_iff)

lemma parse_hex: "parse_base 16 0 (drop 2 (hex x)) = unat x"
  by (simp add: hex_eq parse_print_base)

section \<open>The epoch is shared with child processes\<close>

lemma digit_char_facts:
  assumes "0 < i" "i < 10"
  shows "\<not> is_space (lower_digits ! i)" "lower_digits ! i \<noteq> CHR ''0''"
    "lower_digits ! i \<noteq> CHR ''-''" "lower_digits ! i \<noteq> CHR ''+''"
proof -
  have "\<forall>i \<in> set [1..<10]. \<not> is_space (lower_digits ! i) \<and> lower_digits ! i \<noteq> CHR ''0''
      \<and> lower_digits ! i \<noteq> CHR ''-'' \<and> lower_digits ! i \<noteq> CHR ''+''"
    by code_simp
  moreover have "i \<in> set [1..<10]" using assms by simp
  ultimately show "\<not> is_space (lower_digits ! i)" "lower_digits ! i \<noteq> CHR ''0''"
    "lower_digits ! i \<noteq> CHR ''-''" "lower_digits ! i \<noteq> CHR ''+''"
    by blast+
qed

lemma strtoull0_print:
  assumes "0 < n" "n < 2 ^ 64"
  shows "strtoull0 (print_base lower_digits 10 n) = of_nat n"
proof -
  obtain i where i: "0 < i" "i < 10" "hd (print_base lower_digits 10 n) = lower_digits ! i"
    using hd_print_base [of 10 n lower_digits] assms(1) by auto
  then obtain cs where cs: "print_base lower_digits 10 n = (lower_digits ! i) # cs"
    by (metis list.collapse print_base_nonempty)
  have "parse_base 10 0 ((lower_digits ! i) # cs) = n"
    using parse_print_base [of 10 n] cs by simp
  with digit_char_facts [OF i(1,2)] assms(2) show ?thesis
    by (simp add: strtoull0_def strtoull_unsigned_def cs Let_def)
qed

lemma sint_of_int_u64: "0 \<le> k \<Longrightarrow> k < 2 ^ 63 \<Longrightarrow> sint (of_int k :: u64) = k"
  by (simp add: signed_of_int signed_take_bit_int_eq_self)

lemma unat_of_int_u64: "0 \<le> k \<Longrightarrow> k < 2 ^ 64 \<Longrightarrow> unat (of_int k :: u64) = nat k"
  by (simp only: unat_eq_nat_uint unsigned_of_int) (simp add: take_bit_int_eq_self)

text \<open>
  A process that inherits the environment of one that has already taken the epoch
  measures relative times from the same instant, although its own static variable is unset.
\<close>

theorem rel_time_epoch_inherited:
  assumes "rel_time now parent = (d, parent')" "first parent = 0" "np_epoch parent = None"
    and "0 < now" "now < 2 ^ 63"
  shows "fst (rel_time now2 \<lparr>first = 0, np_epoch = np_epoch parent'\<rparr>) = now2 - now
       \<and> fst (rel_time now2 parent') = now2 - now"
proof -
  have p: "parent' = parent\<lparr>first := now,
      np_epoch := Some (print_base lower_digits 10 (nat now))\<rparr>"
    using assms by (simp add: rel_time_def Let_def unat_of_int_u64)
  have "strtoull0 (print_base lower_digits 10 (nat now)) = of_int now"
    using assms(4,5) strtoull0_print [of "nat now"] by simp
  then have "sint (strtoull0 (print_base lower_digits 10 (nat now))) = now"
    using assms(4,5) by (simp add: sint_of_int_u64)
  with p assms(4) show ?thesis
    by (simp add: rel_time_def Let_def)
qed

section \<open>Page rounding\<close>

lemma unat_page_round_down: "unat (page_round_down ps x) = unat x div unat ps * unat ps"
proof -
  have "unat x div unat ps * unat ps \<le> unat x" by simp
  also have "\<dots> < 2 ^ 64" using unsigned_less [of x, where ?'a = nat] by simp
  finally have "unat x div unat ps * unat ps < 2 ^ 64" .
  then show ?thesis
    by (simp add: page_round_down_def unat_mult_lem [THEN iffD1] unat_div_distrib)
qed

lemma unat_page_round_up:
  assumes "0 < ps" "unat x + unat ps \<le> 2 ^ 64"
  shows "unat (page_round_up ps x) = (unat x + unat ps - 1) div unat ps * unat ps"
proof -
  have ps: "0 < unat ps" using assms(1) by (simp add: word_less_nat_alt)
  have "x + ps - 1 = of_nat (unat x + unat ps - 1)"
    using ps by (simp add: of_nat_diff)
  moreover have "unat x + unat ps - 1 < 2 ^ 64" using assms(2) ps by linarith
  ultimately have s: "unat (x + ps - 1) = unat x + unat ps - 1"
    by (simp only: unat_of_nat_u64)
  have "page_round_up ps x = page_round_down ps (x + ps - 1)"
    by (simp add: page_round_up_def page_round_down_def)
  then show ?thesis by (simp add: unat_page_round_down s)
qed

lemma nat_round_up_bounds:
  fixes x p :: nat
  assumes "0 < p"
  shows "x \<le> (x + p - 1) div p * p" "(x + p - 1) div p * p < x + p"
proof -
  define q where "q = (x + p - 1) div p"
  have e: "x + p - 1 = q * p + (x + p - 1) mod p" by (simp add: q_def)
  have "(x + p - 1) mod p < p" using assms by simp
  with e assms show "x \<le> (x + p - 1) div p * p" "(x + p - 1) div p * p < x + p"
    unfolding q_def [symmetric] by linarith+
qed

text \<open>
  Rounding to pages: with a nonzero page size and no overflow of \<open>x + ps\<close>, rounding up
  gives the least multiple of the page size that is not below \<open>x\<close>, rounding down the
  greatest that is not above.
\<close>

theorem page_round_bounds:
  assumes "0 < ps" "unat x + unat ps \<le> 2 ^ 64"
  shows "x \<le> page_round_up ps x \<and> unat (page_round_up ps x) < unat x + unat ps
    \<and> unat ps dvd unat (page_round_up ps x)
    \<and> page_round_down ps x \<le> x \<and> unat x < unat (page_round_down ps x) + unat ps
    \<and> unat ps dvd unat (page_round_down ps x)"
proof -
  have ps: "0 < unat ps" using assms(1) by (simp add: word_less_nat_alt)
  have "unat x = unat x div unat ps * unat ps + unat x mod unat ps" by simp
  moreover have "unat x mod unat ps < unat ps" using ps by simp
  ultimately have "unat x < unat x div unat ps * unat ps + unat ps" by linarith
  with nat_round_up_bounds [OF ps, of "unat x"] show ?thesis
    by (simp add: word_le_nat_alt unat_page_round_up [OF assms] unat_page_round_down)
qed

theorem page_round_bounds_witness:
  "(0::u64) < 4096 \<and> unat (5000::u64) + unat (4096::u64) \<le> 2 ^ 64
    \<and> (5000::u64) \<le> page_round_up 4096 5000 \<and> page_round_down 4096 5000 \<le> (5000::u64)"
  using page_round_bounds [of 4096 5000] by simp

theorem rel_time_epoch_inherited_witness:
  "fst (rel_time 12 \<lparr>first = 0, np_epoch = np_epoch (snd (rel_time 5 \<lparr>first = 0, np_epoch = None\<rparr>))\<rparr>) = 7"
proof -
  have "rel_time 5 \<lparr>first = 0, np_epoch = None\<rparr>
      = (fst (rel_time 5 \<lparr>first = 0, np_epoch = None\<rparr>), snd (rel_time 5 \<lparr>first = 0, np_epoch = None\<rparr>))"
    by simp
  from rel_time_epoch_inherited [OF this, of 12] show ?thesis by simp
qed

end
