(* ===== verification/NP_Filename.thy ===== *)
theory NP_Filename
  imports NP_Prelude
begin

text \<open>
  \<^verbatim>\<open>np/util/tok.cxx\<close> (the string tokenizer over \<^verbatim>\<open>strtok_r\<close>) and
  \<^verbatim>\<open>np/util/filename.cxx\<close> (path names). A file name is a \<^typ>\<open>string\<close>; the current
  directory (\<^verbatim>\<open>getcwd\<close>) is an argument. The lemmas give the token sequence a closed
  form, relate \<^verbatim>\<open>make_absolute_to\<close> and \<^verbatim>\<open>normalise\<close> to the component lists of paths,
  and give the laws of \<^verbatim>\<open>push_back\<close>, \<^verbatim>\<open>pop_back\<close>, \<^verbatim>\<open>basename\<close> and \<^verbatim>\<open>is_path_tail\<close>.
\<close>

section \<open>The tokenizer\<close>

text \<open>
  \<^verbatim>\<open>strtok_r\<close>: skip separators, cut the next token off, keep the rest as the state.
\<close>

definition strtok_r :: "string \<Rightarrow> string \<Rightarrow> string option \<times> string" where
  "strtok_r s sep =
     (let t = dropWhile (\<lambda>c. c \<in> set sep) s
      in if t = [] then (None, [])
         else (Some (takeWhile (\<lambda>c. c \<notin> set sep) t),
               drop 1 (dropWhile (\<lambda>c. c \<notin> set sep) t)))"

record tok_t =
  tok_first :: bool
  tok_buf :: "string option"
  tok_state :: string
  tok_sep :: string

definition tok_init :: "string option \<Rightarrow> string option \<Rightarrow> tok_t" where
  "tok_init str sep =
     \<lparr>tok_first = True, tok_buf = str, tok_state = [],
      tok_sep = (case sep of None \<Rightarrow> [CHR '' '', CHR 0x09, CHR 0x0D, CHR 0x0A] | Some s \<Rightarrow> s)\<rparr>"

definition tok_next :: "tok_t \<Rightarrow> string option \<times> tok_t" where
  "tok_next t =
     (case tok_buf t of
        None \<Rightarrow> (None, t)
      | Some b \<Rightarrow>
          if tok_first t
          then (let (r, st) = strtok_r b (tok_sep t) in (r, t\<lparr>tok_first := False, tok_state := st\<rparr>))
          else (let (r, st) = strtok_r (tok_state t) (tok_sep t) in (r, t\<lparr>tok_state := st\<rparr>)))"

text \<open>The text still to be tokenized.\<close>

definition tok_rest :: "tok_t \<Rightarrow> string" where
  "tok_rest t = (case tok_buf t of None \<Rightarrow> [] | Some b \<Rightarrow> if tok_first t then b else tok_state t)"

lemma strtok_r_shorter:
  assumes "strtok_r s sep = (Some w, st)"
  shows "length st < length s"
proof -
  define t where "t = dropWhile (\<lambda>c. c \<in> set sep) s"
  from assms have t: "t \<noteq> []" and st: "st = drop 1 (dropWhile (\<lambda>c. c \<notin> set sep) t)"
    by (auto simp: strtok_r_def t_def Let_def split: if_splits)
  have "hd t \<notin> set sep" using t hd_dropWhile unfolding t_def by blast
  with t have "length (dropWhile (\<lambda>c. c \<notin> set sep) t) < length t"
    by (cases t) (auto simp: le_imp_less_Suc length_dropWhile_le)
  moreover have "length t \<le> length s"
    by (simp add: t_def length_dropWhile_le)
  ultimately show ?thesis using st by simp
qed

lemma tok_next_rest:
  assumes "tok_next t = (r, t')"
  shows "r = fst (strtok_r (tok_rest t) (tok_sep t))" "tok_sep t' = tok_sep t"
    "r \<noteq> None \<Longrightarrow> tok_rest t' = snd (strtok_r (tok_rest t) (tok_sep t))"
  using assms
  by (auto simp: tok_next_def tok_rest_def strtok_r_def Let_def split: option.splits if_splits prod.splits)

text \<open>The loop \<^verbatim>\<open>while ((part = tok.next()) != 0)\<close>, which every client of the tokenizer runs.\<close>

function tok_all :: "tok_t \<Rightarrow> string list" where
  "tok_all t = (case tok_next t of (None, _) \<Rightarrow> [] | (Some w, t') \<Rightarrow> w # tok_all t')"
  by pat_completeness auto
termination
proof (relation "measure (\<lambda>t. length (tok_rest t))", goal_cases)
  case 1
  then show ?case by simp
next
  case (2 t a t' w)
  then have n: "tok_next t = (Some w, t')" by simp
  note r = tok_next_rest [OF n]
  from r(1,3) have "strtok_r (tok_rest t) (tok_sep t) = (Some w, tok_rest t')"
    by (metis option.distinct(1) prod.collapse)
  then show ?case by (simp add: strtok_r_shorter)
qed

declare tok_all.simps [simp del]

definition tokens :: "string \<Rightarrow> string \<Rightarrow> string list" where
  "tokens sep s = tok_all (tok_init (Some s) (Some sep))"

section \<open>The token sequence in closed form\<close>

text \<open>The pieces of a text between separators, and the specification of the tokens.\<close>

fun pieces :: "'a set \<Rightarrow> 'a list \<Rightarrow> 'a list list" where
  "pieces S [] = [[]]"
| "pieces S (c # cs) =
     (if c \<in> S then [] # pieces S cs
      else (c # hd (pieces S cs)) # tl (pieces S cs))"

lemma pieces_nonempty [simp]: "pieces S s \<noteq> []"
  by (cases s) auto

lemma pieces_skip: "filter (\<lambda>w. w \<noteq> []) (pieces S s)
    = filter (\<lambda>w. w \<noteq> []) (pieces S (dropWhile (\<lambda>c. c \<in> S) s))"
  by (induction s) auto

lemma pieces_cut:
  "pieces S s = takeWhile (\<lambda>c. c \<notin> S) s #
     (case dropWhile (\<lambda>c. c \<notin> S) s of [] \<Rightarrow> [] | _ # r \<Rightarrow> pieces S r)"
  by (induction s) (auto split: list.splits)

lemma filter_pieces_cut:
  assumes "x \<notin> S"
  shows "filter (\<lambda>w. w \<noteq> []) (pieces S (x # xs)) =
     takeWhile (\<lambda>c. c \<notin> S) (x # xs) #
     filter (\<lambda>w. w \<noteq> []) (pieces S (drop 1 (dropWhile (\<lambda>c. c \<notin> S) (x # xs))))"
proof -
  have "filter (\<lambda>w. w \<noteq> []) (case d of [] \<Rightarrow> [] | _ # r \<Rightarrow> pieces S r)
      = filter (\<lambda>w. w \<noteq> []) (pieces S (drop 1 d))" for d
    by (cases d) auto
  with assms show ?thesis by (subst pieces_cut) simp
qed

lemma hd_dropWhile_mem: "dropWhile P s = x # xs \<Longrightarrow> \<not> P x"
  by (metis hd_dropWhile list.distinct(1) list.sel(1))

lemma filter_pieces_strtok:
  "filter (\<lambda>w. w \<noteq> []) (pieces (set sep) s) =
     (case strtok_r s sep of (None, _) \<Rightarrow> []
      | (Some w, st) \<Rightarrow> w # filter (\<lambda>w. w \<noteq> []) (pieces (set sep) st))"
proof -
  define t where "t = dropWhile (\<lambda>c. c \<in> set sep) s"
  have e: "filter (\<lambda>w. w \<noteq> []) (pieces (set sep) s) = filter (\<lambda>w. w \<noteq> []) (pieces (set sep) t)"
    unfolding t_def by (rule pieces_skip)
  show ?thesis
  proof (cases t)
    case Nil
    then show ?thesis using e by (simp add: strtok_r_def Let_def flip: t_def)
  next
    case (Cons x xs)
    then have x: "x \<notin> set sep" using hd_dropWhile_mem [of _ s x xs] by (simp add: t_def)
    show ?thesis
      using e filter_pieces_cut [OF x, of xs]
      by (simp add: strtok_r_def Let_def Cons flip: t_def)
  qed
qed

lemma tok_all_pieces:
  "tok_all t = filter (\<lambda>w. w \<noteq> []) (pieces (set (tok_sep t)) (tok_rest t))"
proof (induction t rule: tok_all.induct)
  case (1 t)
  obtain r t' where n: "tok_next t = (r, t')" by fastforce
  note nr = tok_next_rest [OF n]
  show ?case
  proof (cases r)
    case None
    then show ?thesis
      using n nr(1) by (auto simp: tok_all.simps [of t] filter_pieces_strtok split: prod.splits)
  next
    case (Some w)
    then have "tok_all t' = filter (\<lambda>w. w \<noteq> []) (pieces (set (tok_sep t')) (tok_rest t'))"
      using 1 n by simp
    moreover have "strtok_r (tok_rest t) (tok_sep t) = (Some w, tok_rest t')"
      using nr Some by (metis option.distinct(1) prod.collapse)
    ultimately show ?thesis
      using n nr(2) Some
      by (simp add: tok_all.simps [of t] filter_pieces_strtok [of "tok_sep t" "tok_rest t"])
  qed
qed

lemma tokens_eq: "tokens sep s = filter (\<lambda>w. w \<noteq> []) (pieces (set sep) s)"
  by (simp add: tokens_def tok_all_pieces tok_init_def tok_rest_def)

text \<open>
  The tokenizer returns exactly the nonempty pieces of the text between separator
  characters, in order.
\<close>

theorem tokens_pieces: "tokens sep s = filter (\<lambda>w. w \<noteq> []) (pieces (set sep) s)"
  by (rule tokens_eq)

lemma pieces_no_sep: "w \<in> set (pieces S s) \<Longrightarrow> set w \<inter> S = {}"
proof (induction s arbitrary: w)
  case (Cons c s)
  obtain p ps where "pieces S s = p # ps" by (meson list.exhaust pieces_nonempty)
  with Cons show ?case by (auto split: if_splits) blast
qed simp

section \<open>File names\<close>

definition SLASH :: char where
  "SLASH = CHR ''/''"

definition is_absolute :: "string \<Rightarrow> bool" where
  "is_absolute f \<longleftrightarrow> f \<noteq> [] \<and> f ! 0 = SLASH"

definition is_path_tail :: "string \<Rightarrow> string \<Rightarrow> bool" where
  "is_path_tail this file =
     (let difflen = int (length this) - int (length file)
      in if difflen < 0 then False
         else (let tail = drop (nat difflen) this
               in tail = file \<and> (nat difflen = 0 \<or> this ! (nat difflen - 1) = SLASH)))"

text \<open>
  One round of the loop of \<^verbatim>\<open>make_absolute_to\<close>. \<^verbatim>\<open>find_last_of\<close> gives \<^verbatim>\<open>npos\<close> where there is
  no slash; it is not zero, so \<^verbatim>\<open>resize\<close> is called with it and throws.
\<close>

definition absolute_part :: "string \<Rightarrow> string \<Rightarrow> np_error + string" where
  "absolute_part apath part =
     (if part = ''.'' then Inr apath
      else if part = ''..'' then
        (case find_last_of apath SLASH of
           None \<Rightarrow> Inl Length_Error
         | Some p \<Rightarrow> if p \<noteq> 0 then Inr (take p apath) else Inr apath)
      else Inr ((if length apath > 1 then apath @ ''/'' else apath) @ part))"

fun absolute_parts :: "string \<Rightarrow> string list \<Rightarrow> np_error + string" where
  "absolute_parts apath [] = Inr apath"
| "absolute_parts apath (part # parts) =
     bindE (absolute_part apath part) (\<lambda>apath'. absolute_parts apath' parts)"

definition make_absolute_to :: "string \<Rightarrow> string \<Rightarrow> string \<Rightarrow> bool \<Rightarrow> np_error + string" where
  "make_absolute_to cwd this absfile isdir =
     (let parts = tokens ''/'' this
      in if is_absolute this then absolute_parts ''/'' parts
         else if absfile \<noteq> [] then
           (if isdir then absolute_parts absfile parts
            else if is_path_tail absfile this then Inr absfile
            else (case find_last_of absfile SLASH of
                    None \<Rightarrow> Inl Assert_Failed
                  | Some t \<Rightarrow> absolute_parts (take t absfile) parts))
         else absolute_parts cwd parts)"

definition make_absolute :: "string \<Rightarrow> string \<Rightarrow> np_error + string" where
  "make_absolute cwd this = make_absolute_to cwd this [] False"

definition make_absolute_to_file :: "string \<Rightarrow> string \<Rightarrow> string \<Rightarrow> np_error + string" where
  "make_absolute_to_file cwd this absfile = make_absolute_to cwd this absfile False"

definition make_absolute_to_dir :: "string \<Rightarrow> string \<Rightarrow> string \<Rightarrow> np_error + string" where
  "make_absolute_to_dir cwd this absdir = make_absolute_to cwd this absdir True"

text \<open>The loop of \<^verbatim>\<open>normalise\<close> over its two strings \<^verbatim>\<open>up\<close> and \<^verbatim>\<open>down\<close>.\<close>

definition normalise_part :: "bool \<Rightarrow> string \<times> string \<Rightarrow> string \<Rightarrow> string \<times> string" where
  "normalise_part is_abs ud part =
     (let (up, down) = ud
      in if part = ''.'' then (up, down)
         else if part = ''..'' then
           (case find_last_of down SLASH of
              Some i \<Rightarrow> (up, take i down)
            | None \<Rightarrow>
                if down \<noteq> [] then (up, [])
                else if \<not> is_abs then (up @ ''../'', down)
                else (up, down))
         else (up, (if length down > 1 then down @ ''/'' else down) @ part))"

definition normalise :: "string \<Rightarrow> string" where
  "normalise this =
     (let is_abs = is_absolute this;
          (up, down) = foldl (normalise_part is_abs) ((if is_abs then ''/'' else []), [])
                         (tokens ''/'' this)
      in if down = [] \<and> up = [] then ''.'' else up @ down)"

definition basename :: "string \<Rightarrow> string" where
  "basename this =
     (case find_last_of this SLASH of None \<Rightarrow> this | Some tail \<Rightarrow> drop (tail + 1) this)"

definition pop_back :: "string \<Rightarrow> string" where
  "pop_back this =
     (case find_last_of this SLASH of
        None \<Rightarrow> this
      | Some p \<Rightarrow> take (if p \<noteq> 0 then p else 1) this)"

text \<open>\<^verbatim>\<open>at(length()-1)\<close> throws on the empty string.\<close>

definition push_back :: "string \<Rightarrow> string \<Rightarrow> np_error + string" where
  "push_back this s =
     (if this = [] then Inl Out_Of_Range
      else Inr ((if this ! (length this - 1) \<noteq> SLASH then this @ ''/'' else this) @ s))"

section \<open>Absolute paths as component lists\<close>

definition component :: "string \<Rightarrow> bool" where
  "component c \<longleftrightarrow> c \<noteq> [] \<and> SLASH \<notin> set c \<and> c \<noteq> ''.'' \<and> c \<noteq> ''..''"

definition render :: "string list \<Rightarrow> string" where
  "render cs = (if cs = [] then [SLASH] else concat (map (\<lambda>c. SLASH # c) cs))"

text \<open>
  What \<^verbatim>\<open>make_absolute_to\<close> does to the components of its accumulated path. A \<^verbatim>\<open>..\<close>
  removes the last component, but never the only one.
\<close>

definition abs_step :: "string list \<Rightarrow> string \<Rightarrow> string list" where
  "abs_step cs part =
     (if part = ''.'' then cs
      else if part = ''..'' then (if length cs \<le> 1 then cs else butlast cs)
      else cs @ [part])"

lemma render_nonempty [simp]: "render cs \<noteq> []"
  by (auto simp: render_def neq_Nil_conv)

lemma SLASH_string: "''/'' = [SLASH]" "''../'' = CHR ''.'' # CHR ''.'' # [SLASH]"
  by (simp_all add: SLASH_def)

lemma render_snoc: "cs \<noteq> [] \<Longrightarrow> render (cs @ [c]) = render cs @ SLASH # c"
  by (simp add: render_def)

lemma length_render_gt1: "list_all component cs \<Longrightarrow> 1 < length (render cs) \<longleftrightarrow> cs \<noteq> []"
  by (cases cs) (auto simp: render_def component_def)

lemma tokens_slash:
  assumes "w \<in> set (tokens ''/'' f)"
  shows "w \<noteq> []" "SLASH \<notin> set w"
  using assms pieces_no_sep [of w "{SLASH}" f]
  by (auto simp: tokens_eq SLASH_string)

lemma find_last_render_snoc:
  "SLASH \<notin> set c \<Longrightarrow> cs \<noteq> [] \<Longrightarrow> find_last_of (render (cs @ [c])) SLASH = Some (length (render cs))"
  by (simp add: render_snoc find_last_of_append_notin)

lemma absolute_part_render:
  assumes cs: "list_all component cs" and part: "part \<noteq> []" "SLASH \<notin> set part"
  shows "absolute_part (render cs) part = Inr (render (abs_step cs part))"
proof (cases "part = ''..''")
  case True
  show ?thesis
  proof (cases cs rule: rev_cases)
    case Nil
    then show ?thesis using True by (simp add: absolute_part_def abs_step_def render_def)
  next
    case (snoc ds c)
    then have c: "SLASH \<notin> set c" using cs by (simp add: component_def)
    show ?thesis
    proof (cases "ds = []")
      case True
      have "find_last_of (SLASH # c) SLASH = Some 0"
        using find_last_of_append_notin [OF c, of "[]"] by simp
      then show ?thesis
        using True snoc \<open>part = ''..''\<close> by (simp add: absolute_part_def abs_step_def render_def)
    next
      case False
      then have "1 < length cs" using snoc by (cases ds) auto
      then show ?thesis
        using False snoc True c find_last_render_snoc [OF c False]
        by (simp add: absolute_part_def abs_step_def render_snoc)
    qed
  qed
next
  case False
  show ?thesis
  proof (cases "cs = []")
    case True
    then show ?thesis using False by (simp add: absolute_part_def abs_step_def render_def)
  next
    case ne: False
    then have "1 < length (render cs)" using length_render_gt1 [OF cs] by simp
    then show ?thesis
      using False ne by (simp add: absolute_part_def abs_step_def render_snoc SLASH_string)
  qed
qed

lemma component_abs_step:
  "list_all component cs \<Longrightarrow> part \<noteq> [] \<Longrightarrow> SLASH \<notin> set part \<Longrightarrow> list_all component (abs_step cs part)"
  by (auto simp: abs_step_def component_def list_all_iff dest: in_set_butlastD)

lemma absolute_parts_render:
  assumes "list_all component cs" "\<And>w. w \<in> set parts \<Longrightarrow> w \<noteq> [] \<and> SLASH \<notin> set w"
  shows "absolute_parts (render cs) parts = Inr (render (foldl abs_step cs parts))
       \<and> list_all component (foldl abs_step cs parts)"
  using assms
proof (induction parts arbitrary: cs)
  case (Cons p ps)
  then have p: "p \<noteq> []" "SLASH \<notin> set p" by simp_all
  from Cons.IH [OF component_abs_step [OF Cons.prems(1) p]] Cons.prems(2) show ?case
    by (simp add: absolute_part_render [OF Cons.prems(1) p])
qed simp

lemma render_root: "''/'' = render []"
  by (simp add: render_def SLASH_def)

text \<open>
  Against a well-formed absolute directory, \<^verbatim>\<open>make_absolute_to_dir\<close> never fails: it
  returns the well-formed absolute path whose components are obtained by applying the name's
  parts in order to the directory's components (or to the root, for an absolute name).
\<close>

theorem make_absolute_to_dir_components:
  assumes "list_all component ds"
  shows "\<exists>cs. make_absolute_to_dir cwd f (render ds) = Inr (render cs) \<and> list_all component cs
    \<and> cs = foldl abs_step (if is_absolute f then [] else ds) (tokens ''/'' f)"
proof -
  have t: "\<And>w. w \<in> set (tokens ''/'' f) \<Longrightarrow> w \<noteq> [] \<and> SLASH \<notin> set w"
    using tokens_slash by blast
  show ?thesis
    using absolute_parts_render [OF _ t, of "[]"] absolute_parts_render [OF assms t]
    by (simp add: make_absolute_to_dir_def make_absolute_to_def Let_def render_root)
qed

theorem make_absolute_to_dir_components_witness:
  "make_absolute_to_dir [] ''../x/./y.c'' (render [''home'', ''src'']) = Inr (render [''home'', ''x'', ''y.c''])"
proof -
  have c: "list_all component [''home'', ''src'']"
    by (simp add: component_def SLASH_def)
  have t: "foldl abs_step (if is_absolute ''../x/./y.c'' then [] else [''home'', ''src''])
      (tokens ''/'' ''../x/./y.c'') = [''home'', ''x'', ''y.c'']"
    by code_simp
  show ?thesis
    using make_absolute_to_dir_components [OF c, of "[]" "''../x/./y.c''"] unfolding t by auto
qed

lemma pieces_split: "set w \<inter> S = {} \<Longrightarrow> c \<in> S \<Longrightarrow> pieces S (w @ c # s) = w # pieces S s"
  by (induction w) auto

lemma pieces_single: "set w \<inter> S = {} \<Longrightarrow> pieces S w = [w]"
  by (induction w) auto

text \<open>
  A parent reference right below the root is lost: the name \<^verbatim>\<open>/c/..\<close> is made absolute
  to \<^verbatim>\<open>/c\<close>, not to \<^verbatim>\<open>/\<close>, because position zero is taken for \<^emph>\<open>no slash found\<close>.
\<close>

theorem make_absolute_parent_of_top:
  assumes "component c"
  shows "make_absolute cwd (SLASH # c @ ''/..'') = Inr (SLASH # c)"
proof -
  have c: "c \<noteq> []" "set c \<inter> {SLASH} = {}" using assms by (auto simp: component_def)
  have "pieces {SLASH} (SLASH # c @ ''/..'') = [[], c, ''..'']"
    using pieces_split [OF c(2), of SLASH "''..''"] by (simp add: SLASH_def)
  then have t: "tokens ''/'' (SLASH # c @ ''/..'') = [c, ''..'']"
    using c(1) by (simp add: tokens_eq SLASH_string)
  have a: "foldl abs_step [] [c, ''..''] = [c]"
    using assms by (simp add: abs_step_def component_def)
  have w: "\<And>w. w \<in> set [c, ''..''] \<Longrightarrow> w \<noteq> [] \<and> SLASH \<notin> set w"
    using assms by (auto simp: component_def SLASH_def)
  have "absolute_parts (render []) [c, ''..''] = Inr (render [c])"
    using absolute_parts_render [of "[]" "[c, ''..'']"] w a by force
  then have "absolute_parts ''/'' (tokens ''/'' (SLASH # c @ ''/..'')) = Inr (SLASH # c)"
    unfolding t by (simp add: render_def SLASH_string)
  then show ?thesis
    by (simp add: make_absolute_def make_absolute_to_def is_absolute_def Let_def)
qed

theorem make_absolute_parent_of_top_witness: "make_absolute [] ''/foo/..'' = Inr ''/foo''"
  using make_absolute_parent_of_top [of "''foo''" "[]"] by (simp add: component_def SLASH_def)

section \<open>Normalisation\<close>

text \<open>The components of the normal form: how many levels up, then which names down.\<close>

definition norm_step :: "bool \<Rightarrow> nat \<times> string list \<Rightarrow> string \<Rightarrow> nat \<times> string list" where
  "norm_step is_abs ud part =
     (let (u, ds) = ud
      in if part = ''.'' then (u, ds)
         else if part = ''..'' then
           (if ds \<noteq> [] then (u, butlast ds) else if is_abs then (u, ds) else (Suc u, ds))
         else (u, ds @ [part]))"

fun join :: "string list \<Rightarrow> string" where
  "join [] = []"
| "join [c] = c"
| "join (c # d # cs) = c @ SLASH # join (d # cs)"

lemma join_snoc: "join (cs @ [c]) = (if cs = [] then c else join cs @ SLASH # c)"
  by (induction cs rule: join.induct) auto

definition long_component :: "string \<Rightarrow> bool" where
  "long_component c \<longleftrightarrow> 2 \<le> length c \<and> SLASH \<notin> set c"

lemma join_length: "list_all long_component cs \<Longrightarrow> (cs = [] \<longleftrightarrow> join cs = []) \<and> (cs \<noteq> [] \<longrightarrow> 1 < length (join cs))"
  by (induction cs rule: join.induct) (auto simp: long_component_def)

lemma normalise_part_join:
  assumes ds: "list_all long_component ds" and p: "p = ''.'' \<or> long_component p"
    and step: "norm_step is_abs (u, ds) p = (u', ds')"
  shows "normalise_part is_abs (pre @ concat (replicate u ''../''), join ds) p
         = (pre @ concat (replicate u' ''../''), join ds') \<and> list_all long_component ds'"
proof (cases "p = ''..''")
  case True
  show ?thesis
  proof (cases ds rule: rev_cases)
    case Nil
    have "concat (replicate (Suc u) ''../'') = concat (replicate u ''../'') @ ''../''"
      by (metis concat.simps concat_append replicate_append_same append_Nil2 replicate_Suc)
    with Nil True step show ?thesis
      by (auto simp: normalise_part_def norm_step_def split: if_splits)
  next
    case (snoc es c)
    then have c: "long_component c" "list_all long_component es" using ds by simp_all
    then have cs: "SLASH \<notin> set c" "c \<noteq> []" by (auto simp: long_component_def)
    have "es \<noteq> [] \<Longrightarrow> find_last_of (join (es @ [c])) SLASH = Some (length (join es))"
      using cs by (simp add: join_snoc find_last_of_append_notin)
    moreover have "es = [] \<Longrightarrow> find_last_of (join (es @ [c])) SLASH = None"
      using cs by (simp add: find_last_of_None_iff)
    ultimately show ?thesis
      using snoc True step c cs
      by (cases "es = []") (auto simp: normalise_part_def norm_step_def join_snoc)
  qed
next
  case False
  with step p ds join_length [OF ds] show ?thesis
    by (auto simp: normalise_part_def norm_step_def join_snoc SLASH_string split: if_splits)
qed

lemma normalise_fold_join:
  assumes "list_all long_component ds" "\<forall>p \<in> set ps. p = ''.'' \<or> long_component p"
    and "foldl (norm_step is_abs) (u, ds) ps = (u', ds')"
  shows "foldl (normalise_part is_abs) (pre @ concat (replicate u ''../''), join ds) ps
         = (pre @ concat (replicate u' ''../''), join ds') \<and> list_all long_component ds'"
  using assms
proof (induction ps arbitrary: u ds)
  case (Cons p ps)
  obtain u1 ds1 where s: "norm_step is_abs (u, ds) p = (u1, ds1)" by fastforce
  have p: "p = ''.'' \<or> long_component p" using Cons.prems(2) by simp
  note n = normalise_part_join [OF Cons.prems(1) p s, of pre]
  from Cons.IH [of ds1 u1] n Cons.prems s show ?case by simp
qed simp

lemma norm_step_abs: "norm_step True (0, ds) p = (u', ds') \<Longrightarrow> u' = 0"
  by (auto simp: norm_step_def split: if_splits)

text \<open>
  When every part of the name other than \<^verbatim>\<open>.\<close> has at least two characters,
  \<^verbatim>\<open>normalise\<close> returns the normal form: the leading slash or the remaining \<^verbatim>\<open>../\<close> prefixes,
  then the surviving names joined by slashes, and \<^verbatim>\<open>.\<close> for the empty relative path.
\<close>

theorem normalise_components:
  assumes "\<forall>p \<in> set (tokens ''/'' f). p = ''.'' \<or> 2 \<le> length p"
    and "foldl (norm_step (is_absolute f)) (0, []) (tokens ''/'' f) = (u, ds)"
  shows "normalise f =
     (if \<not> is_absolute f \<and> u = 0 \<and> ds = [] then ''.''
      else (if is_absolute f then [SLASH] else []) @ concat (replicate u ''../'') @ join ds)"
proof -
  have p: "\<forall>p \<in> set (tokens ''/'' f). p = ''.'' \<or> long_component p"
    using assms(1) tokens_slash(2) by (auto simp: long_component_def)
  note n = normalise_fold_join [OF _ p assms(2), of "if is_absolute f then [SLASH] else []"]
  have "(ds = []) = (join ds = [])" using n join_length by simp
  with n show ?thesis
    by (auto simp: normalise_def Let_def SLASH_string)
qed

theorem normalise_components_witness: "normalise ''../foo//bar/./../quux'' = ''../foo/quux''"
proof -
  have t: "tokens ''/'' ''../foo//bar/./../quux'' = [''..'', ''foo'', ''bar'', ''.'', ''..'', ''quux'']"
    by code_simp
  have f: "foldl (norm_step (is_absolute ''../foo//bar/./../quux'')) (0, []) (tokens ''/'' ''../foo//bar/./../quux'')
      = (1, [''foo'', ''quux''])"
    by code_simp
  show ?thesis
    using normalise_components [OF _ f] by (simp add: t is_absolute_def SLASH_def)
qed

text \<open>
  After a first name of one character the separator is dropped: \<^verbatim>\<open>x/name\<close> normalises to
  \<^verbatim>\<open>xname\<close>, because the test for a nonempty prefix is \<^verbatim>\<open>length() > 1\<close>.
\<close>

theorem normalise_drops_separator:
  assumes "component [x]" "component name"
  shows "normalise ([x] @ ''/'' @ name) = x # name"
proof -
  have x: "set [x] \<inter> {SLASH} = {}" and n: "set name \<inter> {SLASH} = {}" "name \<noteq> []"
    using assms by (auto simp: component_def)
  have "pieces {SLASH} ([x] @ SLASH # name) = [[x], name]"
    using pieces_split [OF x, of SLASH name] pieces_single [OF n(1)] by simp
  then have t: "tokens ''/'' ([x] @ ''/'' @ name) = [[x], name]"
    using n(2) by (simp add: tokens_eq SLASH_string)
  have a: "\<not> is_absolute ([x] @ ''/'' @ name)"
    using assms by (auto simp: is_absolute_def component_def)
  show ?thesis
    using assms unfolding normalise_def Let_def t
    by (simp add: a [simplified] normalise_part_def component_def)
qed

theorem normalise_drops_separator_witness: "normalise ''a/b.c'' = ''ab.c''"
  using normalise_drops_separator [of "CHR ''a''" "''b.c''"] by (simp add: component_def SLASH_def)

section \<open>Pushing and popping components\<close>

text \<open>\<^verbatim>\<open>is_path_tail\<close> holds exactly when the name is the whole path or follows a slash in it.\<close>

theorem is_path_tail_iff: "is_path_tail this file \<longleftrightarrow> this = file \<or> suffix (SLASH # file) this"
proof (cases "length file < length this")
  case True
  define d where "d = length this - length file"
  have d: "0 < d" "d \<le> length this" using True by (auto simp: d_def)
  have dd: "nat (int (length this) - int (length file)) = d" by (simp add: d_def)
  have split: "drop (d - 1) this = this ! (d - 1) # drop d this"
    using d by (metis Suc_pred' Cons_nth_drop_Suc diff_less less_le_trans zero_less_one)
  have "suffix (SLASH # file) this \<longleftrightarrow> drop (d - 1) this = SLASH # file"
    using True by (auto simp: suffix_def d_def) (metis append_take_drop_id)
  then show ?thesis
    using True d split by (auto simp: is_path_tail_def Let_def dd d_def)
next
  case False
  then show ?thesis
    by (auto simp: is_path_tail_def Let_def suffix_def)
qed

lemma find_last_of_push:
  "SLASH \<notin> set s \<Longrightarrow> find_last_of (f @ SLASH # s) SLASH = Some (length f)"
  by (rule find_last_of_append_notin)

text \<open>
  Pushing a component and then popping it gives back the directory, and the base name
  of the pushed path is the component.
\<close>

theorem push_pop_basename:
  assumes "SLASH \<notin> set s" "d \<noteq> []" "d = ''/'' \<or> last d \<noteq> SLASH"
  shows "\<exists>g. push_back d s = Inr g \<and> pop_back g = d \<and> basename g = s"
proof (cases "d = ''/''")
  case True
  then show ?thesis
    using find_last_of_push [OF assms(1), of "[]"]
    by (simp add: push_back_def pop_back_def basename_def SLASH_string)
next
  case False
  with assms have "push_back d s = Inr (d @ SLASH # s)"
    by (simp add: push_back_def last_conv_nth SLASH_string)
  with assms show ?thesis
    by (simp add: pop_back_def basename_def find_last_of_push)
qed

theorem push_pop_basename_witness:
  "\<exists>g. push_back ''/usr'' ''lib'' = Inr g \<and> pop_back g = ''/usr'' \<and> basename g = ''lib''"
  using push_pop_basename [of "''lib''" "''/usr''"] by (simp add: SLASH_def)

end
