(* ===== verification/NP_Rangetree.thy ===== *)
theory NP_Rangetree
  imports NP_Prelude
begin

text \<open>
  \<^verbatim>\<open>np/util/rangetree.hxx\<close>: a map from ranges of keys to values on top of
  \<^verbatim>\<open>std::map\<close> with the comparator \<^verbatim>\<open>left_of_range\<close>. The map is the list of its
  entries in the tree's order; both operations go to the first entry that is not to the
  left of the key (the map's lower bound) and compare once more. \<^verbatim>\<open>operator[]\<close> followed by
  an assignment keeps the key of an entry that is already there. The interface that the
  address indexes of \<^verbatim>\<open>np/spiegel/dwarf/state.cxx\<close> rely on is the locale
  \<open>range_index\<close>, interpreted here on the list model.
\<close>

section \<open>Ranges and the comparator\<close>

record 'k range =
  lo :: 'k
  hi :: 'k

definition mk_range :: "'k \<Rightarrow> 'k \<Rightarrow> 'k range" where
  "mk_range l h = \<lparr>lo = l, hi = h\<rparr>"

lemma mk_range_eta [simp]: "mk_range (lo r) (hi r) = r"
  by (cases r) (simp add: mk_range_def)

definition left_of_range :: "'k::linorder range \<Rightarrow> 'k range \<Rightarrow> bool" where
  "left_of_range a b \<longleftrightarrow> lo a < lo b \<and> hi a \<le> lo b"

type_synonym ('k, 'v) rangetree = "('k range \<times> 'v) list"

section \<open>Operations\<close>

definition rt_empty :: "('k, 'v) rangetree" where
  "rt_empty = []"

definition rt_size :: "('k, 'v) rangetree \<Rightarrow> nat" where
  "rt_size t = length t"

fun rt_put :: "'k::linorder range \<Rightarrow> 'v \<Rightarrow> ('k, 'v) rangetree \<Rightarrow> ('k, 'v) rangetree" where
  "rt_put r v [] = [(r, v)]"
| "rt_put r v ((e, w) # t) =
     (if left_of_range e r then (e, w) # rt_put r v t
      else if left_of_range r e then (r, v) # (e, w) # t
      else (e, v) # t)"

fun rt_get :: "'k::linorder range \<Rightarrow> ('k, 'v) rangetree \<Rightarrow> ('k range \<times> 'v) option" where
  "rt_get r [] = None"
| "rt_get r ((e, w) # t) =
     (if left_of_range e r then rt_get r t
      else if left_of_range r e then None
      else Some (e, w))"

definition rt_insert :: "'k::linorder \<Rightarrow> 'k \<Rightarrow> 'v \<Rightarrow> ('k, 'v) rangetree \<Rightarrow> ('k, 'v) rangetree" where
  "rt_insert l h v t = rt_put (mk_range l h) v t"

definition rt_insert_point :: "'k::linorder \<Rightarrow> 'v \<Rightarrow> ('k, 'v) rangetree \<Rightarrow> ('k, 'v) rangetree" where
  "rt_insert_point x v t = rt_put (mk_range x x) v t"

definition rt_find :: "'k::linorder \<Rightarrow> ('k, 'v) rangetree \<Rightarrow> ('k range \<times> 'v) option" where
  "rt_find x t = rt_get (mk_range x x) t"

section \<open>Well-formed trees\<close>

definition range_ok :: "'k::linorder range \<Rightarrow> bool" where
  "range_ok r \<longleftrightarrow> lo r \<le> hi r"

definition rt_wf :: "('k::linorder, 'v) rangetree \<Rightarrow> bool" where
  "rt_wf t \<longleftrightarrow> sorted_wrt left_of_range (map fst t) \<and> list_all (\<lambda>e. range_ok (fst e)) t"

text \<open>The keys a range stands for: its half-open interval, and its start for an empty one.\<close>

definition covers :: "'k::linorder range \<Rightarrow> 'k \<Rightarrow> bool" where
  "covers r x \<longleftrightarrow> lo r \<le> x \<and> (x < hi r \<or> x = lo r)"

definition apart :: "'k::linorder range \<Rightarrow> 'k range \<Rightarrow> bool" where
  "apart a b \<longleftrightarrow> left_of_range a b \<or> left_of_range b a"

lemma left_of_range_trans: "left_of_range a b \<Longrightarrow> left_of_range b c \<Longrightarrow> left_of_range a c"
  by (auto simp: left_of_range_def)

lemma left_of_range_asym: "range_ok a \<Longrightarrow> left_of_range a b \<Longrightarrow> \<not> left_of_range b a"
  by (auto simp: left_of_range_def)

lemma rt_wf_Cons:
  "rt_wf ((e, w) # t) \<longleftrightarrow> range_ok e \<and> (\<forall>f \<in> set t. left_of_range e (fst f)) \<and> rt_wf t"
  by (auto simp: rt_wf_def)

lemma covers_iff: "range_ok r \<Longrightarrow>
    covers r x \<longleftrightarrow> \<not> left_of_range r (mk_range x x) \<and> \<not> left_of_range (mk_range x x) r"
  by (auto simp: covers_def left_of_range_def mk_range_def range_ok_def)

lemma set_rt_put_apart:
  "\<forall>e \<in> set t. apart (fst e) r \<Longrightarrow> set (rt_put r v t) = insert (r, v) (set t)"
  by (induction r v t rule: rt_put.induct) (auto simp: apart_def split: if_splits)

lemma rt_put_wf_apart:
  assumes "rt_wf t" "range_ok r" "\<forall>e \<in> set t. apart (fst e) r"
  shows "rt_wf (rt_put r v t)"
  using assms
proof (induction t)
  case Nil
  then show ?case by (simp add: rt_wf_def)
next
  case (Cons a t)
  obtain e w where a: "a = (e, w)" by fastforce
  have "set (rt_put r v t) = insert (r, v) (set t)"
    using Cons.prems(3) by (intro set_rt_put_apart) simp
  with Cons a show ?case
    by (auto simp: rt_wf_Cons dest: left_of_range_trans)
qed

lemma rt_put_same_keys:
  assumes "\<exists>e \<in> set t. \<not> apart (fst e) r" "rt_wf t" "range_ok r"
  shows "map fst (rt_put r v t) = map fst t"
  using assms
proof (induction t)
  case (Cons a t)
  obtain e w where a: "a = (e, w)" by fastforce
  have "left_of_range r e \<Longrightarrow> \<forall>f \<in> set t. apart (fst f) r"
    using Cons.prems(2) a by (auto simp: rt_wf_Cons apart_def dest: left_of_range_trans)
  with Cons a show ?case
    by (auto simp: rt_wf_Cons apart_def)
qed simp

lemma rt_put_wf: "rt_wf t \<Longrightarrow> range_ok r \<Longrightarrow> rt_wf (rt_put r v t)"
proof (cases "\<forall>e \<in> set t. apart (fst e) r")
  case False
  assume wf: "rt_wf t" and r: "range_ok r"
  from False wf r have k: "map fst (rt_put r v t) = map fst t"
    by (intro rt_put_same_keys) auto
  have conv: "list_all (\<lambda>e. range_ok (fst e)) xs = list_all range_ok (map fst xs)"
    for xs :: "('a range \<times> 'b) list"
    by (simp add: list_all_iff)
  show ?thesis using wf by (simp add: rt_wf_def conv k)
qed (rule rt_put_wf_apart)

lemma rt_find_iff:
  assumes "rt_wf t"
  shows "rt_find x t = Some (r, v) \<longleftrightarrow> (r, v) \<in> set t \<and> covers r x"
  using assms unfolding rt_find_def
proof (induction t)
  case (Cons a t)
  obtain e w where a: "a = (e, w)" by fastforce
  have e: "range_ok e" "\<forall>f \<in> set t. left_of_range e (fst f)" "rt_wf t"
    using Cons.prems a by (simp_all add: rt_wf_Cons)
  have ok: "\<forall>f \<in> set t. range_ok (fst f)" using e(3) by (auto simp: rt_wf_def list_all_iff)
  let ?p = "mk_range x x"
  have later: "\<And>f. f \<in> set t \<Longrightarrow> \<not> left_of_range e ?p \<Longrightarrow> \<not> covers (fst f) x"
    using e ok by (auto simp: left_of_range_def mk_range_def covers_def range_ok_def)
  show ?case
  proof (cases "left_of_range e ?p")
    case True
    then have "\<not> covers e x" using covers_iff [OF e(1)] by simp
    with True show ?thesis using Cons.IH [OF e(3)] a by auto
  next
    case False
    then have "(r, v) \<in> set t \<Longrightarrow> \<not> covers r x" using later by force
    with False show ?thesis using covers_iff [OF e(1), of x] a by auto
  qed
qed simp

lemma rt_find_None_iff: "rt_wf t \<Longrightarrow> rt_find x t = None \<longleftrightarrow> (\<forall>e \<in> set t. \<not> covers (fst e) x)"
  using rt_find_iff [of t x] by (cases "rt_find x t") force+

section \<open>The interface of a range index\<close>

text \<open>
  What the clients of the range tree use: an entry that covers a key is found, an insertion
  apart from everything present adds its entry and nothing else, one that touches an entry
  adds no range.
\<close>

locale range_index =
  fixes empty :: "'t"
    and insert_at :: "'k::linorder range \<Rightarrow> 'v \<Rightarrow> 't \<Rightarrow> 't"
    and find_at :: "'k \<Rightarrow> 't \<Rightarrow> ('k range \<times> 'v) option"
    and entries :: "'t \<Rightarrow> ('k range \<times> 'v) set"
    and inv :: "'t \<Rightarrow> bool"
  assumes inv_empty: "inv empty"
    and entries_empty: "entries empty = {}"
    and inv_insert: "inv t \<Longrightarrow> range_ok r \<Longrightarrow> inv (insert_at r v t)"
    and find_iff: "inv t \<Longrightarrow> find_at x t = Some (r, v) \<longleftrightarrow> (r, v) \<in> entries t \<and> covers r x"
    and entries_apart: "inv t \<Longrightarrow> \<forall>e \<in> entries t. apart (fst e) r \<Longrightarrow>
          entries (insert_at r v t) = insert (r, v) (entries t)"
    and ranges_touch: "inv t \<Longrightarrow> range_ok r \<Longrightarrow> \<exists>e \<in> entries t. \<not> apart (fst e) r \<Longrightarrow>
          fst ` entries (insert_at r v t) = fst ` entries t"
begin

lemma build_inv:
  "inv t \<Longrightarrow> list_all (\<lambda>e. range_ok (fst e)) es \<Longrightarrow> inv (fold (\<lambda>(r, v). insert_at r v) es t)"
  by (induction es arbitrary: t) (auto simp: inv_insert)

lemma build_entries:
  assumes "inv t" "list_all (\<lambda>e. range_ok (fst e)) es"
    and "\<forall>e \<in> entries t. \<forall>f \<in> set es. apart (fst e) (fst f)"
    and "sorted_wrt (\<lambda>e f. apart (fst e) (fst f)) es"
  shows "entries (fold (\<lambda>(r, v). insert_at r v) es t) = entries t \<union> set es"
  using assms
proof (induction es arbitrary: t)
  case (Cons e es)
  obtain r v where e: "e = (r, v)" by fastforce
  have "entries (insert_at r v t) = insert (r, v) (entries t)"
    using Cons.prems e by (intro entries_apart) auto
  moreover have "inv (insert_at r v t)" using Cons.prems e by (simp add: inv_insert)
  ultimately show ?case using Cons.IH [of "insert_at r v t"] Cons.prems e by auto
qed simp

lemma build_find:
  assumes "list_all (\<lambda>e. range_ok (fst e)) es"
    and "sorted_wrt (\<lambda>e f. apart (fst e) (fst f)) es"
  shows "find_at x (fold (\<lambda>(r, v). insert_at r v) es empty) = Some (r, v)
     \<longleftrightarrow> (r, v) \<in> set es \<and> covers r x"
  using build_entries [OF inv_empty assms(1) _ assms(2)] find_iff build_inv [OF inv_empty assms(1)]
  by (simp add: entries_empty)

end

interpretation rt: range_index "rt_empty :: ('k::linorder, 'v) rangetree" rt_put rt_find set rt_wf
proof (unfold_locales, goal_cases)
  case 1
  show ?case by (simp add: rt_wf_def rt_empty_def)
next
  case 2
  show ?case by (simp add: rt_empty_def)
next
  case (3 t r v)
  then show ?case by (rule rt_put_wf)
next
  case (4 t x r v)
  then show ?case by (rule rt_find_iff)
next
  case (5 t r v)
  then show ?case by (simp add: set_rt_put_apart)
next
  case (6 t r v)
  then have "map fst (rt_put r v t) = map fst t" by (intro rt_put_same_keys)
  then show ?case by (metis list.set_map)
qed

text \<open>
  After inserting any number of well-formed ranges that lie apart from each other, in
  any order, looking a key up gives exactly the range that covers it with its value, and
  nothing where no range does.
\<close>

theorem rangetree_find_covering:
  fixes es :: "('k::linorder range \<times> 'v) list"
  assumes "list_all (\<lambda>e. range_ok (fst e)) es"
    and "sorted_wrt (\<lambda>e f. apart (fst e) (fst f)) es"
  shows "(rt_find x (fold (\<lambda>(r, v). rt_insert (lo r) (hi r) v) es rt_empty) = Some (r, v)
      \<longleftrightarrow> (r, v) \<in> set es \<and> covers r x)
    \<and> (rt_find x (fold (\<lambda>(r, v). rt_insert (lo r) (hi r) v) es rt_empty) = None
      \<longleftrightarrow> (\<forall>e \<in> set es. \<not> covers (fst e) x))"
proof -
  have f: "(\<lambda>(r, v). rt_insert (lo r) (hi r) v) = (\<lambda>(r, v). rt_put (r :: 'k range) (v :: 'v))"
    by (intro ext) (auto simp: rt_insert_def)
  let ?t = "fold (\<lambda>(r, v). rt_put r v) es rt_empty"
  have s: "rt_find x ?t = Some (r, v) \<longleftrightarrow> (r, v) \<in> set es \<and> covers r x" for r v
    using assms by (rule rt.build_find)
  have "rt_find x ?t = None \<longleftrightarrow> (\<forall>e \<in> set es. \<not> covers (fst e) x)"
    using s by (cases "rt_find x ?t") force+
  with s show ?thesis unfolding f by blast
qed

theorem rangetree_find_covering_witness:
  "rt_find (42::int) (fold (\<lambda>(r, v). rt_insert (lo r) (hi r) v)
      [(mk_range 41 43, ''a''), (mk_range 10 41, ''b'')] rt_empty) = Some (mk_range 41 43, ''a'')"
  using rangetree_find_covering [of "[(mk_range (41::int) 43, ''a''), (mk_range 10 41, ''b'')]" 42 "mk_range 41 43" "''a''"]
  by (simp add: mk_range_def range_ok_def apart_def left_of_range_def covers_def)

text \<open>
  Inserting a range that is not apart from one already present creates no new range: the
  key set stays as it was, so the part of the new range outside the old ones is never found.
\<close>

theorem rangetree_overlap_loses_range:
  assumes "rt_wf t" "l \<le> h" "\<exists>e \<in> set t. \<not> apart (fst e) (mk_range l h)"
  shows "rt_wf (rt_insert l h v t) \<and> map fst (rt_insert l h v t) = map fst t
    \<and> (\<forall>x. rt_find x (rt_insert l h v t) = None \<longleftrightarrow> rt_find x t = None)"
proof -
  have ok: "range_ok (mk_range l h)" using assms(2) by (simp add: range_ok_def mk_range_def)
  have wf: "rt_wf (rt_insert l h v t)" using assms(1) ok by (simp add: rt_insert_def rt_put_wf)
  have keys: "map fst (rt_insert l h v t) = map fst t"
    unfolding rt_insert_def using assms(3,1) ok by (rule rt_put_same_keys)
  then have "fst ` set (rt_insert l h v t) = fst ` set t" by (metis list.set_map)
  then have "(\<forall>k \<in> fst ` set (rt_insert l h v t). \<not> covers k x) \<longleftrightarrow> (\<forall>k \<in> fst ` set t. \<not> covers k x)" for x
    by simp
  then have "(\<forall>e \<in> set (rt_insert l h v t). \<not> covers (fst e) x) \<longleftrightarrow> (\<forall>e \<in> set t. \<not> covers (fst e) x)" for x
    by simp
  with wf keys show ?thesis by (simp add: rt_find_None_iff assms(1))
qed

theorem rangetree_overlap_loses_range_witness:
  "rt_find (45::int) (rt_insert 42 46 ''b'' [(mk_range 41 43, ''a'')]) = None"
  using rangetree_overlap_loses_range [of "[(mk_range (41::int) 43, ''a'')]" 42 46 "''b''"]
  by (simp add: mk_range_def rt_wf_def range_ok_def apart_def left_of_range_def rt_find_def)

end
