(* ===== verification/NP_Reader.thy ===== *)
theory NP_Reader
  imports NP_Prelude
begin

unbundle bit_operations_syntax

text \<open>
  \<^verbatim>\<open>np/spiegel/dwarf/reader.hxx\<close>: the bounds-checked cursor over the bytes of a DWARF
  section. The pointers \<^verbatim>\<open>base_\<close>, \<^verbatim>\<open>p_\<close> and \<^verbatim>\<open>end_\<close> are the bytes from \<^verbatim>\<open>base_\<close> to
  \<^verbatim>\<open>end_\<close> and the position of \<^verbatim>\<open>p_\<close> in them; pointer comparisons are comparisons of
  positions (an object never reaches the end of the address space). An operation returns
  \<^const>\<open>None\<close> where the code returns \<^verbatim>\<open>false\<close>, together with the reader it leaves behind.
  Shift counts are taken modulo 32, as the x86 shift instructions do; the C++
  standard leaves the larger counts undefined.
\<close>

section \<open>State\<close>

record reader_t =
  rd_data :: "u8 list"
  rd_pos :: nat
  rd_is64 :: bool

type_synonym 'a rd = "reader_t \<Rightarrow> 'a option \<times> reader_t"

definition mk_reader :: "u8 list \<Rightarrow> bool \<Rightarrow> reader_t" where
  "mk_reader bs is64 = \<lparr>rd_data = bs, rd_pos = 0, rd_is64 = is64\<rparr>"

definition rd_rest :: "reader_t \<Rightarrow> u8 list" where
  "rd_rest r = drop (rd_pos r) (rd_data r)"

text \<open>The invariant: the cursor stays within the data.\<close>

definition rd_ok :: "reader_t \<Rightarrow> bool" where
  "rd_ok r \<longleftrightarrow> rd_pos r \<le> length (rd_data r)"

section \<open>Operations\<close>

definition get_offset :: "reader_t \<Rightarrow> nat" where
  "get_offset r = rd_pos r"

definition get_remains :: "reader_t \<Rightarrow> nat" where
  "get_remains r = length (rd_data r) - rd_pos r"

definition get_length :: "reader_t \<Rightarrow> nat" where
  "get_length r = length (rd_data r)"

definition initial_subset :: "nat \<Rightarrow> reader_t \<Rightarrow> reader_t" where
  "initial_subset len r =
     (let remain = get_remains r;
          len' = (if len > remain then remain else len)
      in mk_reader (take len' (rd_rest r)) (rd_is64 r))"

definition set_is64 :: "bool \<Rightarrow> reader_t \<Rightarrow> reader_t" where
  "set_is64 b r = r\<lparr>rd_is64 := b\<rparr>"

definition seek :: "nat \<Rightarrow> unit rd" where
  "seek n r = (if n > length (rd_data r) then (None, r) else (Some (), r\<lparr>rd_pos := n\<rparr>))"

definition skip :: "nat \<Rightarrow> unit rd" where
  "skip n r =
     (if rd_pos r + n > length (rd_data r) then (None, r)
      else (Some (), r\<lparr>rd_pos := rd_pos r + n\<rparr>))"

definition rd_at :: "reader_t \<Rightarrow> nat \<Rightarrow> u8" where
  "rd_at r i = rd_data r ! (rd_pos r + i)"

definition read_u32 :: "u32 rd" where
  "read_u32 r =
     (if rd_pos r + 4 > length (rd_data r) then (None, r)
      else (Some (ucast (rd_at r 0) OR push_bit 8 (ucast (rd_at r 1)) OR
                  push_bit 16 (ucast (rd_at r 2)) OR push_bit 24 (ucast (rd_at r 3))),
            r\<lparr>rd_pos := rd_pos r + 4\<rparr>))"

text \<open>The overload of \<^verbatim>\<open>read_u32\<close> that zero-extends into a 64-bit variable.\<close>

definition read_u32_64 :: "u64 rd" where
  "read_u32_64 r = (case read_u32 r of (None, r') \<Rightarrow> (None, r') | (Some v, r') \<Rightarrow> (Some (ucast v), r'))"

definition read_u64 :: "u64 rd" where
  "read_u64 r =
     (if rd_pos r + 8 > length (rd_data r) then (None, r)
      else (Some (ucast (rd_at r 0) OR push_bit 8 (ucast (rd_at r 1)) OR
                  push_bit 16 (ucast (rd_at r 2)) OR push_bit 24 (ucast (rd_at r 3)) OR
                  push_bit 32 (ucast (rd_at r 4)) OR push_bit 40 (ucast (rd_at r 5)) OR
                  push_bit 48 (ucast (rd_at r 6)) OR push_bit 56 (ucast (rd_at r 7))),
            r\<lparr>rd_pos := rd_pos r + 8\<rparr>))"

definition read_u16 :: "u16 rd" where
  "read_u16 r =
     (if rd_pos r + 2 > length (rd_data r) then (None, r)
      else (Some (ucast (rd_at r 0) OR push_bit 8 (ucast (rd_at r 1))),
            r\<lparr>rd_pos := rd_pos r + 2\<rparr>))"

definition read_u8 :: "u8 rd" where
  "read_u8 r =
     (if rd_pos r \<ge> length (rd_data r) then (None, r)
      else (Some (rd_at r 0), r\<lparr>rd_pos := rd_pos r + 1\<rparr>))"

text \<open>The same byte, read as an \<^verbatim>\<open>int8_t\<close>.\<close>

definition read_s8 :: "u8 rd" where
  "read_s8 r =
     (if rd_pos r \<ge> length (rd_data r) then (None, r)
      else (Some (rd_at r 0), r\<lparr>rd_pos := rd_pos r + 1\<rparr>))"

definition read_addr :: "addr_t rd" where
  "read_addr = read_u64"

definition read_offset :: "offset_t rd" where
  "read_offset r = (if rd_is64 r then read_u64 r else read_u32_64 r)"

definition skip_u32 :: "unit rd" where
  "skip_u32 = skip 4"

definition skip_u64 :: "unit rd" where
  "skip_u64 = skip 8"

definition skip_u16 :: "unit rd" where
  "skip_u16 = skip 2"

definition skip_u8 :: "unit rd" where
  "skip_u8 = skip 1"

definition skip_s8 :: "unit rd" where
  "skip_s8 = skip 1"

definition skip_addr :: "unit rd" where
  "skip_addr = skip_u64"

definition skip_offset :: "unit rd" where
  "skip_offset r = (if rd_is64 r then skip_u64 r else skip_u32 r)"

text \<open>
  The loop the LEB128 readers share: the accumulated value, the next shift, the last byte
  and the number of bytes read, or nothing at the end of the data.
\<close>

definition shl32 :: "u32 \<Rightarrow> nat \<Rightarrow> u32" where
  "shl32 w n = push_bit (n mod 32) w"

fun leb_loop :: "u8 list \<Rightarrow> u32 \<Rightarrow> nat \<Rightarrow> nat \<Rightarrow> (u32 \<times> nat \<times> u8 \<times> nat) option" where
  "leb_loop [] vv shift n = None"
| "leb_loop (b # bs) vv shift n =
     (let vv' = vv OR shl32 (ucast (b AND 0x7f)) shift
      in if b AND 0x80 \<noteq> 0 then leb_loop bs vv' (shift + 7) (Suc n)
         else Some (vv', shift + 7, b, Suc n))"

definition read_uleb128 :: "u32 rd" where
  "read_uleb128 r =
     (case leb_loop (rd_rest r) 0 0 0 of
        None \<Rightarrow> (None, r)
      | Some (vv, shift, b, n) \<Rightarrow> (Some vv, r\<lparr>rd_pos := rd_pos r + n\<rparr>))"

definition read_sleb128 :: "u32 rd" where
  "read_sleb128 r =
     (case leb_loop (rd_rest r) 0 0 0 of
        None \<Rightarrow> (None, r)
      | Some (vv, shift, b, n) \<Rightarrow>
          (Some (if b AND 0x40 \<noteq> 0 then vv OR shl32 (NOT 0) shift else vv),
           r\<lparr>rd_pos := rd_pos r + n\<rparr>))"

fun leb_skip_loop :: "u8 list \<Rightarrow> nat \<Rightarrow> nat option" where
  "leb_skip_loop [] n = None"
| "leb_skip_loop (b # bs) n =
     (if b AND 0x80 \<noteq> 0 then leb_skip_loop bs (Suc n) else Some (Suc n))"

definition skip_uleb128 :: "unit rd" where
  "skip_uleb128 r =
     (case leb_skip_loop (rd_rest r) 0 of
        None \<Rightarrow> (None, r) | Some n \<Rightarrow> (Some (), r\<lparr>rd_pos := rd_pos r + n\<rparr>))"

definition skip_sleb128 :: "unit rd" where
  "skip_sleb128 r =
     (case leb_skip_loop (rd_rest r) 0 of
        None \<Rightarrow> (None, r) | Some n \<Rightarrow> (Some (), r\<lparr>rd_pos := rd_pos r + n\<rparr>))"

text \<open>\<^verbatim>\<open>memchr(p, 0, n)\<close>: how many bytes stand before the first zero.\<close>

fun memchr0 :: "u8 list \<Rightarrow> nat option" where
  "memchr0 [] = None"
| "memchr0 (b # bs) = (if b = 0 then Some 0 else map_option Suc (memchr0 bs))"

definition read_string :: "string rd" where
  "read_string r =
     (case memchr0 (rd_rest r) of
        None \<Rightarrow> (None, r)
      | Some n \<Rightarrow> (Some (string_of_bytes (take n (rd_rest r))), r\<lparr>rd_pos := rd_pos r + n + 1\<rparr>))"

definition skip_string :: "unit rd" where
  "skip_string r =
     (case memchr0 (rd_rest r) of
        None \<Rightarrow> (None, r)
      | Some n \<Rightarrow> (Some (), r\<lparr>rd_pos := rd_pos r + n + 1\<rparr>))"

text \<open>Note the comparison with the end: \<^verbatim>\<open>e >= end_\<close>.\<close>

definition read_bytes :: "nat \<Rightarrow> u8 list rd" where
  "read_bytes len r =
     (let e = rd_pos r + len
      in if e \<ge> length (rd_data r) then (None, r)
         else (Some (take len (rd_rest r)), r\<lparr>rd_pos := e\<rparr>))"

definition skip_bytes :: "nat \<Rightarrow> unit rd" where
  "skip_bytes len = skip len"

definition read_initial_length :: "(offset_t \<times> bool) rd" where
  "read_initial_length r =
     (case read_u32_64 r of
        (None, r1) \<Rightarrow> (None, r1)
      | (Some len, r1) \<Rightarrow>
          if len = 0xffffffff then
            (case read_u64 r1 of
               (None, r2) \<Rightarrow> (None, r2)
             | (Some len', r2) \<Rightarrow> (Some (len', True), r2))
          else if len \<ge> 0xfffffff0 then (None, r1)
          else (Some (len, False), r1))"

text \<open>Sequencing: a failed read ends the sequence where it stands.\<close>

definition rd_bind :: "'a rd \<Rightarrow> ('a \<Rightarrow> 'b rd) \<Rightarrow> 'b rd" where
  "rd_bind m f r = (case m r of (None, r') \<Rightarrow> (None, r') | (Some x, r') \<Rightarrow> f x r')"

definition rd_return :: "'a \<Rightarrow> 'a rd" where
  "rd_return x r = (Some x, r)"

section \<open>The contract of reader operations\<close>

text \<open>
  Every operation leaves the data and the format alone, keeps the cursor within the data and
  never moves it back; the atomic ones do not move it at all when they fail.
\<close>

locale reader_op =
  fixes op :: "'a rd"
  assumes op_data: "op r = (x, r') \<Longrightarrow> rd_data r' = rd_data r"
    and op_is64: "op r = (x, r') \<Longrightarrow> rd_is64 r' = rd_is64 r"
    and op_ok: "op r = (x, r') \<Longrightarrow> rd_ok r \<Longrightarrow> rd_ok r'"
    and op_forward: "op r = (x, r') \<Longrightarrow> rd_pos r \<le> rd_pos r'"
begin

lemma op_remains: "op r = (x, r') \<Longrightarrow> get_remains r' \<le> get_remains r"
  using op_data op_forward by (fastforce simp: get_remains_def)

lemma op_rest_suffix: "op r = (x, r') \<Longrightarrow> \<exists>k. rd_rest r' = drop k (rd_rest r)"
  using op_data op_forward by (metis drop_drop le_add_diff_inverse2 rd_rest_def)

end

locale atomic_reader_op = reader_op +
  assumes op_fail: "op r = (None, r') \<Longrightarrow> r' = r"

lemma reader_op_bind:
  assumes m: "reader_op m" and f: "\<And>x. reader_op (f x)"
  shows "reader_op (rd_bind m f)"
proof
  fix r y r'
  assume b: "rd_bind m f r = (y, r')"
  obtain x r1 where m1: "m r = (x, r1)" by fastforce
  note M = reader_op.op_data [OF m m1] reader_op.op_is64 [OF m m1] reader_op.op_ok [OF m m1]
    reader_op.op_forward [OF m m1]
  have "rd_data r' = rd_data r \<and> rd_is64 r' = rd_is64 r \<and> (rd_ok r \<longrightarrow> rd_ok r') \<and> rd_pos r \<le> rd_pos r'"
  proof (cases x)
    case None
    with b m1 M show ?thesis by (simp add: rd_bind_def)
  next
    case (Some z)
    with b m1 have f1: "f z r1 = (y, r')" by (simp add: rd_bind_def)
    show ?thesis
      using M reader_op.op_data [OF f f1] reader_op.op_is64 [OF f f1] reader_op.op_ok [OF f f1]
        reader_op.op_forward [OF f f1] by simp
  qed
  then show "rd_data r' = rd_data r" "rd_is64 r' = rd_is64 r" "rd_ok r \<Longrightarrow> rd_ok r'"
    "rd_pos r \<le> rd_pos r'" by simp_all
qed

lemma reader_op_return: "reader_op (rd_return x)"
  by unfold_locales (auto simp: rd_return_def)

lemma leb_loop_count:
  "leb_loop bs vv s n = Some (w, s', b, m) \<Longrightarrow> n < m \<and> m - n \<le> length bs"
  by (induction bs vv s n rule: leb_loop.induct) (fastforce simp: Let_def split: if_splits)+

lemma leb_skip_loop_eq:
  "leb_skip_loop bs n = map_option (\<lambda>(w, s', b, m). m) (leb_loop bs vv s n)"
  by (induction bs arbitrary: vv s n) (auto simp: Let_def)

lemma memchr0_Some: "memchr0 bs = Some n \<Longrightarrow> n < length bs \<and> bs ! n = 0 \<and> 0 \<notin> set (take n bs)"
  by (induction bs arbitrary: n) (auto split: if_splits)

lemma memchr0_None: "memchr0 bs = None \<longleftrightarrow> 0 \<notin> set bs"
  by (induction bs) auto

lemma memchr0_append: "0 \<notin> set xs \<Longrightarrow> memchr0 (xs @ 0 # ys) = Some (length xs)"
  by (induction xs) auto

lemma length_rd_rest: "length (rd_rest r) = length (rd_data r) - rd_pos r"
  by (simp add: rd_rest_def)

interpretation skip_op: atomic_reader_op "skip n"
  by unfold_locales (auto simp: skip_def rd_ok_def split: if_splits)

interpretation read_u8_op: atomic_reader_op read_u8
  by unfold_locales (auto simp: read_u8_def rd_ok_def split: if_splits)

interpretation read_s8_op: atomic_reader_op read_s8
  by unfold_locales (auto simp: read_s8_def rd_ok_def split: if_splits)

interpretation read_u16_op: atomic_reader_op read_u16
  by unfold_locales (auto simp: read_u16_def rd_ok_def split: if_splits)

interpretation read_u32_op: atomic_reader_op read_u32
  by unfold_locales (auto simp: read_u32_def rd_ok_def split: if_splits)

interpretation read_u64_op: atomic_reader_op read_u64
  by unfold_locales (auto simp: read_u64_def rd_ok_def split: if_splits)

lemma read_u32_64_bind: "read_u32_64 = rd_bind read_u32 (\<lambda>v. rd_return (ucast v))"
  by (auto simp: fun_eq_iff read_u32_64_def rd_bind_def rd_return_def split: prod.splits option.splits)

interpretation read_u32_64_op: atomic_reader_op read_u32_64
proof -
  have "reader_op read_u32_64"
    unfolding read_u32_64_bind
    by (intro reader_op_bind reader_op_return read_u32_op.reader_op_axioms)
  then show "atomic_reader_op read_u32_64"
    by (intro atomic_reader_op.intro atomic_reader_op_axioms.intro)
       (auto simp: read_u32_64_def dest: read_u32_op.op_fail split: prod.splits option.splits)
qed

interpretation read_offset_op: atomic_reader_op read_offset
  by unfold_locales
     (auto simp: read_offset_def split: if_splits
        dest: read_u64_op.op_data read_u32_64_op.op_data read_u64_op.op_is64 read_u32_64_op.op_is64
          read_u64_op.op_ok read_u32_64_op.op_ok read_u64_op.op_forward read_u32_64_op.op_forward
          read_u64_op.op_fail read_u32_64_op.op_fail)

interpretation read_uleb128_op: atomic_reader_op read_uleb128
  by unfold_locales
     (auto simp: read_uleb128_def rd_ok_def length_rd_rest dest!: leb_loop_count split: option.splits)

interpretation read_sleb128_op: atomic_reader_op read_sleb128
  by unfold_locales
     (auto simp: read_sleb128_def rd_ok_def length_rd_rest dest!: leb_loop_count split: option.splits)

interpretation read_string_op: atomic_reader_op read_string
  by unfold_locales
     (auto simp: read_string_def rd_ok_def length_rd_rest dest!: memchr0_Some split: option.splits)

interpretation read_bytes_op: atomic_reader_op "read_bytes n"
  by unfold_locales (auto simp: read_bytes_def rd_ok_def Let_def split: if_splits)

lemma read_initial_length_bind:
  "read_initial_length = rd_bind read_u32_64 (\<lambda>len r.
     if len = 0xffffffff then rd_bind read_u64 (\<lambda>len'. rd_return (len', True)) r
     else if len \<ge> 0xfffffff0 then (None, r) else rd_return (len, False) r)"
  by (auto simp: fun_eq_iff read_initial_length_def rd_bind_def rd_return_def
      split: prod.splits option.splits)

interpretation read_initial_length_op: reader_op read_initial_length
proof -
  have "reader_op (\<lambda>r. if len = 0xffffffff then rd_bind read_u64 (\<lambda>len'. rd_return (len', True)) r
      else if len \<ge> 0xfffffff0 then (None, r) else rd_return (len, False) r)" for len :: u64
  proof (cases "len = 0xffffffff")
    case True
    have "reader_op (rd_bind read_u64 (\<lambda>len'. rd_return (len', True)))"
      by (intro reader_op_bind reader_op_return read_u64_op.reader_op_axioms)
    with True show ?thesis by simp
  next
    case False
    then show ?thesis
      by unfold_locales (auto simp: rd_return_def split: if_splits)
  qed
  then show "reader_op read_initial_length"
    unfolding read_initial_length_bind
    by (intro reader_op_bind read_u32_64_op.reader_op_axioms)
qed

text \<open>Skipping and reading agree on where they end and when they fail.\<close>

definition rd_forget :: "'a rd \<Rightarrow> unit rd" where
  "rd_forget m r = (case m r of (x, r') \<Rightarrow> (map_option (\<lambda>_. ()) x, r'))"

lemma skip_uleb128_eq: "skip_uleb128 = rd_forget read_uleb128"
  unfolding skip_uleb128_def read_uleb128_def rd_forget_def fun_eq_iff
  by (simp add: leb_skip_loop_eq [of _ 0 0 0] split: option.splits prod.splits)

lemma skip_sleb128_eq: "skip_sleb128 = rd_forget read_sleb128"
  unfolding skip_sleb128_def read_sleb128_def rd_forget_def fun_eq_iff
  by (simp add: leb_skip_loop_eq [of _ 0 0 0] split: option.splits prod.splits)

lemma skip_string_eq: "skip_string = rd_forget read_string"
  by (simp add: skip_string_def read_string_def rd_forget_def fun_eq_iff split: option.splits)

lemma skip_fixed_eq:
  "skip_u8 = rd_forget read_u8" "skip_u16 = rd_forget read_u16" "skip_u32 = rd_forget read_u32"
  "skip_u64 = rd_forget read_u64" "skip_addr = rd_forget read_addr" "skip_s8 = rd_forget read_s8"
  by (auto simp: fun_eq_iff rd_forget_def skip_def skip_u8_def skip_u16_def skip_u32_def skip_u64_def
      skip_addr_def skip_s8_def read_u8_def read_s8_def read_u16_def read_u32_def read_u64_def read_addr_def)

lemma skip_offset_eq: "skip_offset = rd_forget read_offset"
  by (auto simp: fun_eq_iff rd_forget_def skip_offset_def read_offset_def skip_u32_def skip_u64_def
      skip_def read_u32_64_def read_u32_def read_u64_def)

text \<open>
  For every form but byte blocks, skipping an item moves the cursor exactly as reading
  it does, and fails exactly when reading fails.
\<close>

theorem skip_agrees_with_read:
  "skip_u8 = rd_forget read_u8 \<and> skip_u16 = rd_forget read_u16 \<and> skip_u32 = rd_forget read_u32
   \<and> skip_u64 = rd_forget read_u64 \<and> skip_addr = rd_forget read_addr
   \<and> skip_offset = rd_forget read_offset \<and> skip_uleb128 = rd_forget read_uleb128
   \<and> skip_sleb128 = rd_forget read_sleb128 \<and> skip_string = rd_forget read_string"
  using skip_fixed_eq skip_offset_eq skip_uleb128_eq skip_sleb128_eq skip_string_eq by blast

text \<open>
  A byte block that ends exactly at the end of the data cannot be read, although skipping
  the same block succeeds.
\<close>

theorem read_bytes_misses_last_block:
  assumes "rd_ok r"
  shows "read_bytes (get_remains r) r = (None, r)
    \<and> skip_bytes (get_remains r) r = (Some (), r\<lparr>rd_pos := get_length r\<rparr>)
    \<and> (n < get_remains r \<longrightarrow> read_bytes n r = (Some (take n (rd_rest r)), r\<lparr>rd_pos := rd_pos r + n\<rparr>))"
  using assms
  by (auto simp: read_bytes_def skip_bytes_def skip_def get_remains_def get_length_def rd_ok_def Let_def)

theorem read_bytes_misses_last_block_witness:
  "fst (read_bytes 2 (mk_reader [1, 2] False)) = None
    \<and> fst (skip_bytes 2 (mk_reader [1, 2] False)) = Some ()"
  using read_bytes_misses_last_block [of "mk_reader [1, 2] False" 1]
  by (simp add: rd_ok_def mk_reader_def get_remains_def numeral_2_eq_2)

section \<open>Fixed-size integers read back\<close>

lemma rd_rest_length: "length (rd_rest r) = get_remains r"
  by (simp add: rd_rest_def get_remains_def)

lemma rd_at_rest: "rd_pos r \<le> length (rd_data r) \<Longrightarrow> rd_at r i = rd_rest r ! i"
  by (simp add: rd_at_def rd_rest_def)

lemma rd_rest_append_pos:
  "rd_rest r = bs @ rest \<Longrightarrow> bs \<noteq> [] \<Longrightarrow>
     rd_pos r < length (rd_data r) \<and> rd_pos r + length bs \<le> length (rd_data r)"
proof -
  assume a: "rd_rest r = bs @ rest" "bs \<noteq> []"
  from a(1) have "length (rd_data r) - rd_pos r = length bs + length rest"
    by (metis length_append length_drop rd_rest_def)
  moreover have "0 < length bs" using a(2) by simp
  ultimately show ?thesis by arith
qed

lemma take_length_append: "length xs = n \<Longrightarrow> take n (xs @ ys) = xs"
  by simp

lemma read_u16_back:
  "rd_rest r = bytes_of_u16 v @ rest \<Longrightarrow> read_u16 r = (Some v, r\<lparr>rd_pos := rd_pos r + 2\<rparr>)"
  using rd_rest_append_pos [of r "bytes_of_u16 v" rest] word_of_bytes_u16 [of v]
  by (simp add: read_u16_def rd_at_rest bytes_of_u16_def)

lemma read_u32_back:
  "rd_rest r = bytes_of_u32 w @ rest \<Longrightarrow> read_u32 r = (Some w, r\<lparr>rd_pos := rd_pos r + 4\<rparr>)"
  using rd_rest_append_pos [of r "bytes_of_u32 w" rest] word_of_bytes_u32 [of w]
  by (simp add: read_u32_def rd_at_rest bytes_of_u32_def push_bit_or numeral_2_eq_2 numeral_3_eq_3)

lemma read_u64_back:
  "rd_rest r = bytes_of_u64 x @ rest \<Longrightarrow> read_u64 r = (Some x, r\<lparr>rd_pos := rd_pos r + 8\<rparr>)"
  using rd_rest_append_pos [of r "bytes_of_u64 x" rest] word_of_bytes_u64 [of x]
  by (simp add: read_u64_def rd_at_rest bytes_of_u64_def push_bit_or nth_Cons')

lemma read_string_back:
  "c_string s \<Longrightarrow> rd_rest r = bytes_of_string s @ 0 # rest \<Longrightarrow>
     read_string r = (Some s, r\<lparr>rd_pos := rd_pos r + length s + 1\<rparr>)"
  by (simp add: read_string_def memchr0_append bytes_of_c_string)

text \<open>
  What is stored least significant byte first is read back: 16-, 32- and 64-bit integers
  and offsets in both formats, and strings with their terminator; the cursor ends behind the
  item.
\<close>

theorem reads_back:
  "(rd_rest r = bytes_of_u16 v @ rest \<longrightarrow> read_u16 r = (Some v, r\<lparr>rd_pos := rd_pos r + 2\<rparr>)) \<and>
   (rd_rest r = bytes_of_u32 w @ rest \<longrightarrow> read_u32 r = (Some w, r\<lparr>rd_pos := rd_pos r + 4\<rparr>)) \<and>
   (rd_rest r = bytes_of_u64 x @ rest \<longrightarrow> read_u64 r = (Some x, r\<lparr>rd_pos := rd_pos r + 8\<rparr>)) \<and>
   (rd_rest r = (if rd_is64 r then bytes_of_u64 x else bytes_of_u32 w) @ rest \<longrightarrow>
      fst (read_offset r) = Some (if rd_is64 r then x else ucast w)) \<and>
   (c_string s \<longrightarrow> rd_rest r = bytes_of_string s @ 0 # rest \<longrightarrow>
      read_string r = (Some s, r\<lparr>rd_pos := rd_pos r + length s + 1\<rparr>))"
  using read_u16_back read_u32_back read_u64_back read_string_back
  by (simp add: read_offset_def read_u32_64_def)

theorem reads_back_witness:
  "read_u32 (mk_reader [0x78, 0x56, 0x34, 0x12] False)
     = (Some 0x12345678, (mk_reader [0x78, 0x56, 0x34, 0x12] False)\<lparr>rd_pos := 4\<rparr>)"
  using reads_back [of "mk_reader [0x78, 0x56, 0x34, 0x12] False" 0 "[]" "0x12345678"]
  by (simp add: mk_reader_def rd_rest_def bytes_of_u32_def drop_bit_eq_div)

section \<open>LEB128\<close>

text \<open>
  The number an encoding stands for, without bounds: each byte carries seven bits, lowest
  first, and a set top bit says that more follow; the signed form takes bit six of the last
  byte as the sign.
\<close>

fun uleb_val :: "u8 list \<Rightarrow> nat" where
  "uleb_val [] = 0"
| "uleb_val (b # bs) = unat b mod 128 + 128 * uleb_val bs"

definition leb_enc :: "u8 list \<Rightarrow> bool" where
  "leb_enc bs \<longleftrightarrow> bs \<noteq> [] \<and> (\<forall>b\<in>set (butlast bs). bit b 7) \<and> \<not> bit (last bs) 7"

definition sleb_val :: "u8 list \<Rightarrow> int" where
  "sleb_val bs = int (uleb_val bs) - (if bit (last bs) 6 then 2 ^ (7 * length bs) else 0)"

lemma and_80_iff: "(b::u8) AND 0x80 \<noteq> 0 \<longleftrightarrow> bit b 7"
  using and_exp_eq_0_iff_not_bit [of b 7] by simp

lemma and_40_iff: "(b::u8) AND 0x40 \<noteq> 0 \<longleftrightarrow> bit b 6"
  using and_exp_eq_0_iff_not_bit [of b 6] by simp

text \<open>The two predicates with their bit tests as masks, for evaluation.\<close>

lemma leb_enc_and:
  "leb_enc bs \<longleftrightarrow> bs \<noteq> [] \<and> (\<forall>b\<in>set (butlast bs). b AND 0x80 \<noteq> 0) \<and> last bs AND 0x80 = 0"
  using and_80_iff by (metis leb_enc_def)

lemma sleb_val_and:
  "sleb_val bs = int (uleb_val bs) - (if last bs AND 0x40 \<noteq> 0 then 2 ^ (7 * length bs) else 0)"
  by (simp only: sleb_val_def and_40_iff)

lemma and_7f: "(b::u8) AND 0x7f = take_bit 7 b"
  by (simp add: take_bit_eq_mask mask_eq_exp_minus_1)

lemma leb_step:
  fixes vv :: u32 and b :: u8
  assumes low: "\<forall>i. bit vv i \<longrightarrow> i < sh" and sh: "sh < 32"
  shows "vv OR shl32 (ucast (b AND 0x7f)) sh = vv + of_nat (2 ^ sh * (unat b mod 128))"
    and "\<forall>i. bit (vv OR shl32 (ucast (b AND 0x7f)) sh) i \<longrightarrow> i < sh + 7"
proof -
  let ?x = "push_bit sh (ucast (take_bit 7 b)) :: u32"
  have x: "shl32 (ucast (b AND 0x7f)) sh = ?x"
    using sh by (simp only: shl32_def and_7f mod_less)
  have "vv AND ?x = 0"
    using low by (intro bit_eqI) (auto simp: bit_and_iff bit_push_bit_iff)
  then have "vv OR ?x = vv + ?x"
    by (simp add: disjunctive_add_eq_or)
  moreover have "?x = of_nat (2 ^ sh * (unat b mod 128))"
  proof -
    have "(ucast (take_bit 7 b) :: u32) = of_nat (unat b mod 128)"
    proof -
      have "unat (take_bit 7 b) = unat b mod 128"
        unfolding unsigned_take_bit_eq by (simp add: take_bit_eq_mod)
      then show ?thesis by (metis of_nat_unat)
    qed
    then show ?thesis by (simp add: push_bit_eq_mult mult.commute)
  qed
  ultimately show "vv OR shl32 (ucast (b AND 0x7f)) sh = vv + of_nat (2 ^ sh * (unat b mod 128))"
    by (simp add: x)
  show "\<forall>i. bit (vv OR shl32 (ucast (b AND 0x7f)) sh) i \<longrightarrow> i < sh + 7"
    using low unfolding x by (auto simp: bit_or_iff bit_push_bit_iff bit_ucast_iff bit_take_bit_iff)
qed

lemma leb_loop_val:
  assumes "leb_enc bs" "\<forall>i. bit vv i \<longrightarrow> i < 7 * k" "k + length bs \<le> 5"
  shows "leb_loop (bs @ rest) vv (7 * k) n =
    Some (vv + of_nat (2 ^ (7 * k) * uleb_val bs), 7 * (k + length bs), last bs, n + length bs)"
  using assms
proof (induction bs arbitrary: vv k n)
  case (Cons b bs)
  have sh: "7 * k < 32" using Cons.prems(3) by simp
  note st = leb_step [OF Cons.prems(2) sh, of b]
  show ?case
  proof (cases "bs = []")
    case True
    with Cons.prems(1) st(1) show ?thesis
      using and_80_iff [of b] by (simp add: leb_enc_def Let_def)
  next
    case False
    then have "bit b 7" "leb_enc bs" using Cons.prems(1) by (auto simp: leb_enc_def)
    with Cons.IH [of "vv OR shl32 (ucast (b AND 0x7f)) (7 * k)" "Suc k" "Suc n"] st Cons.prems(3) False
    show ?thesis
      using and_80_iff [of b] by (simp add: Let_def algebra_simps power_add)
  qed
qed (simp add: leb_enc_def)

text \<open>
  An unsigned LEB128 number of at most five bytes is read exactly: the reader stops after
  its last byte with its value (modulo 2 to the 32, the width of the result).
\<close>

theorem read_uleb128_value:
  assumes "leb_enc bs" "length bs \<le> 5" "rd_rest r = bs @ rest"
  shows "read_uleb128 r = (Some (of_nat (uleb_val bs)), r\<lparr>rd_pos := rd_pos r + length bs\<rparr>)"
  using leb_loop_val [of bs 0 0 rest 0] assms by (simp add: read_uleb128_def)

theorem read_uleb128_value_witness:
  "fst (read_uleb128 (mk_reader [0xe5, 0x8e, 0x26, 0xff] False)) = Some 624485"
  using read_uleb128_value [of "[0xe5, 0x8e, 0x26]" "mk_reader [0xe5, 0x8e, 0x26, 0xff] False" "[0xff]"]
  by (simp add: leb_enc_and mk_reader_def rd_rest_def)

lemma uleb_val_bound: "uleb_val bs < 2 ^ (7 * length bs)"
proof (induction bs)
  case (Cons b bs)
  have "unat b mod 128 < 128" by simp
  with Cons show ?case by (simp add: power_add)
qed simp

lemma bit_of_nat_bound:
  assumes "n < 2 ^ s" "bit (of_nat n :: u32) i"
  shows "i < s"
proof -
  from assms(2) have "bit n i" by (simp add: bit_of_nat_iff)
  moreover have "take_bit s n = n" using assms(1) by (simp add: take_bit_nat_eq_self)
  ultimately show ?thesis by (metis bit_take_bit_iff)
qed

lemma sign_extend_or:
  assumes "n < 2 ^ s" "s < 32"
  shows "of_nat n OR shl32 (NOT 0) s = (word_of_int (int n - 2 ^ s) :: u32)"
proof -
  have "(of_nat n :: u32) AND push_bit s (- 1) = 0"
    by (rule bit_eqI) (auto simp: bit_and_iff bit_push_bit_iff bit_not_iff bit_mask_iff dest: bit_of_nat_bound [OF assms(1)])
  then have "of_nat n OR push_bit s (- 1) = (of_nat n + push_bit s (- 1) :: u32)"
    by (simp add: disjunctive_add_eq_or)
  also have "\<dots> = word_of_int (int n - 2 ^ s)"
    by (simp add: push_bit_eq_mult)
  finally show ?thesis using assms(2) by (simp add: shl32_def)
qed

text \<open>
  A signed LEB128 number of at most four bytes is read exactly, in two's complement.
\<close>

theorem read_sleb128_value:
  assumes "leb_enc bs" "length bs \<le> 4" "rd_rest r = bs @ rest"
  shows "read_sleb128 r = (Some (word_of_int (sleb_val bs)), r\<lparr>rd_pos := rd_pos r + length bs\<rparr>)"
proof -
  have "leb_loop (bs @ rest) 0 0 0 = Some (of_nat (uleb_val bs), 7 * length bs, last bs, length bs)"
    using leb_loop_val [of bs 0 0 rest 0] assms by simp
  then show ?thesis
    using sign_extend_or [OF uleb_val_bound, of bs] assms and_40_iff [of "last bs"]
    by (simp add: read_sleb128_def sleb_val_def)
qed

theorem read_sleb128_value_witness:
  "fst (read_sleb128 (mk_reader [0x80, 0x7f] False)) = Some (word_of_int (- 128))"
  using read_sleb128_value [of "[0x80, 0x7f]" "mk_reader [0x80, 0x7f] False" "[]"]
  by (simp add: leb_enc_and sleb_val_and mk_reader_def rd_rest_def)

text \<open>
  Negative numbers that need five bytes are read wrongly: the sign extension shifts a
  32-bit value by 35 bits. The standard encoding of the smallest 32-bit integer comes out
  as -8.
\<close>

theorem read_sleb128_five_bytes:
  "sleb_val [0x80, 0x80, 0x80, 0x80, 0x78] = - (2 ^ 31)
   \<and> leb_enc [0x80, 0x80, 0x80, 0x80, 0x78]
   \<and> fst (read_sleb128 (mk_reader [0x80, 0x80, 0x80, 0x80, 0x78] False)) = Some (word_of_int (- 8))
   \<and> (word_of_int (- 8) :: u32) \<noteq> word_of_int (- (2 ^ 31))"
  by (simp add: sleb_val_and leb_enc_and read_sleb128_def mk_reader_def rd_rest_def Let_def shl32_def
      mask_eq_exp_minus_1)

end
