(* ===== verification/NP_Event.thy ===== *)
theory NP_Event
  imports NP_Types NP_Common
begin

unbundle bit_operations_syntax

text \<open>
  \<^verbatim>\<open>np/event.hxx\<close> and \<^verbatim>\<open>np/event.cxx\<close>: the events a test raises, their
  location flags, normalisation and printing. Null pointers are \<^const>\<open>None\<close>. The
  member \<^verbatim>\<open>function\<close> points either to a C string or, under \<^verbatim>\<open>LT_SPIEGELFUNC\<close>, to
  a reflected function; a reader that uses it as the other kind gets \<^const>\<open>Bad_Pointer\<close>.
  The static buffers of \<^verbatim>\<open>normalise\<close> and \<^verbatim>\<open>with_stack\<close> are represented by the
  strings they hold when the event is used.
\<close>

section \<open>Event data\<close>

datatype events_t =
    EV_ASSERT | EV_EXIT | EV_SIGNAL | EV_SYSLOG | EV_FIXTURE | EV_EXPASS | EV_EXFAIL
  | EV_EXNA | EV_VALGRIND | EV_SLMATCH | EV_TIMEOUT | EV_FDLEAK | EV_EXCEPTION

definition events_all :: "events_t list" where
  "events_all =
     [EV_ASSERT, EV_EXIT, EV_SIGNAL, EV_SYSLOG, EV_FIXTURE, EV_EXPASS, EV_EXFAIL,
      EV_EXNA, EV_VALGRIND, EV_SLMATCH, EV_TIMEOUT, EV_FDLEAK, EV_EXCEPTION]"

fun events_ord :: "events_t \<Rightarrow> u32" where
  "events_ord EV_ASSERT = 1"
| "events_ord EV_EXIT = 2"
| "events_ord EV_SIGNAL = 3"
| "events_ord EV_SYSLOG = 4"
| "events_ord EV_FIXTURE = 5"
| "events_ord EV_EXPASS = 6"
| "events_ord EV_EXFAIL = 7"
| "events_ord EV_EXNA = 8"
| "events_ord EV_VALGRIND = 9"
| "events_ord EV_SLMATCH = 10"
| "events_ord EV_TIMEOUT = 11"
| "events_ord EV_FDLEAK = 12"
| "events_ord EV_EXCEPTION = 13"

definition events_of_uint :: "u32 \<Rightarrow> events_t option" where
  "events_of_uint w = find (\<lambda>e. events_ord e = w) events_all"

lemma events_of_uint_ord [simp]: "events_of_uint (events_ord e) = Some e"
  by (cases e) (simp_all add: events_of_uint_def events_all_def)

text \<open>What the events and the tests read of a \<^verbatim>\<open>spiegel::function_t\<close>.\<close>

record function_t =
  fn_name :: string
  fn_path :: string
  fn_addr :: addr_t

datatype evfunc = Fn_Null | Fn_Name string | Fn_Spiegel function_t

record event_t =
  ev_which :: u32
  ev_description :: "string option"
  ev_locflags :: u32
  ev_filename :: "string option"
  ev_lineno :: u32
  ev_function :: evfunc
  ev_functype :: u32

definition LT_FILENAME :: u32 where "LT_FILENAME = push_bit 0 1"
definition LT_LINENO :: u32 where "LT_LINENO = push_bit 1 1"
definition LT_FUNCNAME :: u32 where "LT_FUNCNAME = push_bit 2 1"
definition LT_SPIEGELFUNC :: u32 where "LT_SPIEGELFUNC = push_bit 3 1"
definition LT_STACK :: u32 where "LT_STACK = push_bit 4 1"
definition LT_FUNCTYPE :: u32 where "LT_FUNCTYPE = push_bit 5 1"
definition LT_function :: u32 where "LT_function = LT_FUNCNAME OR LT_SPIEGELFUNC OR LT_STACK"

lemmas LT_defs = LT_FILENAME_def LT_LINENO_def LT_FUNCNAME_def LT_SPIEGELFUNC_def LT_STACK_def
  LT_FUNCTYPE_def LT_function_def

section \<open>Construction\<close>

definition event_init :: event_t where
  "event_init = \<lparr>ev_which = 0, ev_description = None, ev_locflags = 0, ev_filename = None,
     ev_lineno = 0, ev_function = Fn_Null, ev_functype = uint_of_functype FT_UNKNOWN\<rparr>"

definition mk_event :: "events_t \<Rightarrow> string \<Rightarrow> event_t" where
  "mk_event w d = \<lparr>ev_which = events_ord w, ev_description = Some d, ev_locflags = 0,
     ev_filename = None, ev_lineno = 0, ev_function = Fn_Null,
     ev_functype = uint_of_functype FT_UNKNOWN\<rparr>"

definition at_line :: "string \<Rightarrow> u32 \<Rightarrow> event_t \<Rightarrow> event_t" where
  "at_line f l ev = ev\<lparr>ev_locflags := ev_locflags ev OR (LT_FILENAME OR LT_LINENO),
     ev_filename := Some f, ev_lineno := l\<rparr>"

definition in_file :: "string \<Rightarrow> event_t \<Rightarrow> event_t" where
  "in_file f ev = ev\<lparr>ev_locflags := ev_locflags ev OR LT_FILENAME, ev_filename := Some f\<rparr>"

definition in_function :: "string \<Rightarrow> event_t \<Rightarrow> event_t" where
  "in_function fn ev =
     ev\<lparr>ev_locflags := (ev_locflags ev AND NOT LT_function) OR LT_FUNCNAME,
        ev_function := Fn_Name fn\<rparr>"

definition in_function_spiegel :: "function_t \<Rightarrow> event_t \<Rightarrow> event_t" where
  "in_function_spiegel fn ev =
     ev\<lparr>ev_locflags := (ev_locflags ev AND NOT LT_function) OR LT_SPIEGELFUNC,
        ev_function := Fn_Spiegel fn\<rparr>"

definition in_functype :: "u32 \<Rightarrow> event_t \<Rightarrow> event_t" where
  "in_functype ft ev = ev\<lparr>ev_locflags := ev_locflags ev OR LT_FUNCTYPE, ev_functype := ft\<rparr>"

text \<open>
  The 2048-byte buffer of \<^verbatim>\<open>with_stack\<close>: \<^verbatim>\<open>strncpy\<close> pads with terminators, then the four
  bytes from offset 2043 are overwritten.
\<close>

definition tracebuf :: "string \<Rightarrow> string" where
  "tracebuf trace =
     (let buf = take 2048 (trace @ replicate 2048 NUL)
      in take 2043 buf @ ''...'' @ [NUL] @ drop 2047 buf)"

definition with_stack :: "string \<Rightarrow> event_t \<Rightarrow> event_t" where
  "with_stack trace ev =
     (if length trace \<noteq> 0
      then ev\<lparr>ev_locflags := (ev_locflags ev AND NOT LT_function) OR LT_STACK,
              ev_function := Fn_Name (takeWhile (\<lambda>c. c \<noteq> NUL) (tracebuf trace))\<rparr>
      else ev)"

definition xstr :: "string option \<Rightarrow> string" where
  "xstr s = (case s of Some t \<Rightarrow> t | None \<Rightarrow> [])"

definition xstr_fn :: "evfunc \<Rightarrow> np_error + string" where
  "xstr_fn f = (case f of Fn_Null \<Rightarrow> Inr [] | Fn_Name s \<Rightarrow> Inr s | Fn_Spiegel g \<Rightarrow> Inl Bad_Pointer)"

definition flagged :: "u32 \<Rightarrow> event_t \<Rightarrow> bool" where
  "flagged m ev \<longleftrightarrow> ev_locflags ev AND m \<noteq> 0"

text \<open>
  \<^verbatim>\<open>save_strings\<close>, the deep copy inside \<^verbatim>\<open>clone\<close>: the size of the block it allocates
  and the strings copied into it, each with its terminator.
\<close>

definition saved_function :: "event_t \<Rightarrow> np_error + string option" where
  "saved_function ev =
     (if ev_function ev \<noteq> Fn_Null \<and> \<not> flagged LT_SPIEGELFUNC ev
      then bindE (xstr_fn (ev_function ev)) (\<lambda>s. Inr (Some s))
      else Inr None)"

definition save_strings :: "event_t \<Rightarrow> np_error + nat \<times> string" where
  "save_strings ev =
     bindE (saved_function ev) (\<lambda>fn.
       let strs = concat (map (case_option [] (\<lambda>s. [s])) [ev_description ev, ev_filename ev, fn])
       in Inr (sum_list (map (\<lambda>s. length s + 1) strs), concat (map (\<lambda>s. s @ [NUL]) strs)))"

section \<open>Normalisation\<close>

definition normalise_location :: "event_t \<Rightarrow> event_t \<Rightarrow> event_t" where
  "normalise_location orig this =
     (if ev_locflags orig AND (LT_FILENAME OR LT_LINENO) = LT_FILENAME OR LT_LINENO
      then at_line (xstr (ev_filename orig)) (ev_lineno orig) this
      else if flagged LT_FILENAME orig then in_file (xstr (ev_filename orig)) this
      else this)"

definition normalise_funcname :: "event_t \<Rightarrow> event_t \<Rightarrow> np_error + event_t" where
  "normalise_funcname orig this =
     (if flagged LT_FUNCNAME orig
      then bindE (xstr_fn (ev_function orig)) (\<lambda>s. Inr (in_function s this))
      else Inr this)"

definition normalise_stack :: "event_t \<Rightarrow> event_t \<Rightarrow> np_error + event_t" where
  "normalise_stack orig this =
     (if flagged LT_STACK orig
      then bindE (xstr_fn (ev_function orig))
             (\<lambda>s. Inr (this\<lparr>ev_locflags := ev_locflags this OR LT_STACK, ev_function := Fn_Name s\<rparr>))
      else Inr this)"

text \<open>
  The file and function names of a reflected function keep their text here. In the code
  \<^verbatim>\<open>in_file\<close> and \<^verbatim>\<open>in_function\<close> take them as strings by value and store pointers into these copies.
\<close>

definition event_normalise :: "event_t \<Rightarrow> event_t \<Rightarrow> np_error + event_t" where
  "event_normalise orig this =
     (let this1 = this\<lparr>ev_which := ev_which orig, ev_description := Some (xstr (ev_description orig))\<rparr>;
          this2 = (if flagged LT_FUNCTYPE orig then in_functype (ev_functype orig) this1 else this1)
      in if flagged LT_SPIEGELFUNC orig
         then (case ev_function orig of
                 Fn_Spiegel f \<Rightarrow> Inr (in_function (fn_name f) (in_file (fn_path f) this2))
               | Fn_Name s \<Rightarrow> Inl Bad_Pointer
               | Fn_Null \<Rightarrow> Inl Null_Deref)
         else bindE (normalise_funcname orig (normalise_location orig this2)) (normalise_stack orig))"

section \<open>Results and printing\<close>

definition get_result :: "event_t \<Rightarrow> result_t" where
  "get_result ev =
     (case events_of_uint (ev_which ev) of
        Some EV_EXPASS \<Rightarrow> R_PASS
      | Some EV_EXNA \<Rightarrow> R_NOTAPPLICABLE
      | Some EV_SYSLOG \<Rightarrow> R_UNKNOWN
      | Some e \<Rightarrow> R_FAIL
      | None \<Rightarrow> R_UNKNOWN)"

definition whichstrs :: "string list" where
  "whichstrs =
     [''NONE'', ''ASSERT'', ''EXIT'', ''SIGNAL'', ''SYSLOG'', ''FIXTURE'', ''EXPASS'', ''EXFAIL'',
      ''EXNA'', ''VALGRIND'', ''SLMATCH'', ''TIMEOUT'', ''FDLEAK'', ''EXCEPTION'']"

definition which_as_string :: "event_t \<Rightarrow> string" where
  "which_as_string ev =
     (if unat (ev_which ev) < length whichstrs then whichstrs ! unat (ev_which ev) else ''unknown'')"

definition event_as_string :: "event_t \<Rightarrow> np_error + string" where
  "event_as_string ev =
     (case ev_description ev of
        None \<Rightarrow> Inl Null_Deref
      | Some d \<Rightarrow> Inr (which_as_string ev @ '' '' @ d))"

definition func_string :: "event_t \<Rightarrow> np_error + string" where
  "func_string ev =
     (case ev_function ev of
        Fn_Null \<Rightarrow> Inl Null_Deref | Fn_Name s \<Rightarrow> Inr s | Fn_Spiegel f \<Rightarrow> Inl Bad_Pointer)"

definition get_short_location :: "event_t \<Rightarrow> np_error + string" where
  "get_short_location ev =
     bindE (if flagged LT_FILENAME ev
            then (case ev_filename ev of
                    None \<Rightarrow> Inl Null_Deref
                  | Some f \<Rightarrow> Inr ('' at '' @ f @ '':'' @
                      (if flagged LT_LINENO ev then dec (ev_lineno ev) else ''???'')))
            else Inr []) (\<lambda>s.
     if flagged LT_FUNCNAME ev
     then bindE (func_string ev) (\<lambda>fn.
       Inr (s @ '' in '' @
            (if flagged LT_FUNCTYPE ev then ''('' @ as_string_uint (ev_functype ev) @ '') '' else []) @ fn))
     else Inr s)"

definition get_long_location :: "event_t \<Rightarrow> np_error + string" where
  "get_long_location ev =
     (if flagged LT_STACK ev
      then bindE (if ev_locflags ev AND (LT_FILENAME OR LT_LINENO) = LT_FILENAME OR LT_LINENO
                  then bindE (get_short_location ev) (\<lambda>l. Inr (l @ [CHR 0x0A]))
                  else Inr []) (\<lambda>s.
           bindE (func_string ev) (\<lambda>fn. Inr (s @ fn)))
      else bindE (get_short_location ev) (\<lambda>l. Inr (l @ [CHR 0x0A])))"

section \<open>Flags\<close>

lemma and_LT_iff:
  "w AND LT_FILENAME \<noteq> 0 \<longleftrightarrow> bit w 0" "w AND LT_LINENO \<noteq> 0 \<longleftrightarrow> bit w 1"
  "w AND LT_FUNCNAME \<noteq> 0 \<longleftrightarrow> bit w 2" "w AND LT_SPIEGELFUNC \<noteq> 0 \<longleftrightarrow> bit w 3"
  "w AND LT_STACK \<noteq> 0 \<longleftrightarrow> bit w 4" "w AND LT_FUNCTYPE \<noteq> 0 \<longleftrightarrow> bit w 5"
  unfolding LT_defs push_bit_of_1 by (simp_all only: and_exp_eq_0_iff_not_bit not_not)

lemma flagged_bit:
  "flagged LT_FILENAME ev \<longleftrightarrow> bit (ev_locflags ev) 0" "flagged LT_LINENO ev \<longleftrightarrow> bit (ev_locflags ev) 1"
  "flagged LT_FUNCNAME ev \<longleftrightarrow> bit (ev_locflags ev) 2" "flagged LT_SPIEGELFUNC ev \<longleftrightarrow> bit (ev_locflags ev) 3"
  "flagged LT_STACK ev \<longleftrightarrow> bit (ev_locflags ev) 4" "flagged LT_FUNCTYPE ev \<longleftrightarrow> bit (ev_locflags ev) 5"
  by (simp_all only: flagged_def and_LT_iff)

lemma bit_LT:
  "bit LT_FILENAME n \<longleftrightarrow> n = 0" "bit LT_LINENO n \<longleftrightarrow> n = 1" "bit LT_FUNCNAME n \<longleftrightarrow> n = 2"
  "bit LT_SPIEGELFUNC n \<longleftrightarrow> n = 3" "bit LT_STACK n \<longleftrightarrow> n = 4" "bit LT_FUNCTYPE n \<longleftrightarrow> n = 5"
  unfolding LT_defs bit_push_bit_iff bit_1_iff by (auto simp: possible_bit_def)

lemma LT_line_mask_iff:
  "w AND (LT_FILENAME OR LT_LINENO) = LT_FILENAME OR LT_LINENO \<longleftrightarrow> bit w 0 \<and> bit w 1"
proof
  assume "w AND (LT_FILENAME OR LT_LINENO) = LT_FILENAME OR LT_LINENO"
  then have "bit (w AND (LT_FILENAME OR LT_LINENO)) i \<longleftrightarrow> bit (LT_FILENAME OR LT_LINENO) i" for i
    by simp
  from this [of 0] this [of 1] show "bit w 0 \<and> bit w 1"
    by (simp add: bit_and_iff bit_or_iff bit_LT)
qed (auto intro!: bit_eqI simp: bit_and_iff bit_or_iff bit_LT)

lemmas flag_simps = flagged_bit LT_line_mask_iff bit_and_iff bit_or_iff bit_not_iff bit_LT
  LT_function_def

section \<open>Well-formed events\<close>

text \<open>
  What the constructors and the chained initialisers establish: every flag comes with the
  member it announces, and only \<^const>\<open>LT_SPIEGELFUNC\<close> events hold a reflected function.
\<close>

definition ev_wf :: "event_t \<Rightarrow> bool" where
  "ev_wf ev \<longleftrightarrow>
     (flagged LT_FILENAME ev \<longrightarrow> ev_filename ev \<noteq> None) \<and>
     (flagged LT_FUNCNAME ev \<or> flagged LT_STACK ev \<longrightarrow> (\<exists>s. ev_function ev = Fn_Name s)) \<and>
     (flagged LT_SPIEGELFUNC ev \<longleftrightarrow> (\<exists>f. ev_function ev = Fn_Spiegel f))"

lemma ev_wf_build [np_invs]:
  "ev_wf event_init" "ev_wf (mk_event w d)"
  "ev_wf ev \<Longrightarrow> ev_wf (at_line f l ev)" "ev_wf ev \<Longrightarrow> ev_wf (in_file f ev)"
  "ev_wf ev \<Longrightarrow> ev_wf (in_function fn ev)" "ev_wf ev \<Longrightarrow> ev_wf (in_function_spiegel g ev)"
  "ev_wf ev \<Longrightarrow> ev_wf (in_functype ft ev)" "ev_wf ev \<Longrightarrow> ev_wf (with_stack trace ev)"
  by (auto simp: ev_wf_def event_init_def mk_event_def at_line_def in_file_def in_function_def
      in_function_spiegel_def in_functype_def with_stack_def flag_simps)

lemma dots_c_string: "NUL \<notin> set ''...''"
  by (simp add: NUL_def) (simp add: char_of_def)

lemma tracebuf_long:
  assumes "2043 \<le> length trace" "c_string trace"
  shows "takeWhile (\<lambda>c. c \<noteq> NUL) (tracebuf trace) = take 2043 trace @ ''...''"
proof -
  have "tracebuf trace = (take 2043 trace @ ''...'') @ NUL # drop 2047 (take 2048 (trace @ replicate 2048 NUL))"
    using assms by (simp add: tracebuf_def Let_def)
  moreover have "NUL \<notin> set (take 2043 trace @ ''...'')"
    using assms dots_c_string by (auto simp: c_string_def dest: in_set_takeD)
  ultimately show ?thesis by (metis takeWhile_notin)
qed

lemma tracebuf_short:
  assumes "length trace < 2043" "c_string trace"
  shows "takeWhile (\<lambda>c. c \<noteq> NUL) (tracebuf trace) = trace"
proof -
  obtain k where "2043 - length trace = Suc k"
    using assms(1) by (cases "2043 - length trace") auto
  moreover have "2043 - length trace \<le> 2048 - length trace"
    by (rule diff_le_mono) simp
  ultimately have "take 2043 (take 2048 (trace @ replicate 2048 NUL)) = trace @ NUL # replicate k NUL"
    using assms(1) by (simp add: min_def)
  then show ?thesis
    using assms(2) by (simp add: tracebuf_def Let_def takeWhile_notin c_string_def)
qed

section \<open>Normalised events\<close>

lemma get_result_which: "ev_which a = ev_which b \<Longrightarrow> get_result a = get_result b"
  by (simp add: get_result_def)

lemmas event_build_defs = at_line_def in_file_def in_function_def in_function_spiegel_def
  in_functype_def event_init_def

lemmas event_normalise_defs = event_normalise_def normalise_location_def normalise_funcname_def
  normalise_stack_def xstr_fn_def xstr_def

text \<open>The normal form, field by field, of a well-formed event.\<close>

definition normal_form :: "event_t \<Rightarrow> event_t" where
  "normal_form ev =
     (let sp = flagged LT_SPIEGELFUNC ev; fl = flagged LT_FILENAME ev; ln = flagged LT_LINENO ev;
          nm = flagged LT_FUNCNAME ev; st = flagged LT_STACK ev; ty = flagged LT_FUNCTYPE ev
      in \<lparr>ev_which = ev_which ev, ev_description = Some (xstr (ev_description ev)),
          ev_locflags = (if sp \<or> fl then LT_FILENAME else 0) OR
            (if \<not> sp \<and> fl \<and> ln then LT_LINENO else 0) OR
            (if sp \<or> nm then LT_FUNCNAME else 0) OR
            (if \<not> sp \<and> st then LT_STACK else 0) OR (if ty then LT_FUNCTYPE else 0),
          ev_filename = (case ev_function ev of Fn_Spiegel f \<Rightarrow> Some (fn_path f)
             | _ \<Rightarrow> if fl then ev_filename ev else None),
          ev_lineno = (if \<not> sp \<and> fl \<and> ln then ev_lineno ev else 0),
          ev_function = (case ev_function ev of Fn_Spiegel f \<Rightarrow> Fn_Name (fn_name f)
             | g \<Rightarrow> if nm \<or> st then g else Fn_Null),
          ev_functype = (if ty then ev_functype ev else 0)\<rparr>)"

lemma uint_of_functype_UNKNOWN [simp]: "uint_of_functype FT_UNKNOWN = 0"
  by (simp add: uint_of_functype_def)

lemma mask_function:
  "LT_FILENAME AND NOT LT_function = LT_FILENAME" "LT_LINENO AND NOT LT_function = LT_LINENO"
  "LT_FUNCTYPE AND NOT LT_function = LT_FUNCTYPE"
  "(a OR b) AND NOT LT_function = (a AND NOT LT_function) OR (b AND NOT LT_function)"
  by (auto intro!: bit_eqI simp: flag_simps)

lemma line_mask_flagged:
  "ev_locflags ev AND (LT_FILENAME OR LT_LINENO) = LT_FILENAME OR LT_LINENO
     \<longleftrightarrow> flagged LT_FILENAME ev \<and> flagged LT_LINENO ev"
  by (simp add: LT_line_mask_iff flagged_bit)

lemma event_normalise_normal_form:
  assumes wf: "ev_wf ev"
  shows "event_normalise ev event_init = Inr (normal_form ev)"
  using wf
  by (auto simp: event_normalise_defs event_build_defs normal_form_def Let_def ev_wf_def
      line_mask_flagged mask_function or.assoc or.commute or.left_commute split: evfunc.splits)

lemma flagged_normal_form:
  "flagged LT_FILENAME (normal_form ev) \<longleftrightarrow> flagged LT_SPIEGELFUNC ev \<or> flagged LT_FILENAME ev"
  "flagged LT_LINENO (normal_form ev)
     \<longleftrightarrow> \<not> flagged LT_SPIEGELFUNC ev \<and> flagged LT_FILENAME ev \<and> flagged LT_LINENO ev"
  "flagged LT_FUNCNAME (normal_form ev) \<longleftrightarrow> flagged LT_SPIEGELFUNC ev \<or> flagged LT_FUNCNAME ev"
  "flagged LT_SPIEGELFUNC (normal_form ev) \<longleftrightarrow> False"
  "flagged LT_STACK (normal_form ev) \<longleftrightarrow> \<not> flagged LT_SPIEGELFUNC ev \<and> flagged LT_STACK ev"
  "flagged LT_FUNCTYPE (normal_form ev) \<longleftrightarrow> flagged LT_FUNCTYPE ev"
  by (simp_all add: flagged_bit bit_or_iff bit_LT normal_form_def Let_def)

lemma normal_form_fields:
  "ev_which (normal_form ev) = ev_which ev"
  "ev_description (normal_form ev) = Some (xstr (ev_description ev))"
  "ev_filename (normal_form ev) = (case ev_function ev of Fn_Spiegel f \<Rightarrow> Some (fn_path f)
     | _ \<Rightarrow> if flagged LT_FILENAME ev then ev_filename ev else None)"
  "ev_lineno (normal_form ev) = (if flagged LT_LINENO (normal_form ev) then ev_lineno ev else 0)"
  "ev_function (normal_form ev) = (case ev_function ev of Fn_Spiegel f \<Rightarrow> Fn_Name (fn_name f)
     | g \<Rightarrow> if flagged LT_FUNCNAME ev \<or> flagged LT_STACK ev then g else Fn_Null)"
  "ev_functype (normal_form ev) = (if flagged LT_FUNCTYPE ev then ev_functype ev else 0)"
  "ev_locflags (normal_form ev) =
     (if flagged LT_FILENAME (normal_form ev) then LT_FILENAME else 0) OR
     (if flagged LT_LINENO (normal_form ev) then LT_LINENO else 0) OR
     (if flagged LT_FUNCNAME (normal_form ev) then LT_FUNCNAME else 0) OR
     (if flagged LT_STACK (normal_form ev) then LT_STACK else 0) OR
     (if flagged LT_FUNCTYPE (normal_form ev) then LT_FUNCTYPE else 0)"
  unfolding flagged_normal_form by (simp_all add: normal_form_def Let_def)

lemma normal_form_wf: "ev_wf ev \<Longrightarrow> ev_wf (normal_form ev)"
  unfolding ev_wf_def flagged_normal_form normal_form_fields
  by (cases "ev_function ev") simp_all

lemma normal_form_idem:
  assumes "ev_wf ev"
  shows "normal_form (normal_form ev) = normal_form ev"
proof (rule event_t.equality)
  show "ev_locflags (normal_form (normal_form ev)) = ev_locflags (normal_form ev)"
    unfolding normal_form_fields flagged_normal_form by simp
  show "ev_filename (normal_form (normal_form ev)) = ev_filename (normal_form ev)"
       "ev_function (normal_form (normal_form ev)) = ev_function (normal_form ev)"
    using assms unfolding normal_form_fields flagged_normal_form ev_wf_def
    by (cases "ev_function ev"; simp)+
qed (simp_all add: normal_form_fields flagged_normal_form xstr_def)

lemma normal_form_which [simp]: "ev_which (normal_form ev) = ev_which ev"
  by (simp add: normal_form_def Let_def)

lemma short_location_printable:
  assumes "ev_wf ev" "\<not> flagged LT_SPIEGELFUNC ev"
  shows "\<not> isl (get_short_location ev)"
  using assms by (auto simp: get_short_location_def ev_wf_def func_string_def)

lemma long_location_printable:
  assumes "ev_wf ev" "\<not> flagged LT_SPIEGELFUNC ev"
  shows "\<not> isl (get_long_location ev)"
proof -
  obtain l where "get_short_location ev = Inr l"
    using short_location_printable [OF assms] by (cases "get_short_location ev") auto
  then show ?thesis
    using assms by (auto simp: get_long_location_def ev_wf_def func_string_def)
qed



text \<open>
  A stack trace of fewer than 2043 characters becomes the function text of the event
  unchanged; a longer one is cut to 2043 characters followed by three dots. An event with
  no trace is left alone, and the event stays well-formed.
\<close>

theorem with_stack_truncates:
  assumes "c_string trace" "trace \<noteq> []"
  shows "with_stack [] ev = ev \<and>
    ev_function (with_stack trace ev) =
      Fn_Name (if length trace < 2043 then trace else take 2043 trace @ ''...'') \<and>
    flagged LT_STACK (with_stack trace ev) \<and> \<not> flagged LT_FUNCNAME (with_stack trace ev) \<and>
    (ev_wf ev \<longrightarrow> ev_wf (with_stack trace ev))"
  using assms tracebuf_short [of trace] tracebuf_long [of trace] ev_wf_build(8) [of ev trace]
  by (auto simp: with_stack_def flag_simps)

theorem with_stack_truncates_witness:
  "ev_function (with_stack ''main'' event_init) = Fn_Name ''main''"
  using with_stack_truncates [of "''main''" event_init]
  by (simp add: c_string_def NUL_def char_of_def)

end
