(* ===== verification/NP_Proxy.thy ===== *)
theory NP_Proxy
  imports NP_Event
begin

text \<open>
  \<^verbatim>\<open>np/proxy_listener.cxx\<close>: the protocol by which a child process reports its events and
  its final result to the parent over a pipe, and \<^verbatim>\<open>runner_t::raise_event\<close>, to which the
  parent hands every event it decodes. What the kernel delivers on the read end is a list of
  chunks: each \<^verbatim>\<open>read(2)\<close> returns at most one chunk, or fails; an exhausted list is the end
  of the file.
\<close>

section \<open>Writing\<close>

definition PROXY_INVALID :: u32 where "PROXY_INVALID = 0"
definition PROXY_EVENT :: u32 where "PROXY_EVENT = 1"
definition PROXY_FINISHED :: u32 where "PROXY_FINISHED = 2"

definition serialise_uint :: "u32 \<Rightarrow> u8 list" where
  "serialise_uint i = bytes_of_u32 i"

definition serialise_string :: "string option \<Rightarrow> u8 list" where
  "serialise_string s =
     (let len = (case s of Some t \<Rightarrow> (of_nat (length t) :: u32) | None \<Rightarrow> 0)
      in serialise_uint len @
         (if len \<noteq> 0 then take (unat len) (bytes_of_string (the s)) @ [0] else []))"

definition fn_string :: "evfunc \<Rightarrow> np_error + string option" where
  "fn_string f =
     (case f of Fn_Null \<Rightarrow> Inr None | Fn_Name s \<Rightarrow> Inr (Some s) | Fn_Spiegel g \<Rightarrow> Inl Bad_Pointer)"

definition serialise_event :: "event_t \<Rightarrow> np_error + u8 list" where
  "serialise_event ev =
     bindE (fn_string (ev_function ev)) (\<lambda>fn.
       Inr (serialise_uint (ev_which ev) @ serialise_string (ev_description ev) @
            serialise_uint (ev_locflags ev) @ serialise_string (ev_filename ev) @
            serialise_uint (ev_lineno ev) @ serialise_string fn @
            serialise_uint (ev_functype ev)))"

text \<open>The two calls of the proxy that write; the others write nothing.\<close>

definition proxy_end_job :: "result_t \<Rightarrow> u8 list" where
  "proxy_end_job res = serialise_uint PROXY_FINISHED @ serialise_uint (uint_of_result res)"

definition proxy_add_event :: "event_t \<Rightarrow> np_error + u8 list" where
  "proxy_add_event ev = bindE (serialise_event ev) (\<lambda>bs. Inr (serialise_uint PROXY_EVENT @ bs))"

section \<open>Reading\<close>

datatype chunk = Chunk "u8 list" | Read_Error

type_synonym pipe = "chunk list"

text \<open>One \<^verbatim>\<open>read(fd, p, len)\<close>: nothing for an error, no bytes at the end of the file.\<close>

fun read_fd :: "nat \<Rightarrow> pipe \<Rightarrow> u8 list option \<times> pipe" where
  "read_fd len [] = (Some [], [])"
| "read_fd len (Read_Error # cs) = (None, cs)"
| "read_fd len (Chunk bs # cs) =
     (Some (take len bs), if length bs \<le> len then cs else Chunk (drop len bs) # cs)"

fun chunk_size :: "chunk \<Rightarrow> nat" where
  "chunk_size (Chunk bs) = Suc (length bs)"
| "chunk_size Read_Error = 1"

function deserialise_bytes :: "nat \<Rightarrow> pipe \<Rightarrow> u8 list option \<times> pipe" where
  "deserialise_bytes len p =
     (if len = 0 then (Some [], p)
      else case read_fd len p of
        (None, p') \<Rightarrow> (None, p')
      | (Some bs, p') \<Rightarrow>
          if bs = [] then (None, p')
          else (case deserialise_bytes (len - length bs) p' of
                  (None, p'') \<Rightarrow> (None, p'')
                | (Some bs', p'') \<Rightarrow> (Some (bs @ bs'), p'')))"
  by pat_completeness auto
termination
  by (relation "measure fst") (auto simp: length_greater_0_conv [symmetric] simp del: length_greater_0_conv)

declare deserialise_bytes.simps [simp del]

type_synonym 'a ds = "pipe \<Rightarrow> (np_error + 'a option) \<times> pipe"

definition ds_bind :: "'a ds \<Rightarrow> ('a \<Rightarrow> 'b ds) \<Rightarrow> 'b ds" where
  "ds_bind m f p =
     (case m p of
        (Inl e, p') \<Rightarrow> (Inl e, p')
      | (Inr None, p') \<Rightarrow> (Inr None, p')
      | (Inr (Some x), p') \<Rightarrow> f x p')"

definition ds_return :: "'a \<Rightarrow> 'a ds" where
  "ds_return x p = (Inr (Some x), p)"

definition deserialise_uint :: "u32 ds" where
  "deserialise_uint p =
     (case deserialise_bytes 4 p of
        (None, p') \<Rightarrow> (Inr None, p')
      | (Some bs, p') \<Rightarrow> (Inr (Some (word_of_bytes bs)), p'))"

text \<open>
  The buffer has \<^verbatim>\<open>len + 1\<close> bytes, computed in 32 bits. A buffer with no terminator among
  its bytes (one of no bytes at all, when \<^verbatim>\<open>len + 1\<close> wraps to zero) is read past its end
  by whoever uses the string.
\<close>

definition buffer_string :: "u8 list \<Rightarrow> np_error + string" where
  "buffer_string bs =
     (if 0 \<in> set bs then Inr (string_of_bytes (takeWhile (\<lambda>b. b \<noteq> 0) bs)) else Inl Out_Of_Range)"

definition deserialise_string :: "string ds" where
  "deserialise_string =
     ds_bind deserialise_uint (\<lambda>len p.
       if len = 0 then (Inr (Some []), p)
       else (case deserialise_bytes (unat (len + 1)) p of
               (None, p') \<Rightarrow> (Inr None, p')
             | (Some bs, p') \<Rightarrow> (bindE (buffer_string bs) (\<lambda>s. Inr (Some s)), p')))"

definition deserialise_event :: "event_t ds" where
  "deserialise_event =
     ds_bind deserialise_uint (\<lambda>which.
     ds_bind deserialise_string (\<lambda>description.
     ds_bind deserialise_uint (\<lambda>locflags.
     ds_bind deserialise_string (\<lambda>filename.
     ds_bind deserialise_uint (\<lambda>lineno.
     ds_bind deserialise_string (\<lambda>fn.
     ds_bind deserialise_uint (\<lambda>ft.
     ds_return \<lparr>ev_which = which, ev_description = Some description, ev_locflags = locflags,
       ev_filename = Some filename, ev_lineno = lineno, ev_function = Fn_Name fn,
       ev_functype = ft\<rparr>)))))))"

section \<open>Dispatching a call\<close>

text \<open>
  \<^verbatim>\<open>runner_t::raise_event\<close>: normalise into a fresh event, pass it to every listener
  (the returned event is what they all get) and report its result.
\<close>

definition raise_event :: "event_t \<Rightarrow> np_error + event_t \<times> result_t" where
  "raise_event ev = bindE (event_normalise ev event_init) (\<lambda>n. Inr (n, get_result n))"

text \<open>
  \<^verbatim>\<open>handle_call\<close>: whether to call again, the updated result, and the event passed on to
  the listeners, if any.
\<close>

definition handle_call :: "result_t \<Rightarrow> pipe \<Rightarrow> (np_error + bool \<times> result_t \<times> event_t option) \<times> pipe" where
  "handle_call resp p =
     (case deserialise_uint p of
        (Inl e, p1) \<Rightarrow> (Inl e, p1)
      | (Inr None, p1) \<Rightarrow> (Inr (False, merge resp R_FAIL, None), p1)
      | (Inr (Some which), p1) \<Rightarrow>
          if which = PROXY_EVENT then
            (case deserialise_event p1 of
               (Inl e, p2) \<Rightarrow> (Inl e, p2)
             | (Inr (Some ev), p2) \<Rightarrow>
                 (bindE (raise_event ev) (\<lambda>(n, res). Inr (True, merge resp res, Some n)), p2)
             | (Inr None, p2) \<Rightarrow> (Inr (False, merge resp R_FAIL, None), p2))
          else if which = PROXY_FINISHED then
            (case deserialise_uint p1 of
               (Inl e, p2) \<Rightarrow> (Inl e, p2)
             | (Inr (Some res), p2) \<Rightarrow>
                 (bindE (result_of_uint res) (\<lambda>r. Inr (False, merge resp r, None)), p2)
             | (Inr None, p2) \<Rightarrow> (Inr (False, merge resp R_FAIL, None), p2))
          else (Inr (False, merge resp R_FAIL, None), p1))"

section \<open>Pipes and chunking\<close>

fun pipe_bytes :: "pipe \<Rightarrow> u8 list" where
  "pipe_bytes [] = []"
| "pipe_bytes (Chunk bs # p) = bs @ pipe_bytes p"
| "pipe_bytes (Read_Error # p) = pipe_bytes p"

text \<open>A pipe without read errors; the kernel returns no empty chunk before the end.\<close>

fun good_pipe :: "pipe \<Rightarrow> bool" where
  "good_pipe [] \<longleftrightarrow> True"
| "good_pipe (Chunk bs # p) \<longleftrightarrow> bs \<noteq> [] \<and> good_pipe p"
| "good_pipe (Read_Error # p) \<longleftrightarrow> False"

lemma read_fd_good:
  assumes "good_pipe p" "0 < len" "pipe_bytes p \<noteq> []"
  obtains bs p' where "read_fd len p = (Some bs, p')" "bs \<noteq> []" "length bs \<le> len" "good_pipe p'"
    "pipe_bytes p = bs @ pipe_bytes p'"
proof (cases p)
  case (Cons c q)
  then obtain bs where "c = Chunk bs" "bs \<noteq> []" using assms(1) by (cases c) auto
  then show ?thesis
    using that [of "take len bs" "if length bs \<le> len then q else Chunk (drop len bs) # q"] Cons assms
    by auto
qed (use assms in simp)

lemma deserialise_bytes_good:
  assumes "good_pipe p" "len \<le> length (pipe_bytes p)"
  shows "\<exists>p'. deserialise_bytes len p = (Some (take len (pipe_bytes p)), p') \<and> good_pipe p'
    \<and> pipe_bytes p' = drop len (pipe_bytes p)"
  using assms
proof (induction len p rule: deserialise_bytes.induct)
  case (1 len p)
  show ?case
  proof (cases "len = 0")
    case True
    then show ?thesis using 1 by (simp add: deserialise_bytes.simps)
  next
    case False
    with 1 obtain bs q where r: "read_fd len p = (Some bs, q)" "bs \<noteq> []" "length bs \<le> len"
      "good_pipe q" "pipe_bytes p = bs @ pipe_bytes q"
      by (metis read_fd_good gr_zeroI le_zero_eq list.size(3))
    with 1 False obtain q' where
      "deserialise_bytes (len - length bs) q = (Some (take (len - length bs) (pipe_bytes q)), q')"
      "good_pipe q'" "pipe_bytes q' = drop (len - length bs) (pipe_bytes q)"
      by fastforce
    with r False show ?thesis by (simp add: deserialise_bytes.simps [of len p])
  qed
qed

lemma deserialise_bytes_short:
  assumes "good_pipe p" "length (pipe_bytes p) < len"
  shows "\<exists>p'. deserialise_bytes len p = (None, p')"
  using assms
proof (induction len p rule: deserialise_bytes.induct)
  case (1 len p)
  show ?case
  proof (cases "pipe_bytes p = []")
    case True
    with 1 have "p = []" by (cases p rule: good_pipe.cases) auto
    with 1 show ?thesis by (simp add: deserialise_bytes.simps [of len "[]"])
  next
    case False
    with 1 obtain bs q where r: "read_fd len p = (Some bs, q)" "bs \<noteq> []" "length bs \<le> len"
      "good_pipe q" "pipe_bytes p = bs @ pipe_bytes q"
      by (metis read_fd_good gr_implies_not_zero gr_zeroI)
    with 1 obtain q' where "deserialise_bytes (len - length bs) q = (None, q')"
      by fastforce
    with r 1 show ?thesis by (simp add: deserialise_bytes.simps [of len p])
  qed
qed

section \<open>Codecs\<close>

text \<open>
  A decoder reads an encoding back if it finds it at the front of any error-free pipe,
  however the kernel cuts it, and reports failure on every proper prefix.
\<close>

definition codes :: "'a ds \<Rightarrow> u8 list \<Rightarrow> 'a \<Rightarrow> bool" where
  "codes d bs x \<longleftrightarrow>
     (\<forall>p rest. good_pipe p \<longrightarrow> pipe_bytes p = bs @ rest \<longrightarrow>
        (\<exists>p'. d p = (Inr (Some x), p') \<and> good_pipe p' \<and> pipe_bytes p' = rest)) \<and>
     (\<forall>p. good_pipe p \<longrightarrow> strict_prefix (pipe_bytes p) bs \<longrightarrow> (\<exists>p'. d p = (Inr None, p')))"

lemma codesD:
  assumes "codes d bs x" "good_pipe p" "pipe_bytes p = bs @ rest"
  obtains p' where "d p = (Inr (Some x), p')" "good_pipe p'" "pipe_bytes p' = rest"
  using assms unfolding codes_def by blast

lemma codes_truncated:
  assumes "codes d bs x" "good_pipe p" "strict_prefix (pipe_bytes p) bs"
  obtains p' where "d p = (Inr None, p')"
  using assms unfolding codes_def by blast

lemma strict_prefix_append_cases:
  assumes "strict_prefix xs (bs @ bs')"
  obtains "strict_prefix xs bs" | r where "xs = bs @ r" "strict_prefix r bs'"
  using assms by (metis append_eq_append_conv2 prefix_def same_prefix_prefix strict_prefix_def
      prefix_append prefix_order.dual_order.not_eq_order_implies_strict append.right_neutral same_append_eq)

lemma codes_bind:
  assumes m: "codes m bs x" and f: "codes (f x) bs' y"
  shows "codes (ds_bind m f) (bs @ bs') y"
  unfolding codes_def
proof (intro conjI allI impI)
  fix p rest assume p: "good_pipe p" "pipe_bytes p = (bs @ bs') @ rest"
  then have "pipe_bytes p = bs @ (bs' @ rest)" by simp
  with p m obtain q where q: "m p = (Inr (Some x), q)" "good_pipe q" "pipe_bytes q = bs' @ rest"
    by (metis codesD)
  with f obtain q' where "f x q = (Inr (Some y), q')" "good_pipe q'" "pipe_bytes q' = rest"
    by (metis codesD)
  with q show "\<exists>p'. ds_bind m f p = (Inr (Some y), p') \<and> good_pipe p' \<and> pipe_bytes p' = rest"
    by (simp add: ds_bind_def)
next
  fix p assume p: "good_pipe p" "strict_prefix (pipe_bytes p) (bs @ bs')"
  from p(2) show "\<exists>p'. ds_bind m f p = (Inr None, p')"
  proof (cases rule: strict_prefix_append_cases)
    case 1
    with p m obtain q where "m p = (Inr None, q)" by (metis codes_truncated)
    then show ?thesis by (simp add: ds_bind_def)
  next
    case (2 r)
    with p m obtain q where q: "m p = (Inr (Some x), q)" "good_pipe q" "pipe_bytes q = r"
      by (metis codesD)
    with 2 f obtain q' where "f x q = (Inr None, q')" by (metis codes_truncated)
    with q show ?thesis by (simp add: ds_bind_def)
  qed
qed

lemma codes_return: "codes (ds_return x) [] x"
  by (simp add: codes_def ds_return_def)

locale codec =
  fixes enc :: "'a \<Rightarrow> u8 list" and dec_ds :: "'b ds" and sendable :: "'a \<Rightarrow> bool" and view :: "'a \<Rightarrow> 'b"
  assumes reads_back: "sendable x \<Longrightarrow> codes dec_ds (enc x) (view x)"
begin

lemma step:
  "sendable x \<Longrightarrow> codes (f (view x)) bs y \<Longrightarrow> codes (ds_bind dec_ds f) (enc x @ bs) y"
  using reads_back by (rule codes_bind)

end

interpretation uint: codec serialise_uint deserialise_uint "\<lambda>_. True" "\<lambda>w. w"
proof
  fix w :: u32
  show "codes deserialise_uint (serialise_uint w) w"
    unfolding codes_def
  proof (intro conjI allI impI)
    fix p rest assume "good_pipe p" "pipe_bytes p = serialise_uint w @ rest"
    with deserialise_bytes_good [of p 4]
    show "\<exists>p'. deserialise_uint p = (Inr (Some w), p') \<and> good_pipe p' \<and> pipe_bytes p' = rest"
      by (auto simp: deserialise_uint_def serialise_uint_def)
  next
    fix p assume p: "good_pipe p" "strict_prefix (pipe_bytes p) (serialise_uint w)"
    then have "length (pipe_bytes p) < 4"
      using prefix_length_less [OF p(2)] by (simp add: serialise_uint_def)
    with p deserialise_bytes_short [of p 4] show "\<exists>p'. deserialise_uint p = (Inr None, p')"
      by (auto simp: deserialise_uint_def)
  qed
qed

lemma uint_codes: "codes deserialise_uint (serialise_uint w) w"
  using uint.reads_back by simp

text \<open>A string can be sent if its length plus one fits in 32 bits; null arrives as the empty string.\<close>

definition sendable_string :: "string option \<Rightarrow> bool" where
  "sendable_string s \<longleftrightarrow> (case s of None \<Rightarrow> True | Some t \<Rightarrow> c_string t \<and> length t < 2 ^ 32 - 1)"

lemma buffer_string_back: "c_string t \<Longrightarrow> buffer_string (bytes_of_string t @ [0]) = Inr t"
  by (simp add: buffer_string_def takeWhile_notin bytes_of_c_string)

lemma codes_take:
  assumes "length bs = n" "g bs = Inr x"
  shows "codes (\<lambda>p. case deserialise_bytes n p of
      (None, p') \<Rightarrow> (Inr None, p') | (Some bs, p') \<Rightarrow> (bindE (g bs) (\<lambda>s. Inr (Some s)), p')) bs x"
  unfolding codes_def
proof (intro conjI allI impI)
  fix p rest assume "good_pipe p" "pipe_bytes p = bs @ rest"
  with deserialise_bytes_good [of p n] assms
  show "\<exists>p'. (case deserialise_bytes n p of
      (None, p') \<Rightarrow> (Inr None, p') | (Some bs, p') \<Rightarrow> (bindE (g bs) (\<lambda>s. Inr (Some s)), p')) =
      (Inr (Some x), p') \<and> good_pipe p' \<and> pipe_bytes p' = rest"
    by auto
next
  fix p assume p: "good_pipe p" "strict_prefix (pipe_bytes p) bs"
  then have "length (pipe_bytes p) < n" using prefix_length_less [OF p(2)] assms by simp
  with p deserialise_bytes_short [of p n]
  show "\<exists>p'. (case deserialise_bytes n p of
      (None, p') \<Rightarrow> (Inr None, p') | (Some bs, p') \<Rightarrow> (bindE (g bs) (\<lambda>s. Inr (Some s)), p')) =
      (Inr None, p')"
    by auto
qed

interpretation str: codec serialise_string deserialise_string sendable_string xstr
proof
  fix s assume s: "sendable_string s"
  have empty: "codes deserialise_string (serialise_uint 0 @ []) []"
    unfolding deserialise_string_def by (rule uint.step) (simp_all add: codes_def)
  show "codes deserialise_string (serialise_string s) (xstr s)"
  proof (cases "s = None \<or> s = Some []")
    case True
    with empty show ?thesis by (auto simp: serialise_string_def xstr_def)
  next
    case False
    then obtain t where t: "s = Some t" "t \<noteq> []" "c_string t" "length t < 2 ^ 32 - 1"
      using s by (cases s) (auto simp: sendable_string_def)
    let ?len = "of_nat (length t) :: u32"
    have len: "unat ?len = length t" "?len \<noteq> 0" "unat (?len + 1) = length t + 1"
    proof -
      show u: "unat ?len = length t" using t(4) by (simp add: unat_of_nat_u32)
      then show "?len \<noteq> 0" using t(2) by (metis length_0_conv unsigned_0)
      have "?len + 1 = of_nat (length t + 1)" by simp
      then show "unat (?len + 1) = length t + 1" using t(4) by (metis unat_of_nat_u32 less_diff_conv)
    qed
    have "codes deserialise_string (serialise_uint ?len @ (bytes_of_string t @ [0])) t"
      unfolding deserialise_string_def
      by (rule uint.step) (use len t in \<open>simp_all add: codes_take buffer_string_back\<close>)
    then show ?thesis using t len by (simp add: serialise_string_def xstr_def)
  qed
qed

section \<open>Events through the pipe\<close>

text \<open>What arrives of an event that holds strings only.\<close>

definition wire_event :: "event_t \<Rightarrow> event_t" where
  "wire_event ev =
     ev\<lparr>ev_description := Some (xstr (ev_description ev)), ev_filename := Some (xstr (ev_filename ev)),
        ev_function := Fn_Name (case ev_function ev of Fn_Name s \<Rightarrow> s | _ \<Rightarrow> [])\<rparr>"

definition sendable_event :: "event_t \<Rightarrow> bool" where
  "sendable_event ev \<longleftrightarrow> sendable_string (ev_description ev) \<and> sendable_string (ev_filename ev) \<and>
     (case ev_function ev of
        Fn_Null \<Rightarrow> True | Fn_Name s \<Rightarrow> sendable_string (Some s) | Fn_Spiegel f \<Rightarrow> False)"

lemma event_codes:
  assumes "sendable_event ev"
  shows "\<exists>bs. serialise_event ev = Inr bs \<and> codes deserialise_event bs (wire_event ev)"
proof -
  obtain fn where fn: "fn_string (ev_function ev) = Inr fn" "sendable_string fn"
    "xstr fn = (case ev_function ev of Fn_Name s \<Rightarrow> s | _ \<Rightarrow> [])"
    using assms
    by (cases "ev_function ev") (auto simp: fn_string_def sendable_event_def xstr_def sendable_string_def)
  have "codes deserialise_event
    (serialise_uint (ev_which ev) @ serialise_string (ev_description ev) @
     serialise_uint (ev_locflags ev) @ serialise_string (ev_filename ev) @
     serialise_uint (ev_lineno ev) @ serialise_string fn @ serialise_uint (ev_functype ev) @ [])
    \<lparr>ev_which = ev_which ev, ev_description = Some (xstr (ev_description ev)), ev_locflags = ev_locflags ev,
     ev_filename = Some (xstr (ev_filename ev)), ev_lineno = ev_lineno ev, ev_function = Fn_Name (xstr fn),
     ev_functype = ev_functype ev\<rparr>"
    unfolding deserialise_event_def
    using assms fn by (intro uint.step str.step codes_return) (simp_all add: sendable_event_def)
  then show ?thesis
    using fn by (cases ev) (auto simp: serialise_event_def wire_event_def)
qed

lemma wire_event_normal:
  assumes "ev_wf ev" "\<not> flagged LT_SPIEGELFUNC ev"
  shows "ev_wf (wire_event ev)" "normal_form (wire_event ev) = normal_form ev"
proof -
  have fl: "flagged m (wire_event ev) = flagged m ev" for m
    by (simp add: flagged_def wire_event_def)
  show "ev_wf (wire_event ev)"
    using assms unfolding ev_wf_def fl by (auto simp: wire_event_def)
  show "normal_form (wire_event ev) = normal_form ev"
  proof (rule event_t.equality)
    show "ev_filename (normal_form (wire_event ev)) = ev_filename (normal_form ev)"
         "ev_function (normal_form (wire_event ev)) = ev_function (normal_form ev)"
      using assms unfolding normal_form_fields fl ev_wf_def
      by (cases "ev_function ev"; auto simp: wire_event_def xstr_def)+
  qed (simp_all add: normal_form_fields flagged_normal_form fl, simp_all add: wire_event_def xstr_def)
qed

lemma raise_event_normal:
  "ev_wf ev \<Longrightarrow> raise_event ev = Inr (normal_form ev, get_result ev)"
  using get_result_which [of "normal_form ev" ev]
  by (simp add: raise_event_def event_normalise_normal_form)

lemma handle_call_event:
  assumes "sendable_event ev" "ev_wf ev" "proxy_add_event ev = Inr bs"
    "good_pipe p" "pipe_bytes p = bs @ rest"
  obtains p' where "handle_call resp p = (Inr (True, merge resp (get_result ev), Some (normal_form ev)), p')"
    "good_pipe p'" "pipe_bytes p' = rest"
proof -
  obtain b where b: "serialise_event ev = Inr b" "codes deserialise_event b (wire_event ev)"
    using event_codes [OF assms(1)] by blast
  with assms have "pipe_bytes p = serialise_uint PROXY_EVENT @ (b @ rest)"
    by (auto simp: proxy_add_event_def)
  then obtain p1 where p1: "deserialise_uint p = (Inr (Some PROXY_EVENT), p1)" "good_pipe p1"
    "pipe_bytes p1 = b @ rest"
    by (rule codesD [OF uint_codes assms(4)])
  obtain p2 where p2: "deserialise_event p1 = (Inr (Some (wire_event ev)), p2)" "good_pipe p2"
    "pipe_bytes p2 = rest"
    by (rule codesD [OF b(2) p1(2,3)])
  have "\<not> flagged LT_SPIEGELFUNC ev"
    using assms(1,2) by (auto simp: ev_wf_def sendable_event_def)
  from wire_event_normal [OF assms(2) this] get_result_which [of "wire_event ev" ev]
  have "raise_event (wire_event ev) = Inr (normal_form ev, get_result ev)"
    by (simp add: raise_event_normal) (simp add: wire_event_def)
  with p1 p2 show ?thesis by (intro that [of p2]) (simp_all add: handle_call_def)
qed

lemma handle_call_finished:
  assumes "good_pipe p" "pipe_bytes p = proxy_end_job res @ rest"
  obtains p' where "handle_call resp p = (Inr (False, merge resp res, None), p')"
    "good_pipe p'" "pipe_bytes p' = rest"
proof -
  from assms(2) have "pipe_bytes p = serialise_uint PROXY_FINISHED @ (serialise_uint (uint_of_result res) @ rest)"
    by (simp add: proxy_end_job_def)
  then obtain p1 where p1: "deserialise_uint p = (Inr (Some PROXY_FINISHED), p1)" "good_pipe p1"
    "pipe_bytes p1 = serialise_uint (uint_of_result res) @ rest"
    by (rule codesD [OF uint_codes assms(1)])
  obtain p2 where "deserialise_uint p1 = (Inr (Some (uint_of_result res)), p2)" "good_pipe p2"
    "pipe_bytes p2 = rest"
    by (rule codesD [OF uint_codes p1(2,3)])
  with p1 show ?thesis
    by (intro that [of p2]) (simp_all add: handle_call_def PROXY_EVENT_def PROXY_FINISHED_def)
qed

lemma handle_call_no_call:
  assumes "good_pipe p" "length (pipe_bytes p) < 4"
  shows "\<exists>p'. handle_call resp p = (Inr (False, R_FAIL, None), p')"
  using deserialise_bytes_short [OF assms] by (auto simp: handle_call_def deserialise_uint_def)

lemma handle_call_truncated_body:
  assumes c: "codes d bs x" and p: "good_pipe p" "pipe_bytes p = serialise_uint w @ r" "strict_prefix r bs"
    and w: "w = PROXY_EVENT \<and> (\<forall>q q'. d q = (Inr None, q') \<longrightarrow> deserialise_event q = (Inr None, q'))
      \<or> w = PROXY_FINISHED \<and> (\<forall>q q'. d q = (Inr None, q') \<longrightarrow> deserialise_uint q = (Inr None, q'))"
  shows "\<exists>p'. handle_call resp p = (Inr (False, R_FAIL, None), p')"
proof -
  obtain p1 where p1: "deserialise_uint p = (Inr (Some w), p1)" "good_pipe p1" "pipe_bytes p1 = r"
    by (rule codesD [OF uint_codes p(1,2)])
  obtain p2 where "d p1 = (Inr None, p2)"
    using codes_truncated [OF c p1(2)] p1(3) p(3) by metis
  with p1 w show ?thesis
    by (auto simp: handle_call_def PROXY_EVENT_def PROXY_FINISHED_def)
qed

lemma prefix_uint_cases:
  assumes "strict_prefix xs (serialise_uint w @ bs)"
  obtains "length xs < 4" | r where "xs = serialise_uint w @ r" "strict_prefix r bs"
  using assms
proof (cases rule: strict_prefix_append_cases)
  case 1
  then have "length xs < 4" using prefix_length_less by (fastforce simp: serialise_uint_def)
  then show ?thesis by (rule that(1))
qed (use that(2) in blast)

text \<open>
  C5. An event raised in the child process reaches the parent's listeners exactly as the
  child normalised it, and contributes the same result, however the kernel splits the bytes
  into reads; the pipe is left at the next call.
\<close>

theorem proxy_event_faithful:
  assumes "ev_wf ev" "raise_event ev = Inr (n, res)" "sendable_event n"
  shows "\<exists>bs. proxy_add_event n = Inr bs \<and>
    (\<forall>p rest. good_pipe p \<longrightarrow> pipe_bytes p = bs @ rest \<longrightarrow>
      (\<exists>p'. handle_call resp p = (Inr (True, merge resp res, Some n), p') \<and> good_pipe p' \<and> pipe_bytes p' = rest))"
proof -
  have n: "n = normal_form ev" "res = get_result ev" using assms raise_event_normal by auto
  then have res: "get_result n = res" using get_result_which [of n ev] by simp
  have wf: "ev_wf n" and idem: "normal_form n = n"
    using n assms normal_form_wf normal_form_idem by auto
  obtain bs where "proxy_add_event n = Inr bs"
    using event_codes [OF assms(3)] by (auto simp: proxy_add_event_def)
  with handle_call_event [OF assms(3) wf, of bs _ _ resp] idem res show ?thesis by metis
qed

theorem proxy_event_faithful_witness:
  "\<exists>n bs. raise_event (in_file ''a.c'' (mk_event EV_EXNA ''n/a'')) = Inr (n, R_NOTAPPLICABLE)
     \<and> proxy_add_event n = Inr bs
     \<and> (\<exists>p'. handle_call R_PASS [Chunk bs] = (Inr (True, R_NOTAPPLICABLE, Some n), p'))"
proof -
  let ?ev = "in_file ''a.c'' (mk_event EV_EXNA ''n/a'')"
  let ?n = "normal_form ?ev"
  have wf: "ev_wf ?ev" by (intro ev_wf_build)
  have r: "raise_event ?ev = Inr (?n, R_NOTAPPLICABLE)"
    using raise_event_normal [OF wf]
    by (simp add: get_result_def in_file_def mk_event_def events_of_uint_def events_all_def)
  have "sendable_event ?n"
    unfolding sendable_event_def normal_form_fields flagged_bit
    by (simp add: in_file_def mk_event_def xstr_def sendable_string_def c_string_def NUL_def char_of_def bit_LT)
  from proxy_event_faithful [OF wf r this, of R_PASS] obtain bs where
    bs: "proxy_add_event ?n = Inr bs"
    "\<forall>p rest. good_pipe p \<longrightarrow> pipe_bytes p = bs @ rest \<longrightarrow>
      (\<exists>p'. handle_call R_PASS p = (Inr (True, merge R_PASS R_NOTAPPLICABLE, Some ?n), p')
        \<and> good_pipe p' \<and> pipe_bytes p' = rest)" by blast
  then have "bs \<noteq> []"
    by (cases "serialise_event ?n") (auto simp: proxy_add_event_def serialise_uint_def bytes_of_u32_def)
  with bs(2) [rule_format, of "[Chunk bs]" "[]"] r bs(1) show ?thesis
    by (auto simp: merge_def less_result_t_def)
qed

text \<open>
  C6. A call cut short, because the child died while writing it, ends the conversation and
  fails the test, whichever prefix of whichever call arrived.
\<close>

theorem proxy_truncated_fails:
  assumes "good_pipe p"
    and "(\<exists>ev bs. sendable_event ev \<and> proxy_add_event ev = Inr bs \<and> strict_prefix (pipe_bytes p) bs)
      \<or> (\<exists>res. strict_prefix (pipe_bytes p) (proxy_end_job res))"
  shows "\<exists>p'. handle_call resp p = (Inr (False, R_FAIL, None), p')"
  using assms(2)
proof (elim disjE exE conjE)
  fix ev bs assume ev: "sendable_event ev" "proxy_add_event ev = Inr bs" "strict_prefix (pipe_bytes p) bs"
  from event_codes [OF ev(1)] obtain b where
    b: "serialise_event ev = Inr b" "codes deserialise_event b (wire_event ev)" by blast
  with ev have "strict_prefix (pipe_bytes p) (serialise_uint PROXY_EVENT @ b)"
    by (simp add: proxy_add_event_def)
  then show ?thesis
    by (cases rule: prefix_uint_cases)
       (use handle_call_no_call [OF assms(1)] handle_call_truncated_body [OF b(2) assms(1)] in blast)+
next
  fix res assume "strict_prefix (pipe_bytes p) (proxy_end_job res)"
  then have "strict_prefix (pipe_bytes p) (serialise_uint PROXY_FINISHED @ serialise_uint (uint_of_result res))"
    by (simp add: proxy_end_job_def)
  then show ?thesis
    by (cases rule: prefix_uint_cases)
       (use handle_call_no_call [OF assms(1)] handle_call_truncated_body [OF uint_codes assms(1)] in blast)+
qed

theorem proxy_truncated_fails_witness:
  "\<exists>p'. handle_call R_PASS [Chunk [2, 0, 0, 0, 1]] = (Inr (False, R_FAIL, None), p')"
  by (rule proxy_truncated_fails)
     (simp, rule disjI2, rule exI [of _ R_PASS],
      simp add: proxy_end_job_def serialise_uint_def PROXY_FINISHED_def uint_of_result_def bytes_of_u32_def
        drop_bit_eq_div strict_prefix_def)

end
