(* ===== verification/NP_Intercept.thy ===== *)
theory NP_Intercept
  imports NP_Common
begin

unbundle bit_operations_syntax

text \<open>
  Interception of function calls: the text-patching layer of
  \<^verbatim>\<open>np/spiegel/platform/mprotect.cxx\<close> and \<^verbatim>\<open>np/spiegel/platform/linux_x86_64.cxx\<close>, the
  registry of \<^verbatim>\<open>np/spiegel/intercept.cxx\<close> and the redirections of
  \<^verbatim>\<open>np/redirect.hxx\<close>. Memory is a function from addresses to bytes and to page protections.
  The kernel, Valgrind and the page size are a record of answers, an argument of every
  operation that asks. A pointer to an intercept is its \<open>ic_id\<close>.
\<close>

section \<open>Writing to the text segment\<close>

datatype prot = PROT_RX | PROT_RW

record kernel =
  k_mprotect :: "addr_t \<Rightarrow> u64 \<Rightarrow> prot \<Rightarrow> int"
  k_page_size :: u64
  k_valgrind :: bool
  k_sigaction :: int

record machine =
  m_mem :: "addr_t \<Rightarrow> u8"
  m_prot :: "addr_t \<Rightarrow> prot"
  m_using_int3 :: bool
  m_sigaction :: bool

text \<open>\<^verbatim>\<open>mprotect\<close> over the bytes from \<open>start\<close> to \<open>stop\<close>.\<close>

definition np_mprotect :: "kernel \<Rightarrow> addr_t \<Rightarrow> u64 \<Rightarrow> prot \<Rightarrow> machine \<Rightarrow> int \<times> machine" where
  "np_mprotect k start len p m =
     (let r = k_mprotect k start len p
      in (r, if r = 0 then m\<lparr>m_prot := (\<lambda>a. if a - start < len then p else m_prot m a)\<rparr> else m))"

definition text_map_writable :: "kernel \<Rightarrow> addr_t \<Rightarrow> u64 \<Rightarrow> machine \<Rightarrow> int \<times> machine" where
  "text_map_writable k addr len m =
     (let start = page_round_down (k_page_size k) addr;
          stop = page_round_up (k_page_size k) (addr + len);
          (r, m') = np_mprotect k start (stop - start) PROT_RW m
      in if r \<noteq> 0 then (- 1, m') else (0, m'))"

definition text_restore :: "kernel \<Rightarrow> addr_t \<Rightarrow> u64 \<Rightarrow> machine \<Rightarrow> int \<times> machine" where
  "text_restore k addr len m =
     (let start = page_round_down (k_page_size k) addr;
          stop = page_round_up (k_page_size k) (addr + len);
          (r, m') = np_mprotect k start (stop - start) PROT_RX m
      in if r \<noteq> 0 then (- 1, m') else (0, m'))"

fun copy_bytes :: "addr_t \<Rightarrow> u8 list \<Rightarrow> (addr_t \<Rightarrow> u8) \<Rightarrow> addr_t \<Rightarrow> u8" where
  "copy_bytes dst [] mem = mem"
| "copy_bytes dst (b # bs) mem = copy_bytes (dst + 1) bs (mem(dst := b))"

definition text_write :: "kernel \<Rightarrow> addr_t \<Rightarrow> u8 list \<Rightarrow> machine \<Rightarrow> int \<times> machine" where
  "text_write k dst bs m =
     (let len = of_nat (length bs);
          (r, m1) = text_map_writable k dst len m
      in if r \<noteq> 0 then (r, m1)
         else text_restore k dst len (m1\<lparr>m_mem := copy_bytes dst bs (m_mem m1)\<rparr>))"

section \<open>Breakpoints\<close>

definition INSN_PUSH_RBP :: u8 where "INSN_PUSH_RBP = 0x55"
definition INSN_INT3 :: u8 where "INSN_INT3 = 0xcc"
definition INSN_HLT :: u8 where "INSN_HLT = 0xf4"

datatype inttype = UNKNOWN | PUSHBP | OTHER

record intstate_t =
  is_type :: inttype
  is_orig :: u8

definition intstate_init :: intstate_t where
  "intstate_init = \<lparr>is_type = UNKNOWN, is_orig = 0\<rparr>"

definition trap_byte :: "machine \<Rightarrow> u8" where
  "trap_byte m = (if m_using_int3 m then INSN_INT3 else INSN_HLT)"

definition install_intercept ::
  "kernel \<Rightarrow> addr_t \<Rightarrow> intstate_t \<Rightarrow> machine \<Rightarrow> int \<times> intstate_t \<times> machine" where
  "install_intercept k addr st m =
     (if addr = 0 then (- 1, st, m)
      else
        let b = m_mem m addr;
            st1 = (if b = INSN_PUSH_RBP then st\<lparr>is_type := PUSHBP\<rparr>
                   else if b = INSN_HLT \<or> b = INSN_INT3 then st
                   else st\<lparr>is_type := OTHER\<rparr>);
            st2 = st1\<lparr>is_orig := b\<rparr>;
            m1 = (if m_sigaction m then m
                  else m\<lparr>m_using_int3 := m_using_int3 m \<or> k_valgrind k\<rparr>)
        in if \<not> m_sigaction m \<and> k_sigaction k < 0 then (- 1, st2, m1)
           else
             let m2 = m1\<lparr>m_sigaction := True\<rparr>;
                 (r, m3) = text_write k addr [trap_byte m2] m2
             in if r \<noteq> 0 then (r, st2, m3) else (0, st2, m3))"

definition uninstall_intercept :: "kernel \<Rightarrow> addr_t \<Rightarrow> intstate_t \<Rightarrow> machine \<Rightarrow> int \<times> machine" where
  "uninstall_intercept k addr st m =
     (if addr = 0 then (- 1, m)
      else if m_mem m addr \<noteq> trap_byte m then (- 1, m)
      else text_write k addr [is_orig st] m)"

definition is_intercept_installed :: "addr_t \<Rightarrow> machine \<Rightarrow> bool" where
  "is_intercept_installed addr m \<longleftrightarrow> (if addr = 0 then False else m_mem m addr = trap_byte m)"

section \<open>Calls and redirections\<close>

record call_t =
  call_redirect :: addr_t
  call_retval :: u64
  call_skip :: bool

definition call_init :: call_t where
  "call_init = \<lparr>call_redirect = 0, call_retval = 0, call_skip = False\<rparr>"

definition call_set_skip :: "u64 \<Rightarrow> call_t \<Rightarrow> call_t" where
  "call_set_skip rv c = c\<lparr>call_retval := rv, call_skip := True\<rparr>"

definition call_set_redirect :: "addr_t \<Rightarrow> call_t \<Rightarrow> call_t" where
  "call_set_redirect f c = c\<lparr>call_redirect := f\<rparr>"

definition call_set_retval :: "u64 \<Rightarrow> call_t \<Rightarrow> call_t" where
  "call_set_retval rv c = c\<lparr>call_retval := rv\<rparr>"

text \<open>A \<^verbatim>\<open>redirect_t\<close>, the one kind of intercept of the program.\<close>

record intercept_t =
  ic_id :: nat
  ic_addr :: addr_t
  ic_name :: "string option"
  ic_to :: addr_t

definition ic_before :: "intercept_t \<Rightarrow> call_t \<Rightarrow> call_t" where
  "ic_before ic c = call_set_redirect (ic_to ic) c"

definition ic_after :: "intercept_t \<Rightarrow> call_t \<Rightarrow> call_t" where
  "ic_after ic c = c"

definition ic_get_name :: "intercept_t \<Rightarrow> string" where
  "ic_get_name ic = (case ic_name ic of Some n \<Rightarrow> n | None \<Rightarrow> ''(unknown)'')"

definition ic_as_string :: "intercept_t \<Rightarrow> string" where
  "ic_as_string ic = ic_get_name ic @ '' at '' @ HEX (ic_addr ic)"

section \<open>The registry\<close>

record addrstate_t =
  as_state :: intstate_t
  as_intercepts :: "intercept_t list"

definition addrstate_init :: addrstate_t where
  "addrstate_init = \<lparr>as_state = intstate_init, as_intercepts = []\<rparr>"

record ireg =
  r_installed :: "addr_t \<Rightarrow> addrstate_t option"
  r_mach :: machine

definition get_addrstate_create :: "addr_t \<Rightarrow> ireg \<Rightarrow> addrstate_t" where
  "get_addrstate_create addr s =
     (case r_installed s addr of Some as \<Rightarrow> as | None \<Rightarrow> addrstate_init)"

definition install :: "kernel \<Rightarrow> intercept_t \<Rightarrow> ireg \<Rightarrow> int \<times> ireg" where
  "install k ic s =
     (let as = get_addrstate_create (ic_addr ic) s;
          ics = as_intercepts as @ [ic]
      in if length ics = 1
         then (let (r, st, m) = install_intercept k (ic_addr ic) (as_state as) (r_mach s)
               in (r, s\<lparr>r_installed := (r_installed s)(ic_addr ic \<mapsto> \<lparr>as_state = st, as_intercepts = ics\<rparr>),
                        r_mach := m\<rparr>))
         else (0, s\<lparr>r_installed := (r_installed s)(ic_addr ic \<mapsto> as\<lparr>as_intercepts := ics\<rparr>)\<rparr>))"

fun remove_id :: "nat \<Rightarrow> intercept_t list \<Rightarrow> intercept_t list" where
  "remove_id i [] = []"
| "remove_id i (ic # ics) = (if ic_id ic = i then ics else ic # remove_id i ics)"

definition uninstall :: "kernel \<Rightarrow> intercept_t \<Rightarrow> ireg \<Rightarrow> int \<times> ireg" where
  "uninstall k ic s =
     (let as = get_addrstate_create (ic_addr ic) s;
          ics = remove_id (ic_id ic) (as_intercepts as)
      in if length ics = 0
         then (let (r, m) = uninstall_intercept k (ic_addr ic) (as_state as) (r_mach s)
               in (r, s\<lparr>r_installed := (r_installed s)(ic_addr ic := None), r_mach := m\<rparr>))
         else (0, s\<lparr>r_installed := (r_installed s)(ic_addr ic \<mapsto> as\<lparr>as_intercepts := ics\<rparr>)\<rparr>))"

definition is_installed :: "intercept_t \<Rightarrow> ireg \<Rightarrow> bool" where
  "is_installed ic s =
     (case r_installed s (ic_addr ic) of
        None \<Rightarrow> False
      | Some as \<Rightarrow> is_intercept_installed (ic_addr ic) (r_mach s))"

definition is_intercepted :: "addr_t \<Rightarrow> ireg \<Rightarrow> bool" where
  "is_intercepted addr s \<longleftrightarrow> r_installed s addr \<noteq> None"

definition get_intstate :: "addr_t \<Rightarrow> ireg \<Rightarrow> intstate_t option" where
  "get_intstate addr s = map_option as_state (r_installed s addr)"

definition dispatch_before :: "addr_t \<Rightarrow> ireg \<Rightarrow> call_t \<Rightarrow> call_t" where
  "dispatch_before addr s c =
     (case r_installed s addr of None \<Rightarrow> c | Some as \<Rightarrow> fold ic_before (as_intercepts as) c)"

definition dispatch_after :: "addr_t \<Rightarrow> ireg \<Rightarrow> call_t \<Rightarrow> call_t" where
  "dispatch_after addr s c =
     (case r_installed s addr of None \<Rightarrow> c | Some as \<Rightarrow> fold ic_after (as_intercepts as) c)"

section \<open>The signal handler and the trampoline\<close>

text \<open>
  The general registers of the interrupted call; only the ones the trampoline reads. The
  fake frame is the 28 words of \<^verbatim>\<open>frame.stack\<close> as bytes; \<open>tr_frame\<close> is its address,
  \<open>tr_after\<close> that of the label \<^verbatim>\<open>after\<close>, \<open>tr_rbp\<close> the trampoline's own frame pointer
  and \<open>tr_stack\<close> what the frame holds before it is written.
\<close>

record uctx =
  uc_rip :: u64
  uc_rsp :: u64
  uc_rbp :: u64

record tramp =
  tr_frame :: u64
  tr_after :: u64
  tr_rbp :: u64
  tr_stack :: "u8 list"

datatype siginfo = Siginfo (si_trap: bool) (si_segv: bool) (si_kernel: bool) (si_brkpt: bool) (si_pid: nat)

datatype sigaction_t = Sig_Ignore | Sig_Default | Sig_Tramp intstate_t

text \<open>
  \<^verbatim>\<open>handle_signal\<close>: return without a change, restore the default action, or arrange for
  the trampoline to run.
\<close>

definition handle_signal :: "siginfo \<Rightarrow> uctx \<Rightarrow> ireg \<Rightarrow> sigaction_t" where
  "handle_signal si uc s =
     (let m = r_mach s in
      if m_using_int3 m \<and> \<not> si_trap si \<or> \<not> m_using_int3 m \<and> \<not> si_segv si then Sig_Ignore
      else if m_using_int3 m \<and> \<not> si_kernel si \<and> \<not> si_brkpt si \<or> \<not> m_using_int3 m \<and> \<not> si_kernel si
      then Sig_Default
      else
        let rip = (if m_using_int3 m then uc_rip uc - 1 else uc_rip uc)
        in if m_mem m rip \<noteq> trap_byte m then Sig_Default
           else if si_pid si \<noteq> 0 then Sig_Ignore
           else (case get_intstate rip s of None \<Rightarrow> Sig_Default | Some st \<Rightarrow> Sig_Tramp st))"

text \<open>Storing a 64-bit word at a word index of the fake frame.\<close>

definition put_word :: "nat \<Rightarrow> u64 \<Rightarrow> u8 list \<Rightarrow> u8 list" where
  "put_word i w fr = take (8 * i) fr @ bytes_of_u64 w @ drop (8 * i + 8) fr"

definition get_word :: "nat \<Rightarrow> u8 list \<Rightarrow> u64" where
  "get_word i fr = word_of_bytes (take 8 (drop (8 * i) fr))"

text \<open>
  The arguments of an intercepted call: the first six are in registers, in the order of
  \<^verbatim>\<open>abi_regs\<close>, the others in the fake frame. Words behind the frame are not part of it: there is no value.
\<close>

definition get_arg :: "u64 list \<Rightarrow> u8 list \<Rightarrow> nat \<Rightarrow> u64 option" where
  "get_arg regs fr i =
     (if i < 6 then Some (regs ! i)
      else if 8 * (2 + (i - 6)) + 8 \<le> length fr then Some (get_word (2 + (i - 6)) fr) else None)"

definition set_arg :: "nat \<Rightarrow> u64 \<Rightarrow> u64 list \<Rightarrow> u8 list \<Rightarrow> (u64 list \<times> u8 list) option" where
  "set_arg i v regs fr =
     (if i < 6 then Some (regs[i := v], fr)
      else if 8 * (2 + (i - 6)) + 8 \<le> length fr then Some (regs, put_word (2 + (i - 6)) v fr) else None)"

text \<open>
  The frame built for the original function: where its stack pointer starts (a word index),
  its contents, the address to continue at and the text, by type of intercept.
\<close>

definition tramp_frame ::
  "kernel \<Rightarrow> tramp \<Rightarrow> intstate_t \<Rightarrow> addr_t \<Rightarrow> uctx \<Rightarrow> machine \<Rightarrow> nat \<times> u8 list \<times> u64 \<times> machine" where
  "tramp_frame k t st addr uc m =
     (let fr = tr_stack t in
      case is_type st of
        PUSHBP \<Rightarrow> (0, put_word 0 (uc_rbp uc) (put_word 1 (tr_after t) fr), addr + 1, m)
      | OTHER \<Rightarrow> (1, put_word 1 (tr_after t) fr, addr, snd (text_write k addr [is_orig st] m))
      | UNKNOWN \<Rightarrow> (2, fr, uc_rip uc, m))"

text \<open>Copying the caller's stack, from the seventh argument on, behind the return address.\<close>

definition tramp_args :: "uctx \<Rightarrow> machine \<Rightarrow> u8 list \<Rightarrow> u8 list" where
  "tramp_args uc m fr =
     (let src = uc_rsp uc + 8;
          parent_size = uc_rbp uc - src;
          n = (if parent_size < 208 then unat parent_size else 208)
      in take 16 fr @ map (\<lambda>j. m_mem m (src + of_nat j)) [0..<n] @ drop (16 + n) fr)"

definition rearm :: "kernel \<Rightarrow> intstate_t \<Rightarrow> addr_t \<Rightarrow> machine \<Rightarrow> machine" where
  "rearm k st addr m =
     (case is_type st of OTHER \<Rightarrow> snd (text_write k addr [trap_byte m] m) | _ \<Rightarrow> m)"

datatype tramp_out = Tramp_Return u64 | Tramp_Call u64 u64 "u8 list"

text \<open>
  \<^verbatim>\<open>intercept_tramp\<close> up to \<^verbatim>\<open>setcontext\<close>: return at once, or continue at an address
  with a stack pointer and the frame it points into. The caller's frame pointer in the
  context is replaced by the trampoline's first.
\<close>

definition tramp_before ::
  "kernel \<Rightarrow> tramp \<Rightarrow> intstate_t \<Rightarrow> uctx \<Rightarrow> ireg \<Rightarrow> tramp_out \<times> call_t \<times> ireg" where
  "tramp_before k t st uc0 s =
     (let m = r_mach s;
          addr = uc_rip uc0 - (if m_using_int3 m then 1 else 0);
          uc = uc0\<lparr>uc_rbp := tr_rbp t\<rparr>;
          (top, fr0, rip, m1) = tramp_frame k t st addr uc m;
          fr = tramp_args uc m1 fr0;
          rsp = tr_frame t + of_nat (8 * top);
          c = dispatch_before addr s call_init
      in if call_skip c then (Tramp_Return (call_retval c), c, s\<lparr>r_mach := rearm k st addr m1\<rparr>)
         else if call_redirect c \<noteq> 0
         then (Tramp_Call (call_redirect c)
                 (case is_type st of PUSHBP \<Rightarrow> rsp + 8 | _ \<Rightarrow> rsp) fr, c,
               s\<lparr>r_mach := rearm k st addr m1\<rparr>)
         else (Tramp_Call rip rsp fr, c, s\<lparr>r_mach := m1\<rparr>))"

text \<open>The code behind the label \<^verbatim>\<open>after\<close>, run when the called function returned \<open>rax\<close>.\<close>

definition tramp_after ::
  "kernel \<Rightarrow> intstate_t \<Rightarrow> addr_t \<Rightarrow> call_t \<Rightarrow> u64 \<Rightarrow> ireg \<Rightarrow> u64 \<times> ireg" where
  "tramp_after k st addr c rax s =
     (let s1 = s\<lparr>r_mach := rearm k st addr (r_mach s)\<rparr>;
          c1 = dispatch_after addr s1 (c\<lparr>call_retval := rax\<rparr>)
      in (call_retval c1, s1))"

section \<open>The contract of a text writer\<close>

text \<open>
  What the breakpoint code relies on: a write that reports success has changed exactly the
  byte asked for; a failed one has changed that byte or nothing; the trap configuration is
  not touched; and pages that were executable are executable again after a success.
\<close>

locale text_writer =
  fixes tw :: "addr_t \<Rightarrow> u8 \<Rightarrow> machine \<Rightarrow> int \<times> machine"
  assumes tw_success: "tw a b m = (0, m') \<Longrightarrow> m_mem m' = (m_mem m)(a := b)"
    and tw_failure: "tw a b m = (r, m') \<Longrightarrow> m_mem m' = m_mem m \<or> m_mem m' = (m_mem m)(a := b)"
    and tw_config: "tw a b m = (r, m') \<Longrightarrow> m_using_int3 m' = m_using_int3 m \<and> m_sigaction m' = m_sigaction m"
    and tw_prot: "tw a b m = (0, m') \<Longrightarrow> m_prot m x = PROT_RX \<Longrightarrow> m_prot m' x = PROT_RX"
begin

lemma tw_trap: "tw a b m = (r, m') \<Longrightarrow> trap_byte m' = trap_byte m"
  using tw_config by (simp add: trap_byte_def)

lemma tw_other: "tw a b m = (r, m') \<Longrightarrow> x \<noteq> a \<Longrightarrow> m_mem m' x = m_mem m x"
  using tw_failure by fastforce

lemma tw_back:
  assumes "tw a b m = (0, m1)" "tw a (m_mem m a) m1 = (0, m2)"
  shows "m_mem m2 = m_mem m"
  using tw_success [OF assms(1)] tw_success [OF assms(2)] by simp

end

lemma text_write_single:
  "text_write k a [b] m =
     (let (r, m1) = text_map_writable k a 1 m
      in if r \<noteq> 0 then (r, m1) else text_restore k a 1 (m1\<lparr>m_mem := (m_mem m1)(a := b)\<rparr>))"
  by (simp add: text_write_def split: prod.split)

lemmas text_layer_defs = text_write_single text_map_writable_def text_restore_def np_mprotect_def

interpretation tw: text_writer "\<lambda>a b. text_write k a [b]" for k
  by unfold_locales (auto simp: text_layer_defs Let_def split: if_splits)

text \<open>A kernel that grants every request.\<close>

definition kernel_ok :: "kernel \<Rightarrow> bool" where
  "kernel_ok k \<longleftrightarrow> (\<forall>a l p. k_mprotect k a l p = 0) \<and> 0 \<le> k_sigaction k"

lemma text_write_ok:
  assumes "kernel_ok k"
  obtains m' where "text_write k a [b] m = (0, m')"
  using assms by (auto simp: kernel_ok_def text_layer_defs Let_def)

section \<open>The registry invariant\<close>

text \<open>
  With \<open>T\<close> the text of the program without breakpoints: memory is \<open>T\<close> except for a trap at
  every registered address, whose original byte is saved; a registered address has at least
  one intercept, all of them its own; text pages are executable and not writable.
\<close>

definition handlers :: "ireg \<Rightarrow> addr_t \<Rightarrow> intercept_t list" where
  "handlers s a = (case r_installed s a of None \<Rightarrow> [] | Some as \<Rightarrow> as_intercepts as)"

text \<open>How a breakpoint treats the instruction whose first byte it replaces.\<close>

definition classify :: "u8 \<Rightarrow> inttype" where
  "classify b = (if b = INSN_PUSH_RBP then PUSHBP else if b = INSN_HLT \<or> b = INSN_INT3 then UNKNOWN else OTHER)"

definition reg_inv :: "(addr_t \<Rightarrow> u8) \<Rightarrow> ireg \<Rightarrow> bool" where
  "reg_inv T s \<longleftrightarrow>
     (\<forall>a. case r_installed s a of
        None \<Rightarrow> m_mem (r_mach s) a = T a
      | Some as \<Rightarrow> m_mem (r_mach s) a = trap_byte (r_mach s) \<and> is_orig (as_state as) = T a \<and> a \<noteq> 0 \<and>
          as_intercepts as \<noteq> [] \<and> (\<forall>ic\<in>set (as_intercepts as). ic_addr ic = a) \<and>
          m_sigaction (r_mach s) \<and> is_type (as_state as) = classify (T a)) \<and>
     (\<forall>a. m_prot (r_mach s) a = PROT_RX)"

lemma reg_inv_None: "reg_inv T s \<Longrightarrow> r_installed s a = None \<Longrightarrow> m_mem (r_mach s) a = T a"
  unfolding reg_inv_def by (elim conjE, drule spec [of _ a]) simp

lemma reg_inv_Some:
  "reg_inv T s \<Longrightarrow> r_installed s a = Some as \<Longrightarrow>
     m_mem (r_mach s) a = trap_byte (r_mach s) \<and> is_orig (as_state as) = T a \<and> a \<noteq> 0 \<and>
     as_intercepts as \<noteq> [] \<and> (\<forall>ic\<in>set (as_intercepts as). ic_addr ic = a) \<and> m_sigaction (r_mach s) \<and>
     is_type (as_state as) = classify (T a)"
  unfolding reg_inv_def by (elim conjE, drule spec [of _ a]) simp

lemma reg_invI:
  assumes "\<And>a. r_installed s a = None \<Longrightarrow> m_mem (r_mach s) a = T a"
    and "\<And>a as. r_installed s a = Some as \<Longrightarrow>
       m_mem (r_mach s) a = trap_byte (r_mach s) \<and> is_orig (as_state as) = T a \<and> a \<noteq> 0 \<and>
       as_intercepts as \<noteq> [] \<and> (\<forall>ic\<in>set (as_intercepts as). ic_addr ic = a) \<and> m_sigaction (r_mach s) \<and>
     is_type (as_state as) = classify (T a)"
    and "\<And>a. m_prot (r_mach s) a = PROT_RX"
  shows "reg_inv T s"
  using assms by (simp add: reg_inv_def split: option.split)

lemma install_intercept_ok:
  assumes "kernel_ok k" "a \<noteq> 0"
  obtains m' st' where "install_intercept k a intstate_init m = (0, st', m')" "is_orig st' = m_mem m a"
    "is_type st' = classify (m_mem m a)"
    "m_mem m' = (m_mem m)(a := trap_byte m')" "m_sigaction m'"
    "m_sigaction m \<longrightarrow> trap_byte m' = trap_byte m"
    "(\<forall>x. m_prot m x = PROT_RX) \<longrightarrow> (\<forall>x. m_prot m' x = PROT_RX)"
proof -
  define m2 where "m2 = (if m_sigaction m then m
    else m\<lparr>m_using_int3 := m_using_int3 m \<or> k_valgrind k\<rparr>)\<lparr>m_sigaction := True\<rparr>"
  obtain m3 where w: "text_write k a [trap_byte m2] m2 = (0, m3)"
    using text_write_ok [OF assms(1)] .
  have "m_mem m2 = m_mem m" "m_prot m2 = m_prot m" "m_sigaction m2"
    "m_sigaction m \<longrightarrow> trap_byte m2 = trap_byte m"
    by (auto simp: m2_def trap_byte_def)
  moreover have "\<not> k_sigaction k < 0" using assms(1) by (simp add: kernel_ok_def)
  ultimately show ?thesis
    using w tw.tw_success [OF w] tw.tw_trap [OF w] tw.tw_config [OF w] tw.tw_prot [OF w] assms(2)
    by (intro that [of "\<lparr>is_type = classify (m_mem m a), is_orig = m_mem m a\<rparr>" m3])
       (auto simp: install_intercept_def Let_def m2_def intstate_init_def classify_def)
qed

lemma install_inv:
  assumes inv: "reg_inv T s" and k: "kernel_ok k" and a: "ic_addr ic \<noteq> 0"
  obtains s' where "install k ic s = (0, s')" "reg_inv T s'"
    "handlers s' = (handlers s)(ic_addr ic := handlers s (ic_addr ic) @ [ic])"
proof (cases "r_installed s (ic_addr ic)")
  case None
  obtain m' st' where i: "install_intercept k (ic_addr ic) intstate_init (r_mach s) = (0, st', m')"
    "is_orig st' = m_mem (r_mach s) (ic_addr ic)" "is_type st' = classify (m_mem (r_mach s) (ic_addr ic))"
    "m_mem m' = (m_mem (r_mach s))(ic_addr ic := trap_byte m')"
    "m_sigaction m'" "m_sigaction (r_mach s) \<longrightarrow> trap_byte m' = trap_byte (r_mach s)"
    "(\<forall>x. m_prot (r_mach s) x = PROT_RX) \<longrightarrow> (\<forall>x. m_prot m' x = PROT_RX)"
    using install_intercept_ok [OF k a] by metis
  let ?s = "s\<lparr>r_installed := (r_installed s)(ic_addr ic \<mapsto> \<lparr>as_state = st', as_intercepts = [ic]\<rparr>),
    r_mach := m'\<rparr>"
  have "install k ic s = (0, ?s)"
    using None i(1) by (simp add: install_def get_addrstate_create_def addrstate_init_def)
  moreover have "reg_inv T ?s"
  proof (rule reg_invI)
    show "r_installed ?s x = None \<Longrightarrow> m_mem (r_mach ?s) x = T x" for x
      using reg_inv_None [OF inv, of x] i(4) by (auto split: if_splits)
    show "m_prot (r_mach ?s) x = PROT_RX" for x
      using inv i(7) by (simp add: reg_inv_def)
  qed (use reg_inv_Some [OF inv] reg_inv_None [OF inv None] i a in \<open>auto split: if_splits\<close>)
  moreover have "handlers ?s = (handlers s)(ic_addr ic := handlers s (ic_addr ic) @ [ic])"
    using None by (auto simp: handlers_def)
  ultimately show ?thesis by (rule that)
next
  case (Some as)
  let ?s = "s\<lparr>r_installed := (r_installed s)(ic_addr ic \<mapsto> as\<lparr>as_intercepts := as_intercepts as @ [ic]\<rparr>)\<rparr>"
  note I = reg_inv_Some [OF inv Some]
  have "install k ic s = (0, ?s)"
    using Some I by (simp add: install_def get_addrstate_create_def Let_def)
  moreover have "reg_inv T ?s"
    by (rule reg_invI)
       (use reg_inv_None [OF inv] reg_inv_Some [OF inv] inv I in \<open>auto simp: reg_inv_def split: if_splits\<close>)
  moreover have "handlers ?s = (handlers s)(ic_addr ic := handlers s (ic_addr ic) @ [ic])"
    using Some by (auto simp: handlers_def)
  ultimately show ?thesis by (rule that)
qed

lemma uninstall_intercept_ok:
  assumes "kernel_ok k" "a \<noteq> 0" "m_mem m a = trap_byte m"
  obtains m' where "uninstall_intercept k a st m = (0, m')" "m_mem m' = (m_mem m)(a := is_orig st)"
    "m_sigaction m' = m_sigaction m" "trap_byte m' = trap_byte m"
    "(\<forall>x. m_prot m x = PROT_RX) \<longrightarrow> (\<forall>x. m_prot m' x = PROT_RX)"
proof -
  obtain m' where w: "text_write k a [is_orig st] m = (0, m')"
    using text_write_ok [OF assms(1)] .
  then show ?thesis
    using tw.tw_success [OF w] tw.tw_trap [OF w] tw.tw_config [OF w] tw.tw_prot [OF w] assms
    by (intro that [of m']) (simp_all add: uninstall_intercept_def)
qed

lemma remove_id_subset: "set (remove_id i ics) \<subseteq> set ics"
  by (induction ics) auto

lemma remove_id_append: "ic_id ic \<notin> ic_id ` set ics \<Longrightarrow> remove_id (ic_id ic) (ics @ [ic]) = ics"
  by (induction ics) auto

lemma uninstall_inv:
  assumes inv: "reg_inv T s" and k: "kernel_ok k" and ic: "ic \<in> set (handlers s (ic_addr ic))"
  obtains s' where "uninstall k ic s = (0, s')" "reg_inv T s'"
    "handlers s' = (handlers s)(ic_addr ic := remove_id (ic_id ic) (handlers s (ic_addr ic)))"
proof -
  obtain as where as: "r_installed s (ic_addr ic) = Some as"
    using ic by (cases "r_installed s (ic_addr ic)") (auto simp: handlers_def)
  note I = reg_inv_Some [OF inv as]
  let ?ics = "remove_id (ic_id ic) (as_intercepts as)"
  show ?thesis
  proof (cases "?ics = []")
    case True
    obtain m' where u: "uninstall_intercept k (ic_addr ic) (as_state as) (r_mach s) = (0, m')"
      "m_mem m' = (m_mem (r_mach s))(ic_addr ic := is_orig (as_state as))"
      "m_sigaction m' = m_sigaction (r_mach s)" "trap_byte m' = trap_byte (r_mach s)"
      "(\<forall>x. m_prot (r_mach s) x = PROT_RX) \<longrightarrow> (\<forall>x. m_prot m' x = PROT_RX)"
      using uninstall_intercept_ok [OF k] I by metis
    let ?s = "s\<lparr>r_installed := (r_installed s)(ic_addr ic := None), r_mach := m'\<rparr>"
    have "uninstall k ic s = (0, ?s)"
      using as True u(1) by (simp add: uninstall_def get_addrstate_create_def)
    moreover have "reg_inv T ?s"
    proof (rule reg_invI)
      show "m_prot (r_mach ?s) x = PROT_RX" for x
        using inv u(5) by (simp add: reg_inv_def)
    qed (use reg_inv_None [OF inv] reg_inv_Some [OF inv] I u in \<open>auto split: if_splits\<close>)
    moreover have "handlers ?s = (handlers s)(ic_addr ic := remove_id (ic_id ic) (handlers s (ic_addr ic)))"
      using as True by (auto simp: handlers_def)
    ultimately show ?thesis by (rule that)
  next
    case False
    let ?s = "s\<lparr>r_installed := (r_installed s)(ic_addr ic \<mapsto> as\<lparr>as_intercepts := ?ics\<rparr>)\<rparr>"
    have "uninstall k ic s = (0, ?s)"
      using as False by (simp add: uninstall_def get_addrstate_create_def Let_def)
    moreover have "reg_inv T ?s"
      by (rule reg_invI)
         (use reg_inv_None [OF inv] reg_inv_Some [OF inv] inv I False remove_id_subset [of "ic_id ic" "as_intercepts as"]
           in \<open>auto simp: reg_inv_def split: if_splits\<close>)
    moreover have "handlers ?s = (handlers s)(ic_addr ic := remove_id (ic_id ic) (handlers s (ic_addr ic)))"
      using as by (auto simp: handlers_def)
    ultimately show ?thesis by (rule that)
  qed
qed

section \<open>Sequences of operations\<close>

datatype iop = Install intercept_t | Uninstall intercept_t

fun run_iop :: "kernel \<Rightarrow> iop \<Rightarrow> ireg \<Rightarrow> int \<times> ireg" where
  "run_iop k (Install ic) s = install k ic s"
| "run_iop k (Uninstall ic) s = uninstall k ic s"

text \<open>The abstract registry: for each address the intercepts in force, in the order of installation.\<close>

fun abs_iop :: "iop \<Rightarrow> (addr_t \<Rightarrow> intercept_t list) \<Rightarrow> addr_t \<Rightarrow> intercept_t list" where
  "abs_iop (Install ic) h = h(ic_addr ic := h (ic_addr ic) @ [ic])"
| "abs_iop (Uninstall ic) h = h(ic_addr ic := remove_id (ic_id ic) (h (ic_addr ic)))"

fun iop_ok :: "iop \<Rightarrow> (addr_t \<Rightarrow> intercept_t list) \<Rightarrow> bool" where
  "iop_ok (Install ic) h \<longleftrightarrow> ic_addr ic \<noteq> 0"
| "iop_ok (Uninstall ic) h \<longleftrightarrow> ic \<in> set (h (ic_addr ic))"

definition ireg_start :: "(addr_t \<Rightarrow> u8) \<Rightarrow> ireg \<Rightarrow> bool" where
  "ireg_start T s \<longleftrightarrow> r_installed s = Map.empty \<and> m_mem (r_mach s) = T \<and> (\<forall>a. m_prot (r_mach s) a = PROT_RX)"

inductive ireachable :: "kernel \<Rightarrow> ireg \<Rightarrow> ireg \<Rightarrow> bool" for k s0 where
  start: "ireachable k s0 s0"
| step: "ireachable k s0 s \<Longrightarrow> iop_ok op (handlers s) \<Longrightarrow> run_iop k op s = (r, s') \<Longrightarrow> ireachable k s0 s'"

lemma run_iop_inv:
  assumes "reg_inv T s" "kernel_ok k" "iop_ok op (handlers s)"
  obtains s' where "run_iop k op s = (0, s')" "reg_inv T s'" "handlers s' = abs_iop op (handlers s)"
proof (cases op)
  case (Install ic)
  with assms install_inv [OF assms(1,2), of ic] that show ?thesis by auto
next
  case (Uninstall ic)
  with assms uninstall_inv [OF assms(1,2), of ic] that show ?thesis by auto
qed

lemma ireachable_inv:
  assumes "kernel_ok k" "ireg_start T s0" "ireachable k s0 s"
  shows "reg_inv T s"
  using assms(3)
proof induction
  case start
  then show ?case using assms(2) by (simp add: reg_inv_def ireg_start_def)
next
  case (step s op r s')
  then show ?case using run_iop_inv [OF step.IH assms(1) step.hyps(2)] by auto
qed

lemma reg_inv_no_handlers:
  assumes "reg_inv T s" "\<forall>a. handlers s a = []"
  shows "m_mem (r_mach s) = T" "r_installed s = Map.empty"
proof -
  have none: "r_installed s a = None" for a
    using assms(2) [rule_format, of a] reg_inv_Some [OF assms(1), of a] by (cases "r_installed s a") (auto simp: handlers_def)
  then show "r_installed s = Map.empty" by auto
  show "m_mem (r_mach s) = T" using reg_inv_None [OF assms(1)] none by auto
qed

text \<open>
  C9. Whatever intercepts are installed and removed, in whatever order, the program text
  differs from the original exactly in a trap byte at each intercepted address, text pages
  end executable and not writable, every operation succeeds and acts on the abstract
  registry as specified; once no intercept is left, the text is the original text.
\<close>

theorem intercepts_preserve_text:
  assumes "kernel_ok k" "ireg_start T s0" "ireachable k s0 s"
  shows "(\<forall>a. m_mem (r_mach s) a = (if handlers s a = [] then T a else trap_byte (r_mach s)))
    \<and> (\<forall>a. m_prot (r_mach s) a = PROT_RX)
    \<and> (\<forall>op. iop_ok op (handlers s) \<longrightarrow>
         fst (run_iop k op s) = 0 \<and> handlers (snd (run_iop k op s)) = abs_iop op (handlers s))
    \<and> ((\<forall>a. handlers s a = []) \<longrightarrow> m_mem (r_mach s) = T \<and> r_installed s = Map.empty)"
proof (intro conjI allI impI)
  note inv = ireachable_inv [OF assms]
  show "m_mem (r_mach s) a = (if handlers s a = [] then T a else trap_byte (r_mach s))" for a
    using reg_inv_None [OF inv, of a] reg_inv_Some [OF inv, of a]
    by (cases "r_installed s a") (auto simp: handlers_def)
  show "m_prot (r_mach s) a = PROT_RX" for a using inv by (simp add: reg_inv_def)
  fix op assume op: "iop_ok op (handlers s)"
  obtain s' where "run_iop k op s = (0, s')" "handlers s' = abs_iop op (handlers s)"
    using run_iop_inv [OF inv assms(1) op] .
  then show "fst (run_iop k op s) = 0" "handlers (snd (run_iop k op s)) = abs_iop op (handlers s)"
    by simp_all
next
  note inv = ireachable_inv [OF assms]
  assume "\<forall>a. handlers s a = []"
  with reg_inv_no_handlers [OF inv] show "m_mem (r_mach s) = T" "r_installed s = Map.empty" by auto
qed

text \<open>A kernel and a program in which one function is mocked, for the evaluations below.\<close>

definition demo_kernel :: kernel where
  "demo_kernel = \<lparr>k_mprotect = (\<lambda>a l p. 0), k_page_size = 4096, k_valgrind = False, k_sigaction = 0\<rparr>"

definition demo_ireg :: ireg where
  "demo_ireg = \<lparr>r_installed = Map.empty,
     r_mach = \<lparr>m_mem = (\<lambda>a. 0x55), m_prot = (\<lambda>a. PROT_RX), m_using_int3 = False, m_sigaction = False\<rparr>\<rparr>"

definition demo_mock :: intercept_t where
  "demo_mock = \<lparr>ic_id = 1, ic_addr = 0x1000, ic_name = None, ic_to = 0x2000\<rparr>"

lemma demo_ok: "kernel_ok demo_kernel" "ireg_start (\<lambda>a. 0x55) demo_ireg"
  by (simp_all add: kernel_ok_def demo_kernel_def ireg_start_def demo_ireg_def)

theorem intercepts_preserve_text_witness:
  "m_mem (r_mach (snd (install demo_kernel demo_mock demo_ireg))) 0x1001 = 0x55
   \<and> fst (install demo_kernel demo_mock demo_ireg) = 0"
proof -
  have ok: "iop_ok (Install demo_mock) (handlers demo_ireg)" by (simp add: demo_mock_def)
  let ?s = "snd (run_iop demo_kernel (Install demo_mock) demo_ireg)"
  have r: "ireachable demo_kernel demo_ireg ?s"
    by (rule ireachable.step [OF ireachable.start ok]) (rule surjective_pairing)
  have h: "fst (run_iop demo_kernel (Install demo_mock) demo_ireg) = 0"
    "handlers ?s = abs_iop (Install demo_mock) (handlers demo_ireg)"
    using intercepts_preserve_text [OF demo_ok ireachable.start] ok by blast+
  then have "handlers ?s 0x1001 = []"
    by (simp add: handlers_def demo_ireg_def demo_mock_def)
  with intercepts_preserve_text [OF demo_ok r] h show ?thesis by simp
qed

section \<open>Intercepted calls\<close>

lemma fold_before: "fold ic_before ics c = (if ics = [] then c else c\<lparr>call_redirect := ic_to (last ics)\<rparr>)"
  by (induction ics arbitrary: c) (auto simp: ic_before_def call_set_redirect_def)

lemma fold_after: "fold ic_after ics c = c"
  by (induction ics arbitrary: c) (auto simp: ic_after_def)

lemma dispatch_before_last:
  "dispatch_before a s c = (if handlers s a = [] then c else c\<lparr>call_redirect := ic_to (last (handlers s a))\<rparr>)"
  by (simp add: dispatch_before_def handlers_def fold_before split: option.split)

lemma dispatch_after_id: "dispatch_after a s c = c"
  by (simp add: dispatch_after_def fold_after split: option.split)

lemma length_put_word [simp]: "8 * i + 8 \<le> length fr \<Longrightarrow> length (put_word i w fr) = length fr"
  by (simp add: put_word_def)

lemma get_put_word:
  assumes "8 * i + 8 \<le> length fr"
  shows "get_word i (put_word i w fr) = w"
proof -
  have "drop (8 * i) (put_word i w fr) = bytes_of_u64 w @ drop (8 * i + 8) fr"
    using assms by (simp add: put_word_def)
  then show ?thesis by (simp add: get_word_def)
qed

lemma get_put_word_0_1:
  assumes "16 \<le> length fr"
  shows "get_word 1 (put_word 0 w fr) = get_word 1 fr"
proof -
  have "drop 8 (put_word 0 w fr) = drop 8 fr" using assms by (simp add: put_word_def)
  then show ?thesis by (simp add: get_word_def)
qed

lemma nth_put_word:
  "8 * i + 8 \<le> length fr \<Longrightarrow> k < length fr \<Longrightarrow> k < 8 * i \<or> 8 * i + 8 \<le> k \<Longrightarrow> put_word i w fr ! k = fr ! k"
  by (auto simp: put_word_def nth_append min_def)

lemma get_put_word_other:
  assumes "i \<noteq> j" "8 * i + 8 \<le> length fr" "8 * j + 8 \<le> length fr"
  shows "get_word j (put_word i w fr) = get_word j fr"
proof -
  have "take 8 (drop (8 * j) (put_word i w fr)) = take 8 (drop (8 * j) fr)"
    using assms by (intro nth_equalityI) (auto intro!: nth_put_word)
  then show ?thesis by (simp add: get_word_def)
qed

text \<open>Setting an argument sets that argument and no other one.\<close>

lemma get_set_arg:
  assumes "set_arg i v regs fr = Some (regs', fr')" "length regs = 6"
  shows "get_arg regs' fr' j = (if j = i then Some v else get_arg regs fr j)"
proof (cases "i < 6")
  case True
  with assms show ?thesis by (auto simp: set_arg_def get_arg_def)
next
  case False
  define n where "n = 2 + (i - 6)"
  have le: "8 * n + 8 \<le> length fr" and r: "regs' = regs" "fr' = put_word n v fr"
    using assms(1) False by (auto simp: set_arg_def n_def split: if_splits)
  have "get_arg regs' fr' j = (if 2 + (j - 6) = n then Some v else get_arg regs fr j)" if "\<not> j < 6"
    using le that by (auto simp: get_arg_def r get_put_word get_put_word_other simp del: add_2_eq_Suc)
  moreover have "2 + (j - 6) = n \<longleftrightarrow> j = i" if "\<not> j < 6" using that False by (auto simp: n_def)
  ultimately show ?thesis using False by (cases "j < 6") (auto simp: get_arg_def r)
qed
lemma get_word_args:
  assumes "length fr = 224" "i < 2"
  shows "get_word i (tramp_args uc m fr) = get_word i fr"
proof -
  have "take 16 (tramp_args uc m fr) = take 16 fr"
    using assms by (simp add: tramp_args_def Let_def)
  moreover have "take 8 (drop (8 * i) xs) = take 8 (drop (8 * i) (take 16 xs))" for xs :: "u8 list"
    using assms(2) by (cases "i = 0") (simp_all add: drop_take less_2_cases_iff)
  ultimately show ?thesis by (metis get_word_def)
qed

lemma rearm_known:
  assumes "kernel_ok k" "m_mem m a = trap_byte m" "is_type st = OTHER \<Longrightarrow> is_orig st = x"
  shows "m_mem (rearm k st a (case is_type st of OTHER \<Rightarrow> snd (text_write k a [x] m) | _ \<Rightarrow> m)) = m_mem m"
proof (cases "is_type st")
  case OTHER
  obtain m1 where w1: "text_write k a [x] m = (0, m1)" using text_write_ok [OF assms(1)] .
  obtain m2 where w2: "text_write k a [trap_byte m1] m1 = (0, m2)" using text_write_ok [OF assms(1)] .
  show ?thesis
    using OTHER w1 w2 tw.tw_success [OF w1] tw.tw_success [OF w2] tw.tw_trap [OF w1] assms(2)
    by (simp add: rearm_def fun_upd_idem)
qed (simp_all add: rearm_def)

lemma handle_signal_tramp:
  assumes "reg_inv T s" "r_installed s a = Some as"
    "uc_rip uc = (if m_using_int3 (r_mach s) then a + 1 else a)"
    "si = Siginfo (m_using_int3 (r_mach s)) (\<not> m_using_int3 (r_mach s)) True False 0"
  shows "handle_signal si uc s = Sig_Tramp (as_state as)"
  using reg_inv_Some [OF assms(1,2)] assms(2-) by (simp add: handle_signal_def get_intstate_def Let_def)

text \<open>
  C10. A call of a mocked function traps into the trampoline, which continues at the mock
  installed last for that address, with a stack pointer that points at the return address
  of the trampoline, whatever kind of first instruction the function has; the breakpoint is
  in place while the mock runs.
\<close>

theorem mocked_call_redirects:
  assumes "kernel_ok k" "ireg_start T s0" "ireachable k s0 s"
    and a: "handlers s a \<noteq> []" "T a \<noteq> INSN_HLT" "T a \<noteq> INSN_INT3"
    and mock: "ic_to (last (handlers s a)) \<noteq> 0"
    and uc: "uc_rip uc = (if m_using_int3 (r_mach s) then a + 1 else a)"
    and si: "si = Siginfo (m_using_int3 (r_mach s)) (\<not> m_using_int3 (r_mach s)) True False 0"
    and stk: "length (tr_stack t) = 224"
  shows "\<exists>st fr s' c. handle_signal si uc s = Sig_Tramp st
    \<and> tramp_before k t st uc s = (Tramp_Call (ic_to (last (handlers s a))) (tr_frame t + 8) fr, c, s')
    \<and> get_word 1 fr = tr_after t
    \<and> m_mem (r_mach s') = m_mem (r_mach s) \<and> handlers s' = handlers s"
proof -
  note inv = ireachable_inv [OF assms(1-3)]
  obtain as where as: "r_installed s a = Some as"
    using a(1) by (cases "r_installed s a") (auto simp: handlers_def)
  note I = reg_inv_Some [OF inv as]
  let ?st = "as_state as" and ?m = "r_mach s" and ?uc = "uc\<lparr>uc_rbp := tr_rbp t\<rparr>"
  have ty: "is_type ?st = PUSHBP \<or> is_type ?st = OTHER"
    using I a(2,3) by (auto simp: classify_def)
  obtain top fr0 rip m1 where f: "tramp_frame k t ?st a ?uc ?m = (top, fr0, rip, m1)"
    by (metis prod_cases4)
  have fr: "get_word 1 fr0 = tr_after t" "length fr0 = 224"
    and top: "top = (if is_type ?st = PUSHBP then 0 else 1)"
    and m1: "m1 = (case is_type ?st of OTHER \<Rightarrow> snd (text_write k a [is_orig ?st] ?m) | _ \<Rightarrow> ?m)"
    using f ty stk by (auto simp: tramp_frame_def get_put_word get_put_word_0_1 [unfolded One_nat_def])
  have mem: "m_mem (rearm k ?st a m1) = m_mem ?m"
    unfolding m1 by (rule rearm_known [OF assms(1)]) (use I in simp_all)
  have c: "dispatch_before a s call_init = call_init\<lparr>call_redirect := ic_to (last (handlers s a))\<rparr>"
    using a(1) by (simp add: dispatch_before_last)
  have addr: "uc_rip uc - (if m_using_int3 ?m then 1 else 0) = a" using uc by simp
  have "tramp_before k t ?st uc s =
    (Tramp_Call (ic_to (last (handlers s a))) (tr_frame t + 8) (tramp_args ?uc m1 fr0),
     call_init\<lparr>call_redirect := ic_to (last (handlers s a))\<rparr>, s\<lparr>r_mach := rearm k ?st a m1\<rparr>)"
    unfolding tramp_before_def Let_def addr f c
    using mock top ty by (auto simp: call_init_def)
  moreover have "handlers (s\<lparr>r_mach := rearm k ?st a m1\<rparr>) = handlers s"
    by (auto simp: handlers_def)
  ultimately show ?thesis
    using handle_signal_tramp [OF inv as uc si] mem fr by (auto simp: get_word_args)
qed

definition demo_mocked :: ireg where
  "demo_mocked = snd (install demo_kernel demo_mock demo_ireg)"

definition demo_tramp :: tramp where
  "demo_tramp = \<lparr>tr_frame = 0x7000, tr_after = 0x400, tr_rbp = 0x7100, tr_stack = replicate 224 0\<rparr>"

lemma demo_mocked_simps:
  "ireachable demo_kernel demo_ireg demo_mocked" "handlers demo_mocked 0x1000 = [demo_mock]"
  "m_using_int3 (r_mach demo_mocked) = False"
proof -
  have ok: "iop_ok (Install demo_mock) (handlers demo_ireg)" by (simp add: demo_mock_def)
  show "ireachable demo_kernel demo_ireg demo_mocked"
    unfolding demo_mocked_def
    by (rule ireachable.step [OF ireachable.start ok, where r = "fst (install demo_kernel demo_mock demo_ireg)"]) simp
  show "handlers demo_mocked 0x1000 = [demo_mock]" "m_using_int3 (r_mach demo_mocked) = False"
    by (simp_all add: demo_mocked_def install_def get_addrstate_create_def demo_ireg_def demo_mock_def
        install_intercept_def demo_kernel_def addrstate_init_def intstate_init_def handlers_def
        text_layer_defs Let_def INSN_PUSH_RBP_def)
qed

theorem mocked_call_redirects_witness:
  "\<exists>st fr s' c.
     tramp_before demo_kernel demo_tramp st \<lparr>uc_rip = 0x1000, uc_rsp = 0, uc_rbp = 0\<rparr> demo_mocked =
       (Tramp_Call 0x2000 0x7008 fr, c, s') \<and> get_word 1 fr = 0x400"
  using mocked_call_redirects [OF demo_ok demo_mocked_simps(1), of "0x1000"
      "\<lparr>uc_rip = 0x1000, uc_rsp = 0, uc_rbp = 0\<rparr>" "Siginfo False True True False 0" demo_tramp]
  unfolding demo_mocked_simps(2,3)
  by (simp add: INSN_HLT_def INSN_INT3_def demo_mock_def demo_tramp_def) blast

end
