(* ===== verification/NP_Testnode.thy ===== *)
theory NP_Testnode
  imports NP_Event NP_Filename NP_Intercept
begin

text \<open>
  \<^verbatim>\<open>np/testnode.hxx\<close> and \<^verbatim>\<open>np/testnode.cxx\<close>: the tree of test nodes, fixtures, parameters
  and mocks. A tree is a value; the \<^verbatim>\<open>children_\<close>/\<^verbatim>\<open>next_\<close> chain of a node is the
  list of its children, and a node pointer is a position, the list of child indices that
  leads to it from the root; \<^verbatim>\<open>parent_\<close> drops the last index. Every node below a root is
  made by \<^verbatim>\<open>make_path\<close> and has a name.
\<close>

section \<open>Data\<close>

record parameter_t =
  pm_name :: string
  pm_variable :: addr_t
  pm_values :: "string list"

datatype testnode_t = Testnode
  (tn_name: "string option")
  (tn_funcs: "functype_t \<Rightarrow> function_t option")
  (tn_intercepts: "intercept_t list")
  (tn_parameters: "parameter_t list")
  (tn_children: "testnode_t list")

type_synonym pos = "nat list"

definition testnode_new :: "string option \<Rightarrow> testnode_t" where
  "testnode_new name = Testnode name (\<lambda>ft. None) [] [] []"

text \<open>Following a position, and replacing the node there.\<close>

fun node_at :: "testnode_t \<Rightarrow> pos \<Rightarrow> testnode_t option" where
  "node_at n [] = Some n"
| "node_at n (i # p) =
     (if i < length (tn_children n) then node_at (tn_children n ! i) p else None)"

fun set_children :: "testnode_t list \<Rightarrow> testnode_t \<Rightarrow> testnode_t" where
  "set_children cs (Testnode nm fs is ps _) = Testnode nm fs is ps cs"

fun update_at :: "pos \<Rightarrow> (testnode_t \<Rightarrow> testnode_t) \<Rightarrow> testnode_t \<Rightarrow> testnode_t" where
  "update_at [] f n = f n"
| "update_at (i # p) f n =
     (if i < length (tn_children n)
      then set_children ((tn_children n)[i := update_at p f (tn_children n ! i)]) n
      else n)"

text \<open>The nodes from a node up to the root, innermost first: the loops over \<^verbatim>\<open>parent_\<close>.\<close>

fun ancestors :: "testnode_t \<Rightarrow> pos \<Rightarrow> testnode_t list" where
  "ancestors n [] = [n]"
| "ancestors n (i # p) =
     (if i < length (tn_children n) then ancestors (tn_children n ! i) p @ [n] else [])"

section \<open>Building the tree\<close>

fun child_index :: "string \<Rightarrow> testnode_t list \<Rightarrow> nat option" where
  "child_index part [] = None"
| "child_index part (c # cs) =
     (if tn_name c = Some part then Some 0 else map_option Suc (child_index part cs))"

fun make_parts :: "string list \<Rightarrow> testnode_t \<Rightarrow> testnode_t \<times> pos" where
  "make_parts [] n = (n, [])"
| "make_parts (part # parts) n =
     (case child_index part (tn_children n) of
        Some i \<Rightarrow>
          (let (c, p) = make_parts parts (tn_children n ! i)
           in (set_children ((tn_children n)[i := c]) n, i # p))
      | None \<Rightarrow>
          (let (c, p) = make_parts parts (testnode_new (Some part))
           in (set_children (tn_children n @ [c]) n, length (tn_children n) # p)))"

text \<open>
  \<^verbatim>\<open>make_path\<close>: a name without any component leaves the local variable that is returned
  uninitialised.
\<close>

definition make_path :: "string \<Rightarrow> testnode_t \<Rightarrow> np_error + testnode_t \<times> pos" where
  "make_path name n =
     (let parts = tokens ''/'' name
      in if parts = [] then Inl Bad_Pointer else Inr (make_parts parts n))"

fun set_function :: "functype_t \<Rightarrow> function_t \<Rightarrow> testnode_t \<Rightarrow> np_error + testnode_t" where
  "set_function ft f (Testnode nm fs is ps cs) =
     (if functype_ord ft \<ge> 4 then Inl Out_Of_Range
      else case fs ft of
        Some g \<Rightarrow> Inr (Testnode nm fs is ps cs)
      | None \<Rightarrow> Inr (Testnode nm (fs(ft \<mapsto> f)) is ps cs))"

definition get_function :: "testnode_t \<Rightarrow> functype_t \<Rightarrow> np_error + function_t option" where
  "get_function n ft = (if functype_ord ft \<ge> 4 then Inl Out_Of_Range else Inr (tn_funcs n ft))"

fun add_intercept :: "intercept_t \<Rightarrow> testnode_t \<Rightarrow> testnode_t" where
  "add_intercept ic (Testnode nm fs is ps cs) = Testnode nm fs (is @ [ic]) ps cs"

text \<open>
  The constructor of \<^verbatim>\<open>redirect_t\<close> asks the DWARF state for the address to instrument;
  \<open>instr\<close> is that function and \<open>nid\<close> the new object.
\<close>

definition add_mock ::
  "(addr_t \<Rightarrow> addr_t) \<Rightarrow> nat \<Rightarrow> addr_t \<Rightarrow> string option \<Rightarrow> addr_t \<Rightarrow> testnode_t \<Rightarrow> testnode_t" where
  "add_mock instr nid target name mock n =
     add_intercept \<lparr>ic_id = nid, ic_addr = instr target, ic_name = name, ic_to = mock\<rparr> n"

definition mk_parameter :: "string \<Rightarrow> addr_t \<Rightarrow> string \<Rightarrow> parameter_t" where
  "mk_parameter n v vals = \<lparr>pm_name = n, pm_variable = v, pm_values = tokens [CHR '','', CHR '' '', CHR 0x09] vals\<rparr>"

fun add_parameter :: "string \<Rightarrow> addr_t \<Rightarrow> string \<Rightarrow> testnode_t \<Rightarrow> testnode_t" where
  "add_parameter name var vals (Testnode nm fs is ps cs) =
     Testnode nm fs is (ps @ [mk_parameter name var vals]) cs"

section \<open>Names and searching\<close>

fun fullname_loop :: "bool \<Rightarrow> string \<Rightarrow> testnode_t list \<Rightarrow> string" where
  "fullname_loop at_this full [] = full"
| "fullname_loop at_this full (a # as) =
     (case tn_name a of
        None \<Rightarrow> fullname_loop False full as
      | Some nm \<Rightarrow> fullname_loop False (nm @ (if at_this then full else CHR ''.'' # full)) as)"

definition get_fullname :: "testnode_t \<Rightarrow> pos \<Rightarrow> string" where
  "get_fullname root p = fullname_loop True [] (ancestors root p)"

fun find_from :: "testnode_t \<Rightarrow> string \<Rightarrow> pos \<Rightarrow> testnode_t \<Rightarrow> pos option"
  and find_children :: "testnode_t \<Rightarrow> string \<Rightarrow> pos \<Rightarrow> nat \<Rightarrow> testnode_t list \<Rightarrow> pos option" where
  "find_from root nm p (Testnode name fs is ps cs) =
     (if name \<noteq> None \<and> get_fullname root p = nm then Some p
      else find_children root nm p 0 cs)"
| "find_children root nm p i [] = None"
| "find_children root nm p i (c # cs) =
     (case find_from root nm (p @ [i]) c of
        Some q \<Rightarrow> Some q
      | None \<Rightarrow> find_children root nm p (Suc i) cs)"

definition find_node :: "testnode_t \<Rightarrow> string \<Rightarrow> pos option" where
  "find_node root nm = find_from root nm [] root"

section \<open>Detaching the common prefix\<close>

definition is_elidable :: "testnode_t \<Rightarrow> bool" where
  "is_elidable n \<longleftrightarrow>
     (if length (tn_intercepts n) > 0 then False
      else if length (tn_parameters n) > 0 then False
      else if tn_funcs n FT_BEFORE \<noteq> None \<or> tn_funcs n FT_TEST \<noteq> None \<or> tn_funcs n FT_AFTER \<noteq> None then False
      else if length (tn_children n) > 1 then False
      else True)"

text \<open>
  The walk down the chain of elidable nodes; \<open>up\<close> is the parent of the node reached, if any.
\<close>

function elide_walk :: "testnode_t option \<Rightarrow> testnode_t \<Rightarrow> testnode_t option \<times> testnode_t" where
  "elide_walk up n =
     (case tn_children n of
        [] \<Rightarrow> (up, n)
      | c # cs \<Rightarrow> if is_elidable n then elide_walk (Some n) c else (up, n))"
  by pat_completeness auto
termination
proof (relation "measure (\<lambda>(up, n). size n)")
  fix up n c cs assume "tn_children n = c # cs" "is_elidable n"
  then show "((Some n, c), (up, n)) \<in> measure (\<lambda>(up, n). size n)"
    by (cases n) simp
qed simp

declare elide_walk.simps [simp del]

text \<open>
  \<^verbatim>\<open>detach_common\<close> on a root: the detached subtree, and what is left of the old tree above
  it is no longer connected to it.
\<close>

definition detach_common :: "testnode_t \<Rightarrow> testnode_t" where
  "detach_common root =
     (case elide_walk None root of
        (Some up, tn) \<Rightarrow> if tn_children tn = [] then up else tn
      | (None, tn) \<Rightarrow> tn)"

section \<open>Fixtures and interception\<close>

text \<open>A fixture list: front insertion for \<^verbatim>\<open>FT_BEFORE\<close>, back insertion otherwise.\<close>

fun fixtures_loop :: "functype_t \<Rightarrow> function_t list \<Rightarrow> testnode_t list \<Rightarrow> function_t list" where
  "fixtures_loop ft acc [] = acc"
| "fixtures_loop ft acc (a # as) =
     (case tn_funcs a ft of
        None \<Rightarrow> fixtures_loop ft acc as
      | Some f \<Rightarrow> fixtures_loop ft (if ft = FT_BEFORE then f # acc else acc @ [f]) as)"

definition get_fixtures :: "testnode_t \<Rightarrow> pos \<Rightarrow> functype_t \<Rightarrow> function_t list" where
  "get_fixtures root p ft = fixtures_loop ft [] (ancestors root p)"

definition run_all :: "(intercept_t \<Rightarrow> ireg \<Rightarrow> int \<times> ireg) \<Rightarrow> intercept_t list \<Rightarrow> ireg \<Rightarrow> ireg" where
  "run_all f ics s = fold (\<lambda>ic s. snd (f ic s)) ics s"

definition pre_run :: "kernel \<Rightarrow> testnode_t \<Rightarrow> pos \<Rightarrow> ireg \<Rightarrow> ireg" where
  "pre_run k root p s = fold (\<lambda>a. run_all (install k) (tn_intercepts a)) (ancestors root p) s"

text \<open>The list \<open>dyn\<close> is the static vector \<^verbatim>\<open>dynamic_intercepts\<close>.\<close>

definition post_run ::
  "kernel \<Rightarrow> testnode_t \<Rightarrow> pos \<Rightarrow> intercept_t list \<times> ireg \<Rightarrow> intercept_t list \<times> ireg" where
  "post_run k root p ds =
     (case ds of (dyn, s) \<Rightarrow>
       ([], run_all (uninstall k) dyn
              (fold (\<lambda>a. run_all (uninstall k) (tn_intercepts a)) (ancestors root p) s)))"

definition np_mock ::
  "kernel \<Rightarrow> (addr_t \<Rightarrow> addr_t) \<Rightarrow> nat \<Rightarrow> addr_t \<Rightarrow> string option \<Rightarrow> addr_t \<Rightarrow>
   intercept_t list \<times> ireg \<Rightarrow> intercept_t list \<times> ireg" where
  "np_mock k instr nid from name to ds =
     (case ds of (dyn, s) \<Rightarrow>
       let ic = \<lparr>ic_id = nid, ic_addr = instr from, ic_name = name, ic_to = to\<rparr>
       in (dyn @ [ic], snd (install k ic s)))"

fun extract_addr :: "addr_t \<Rightarrow> intercept_t list \<Rightarrow> (intercept_t \<times> intercept_t list) option" where
  "extract_addr a [] = None"
| "extract_addr a (ic # ics) =
     (if ic_addr ic = a then Some (ic, ics)
      else map_option (\<lambda>(x, xs). (x, ic # xs)) (extract_addr a ics))"

text \<open>\<^verbatim>\<open>__np_unmock\<close> compares the address it is given with the one that was instrumented.\<close>

definition np_unmock ::
  "kernel \<Rightarrow> addr_t \<Rightarrow> intercept_t list \<times> ireg \<Rightarrow> intercept_t list \<times> ireg" where
  "np_unmock k from ds =
     (case ds of (dyn, s) \<Rightarrow>
       (case extract_addr from dyn of
          None \<Rightarrow> (dyn, s)
        | Some (ic, dyn') \<Rightarrow> (dyn', snd (uninstall k ic s))))"

section \<open>Iterating in preorder\<close>

record preorder_iterator =
  pi_base :: "pos option"
  pi_node :: "pos option"

definition preorder_begin :: "pos \<Rightarrow> preorder_iterator" where
  "preorder_begin p = \<lparr>pi_base = Some p, pi_node = Some p\<rparr>"

definition preorder_end :: preorder_iterator where
  "preorder_end = \<lparr>pi_base = None, pi_node = None\<rparr>"

definition children_count :: "testnode_t \<Rightarrow> pos \<Rightarrow> nat" where
  "children_count root p = (case node_at root p of None \<Rightarrow> 0 | Some n \<Rightarrow> length (tn_children n))"

text \<open>\<^verbatim>\<open>next_\<close> of the node at a position; the root has none.\<close>

definition next_sibling :: "testnode_t \<Rightarrow> pos \<Rightarrow> pos option" where
  "next_sibling root p =
     (if p = [] then None
      else if Suc (last p) < children_count root (butlast p) then Some (butlast p @ [Suc (last p)])
      else None)"

text \<open>The loop "up and across".\<close>

function up_across :: "testnode_t \<Rightarrow> pos \<Rightarrow> pos \<Rightarrow> pos option" where
  "up_across root base p =
     (if p = base then None
      else case next_sibling root p of
        Some q \<Rightarrow> Some q
      | None \<Rightarrow> if p = [] then None else up_across root base (butlast p))"
  by pat_completeness auto
termination
  by (relation "measure (\<lambda>(root, base, p). length p)") auto

declare up_across.simps [simp del]

definition preorder_next :: "testnode_t \<Rightarrow> pos \<Rightarrow> pos \<Rightarrow> pos option" where
  "preorder_next root base p =
     (if children_count root p > 0 then Some (p @ [0])
      else case (if p \<noteq> base then next_sibling root p else None) of
        Some q \<Rightarrow> Some q
      | None \<Rightarrow> up_across root base p)"

definition preorder_incr :: "testnode_t \<Rightarrow> preorder_iterator \<Rightarrow> np_error + preorder_iterator" where
  "preorder_incr root it =
     (case (pi_base it, pi_node it) of
        (Some b, Some p) \<Rightarrow> Inr (it\<lparr>pi_node := preorder_next root b p\<rparr>)
      | _ \<Rightarrow> Inl Null_Deref)"

section \<open>Parameters and assignments\<close>

definition parameter_as_string :: "parameter_t \<Rightarrow> string" where
  "parameter_as_string p =
     fst (fold (\<lambda>v (s, sep). (s @ [sep] @ v, CHR '','')) (pm_values p) (pm_name p, CHR ''=''))"

record assignment_t =
  as_param :: parameter_t
  as_idx :: nat

type_synonym variables = "addr_t \<Rightarrow> string option"

definition apply_assignment :: "assignment_t \<Rightarrow> variables \<Rightarrow> np_error + variables" where
  "apply_assignment a vs =
     (if as_idx a < length (pm_values (as_param a))
      then Inr (vs(pm_variable (as_param a) \<mapsto> pm_values (as_param a) ! as_idx a))
      else Inl Out_Of_Range)"

definition unapply_assignment :: "assignment_t \<Rightarrow> variables \<Rightarrow> variables" where
  "unapply_assignment a vs = vs(pm_variable (as_param a) := None)"

definition assignment_as_string :: "assignment_t \<Rightarrow> np_error + string" where
  "assignment_as_string a =
     (if as_idx a < length (pm_values (as_param a))
      then Inr (pm_name (as_param a) @ ''='' @ pm_values (as_param a) ! as_idx a)
      else Inl Out_Of_Range)"

text \<open>The loop of \<^verbatim>\<open>bump\<close>: nothing when it runs off the end.\<close>

fun bump_loop :: "assignment_t list \<Rightarrow> assignment_t list option" where
  "bump_loop [] = None"
| "bump_loop (a # as) =
     (if Suc (as_idx a) < length (pm_values (as_param a))
      then Some (a\<lparr>as_idx := Suc (as_idx a)\<rparr> # as)
      else map_option (Cons (a\<lparr>as_idx := 0\<rparr>)) (bump_loop as))"

definition bump :: "assignment_t list \<Rightarrow> bool \<times> assignment_t list" where
  "bump as = (case bump_loop as of Some as' \<Rightarrow> (False, as') | None \<Rightarrow> (True, []))"

definition assigns_eq :: "assignment_t list \<Rightarrow> assignment_t list \<Rightarrow> bool" where
  "assigns_eq a b \<longleftrightarrow> length a = length b \<and> map as_idx a = map as_idx b"

definition create_assignments :: "testnode_t \<Rightarrow> pos \<Rightarrow> assignment_t list" where
  "create_assignments root p =
     concat (map (\<lambda>a. map (\<lambda>pm. \<lparr>as_param = pm, as_idx = 0\<rparr>) (tn_parameters a)) (ancestors root p))"

section \<open>Positions and names\<close>

lemma set_children_simps [simp]:
  "tn_name (set_children cs n) = tn_name n" "tn_funcs (set_children cs n) = tn_funcs n"
  "tn_intercepts (set_children cs n) = tn_intercepts n" "tn_parameters (set_children cs n) = tn_parameters n"
  "tn_children (set_children cs n) = cs"
  by (cases n; simp)+

lemma testnode_new_simps [simp]:
  "tn_name (testnode_new nm) = nm" "tn_funcs (testnode_new nm) = (\<lambda>ft. None)"
  "tn_intercepts (testnode_new nm) = []" "tn_parameters (testnode_new nm) = []"
  "tn_children (testnode_new nm) = []"
  by (simp_all add: testnode_new_def)

lemma child_index_Some: "child_index part cs = Some i \<Longrightarrow> i < length cs \<and> tn_name (cs ! i) = Some part"
  by (induction cs arbitrary: i) (auto split: if_splits)

lemma child_index_update: "child_index part cs = Some i \<Longrightarrow> tn_name c = tn_name (cs ! i) \<Longrightarrow>
  child_index part (cs[i := c]) = Some i"
  by (induction cs arbitrary: i) (auto split: if_splits)

lemma child_index_append: "child_index part cs = None \<Longrightarrow> tn_name c = Some part \<Longrightarrow>
  child_index part (cs @ [c]) = Some (length cs)"
  by (induction cs) (auto split: if_splits)

fun dotted :: "string list \<Rightarrow> string" where
  "dotted [] = []"
| "dotted [x] = x"
| "dotted (x # y # ys) = x @ CHR ''.'' # dotted (y # ys)"

definition names :: "testnode_t list \<Rightarrow> string list" where
  "names as = List.map_filter tn_name as"

lemma names_append [simp]: "names (xs @ ys) = names xs @ names ys"
  by (simp add: names_def map_filter_def)

lemma names_simps [simp]:
  "names [] = []" "names (a # as) = (case tn_name a of None \<Rightarrow> names as | Some nm \<Rightarrow> nm # names as)"
  by (simp_all add: names_def map_filter_simps split: option.split)

lemma dotted_snoc: "xs \<noteq> [] \<Longrightarrow> dotted (x # xs) = x @ CHR ''.'' # dotted xs"
  by (cases xs) auto

lemma fullname_loop_False:
  "zs \<noteq> [] \<Longrightarrow> fullname_loop False (dotted zs) as = dotted (rev (names as) @ zs)"
proof (induction as arbitrary: zs)
  case (Cons a as)
  show ?case
  proof (cases "tn_name a")
    case (Some nm)
    have "nm @ CHR ''.'' # dotted zs = dotted (nm # zs)" using Cons.prems by (simp add: dotted_snoc)
    with Some Cons.IH [of "nm # zs"] show ?thesis by simp
  qed (use Cons in simp)
qed simp

lemma fullname_loop_True:
  assumes "tn_name a = Some nm"
  shows "fullname_loop True [] (a # as) = dotted (rev (names (a # as)))"
  using assms fullname_loop_False [of "[nm]" as] by simp

lemma ancestors_nonempty: "node_at root p = Some n \<Longrightarrow> \<exists>as. ancestors root p = n # as"
  by (induction root p rule: node_at.induct) (auto split: if_splits)

lemma get_fullname_dotted:
  assumes "node_at root p = Some n" "tn_name n \<noteq> None"
  shows "get_fullname root p = dotted (rev (names (ancestors root p)))"
  using ancestors_nonempty [OF assms(1)] assms(2) fullname_loop_True by (auto simp: get_fullname_def)

section \<open>Creating paths\<close>

lemma make_parts_simps [simp]:
  "tn_name (fst (make_parts parts n)) = tn_name n" "tn_funcs (fst (make_parts parts n)) = tn_funcs n"
  "tn_intercepts (fst (make_parts parts n)) = tn_intercepts n"
  "tn_parameters (fst (make_parts parts n)) = tn_parameters n"
  by (cases parts; simp split: option.split prod.split)+

lemma make_parts_path:
  assumes "make_parts parts n = (n', p)"
  shows "length p = length parts \<and> (\<exists>m. node_at n' p = Some m) \<and>
    rev (names (ancestors n' p)) = (case tn_name n of None \<Rightarrow> [] | Some x \<Rightarrow> [x]) @ parts"
  using assms
proof (induction parts n arbitrary: n' p rule: make_parts.induct)
  case (2 part parts n)
  show ?case
  proof (cases "child_index part (tn_children n)")
    case None
    obtain c q where c: "make_parts parts (testnode_new (Some part)) = (c, q)" by fastforce
    from 2(1) [OF None c] None c 2(3) show ?thesis by (auto split: option.splits)
  next
    case (Some i)
    obtain c q where c: "make_parts parts (tn_children n ! i) = (c, q)" by fastforce
    from 2(2) [OF Some c] Some c 2(3) child_index_Some [OF Some] show ?thesis
      by (auto split: option.splits)
  qed
qed (auto split: option.splits)

lemma make_parts_named:
  assumes "make_parts parts n = (n', p)" "p \<noteq> []" "node_at n' p = Some m"
  shows "tn_name m \<noteq> None"
  using assms
proof (induction parts n arbitrary: n' p rule: make_parts.induct)
  case (2 part parts n)
  show ?case
  proof (cases "child_index part (tn_children n)")
    case None
    obtain c q where c: "make_parts parts (testnode_new (Some part)) = (c, q)" by fastforce
    have "tn_name c = Some part" using make_parts_simps(1) [of parts "testnode_new (Some part)"] c by simp
    with 2(1) [OF None c] None c 2(3-) show ?thesis by (cases "q = []") auto
  next
    case (Some i)
    obtain c q where c: "make_parts parts (tn_children n ! i) = (c, q)" by fastforce
    have "tn_name c = Some part"
      using make_parts_simps(1) [of parts "tn_children n ! i"] c child_index_Some [OF Some] by simp
    with 2(2) [OF Some c] Some c 2(3-) child_index_Some [OF Some] show ?thesis by (cases "q = []") auto
  qed
qed simp

lemma make_parts_again:
  assumes "make_parts parts n = (n', p)"
  shows "make_parts parts n' = (n', p)"
  using assms
proof (induction parts n arbitrary: n' p rule: make_parts.induct)
  case (2 part parts n)
  show ?case
  proof (cases "child_index part (tn_children n)")
    case None
    obtain c q where c: "make_parts parts (testnode_new (Some part)) = (c, q)" by fastforce
    have nm: "tn_name c = Some part" using make_parts_simps(1) [of parts "testnode_new (Some part)"] c by simp
    have "child_index part (tn_children n @ [c]) = Some (length (tn_children n))"
      using None nm by (rule child_index_append)
    with 2(1) [OF None c] None c 2(3) show ?thesis by (cases n) auto
  next
    case (Some i)
    obtain c q where c: "make_parts parts (tn_children n ! i) = (c, q)" by fastforce
    have nm: "tn_name c = tn_name (tn_children n ! i)"
      using make_parts_simps(1) [of parts "tn_children n ! i"] c by simp
    from child_index_update [OF Some nm] 2(2) [OF Some c] Some c 2(3) child_index_Some [OF Some]
    show ?thesis by (cases n) auto
  qed
qed auto

text \<open>What stood in the tree stays where it was, with its name, functions, intercepts and parameters.\<close>

definition same_node :: "testnode_t \<Rightarrow> testnode_t \<Rightarrow> bool" where
  "same_node m m' \<longleftrightarrow> tn_name m' = tn_name m \<and> tn_funcs m' = tn_funcs m \<and>
     tn_intercepts m' = tn_intercepts m \<and> tn_parameters m' = tn_parameters m"

lemma make_parts_keeps:
  assumes "node_at n q = Some m"
  shows "\<exists>m'. node_at (fst (make_parts parts n)) q = Some m' \<and> same_node m m'"
  using assms
proof (induction parts n arbitrary: q rule: make_parts.induct)
  case (1 n)
  then show ?case by (simp add: same_node_def)
next
  case (2 part parts n)
  show ?case
  proof (cases q)
    case Nil
    with 2(3) show ?thesis by (simp add: same_node_def del: make_parts.simps)
  next
    case (Cons j q')
    show ?thesis
    proof (cases "child_index part (tn_children n)")
      case None
      obtain c r where "make_parts parts (testnode_new (Some part)) = (c, r)" by fastforce
      with None Cons 2(3) show ?thesis by (auto simp: nth_append same_node_def split: if_splits)
    next
      case (Some i)
      obtain c r where c: "make_parts parts (tn_children n ! i) = (c, r)" by fastforce
      with 2(2) [OF Some, of q'] Some Cons 2(3) show ?thesis
        by (cases "i = j") (auto simp: same_node_def split: if_splits)
    qed
  qed
qed

text \<open>
  Creating a path below a nameless root gives a node whose full name is the path's
  components joined by dots; creating it again changes nothing and returns the same node;
  all nodes that existed stay at their places with their functions, mocks and parameters.
\<close>

theorem make_path_spec:
  assumes "tn_name root = None" "tokens ''/'' name \<noteq> []"
  shows "\<exists>root' p. make_path name root = Inr (root', p)
    \<and> get_fullname root' p = dotted (tokens ''/'' name)
    \<and> make_path name root' = Inr (root', p)
    \<and> (\<forall>q m. node_at root q = Some m \<longrightarrow> (\<exists>m'. node_at root' q = Some m' \<and> same_node m m'))"
proof -
  obtain root' p where m: "make_parts (tokens ''/'' name) root = (root', p)" by fastforce
  note P = make_parts_path [OF m]
  from P obtain n where n: "node_at root' p = Some n" by blast
  have nm: "rev (names (ancestors root' p)) = tokens ''/'' name" using P assms(1) by simp
  have "p \<noteq> []" using P assms(2) by auto
  have "tn_name n \<noteq> None"
    using make_parts_named [OF m \<open>p \<noteq> []\<close> n] .
  then have "get_fullname root' p = dotted (tokens ''/'' name)"
    using get_fullname_dotted [OF n] nm by simp
  moreover have "\<exists>m'. node_at root' q = Some m' \<and> same_node l m'" if "node_at root q = Some l" for q l
    using make_parts_keeps [OF that, of "tokens ''/'' name"] m by simp
  ultimately show ?thesis
    using m make_parts_again [OF m] assms(2) by (auto simp: make_path_def)
qed

theorem make_path_spec_witness:
  "\<exists>root' p. make_path ''lib/foo'' (testnode_new None) = Inr (root', p) \<and> get_fullname root' p = ''lib.foo''"
proof -
  have t: "tokens ''/'' ''lib/foo'' = [''lib'', ''foo'']"
    by (simp add: tokens_eq)
  show ?thesis using make_path_spec [of "testnode_new None" "''lib/foo''"] by (auto simp: t)
qed

section \<open>Preorder\<close>

fun preorder :: "pos \<Rightarrow> testnode_t \<Rightarrow> pos list"
  and preorder_children :: "pos \<Rightarrow> nat \<Rightarrow> testnode_t list \<Rightarrow> pos list" where
  "preorder p (Testnode nm fs is ps cs) = p # preorder_children p 0 cs"
| "preorder_children p i [] = []"
| "preorder_children p i (c # cs) = preorder (p @ [i]) c @ preorder_children p (Suc i) cs"

lemma preorder_nonempty [simp]: "preorder p n \<noteq> []" and hd_preorder [simp]: "hd (preorder p n) = p"
  by (cases n; simp)+

lemma node_at_append: "node_at n (p @ q) = (case node_at n p of None \<Rightarrow> None | Some m \<Rightarrow> node_at m q)"
  by (induction n p rule: node_at.induct) auto

lemma up_across_child:
  assumes "node_at root p = Some n" "i < length (tn_children n)" "p @ [i] \<noteq> base"
  shows "up_across root base (p @ [i]) =
    (if Suc i < length (tn_children n) then Some (p @ [Suc i]) else up_across root base p)"
  using assms by (subst up_across.simps) (simp add: next_sibling_def children_count_def)

lemma preorder_next_eq:
  "preorder_next root base p = (if children_count root p > 0 then Some (p @ [0]) else up_across root base p)"
  using up_across.simps [of root base p] by (auto simp: preorder_next_def split: option.split)

lemma preorder_chain:
  "node_at root p = Some n \<Longrightarrow> prefix base p \<Longrightarrow>
     chain (preorder_next root base) (preorder p n) (up_across root base p)"
  "node_at root p = Some n' \<Longrightarrow> prefix base p \<Longrightarrow> drop i (tn_children n') = cs \<Longrightarrow> cs \<noteq> [] \<Longrightarrow>
     preorder_children p i cs \<noteq> [] \<and> hd (preorder_children p i cs) = p @ [i] \<and>
     chain (preorder_next root base) (preorder_children p i cs) (up_across root base p)"
proof (induction p n and p i cs arbitrary: and n' rule: preorder_preorder_children.induct)
  case (1 p nm fs ii ps cs)
  show ?case
  proof (cases "cs = []")
    case True
    with 1 show ?thesis by (simp add: preorder_next_eq children_count_def)
  next
    case False
    with 1 show ?thesis by (simp add: chain_Cons preorder_next_eq children_count_def)
  qed
next
  case (2 p i)
  then show ?case by simp
next
  case (3 p i c cs)
  have i: "i < length (tn_children n')" "tn_children n' ! i = c" "drop (Suc i) (tn_children n') = cs"
    using drop_Cons_nth [OF 3(5)] by simp_all
  have c: "node_at root (p @ [i]) = Some c"
    using 3(3) i by (simp add: node_at_append)
  have pre: "prefix base (p @ [i])" "p @ [i] \<noteq> base"
    using 3(4) by (auto simp: prefix_def)
  note C = 3(1) [OF c pre(1)]
  note U = up_across_child [OF 3(3) i(1) pre(2)]
  show ?case
  proof (cases "cs = []")
    case True
    then have "\<not> Suc i < length (tn_children n')" using i(3) by simp
    with C U True show ?thesis by simp
  next
    case False
    then have "Suc i < length (tn_children n')" using i(3) by auto
    with C U False 3(2) [OF 3(3,4) i(3)] show ?thesis by (simp add: chain_append)
  qed
qed

lemma set_preorder:
  "set (preorder p n) = {p @ q | q. node_at n q \<noteq> None}"
  "set (preorder_children p i cs) = {p @ (i + j) # q | j q. j < length cs \<and> node_at (cs ! j) q \<noteq> None}"
proof (induction p n and p i cs rule: preorder_preorder_children.induct)
  case (1 p nm fs ii ps cs)
  let ?n = "Testnode nm fs ii ps cs"
  have "{p @ q | q. node_at ?n q \<noteq> None} =
    insert p {p @ (0 + j) # q | j q. j < length cs \<and> node_at (cs ! j) q \<noteq> None}" (is "?L = insert p ?R")
  proof (intro equalityI subsetI)
    fix x assume "x \<in> ?L"
    then obtain q where "x = p @ q" "node_at ?n q \<noteq> None" by blast
    then show "x \<in> insert p ?R" by (cases q) (auto split: if_splits)
  next
    fix x assume "x \<in> insert p ?R"
    then consider "x = p @ []" | j q where "x = p @ j # q" "j < length cs" "node_at (cs ! j) q \<noteq> None" by auto
    then show "x \<in> ?L" by cases (blast intro: node_at.simps(1) option.distinct, fastforce)
  qed
  with 1 show ?case by simp
next
  case (3 p i c cs)
  have "{p @ (i + j) # q | j q. j < length (c # cs) \<and> node_at ((c # cs) ! j) q \<noteq> None} =
    {p @ i # q | q. node_at c q \<noteq> None} \<union> {p @ (Suc i + j) # q | j q. j < length cs \<and> node_at (cs ! j) q \<noteq> None}"
    (is "?L = ?A \<union> ?B")
  proof (intro equalityI subsetI)
    fix x assume "x \<in> ?L"
    then obtain j q where x: "x = p @ (i + j) # q" "j < length (c # cs)" "node_at ((c # cs) ! j) q \<noteq> None" by blast
    then show "x \<in> ?A \<union> ?B" by (cases j) auto
  next
    fix x assume "x \<in> ?A \<union> ?B"
    then show "x \<in> ?L"
    proof
      assume "x \<in> ?A"
      then show ?thesis by force
    next
      assume "x \<in> ?B"
      then obtain j q where "x = p @ (Suc i + j) # q" "j < length cs" "node_at (cs ! j) q \<noteq> None" by blast
      then have "x = p @ (i + Suc j) # q" "Suc j < length (c # cs)" "node_at ((c # cs) ! Suc j) q \<noteq> None" by auto
      then show ?thesis by blast
    qed
  qed
  with 3 show ?case by simp
qed simp

lemma distinct_preorder:
  "distinct (preorder p n)" "distinct (preorder_children p i cs)"
  by (induction p n and p i cs rule: preorder_preorder_children.induct) (auto simp: set_preorder)

text \<open>
  The preorder iterator started at any node visits every node of its subtree exactly
  once, parents before children and siblings in order, never leaves the subtree, and then
  becomes the end iterator.
\<close>

theorem preorder_iterator_visits:
  assumes "node_at root base = Some n" "length (preorder base n) \<le> k"
  shows "unfold_steps (preorder_next root base) k (Some base) = preorder base n
    \<and> preorder_next root base (last (preorder base n)) = None
    \<and> set (preorder base n) = {base @ q | q. node_at root (base @ q) \<noteq> None} \<and> distinct (preorder base n)"
proof -
  have up: "up_across root base base = None" by (subst up_across.simps) simp
  have ch: "chain (preorder_next root base) (preorder base n) None"
    using preorder_chain(1) [OF assms(1), of base] up by simp
  then have "unfold_steps (preorder_next root base) k (Some base) = preorder base n"
    using unfold_steps_chain [OF ch preorder_nonempty assms(2)] by simp
  moreover have "preorder_next root base (last (preorder base n)) = None"
    using chain_last [OF ch] by simp
  ultimately show ?thesis
    using assms(1) by (simp add: set_preorder(1) distinct_preorder(1) node_at_append)
qed

definition demo_tree :: testnode_t where
  "demo_tree = Testnode None (\<lambda>ft. None) [] []
     [Testnode (Some ''a'') (\<lambda>ft. None) [] [] [testnode_new (Some ''b'')], testnode_new (Some ''c'')]"

theorem preorder_iterator_visits_witness:
  "unfold_steps (preorder_next demo_tree []) 9 (Some []) = [[], [0], [0, 0], [1]]"
  using preorder_iterator_visits [of demo_tree "[]" demo_tree 9]
  by (simp add: demo_tree_def testnode_new_def)

lemma find_preorder:
  "node_at root p = Some n \<Longrightarrow>
     find_from root nm p n =
       List.find (\<lambda>q. (\<exists>m. node_at root q = Some m \<and> tn_name m \<noteq> None) \<and> get_fullname root q = nm) (preorder p n)"
  "node_at root p = Some n' \<Longrightarrow> drop i (tn_children n') = cs \<Longrightarrow>
     find_children root nm p i cs =
       List.find (\<lambda>q. (\<exists>m. node_at root q = Some m \<and> tn_name m \<noteq> None) \<and> get_fullname root q = nm)
         (preorder_children p i cs)"
proof (induction p n and p i cs arbitrary: and n' rule: preorder_preorder_children.induct)
  case (3 p i c cs)
  have i: "i < length (tn_children n')" "tn_children n' ! i = c" "drop (Suc i) (tn_children n') = cs"
    using drop_Cons_nth [OF 3(4)] by simp_all
  have "node_at root (p @ [i]) = Some c" using 3(3) i by (simp add: node_at_append)
  from 3(1) [OF this] 3(2) [OF 3(3) i(3)] show ?case
    by (simp add: find_append split: option.split)
qed simp_all

text \<open>
  Searching a tree by full name returns the first node in preorder that has a name and
  whose full name is the one asked for, and nothing exactly if there is none.
\<close>

theorem find_first_in_preorder:
  "find_node root nm =
     List.find (\<lambda>q. (\<exists>m. node_at root q = Some m \<and> tn_name m \<noteq> None) \<and> get_fullname root q = nm) (preorder [] root)"
  using find_preorder(1) [of root "[]" root nm] by (simp add: find_node_def)

section \<open>Fixtures\<close>

lemma fixtures_loop_eq:
  "fixtures_loop ft acc as =
     (if ft = FT_BEFORE then rev (List.map_filter (\<lambda>a. tn_funcs a ft) as) @ acc
      else acc @ List.map_filter (\<lambda>a. tn_funcs a ft) as)"
  by (induction as arbitrary: acc) (auto simp: map_filter_simps split: option.split)

text \<open>
  C28. The set-up functions of a test run from the outermost node inwards and its tear-down
  functions from the test outwards, one for every enclosing node that has one.
\<close>

theorem fixtures_order:
  "get_fixtures root p FT_BEFORE = List.map_filter (\<lambda>a. tn_funcs a FT_BEFORE) (rev (ancestors root p))
   \<and> get_fixtures root p FT_AFTER = List.map_filter (\<lambda>a. tn_funcs a FT_AFTER) (ancestors root p)"
  by (simp add: get_fixtures_def fixtures_loop_eq map_filter_def rev_map rev_filter)

section \<open>Mocks during a test\<close>

text \<open>
  The intercepts a test adds to those in force before it: \<open>base\<close> are the earlier ones, \<open>pend\<close>
  the ones added, in order; all of them are different objects.
\<close>

definition pend_inv :: "(addr_t \<Rightarrow> u8) \<Rightarrow> (addr_t \<Rightarrow> intercept_t list) \<Rightarrow> ireg \<Rightarrow> intercept_t list \<Rightarrow> bool" where
  "pend_inv T base s pend \<longleftrightarrow> reg_inv T s \<and>
     (\<forall>a. handlers s a = base a @ filter (\<lambda>ic. ic_addr ic = a) pend) \<and>
     distinct (map ic_id pend) \<and> (\<forall>a. ic_id ` set (base a) \<inter> ic_id ` set pend = {})"

lemma pend_install:
  assumes "pend_inv T base s pend" "kernel_ok k" "ic_addr ic \<noteq> 0"
    "ic_id ic \<notin> ic_id ` set pend" "\<forall>a. ic_id ic \<notin> ic_id ` set (base a)"
  shows "pend_inv T base (snd (install k ic s)) (pend @ [ic])"
proof -
  obtain s' where "install k ic s = (0, s')" "reg_inv T s'"
    "handlers s' = (handlers s)(ic_addr ic := handlers s (ic_addr ic) @ [ic])"
    using install_inv [OF _ assms(2,3)] assms(1) unfolding pend_inv_def by metis
  with assms show ?thesis by (auto simp: pend_inv_def)
qed

lemma remove_id_notin: "i \<notin> ic_id ` set xs \<Longrightarrow> remove_id i (xs @ ys) = xs @ remove_id i ys"
  by (induction xs) auto

lemma pend_uninstall:
  assumes "pend_inv T base s (xs @ ic # ys)" "kernel_ok k"
  shows "pend_inv T base (snd (uninstall k ic s)) (xs @ ys)"
proof -
  have h: "handlers s a = base a @ filter (\<lambda>ic. ic_addr ic = a) (xs @ ic # ys)" for a
    using assms(1) by (simp add: pend_inv_def)
  then have "ic \<in> set (handlers s (ic_addr ic))" by simp
  then obtain s' where s': "uninstall k ic s = (0, s')" "reg_inv T s'"
    "handlers s' = (handlers s)(ic_addr ic := remove_id (ic_id ic) (handlers s (ic_addr ic)))"
    using uninstall_inv [OF _ assms(2)] assms(1) unfolding pend_inv_def by metis
  have "ic_id ic \<notin> ic_id ` set (base (ic_addr ic) @ filter (\<lambda>i. ic_addr i = ic_addr ic) xs)"
    using assms(1) by (auto simp: pend_inv_def)
  then have "remove_id (ic_id ic) (handlers s (ic_addr ic)) =
    base (ic_addr ic) @ filter (\<lambda>i. ic_addr i = ic_addr ic) (xs @ ys)"
    by (simp add: h remove_id_notin flip: append_assoc)
  with s' h assms(1) show ?thesis by (auto simp: pend_inv_def)
qed

lemma pend_install_all:
  assumes "pend_inv T base s pend" "kernel_ok k" "\<forall>ic\<in>set ics. ic_addr ic \<noteq> 0"
    "distinct (map ic_id (pend @ ics))" "\<forall>a. ic_id ` set (base a) \<inter> ic_id ` set ics = {}"
  shows "pend_inv T base (run_all (install k) ics s) (pend @ ics)"
  using assms
proof (induction ics arbitrary: s pend)
  case (Cons ic ics)
  have "pend_inv T base (snd (install k ic s)) (pend @ [ic])"
    using Cons.prems by (intro pend_install) auto
  from Cons.IH [OF this] Cons.prems show ?case by (simp add: run_all_def)
qed (simp add: run_all_def)

lemma pend_uninstall_all:
  assumes "pend_inv T base s (ics @ ys)" "kernel_ok k"
  shows "pend_inv T base (run_all (uninstall k) ics s) ys"
  using assms
proof (induction ics arbitrary: s)
  case (Cons ic ics)
  from pend_uninstall [of T base s "[]" ic "ics @ ys" k] Cons show ?case by (simp add: run_all_def)
qed (simp add: run_all_def)

lemma fold_run_all: "fold (\<lambda>a. run_all f (g a)) as s = run_all f (concat (map g as)) s"
  by (induction as arbitrary: s) (simp_all add: run_all_def)

lemma extract_addr_split:
  "extract_addr a dyn = Some (ic, dyn') \<Longrightarrow> \<exists>xs ys. dyn = xs @ ic # ys \<and> dyn' = xs @ ys \<and> ic_addr ic = a"
  by (induction dyn arbitrary: ic dyn')
     (fastforce split: if_splits intro: exI [of _ "_ # _"])+

text \<open>What test code does to the mocks while it runs.\<close>

datatype dynop = Mock nat addr_t "string option" addr_t | Unmock addr_t

fun run_dynop :: "kernel \<Rightarrow> (addr_t \<Rightarrow> addr_t) \<Rightarrow> dynop \<Rightarrow> intercept_t list \<times> ireg \<Rightarrow> intercept_t list \<times> ireg" where
  "run_dynop k instr (Mock nid from nm to) ds = np_mock k instr nid from nm to ds"
| "run_dynop k instr (Unmock from) ds = np_unmock k from ds"

fun dynop_ids :: "dynop list \<Rightarrow> nat list" where
  "dynop_ids [] = []"
| "dynop_ids (Mock nid from nm to # ops) = nid # dynop_ids ops"
| "dynop_ids (Unmock from # ops) = dynop_ids ops"

fun dynop_ok :: "(addr_t \<Rightarrow> addr_t) \<Rightarrow> dynop \<Rightarrow> bool" where
  "dynop_ok instr (Mock nid from nm to) \<longleftrightarrow> instr from \<noteq> 0"
| "dynop_ok instr (Unmock from) \<longleftrightarrow> True"

lemma pend_dynops:
  assumes "pend_inv T base s (ics @ dyn)" "kernel_ok k" "\<forall>op\<in>set ops. dynop_ok instr op"
    "distinct (map ic_id (ics @ dyn) @ dynop_ids ops)" "\<forall>a. ic_id ` set (base a) \<inter> set (dynop_ids ops) = {}"
    "fold (run_dynop k instr) ops (dyn, s) = (dyn', s')"
  shows "pend_inv T base s' (ics @ dyn')"
  using assms
proof (induction ops arbitrary: dyn s)
  case (Cons op ops)
  show ?case
  proof (cases op)
    case (Mock nid fr nm to)
    let ?ic = "\<lparr>ic_id = nid, ic_addr = instr fr, ic_name = nm, ic_to = to\<rparr>"
    have "pend_inv T base (snd (install k ?ic s)) ((ics @ dyn) @ [?ic])"
      using Cons.prems Mock by (intro pend_install) auto
    with Cons.IH [of "snd (install k ?ic s)" "dyn @ [?ic]"] Cons.prems Mock show ?thesis
      by (auto simp: np_mock_def Let_def)
  next
    case (Unmock fr)
    show ?thesis
    proof (cases "extract_addr fr dyn")
      case None
      with Unmock Cons show ?thesis by (auto simp: np_unmock_def)
    next
      case (Some x)
      then obtain ic d where x: "extract_addr fr dyn = Some (ic, d)" by (cases x) auto
      from extract_addr_split [OF x] obtain xs ys where d: "dyn = xs @ ic # ys" "d = xs @ ys" by blast
      have "pend_inv T base (snd (uninstall k ic s)) ((ics @ xs) @ ys)"
        using Cons.prems(1,2) d by (intro pend_uninstall) simp_all
      with Cons.IH [of "snd (uninstall k ic s)" d] Cons.prems Unmock x d show ?thesis
        by (auto simp: np_unmock_def)
    qed
  qed
qed simp

text \<open>
  C8. Whatever mocks the nodes above a test declare and whatever mocks the test adds and
  removes while it runs, after the test the intercepts in force are those in force before,
  the list of dynamic mocks is empty, and if none was in force before then the program text
  is the original.
\<close>

theorem test_run_restores_intercepts:
  assumes "reg_inv T s" "kernel_ok k"
    and ics: "ics = concat (map tn_intercepts (ancestors root p))" "\<forall>ic\<in>set ics. ic_addr ic \<noteq> 0"
    and dyn: "\<forall>op\<in>set ops. dynop_ok instr op" "distinct (map ic_id ics @ dynop_ids ops)"
    and fresh: "\<forall>a. ic_id ` set (handlers s a) \<inter> (ic_id ` set ics \<union> set (dynop_ids ops)) = {}"
    and run: "post_run k root p (fold (run_dynop k instr) ops ([], pre_run k root p s)) = (dyn', s')"
  shows "dyn' = [] \<and> handlers s' = handlers s \<and> reg_inv T s'
    \<and> ((\<forall>a. handlers s a = []) \<longrightarrow> m_mem (r_mach s') = T)"
proof -
  let ?s1 = "pre_run k root p s"
  obtain d s2 where d: "fold (run_dynop k instr) ops ([], ?s1) = (d, s2)" by fastforce
  have fresh1: "\<forall>a. ic_id ` set (handlers s a) \<inter> ic_id ` set ics = {}"
    and fresh2: "\<forall>a. ic_id ` set (handlers s a) \<inter> set (dynop_ids ops) = {}"
    using fresh by blast+
  have p0: "pend_inv T (handlers s) s []" using assms(1) by (simp add: pend_inv_def)
  have "pend_inv T (handlers s) ?s1 ([] @ ics)"
    unfolding pre_run_def fold_run_all ics(1) [symmetric]
    by (rule pend_install_all [OF p0 assms(2)]) (use ics(2) dyn(2) fresh1 in auto)
  then have "pend_inv T (handlers s) s2 (ics @ d)"
    by (intro pend_dynops [OF _ assms(2) dyn(1) _ _ d]) (use dyn(2) fresh2 in auto)
  then have "pend_inv T (handlers s) (run_all (uninstall k) ics s2) (d @ [])"
    using assms(2) by (simp add: pend_uninstall_all)
  then have "pend_inv T (handlers s) (run_all (uninstall k) d (run_all (uninstall k) ics s2)) []"
    using assms(2) by (rule pend_uninstall_all)
  moreover have "dyn' = []" "s' = run_all (uninstall k) d (run_all (uninstall k) ics s2)"
    using run d by (simp_all add: post_run_def fold_run_all ics(1))
  ultimately show ?thesis
    using reg_inv_no_handlers(1) [of T s'] by (auto simp: pend_inv_def)
qed

theorem test_run_restores_intercepts_witness:
  "m_mem (r_mach (snd (post_run demo_kernel (add_intercept demo_mock demo_tree) []
      (fold (run_dynop demo_kernel (\<lambda>a. a)) [Mock 7 0x1000 None 0x3000]
        ([], pre_run demo_kernel (add_intercept demo_mock demo_tree) [] demo_ireg))))) = (\<lambda>a. 0x55)"
proof -
  let ?r = "add_intercept demo_mock demo_tree"
  let ?f = "post_run demo_kernel ?r [] (fold (run_dynop demo_kernel (\<lambda>a. a)) [Mock 7 0x1000 None 0x3000]
        ([], pre_run demo_kernel ?r [] demo_ireg))"
  obtain d s' where f: "?f = (d, s')" by fastforce
  have "reg_inv (\<lambda>a. 0x55) demo_ireg" using ireachable_inv [OF demo_ok ireachable.start] .
  then have "m_mem (r_mach s') = (\<lambda>a. 0x55)"
    using test_run_restores_intercepts [OF _ demo_ok(1) refl _ _ _ _ f, of "\<lambda>a. 0x55"]
    by (simp add: demo_tree_def demo_mock_def handlers_def demo_ireg_def)
  with f show ?thesis by simp
qed

text \<open>
  Removing a mock looks for the address given by the test, while adding it recorded the
  address to instrument; for a function whose calls go through a linkage table the two
  differ, and the removal does nothing: the mock stays in force.
\<close>

theorem np_unmock_misses_linkage_table:
  assumes "instr from \<noteq> from" "\<forall>ic\<in>set dyn. ic_addr ic \<noteq> from"
  shows "np_unmock k from (np_mock k instr nid from nm to (dyn, s)) = np_mock k instr nid from nm to (dyn, s)"
proof -
  have "extract_addr from ics = None" if "\<forall>ic\<in>set ics. ic_addr ic \<noteq> from" for ics
    using that by (induction ics) auto
  from this [of "dyn @ [\<lparr>ic_id = nid, ic_addr = instr from, ic_name = nm, ic_to = to\<rparr>]"] assms
  show ?thesis by (simp add: np_unmock_def np_mock_def Let_def)
qed

theorem np_unmock_misses_linkage_table_witness:
  "np_unmock demo_kernel 0x1000 (np_mock demo_kernel (\<lambda>a. a + 0x500) 1 0x1000 None 0x2000 ([], demo_ireg))
     = np_mock demo_kernel (\<lambda>a. a + 0x500) 1 0x1000 None 0x2000 ([], demo_ireg)"
  using np_unmock_misses_linkage_table [of "\<lambda>a. a + 0x500" "0x1000" "[]" demo_kernel 1 None "0x2000" demo_ireg]
  by simp

section \<open>Parameter combinations\<close>

definition assign :: "parameter_t \<Rightarrow> nat \<Rightarrow> assignment_t" where
  "assign pm i = \<lparr>as_param = pm, as_idx = i\<rparr>"

definition row_size :: "parameter_t \<Rightarrow> nat" where
  "row_size pm = max 1 (length (pm_values pm))"

definition row :: "parameter_t \<Rightarrow> assignment_t list \<Rightarrow> nat \<Rightarrow> assignment_t list list" where
  "row pm r k = map (\<lambda>i. assign pm i # r) [k..<row_size pm]"

text \<open>All combinations of the values of some parameters, the first parameter varying fastest.\<close>

fun combos :: "parameter_t list \<Rightarrow> assignment_t list list" where
  "combos [] = [[]]"
| "combos (pm # pms) = concat (map (\<lambda>r. row pm r 0) (combos pms))"

lemma row_size_pos: "0 < row_size pm"
  by (simp add: row_size_def)

lemma row_Cons: "k < row_size pm \<Longrightarrow> row pm r k = (assign pm k # r) # row pm r (Suc k)"
  by (simp add: row_def upt_conv_Cons)

lemma row_chain:
  "k < row_size pm \<Longrightarrow> chain bump_loop (row pm r k) (map_option (Cons (assign pm 0)) (bump_loop r))"
proof (induction "row_size pm - k" arbitrary: k)
  case (Suc d)
  show ?case
  proof (cases "Suc k < row_size pm")
    case True
    then have b: "bump_loop (assign pm k # r) = Some (assign pm (Suc k) # r)"
      by (auto simp: assign_def row_size_def split: if_splits)
    have "chain bump_loop (row pm r (Suc k)) (map_option (Cons (assign pm 0)) (bump_loop r))"
      using Suc True by (intro Suc.hyps) auto
    moreover have "row pm r (Suc k) = (assign pm (Suc k) # r) # row pm r (Suc (Suc k))"
      using True by (rule row_Cons)
    ultimately show ?thesis using Suc.prems b by (simp add: row_Cons [of k])
  next
    case False
    with Suc.prems have "row pm r (Suc k) = []" "\<not> Suc k < length (pm_values pm)"
      by (auto simp: row_def row_size_def)
    then show ?thesis using Suc.prems by (simp add: row_Cons [of k] assign_def)
  qed
qed simp

lemma row_nonempty [simp]: "row pm r 0 \<noteq> []" and hd_row [simp]: "hd (row pm r 0) = assign pm 0 # r"
  using row_Cons [OF row_size_pos] by simp_all

lemma rows_chain:
  "chain bump_loop rs y \<Longrightarrow> rs \<noteq> [] \<Longrightarrow>
     chain bump_loop (concat (map (\<lambda>r. row pm r 0) rs)) (map_option (Cons (assign pm 0)) y)
     \<and> hd (concat (map (\<lambda>r. row pm r 0) rs)) = assign pm 0 # hd rs"
proof (induction bump_loop rs y rule: chain.induct)
  case (2 x y)
  then show ?case using row_chain [OF row_size_pos, of pm x] by simp
next
  case (3 x x' xs y)
  have "chain bump_loop (row pm x 0) (Some (assign pm 0 # x'))"
    using row_chain [OF row_size_pos, of pm x] 3 by simp
  with 3 show ?case by (simp add: chain_append)
qed simp

lemma combos_chain:
  "chain bump_loop (combos pms) None \<and> combos pms \<noteq> [] \<and> hd (combos pms) = map (\<lambda>pm. assign pm 0) pms"
proof (induction pms)
  case (Cons pm pms)
  with rows_chain [of "combos pms" None pm] show ?case by simp
qed simp

lemma set_combos:
  "set (combos pms) =
     {as. map as_param as = pms \<and> (\<forall>a\<in>set as. as_idx a < row_size (as_param a))}"
proof (induction pms)
  case (Cons pm pms)
  have in_combos: "as \<in> set (combos (pm # pms)) \<longleftrightarrow>
      (\<exists>i r. as = assign pm i # r \<and> i < row_size pm \<and> r \<in> set (combos pms))" for as
    by (fastforce simp: row_def)
  show ?case
  proof (intro equalityI subsetI)
    fix as assume "as \<in> set (combos (pm # pms))"
    then show "as \<in> {as. map as_param as = pm # pms \<and> (\<forall>a\<in>set as. as_idx a < row_size (as_param a))}"
      unfolding in_combos Cons by (auto simp: assign_def)
  next
    fix as :: "assignment_t list" assume "as \<in> {as. map as_param as = pm # pms \<and> (\<forall>a\<in>set as. as_idx a < row_size (as_param a))}"
    then obtain a r where as: "as = a # r" "as_param a = pm" "map as_param r = pms"
      "as_idx a < row_size pm" "\<forall>b\<in>set r. as_idx b < row_size (as_param b)"
      by (auto simp: map_eq_Cons_conv)
    moreover have "a = assign pm (as_idx a)" using as(2) by (cases a) (simp add: assign_def)
    ultimately show "as \<in> set (combos (pm # pms))" unfolding in_combos Cons by blast
  qed
qed auto

lemma distinct_rows:
  "distinct rs \<Longrightarrow> distinct (concat (map (\<lambda>r. row pm r 0) rs))"
  by (induction rs) (auto simp: row_def distinct_map assign_def inj_on_def)

lemma distinct_combos: "distinct (combos pms)"
  by (induction pms) (simp_all add: distinct_rows)

definition parameters_at :: "testnode_t \<Rightarrow> pos \<Rightarrow> parameter_t list" where
  "parameters_at root p = concat (map tn_parameters (ancestors root p))"

lemma create_assignments_eq: "create_assignments root p = map (\<lambda>pm. assign pm 0) (parameters_at root p)"
  by (simp add: create_assignments_def parameters_at_def assign_def map_concat comp_def)

text \<open>
  C27. Starting from the assignments of a test's first run, bumping them repeatedly goes
  through every combination of the values of all its parameters exactly once, and then
  reports the end with the vector cleared.
\<close>

theorem bump_enumerates_combinations:
  assumes "length (combos (parameters_at root p)) \<le> k"
  shows "unfold_steps bump_loop k (Some (create_assignments root p)) = combos (parameters_at root p)
    \<and> bump (last (combos (parameters_at root p))) = (True, [])
    \<and> distinct (combos (parameters_at root p))
    \<and> set (combos (parameters_at root p)) =
        {as. map as_param as = parameters_at root p \<and> (\<forall>a\<in>set as. as_idx a < row_size (as_param a))}"
proof -
  note C = combos_chain [of "parameters_at root p"]
  have "unfold_steps bump_loop k (Some (create_assignments root p)) = combos (parameters_at root p)"
    using unfold_steps_chain [OF conjunct1 [OF C], of k] C assms by (simp add: create_assignments_eq)
  moreover have "bump (last (combos (parameters_at root p))) = (True, [])"
    using chain_last [OF conjunct1 [OF C]] C by (simp add: bump_def)
  ultimately show ?thesis by (simp add: distinct_combos set_combos)
qed

theorem bump_enumerates_combinations_witness:
  "map (map as_idx) (unfold_steps bump_loop 9 (Some (create_assignments
      (Testnode None (\<lambda>ft. None) []
        [\<lparr>pm_name = ''p'', pm_variable = 1, pm_values = [''x'', ''y'', ''z'']\<rparr>,
         \<lparr>pm_name = ''q'', pm_variable = 2, pm_values = [''t'', ''u'']\<rparr>] []) [])))
     = [[0, 0], [1, 0], [2, 0], [0, 1], [1, 1], [2, 1]]"
  using bump_enumerates_combinations [of "Testnode None (\<lambda>ft. None) []
        [\<lparr>pm_name = ''p'', pm_variable = 1, pm_values = [''x'', ''y'', ''z'']\<rparr>,
         \<lparr>pm_name = ''q'', pm_variable = 2, pm_values = [''t'', ''u'']\<rparr>] []" "[]" 9]
  by (simp add: parameters_at_def row_def row_size_def assign_def upt_rec)

section \<open>Detaching keeps the tests\<close>

fun tests_of :: "testnode_t \<Rightarrow> function_t list" where
  "tests_of (Testnode nm fs is ps cs) =
     (case fs FT_TEST of None \<Rightarrow> [] | Some f \<Rightarrow> [f]) @ concat (map tests_of cs)"

lemma tests_of_elidable: "is_elidable n \<Longrightarrow> tn_children n = [c] \<Longrightarrow> tests_of n = tests_of c"
  by (cases n) (auto simp: is_elidable_def split: if_splits option.splits)

lemma elidable_single: "is_elidable n \<Longrightarrow> tn_children n = c # cs \<Longrightarrow> cs = []"
  by (auto simp: is_elidable_def split: if_splits)

lemma elide_walk_tests:
  "elide_walk up n = (up', tn) \<Longrightarrow> tests_of tn = tests_of n \<and>
     (up' = up \<and> tn = n \<or> (\<exists>u. up' = Some u \<and> tests_of u = tests_of n \<and> is_elidable u \<and> tn_children u = [tn]))"
proof (induction up n rule: elide_walk.induct)
  case (1 up n)
  show ?case
  proof (cases "\<exists>c cs. tn_children n = c # cs \<and> is_elidable n")
    case True
    then obtain c cs where c: "tn_children n = c # cs" "is_elidable n" by blast
    then have cs: "cs = []" by (metis elidable_single)
    have "elide_walk (Some n) c = (up', tn)"
      using 1(2) c by (simp add: elide_walk.simps [of up n])
    from 1(1) [OF c this] tests_of_elidable [of n c] c cs show ?thesis by auto
  next
    case False
    with 1(2) show ?thesis
      by (auto simp: elide_walk.simps [of up n] split: list.splits if_splits)
  qed
qed

text \<open>
  C29. Detaching the common prefix of the tree loses no test: the detached tree holds the same
  test functions in the same order, and it is the whole tree, or the tree below a chain of
  nodes without functions, mocks or parameters.
\<close>

theorem detach_common_keeps_tests:
  "tests_of (detach_common root) = tests_of root
   \<and> (detach_common root = root \<or> is_elidable root \<and> length (tn_children root) = 1)"
proof -
  obtain up tn where w: "elide_walk None root = (up, tn)" by fastforce
  note W = elide_walk_tests [OF w]
  have "is_elidable root \<and> length (tn_children root) = 1 \<or> tn = root \<and> up = None"
    using w by (subst (asm) elide_walk.simps)
      (auto simp: is_elidable_def split: list.splits if_splits)
  with W w show ?thesis by (auto simp: detach_common_def split: option.split)
qed

end
