(* ===== verification/NP_Plan.thy ===== *)
theory NP_Plan
  imports NP_Testnode
begin

text \<open>
  \<^verbatim>\<open>np/plan.hxx\<close> and \<^verbatim>\<open>np/plan.cxx\<close>: which tests a run covers, and the iterator that walks
  over them and over the combinations of their parameters. A plan is a list of positions in
  one tree; an iterator into its vector is an index.
\<close>

section \<open>Plans\<close>

type_synonym plan_t = "pos list"

definition add_node :: "pos \<Rightarrow> plan_t \<Rightarrow> plan_t" where
  "add_node tn plan = plan @ [tn]"

text \<open>
  \<^verbatim>\<open>add_specs\<close>, over the tree of the test manager: nodes found before the first unknown
  name stay added.
\<close>

fun add_specs :: "testnode_t \<Rightarrow> string list \<Rightarrow> plan_t \<Rightarrow> bool \<times> plan_t" where
  "add_specs root [] plan = (True, plan)"
| "add_specs root (spec # specs) plan =
     (case find_node root spec of
        None \<Rightarrow> (False, plan)
      | Some tn \<Rightarrow> add_specs root specs (add_node tn plan))"

section \<open>The iterator\<close>

record plan_iterator =
  vitr :: nat
  nitr :: preorder_iterator
  assigns :: "assignment_t list"

definition plan_iterator_eq :: "plan_iterator \<Rightarrow> plan_iterator \<Rightarrow> bool" where
  "plan_iterator_eq a b \<longleftrightarrow> vitr a = vitr b \<and> pi_node (nitr a) = pi_node (nitr b) \<and> assigns_eq (assigns a) (assigns b)"

definition plan_end :: "plan_t \<Rightarrow> plan_iterator" where
  "plan_end plan = \<lparr>vitr = length plan, nitr = preorder_end, assigns = []\<rparr>"

text \<open>
  One round of the loop in \<^verbatim>\<open>find_testable_node\<close>: stop, or go on with the next node. The
  node iterator is not moved to the next subtree when the vector iterator is, so a second
  subtree is entered with a null node.
\<close>

datatype find_step = Find_Done plan_iterator | Find_More plan_iterator | Find_Error np_error

definition has_test :: "testnode_t \<Rightarrow> pos \<Rightarrow> bool" where
  "has_test root p \<longleftrightarrow> (case node_at root p of None \<Rightarrow> False | Some n \<Rightarrow> tn_funcs n FT_TEST \<noteq> None)"

definition find_round :: "testnode_t \<Rightarrow> plan_t \<Rightarrow> plan_iterator \<Rightarrow> find_step" where
  "find_round root plan it =
     (if vitr it \<ge> length plan then Find_Error Out_Of_Range
      else
        let at_end = (pi_node (nitr it) = pi_node preorder_end);
            it1 = (if at_end then it\<lparr>vitr := Suc (vitr it)\<rparr> else it)
        in if at_end \<and> vitr it1 = length plan then Find_Done it1
           else case pi_node (nitr it1) of
             None \<Rightarrow> Find_Error Null_Deref
           | Some p \<Rightarrow>
               if has_test root p then Find_Done (it1\<lparr>assigns := create_assignments root p\<rparr>)
               else (case preorder_incr root (nitr it1) of
                       Inl e \<Rightarrow> Find_Error e
                     | Inr n \<Rightarrow> Find_More (it1\<lparr>nitr := n\<rparr>)))"

text \<open>The loop, with a bound on its rounds; nothing when the bound is reached.\<close>

fun find_testable_node :: "nat \<Rightarrow> testnode_t \<Rightarrow> plan_t \<Rightarrow> plan_iterator \<Rightarrow> (np_error + plan_iterator) option" where
  "find_testable_node 0 root plan it = None"
| "find_testable_node (Suc fuel) root plan it =
     (case find_round root plan it of
        Find_Done it' \<Rightarrow> Some (Inr it')
      | Find_Error e \<Rightarrow> Some (Inl e)
      | Find_More it' \<Rightarrow> find_testable_node fuel root plan it')"

definition plan_begin :: "nat \<Rightarrow> testnode_t \<Rightarrow> plan_t \<Rightarrow> (np_error + plan_iterator) option" where
  "plan_begin fuel root plan =
     (if plan = [] then Some (Inr (plan_end plan))
      else find_testable_node fuel root plan
             \<lparr>vitr = 0, nitr = preorder_begin (plan ! 0), assigns = []\<rparr>)"

definition plan_incr :: "nat \<Rightarrow> testnode_t \<Rightarrow> plan_t \<Rightarrow> plan_iterator \<Rightarrow> (np_error + plan_iterator) option" where
  "plan_incr fuel root plan it =
     (case bump (assigns it) of
        (False, as) \<Rightarrow> Some (Inr (it\<lparr>assigns := as\<rparr>))
      | (True, as) \<Rightarrow>
          (case preorder_incr root (nitr it) of
             Inl e \<Rightarrow> Some (Inl e)
           | Inr n \<Rightarrow> find_testable_node fuel root plan (it\<lparr>nitr := n, assigns := []\<rparr>)))"

section \<open>Walking over a plan\<close>

text \<open>
  The loop of \<^verbatim>\<open>run_tests\<close> and \<^verbatim>\<open>list_tests\<close> over a plan, from the first iterator to the
  end: the nodes visited with the parameter values of each visit.
\<close>

fun plan_visit :: "nat \<Rightarrow> nat \<Rightarrow> testnode_t \<Rightarrow> plan_t \<Rightarrow> (np_error + plan_iterator) option \<Rightarrow>
    (np_error + (pos option \<times> assignment_t list) list) option" where
  "plan_visit n fuel root plan None = None"
| "plan_visit n fuel root plan (Some (Inl e)) = Some (Inl e)"
| "plan_visit 0 fuel root plan (Some (Inr it)) = None"
| "plan_visit (Suc n) fuel root plan (Some (Inr it)) =
     (if plan_iterator_eq it (plan_end plan) then Some (Inr [])
      else case plan_visit n fuel root plan (plan_incr fuel root plan it) of
        None \<Rightarrow> None
      | Some r \<Rightarrow> Some (bindE r (\<lambda>vs. Inr ((pi_node (nitr it), assigns it) # vs))))"

definition plan_walk :: "nat \<Rightarrow> nat \<Rightarrow> testnode_t \<Rightarrow> plan_t \<Rightarrow>
    (np_error + (pos option \<times> assignment_t list) list) option" where
  "plan_walk n fuel root plan = plan_visit n fuel root plan (plan_begin fuel root plan)"

text \<open>What a walk over a list of nodes should visit.\<close>

definition visits :: "testnode_t \<Rightarrow> pos list \<Rightarrow> (pos option \<times> assignment_t list) list" where
  "visits root ps = concat (map (\<lambda>p. map (Pair (Some p)) (combos (parameters_at root p))) (filter (has_test root) ps))"

definition it_scan :: "pos \<Rightarrow> pos option \<Rightarrow> plan_iterator" where
  "it_scan base p = \<lparr>vitr = 0, nitr = \<lparr>pi_base = Some base, pi_node = p\<rparr>, assigns = []\<rparr>"

definition it_at :: "pos \<Rightarrow> pos \<Rightarrow> assignment_t list \<Rightarrow> plan_iterator" where
  "it_at base p as = \<lparr>vitr = 0, nitr = \<lparr>pi_base = Some base, pi_node = Some p\<rparr>, assigns = as\<rparr>"

definition it_done :: "pos \<Rightarrow> plan_iterator" where
  "it_done base = \<lparr>vitr = 1, nitr = \<lparr>pi_base = Some base, pi_node = None\<rparr>, assigns = []\<rparr>"

definition first_node :: "pos list \<Rightarrow> pos option" where
  "first_node ps = (case ps of [] \<Rightarrow> None | p # _ \<Rightarrow> Some p)"

definition finish :: "pos list \<Rightarrow> 'a \<Rightarrow> np_error + 'a" where
  "finish rest v = (if rest = [] then Inr v else Inl Null_Deref)"

lemma chain_first: "chain f (p # ps) None \<Longrightarrow> f p = first_node ps \<and> chain f ps None"
  by (cases ps) (auto simp: first_node_def)

lemma find_testable_scan:
  assumes "chain (preorder_next root base) ps None" "length ps < fuel"
  shows "find_testable_node fuel root (base # rest) (it_scan base (first_node ps)) =
    Some (case dropWhile (\<lambda>p. \<not> has_test root p) ps of
            [] \<Rightarrow> finish rest (it_done base)
          | p # _ \<Rightarrow> Inr (it_at base p (create_assignments root p)))"
  using assms
proof (induction ps arbitrary: fuel)
  case Nil
  then obtain f where "fuel = Suc f" by (cases fuel) auto
  then show ?case
    by (simp add: find_round_def it_scan_def first_node_def preorder_end_def finish_def it_done_def Let_def)
next
  case (Cons p ps)
  then obtain f where f: "fuel = Suc f" "length ps < f" by (cases fuel) auto
  have n: "preorder_next root base p = first_node ps" "chain (preorder_next root base) ps None"
    using chain_first [OF Cons.prems(1)] by simp_all
  show ?case
  proof (cases "has_test root p")
    case True
    with f show ?thesis
      by (simp add: find_round_def it_scan_def it_at_def first_node_def preorder_end_def Let_def)
  next
    case False
    then have "find_round root (base # rest) (it_scan base (first_node (p # ps))) =
      Find_More (it_scan base (first_node ps))"
      using n by (simp add: find_round_def it_scan_def first_node_def preorder_end_def Let_def preorder_incr_def)
    with f False Cons.IH [OF n(2) f(2)] show ?thesis by simp
  qed
qed

lemma visit_row:
  assumes "chain bump_loop cs None" "cs \<noteq> []" "preorder_next root base p = q"
    and "\<And>m. k < m \<Longrightarrow> plan_visit m fuel root (base # rest)
           (find_testable_node fuel root (base # rest) (it_scan base q)) = Some (finish rest R)"
    and "k + length cs < n"
  shows "plan_visit n fuel root (base # rest) (Some (Inr (it_at base p (hd cs)))) =
    Some (finish rest (map (Pair (Some p)) cs @ R))"
  using assms
proof (induction bump_loop cs "None :: assignment_t list option" arbitrary: n rule: chain.induct)
  case (2 x)
  then obtain m where m: "n = Suc m" "k < m" by (cases n) auto
  have ne: "\<not> plan_iterator_eq (it_at base p x) (plan_end (base # rest))"
    by (simp add: plan_iterator_eq_def it_at_def plan_end_def)
  have "plan_incr fuel root (base # rest) (it_at base p x) =
    find_testable_node fuel root (base # rest) (it_scan base q)"
    using 2 by (simp add: plan_incr_def bump_def it_at_def it_scan_def preorder_incr_def)
  with 2(4) [OF m(2)] m ne show ?case
    by (simp add: finish_def) (simp add: it_at_def)
next
  case (3 x x' xs)
  then obtain m where m: "n = Suc m" "k + length (x' # xs) < m" by (cases n) auto
  have ne: "\<not> plan_iterator_eq (it_at base p x) (plan_end (base # rest))"
    by (simp add: plan_iterator_eq_def it_at_def plan_end_def)
  have "plan_incr fuel root (base # rest) (it_at base p x) = Some (Inr (it_at base p x'))"
    using 3 by (simp add: plan_incr_def bump_def it_at_def)
  with 3(1) [OF _ _ 3(4,5) m(2)] 3 m ne show ?case
    by (simp add: finish_def) (simp add: it_at_def)
qed simp

lemma visit_all:
  assumes "chain (preorder_next root base) ps None" "length ps < fuel" "length (visits root ps) < n"
  shows "plan_visit n fuel root (base # rest)
      (find_testable_node fuel root (base # rest) (it_scan base (first_node ps))) =
    Some (finish rest (visits root ps))"
  using assms
proof (induction ps arbitrary: n)
  case Nil
  then obtain m where "n = Suc m" by (cases n) auto
  moreover have "plan_iterator_eq (it_done base) (plan_end [base])"
    by (simp add: plan_iterator_eq_def it_done_def plan_end_def preorder_end_def assigns_eq_def)
  ultimately show ?case
    using find_testable_scan [OF Nil(1,2), of rest] by (simp add: finish_def visits_def)
next
  case (Cons p ps)
  have n: "preorder_next root base p = first_node ps" "chain (preorder_next root base) ps None"
    using chain_first [OF Cons.prems(1)] by simp_all
  have fuel: "length ps < fuel" using Cons.prems(2) by simp
  note F = find_testable_scan [OF Cons.prems(1,2), of rest]
  show ?case
  proof (cases "has_test root p")
    case False
    with F find_testable_scan [OF n(2) fuel, of rest] have
      "find_testable_node fuel root (base # rest) (it_scan base (first_node (p # ps))) =
       find_testable_node fuel root (base # rest) (it_scan base (first_node ps))" by simp
    with Cons.IH [OF n(2) fuel, of n] Cons.prems(3) False show ?thesis by (simp add: visits_def)
  next
    case True
    let ?cs = "combos (parameters_at root p)"
    note C = combos_chain [of "parameters_at root p"]
    have "plan_visit n fuel root (base # rest) (Some (Inr (it_at base p (hd ?cs)))) =
      Some (finish rest (map (Pair (Some p)) ?cs @ visits root ps))"
    proof (rule visit_row [OF _ _ n(1)])
      show "length (visits root ps) + length ?cs < n"
        using Cons.prems(3) True by (simp add: visits_def)
    qed (use C Cons.IH [OF n(2) fuel] in auto)
    with F C True show ?thesis by (simp add: visits_def create_assignments_eq)
  qed
qed

lemma plan_walk_eq:
  assumes "node_at root base = Some m" "length (preorder base m) < fuel" "length (visits root (preorder base m)) < n"
  shows "plan_walk n fuel root (base # rest) = Some (finish rest (visits root (preorder base m)))"
proof -
  have up: "up_across root base base = None" by (subst up_across.simps) simp
  have ch: "chain (preorder_next root base) (preorder base m) None"
    using preorder_chain(1) [OF assms(1), of base] up by simp
  have "first_node (preorder base m) = Some base"
    by (cases m) (simp add: first_node_def)
  with visit_all [OF ch assms(2,3), of rest] show ?thesis
    by (simp add: plan_walk_def plan_begin_def it_scan_def preorder_begin_def)
qed

text \<open>
  C7. A plan of one node is walked to its end: every node of the subtree with a test function
  is visited, in preorder, once for each combination of the values of its parameters, and no
  other node. The bounds on the rounds of the two loops are enough.
\<close>

theorem plan_visits_all_tests:
  assumes "node_at root base = Some m" "length (preorder base m) < fuel"
    "length (visits root (preorder base m)) < n"
  shows "plan_walk n fuel root [base] =
    Some (Inr (concat (map (\<lambda>p. map (Pair (Some p)) (combos (parameters_at root p)))
      (filter (has_test root) (preorder base m)))))"
  using plan_walk_eq [OF assms, of "[]"] by (simp add: finish_def visits_def)

definition demo_fn :: function_t where
  "demo_fn = \<lparr>fn_name = ''test_b'', fn_path = ''/t.c'', fn_addr = 0x4000\<rparr>"

definition demo_suite :: testnode_t where
  "demo_suite = Testnode None (\<lambda>ft. None) [] []
     [Testnode (Some ''a'') (\<lambda>ft. None) [] [\<lparr>pm_name = ''p'', pm_variable = 1, pm_values = [''x'', ''y'']\<rparr>]
        [Testnode (Some ''b'') (\<lambda>ft. if ft = FT_TEST then Some demo_fn else None) [] [] []],
      Testnode (Some ''c'') (\<lambda>ft. if ft = FT_TEST then Some demo_fn else None) [] [] []]"

lemmas demo_suite_simps = demo_suite_def has_test_def parameters_at_def row_def row_size_def upt_rec

theorem plan_visits_all_tests_witness:
  "\<exists>vs. plan_walk 9 9 demo_suite [[]] = Some (Inr vs) \<and> map fst vs = [Some [0, 0], Some [0, 0], Some [1]]"
  using plan_visits_all_tests [of demo_suite "[]" demo_suite 9 9]
  by (simp add: demo_suite_simps visits_def)

text \<open>
  C33. A plan of two or more nodes is never walked to its end: after the last test of the
  first subtree the node iterator stays null while the vector iterator moves on, and the
  next step dereferences it.
\<close>

theorem plan_second_node_crashes:
  assumes "node_at root base = Some m" "length (preorder base m) < fuel"
    "length (visits root (preorder base m)) < n"
  shows "plan_walk n fuel root (base # base' # rest) = Some (Inl Null_Deref)"
  using plan_walk_eq [OF assms, of "base' # rest"] by (simp add: finish_def)

theorem plan_second_node_crashes_witness:
  "plan_walk 9 9 demo_suite (snd (add_specs demo_suite [''a.b'', ''c''] [])) = Some (Inl Null_Deref)"
proof -
  have "snd (add_specs demo_suite [''a.b'', ''c''] []) = [[0, 0], [1]]"
    by (simp add: demo_suite_def find_node_def get_fullname_def add_node_def)
  then show ?thesis
    using plan_second_node_crashes [of demo_suite "[0, 0]" _ 9 9 "[1]" "[]"]
    by (simp add: demo_suite_simps visits_def)
qed

end
