(* ===== verification/NP_Job.thy ===== *)
theory NP_Job
  imports NP_Plan NP_Proxy
begin

text \<open>
  \<^verbatim>\<open>np/job.cxx\<close> and \<^verbatim>\<open>np/child.cxx\<close>: one run of a test, and the child process that runs
  it as the parent sees it. Times are nanoseconds as unbounded integers. A child carries the
  read end of its event pipe. The kernel's clock, files and signals appear as arguments and
  as outputs.
\<close>

section \<open>Jobs\<close>

record job_t =
  jb_id :: u32
  jb_node :: pos
  jb_assigns :: "assignment_t list"
  jb_start :: int
  jb_end :: int
  jb_stdout_path :: string
  jb_stderr_path :: string

text \<open>\<^verbatim>\<open>next_id\<close> is the static counter; the constructor returns its new value too.\<close>

definition job_new :: "u32 \<Rightarrow> plan_iterator \<Rightarrow> np_error + job_t \<times> u32" where
  "job_new next_id it =
     (case pi_node (nitr it) of
        None \<Rightarrow> Inl Null_Deref
      | Some p \<Rightarrow>
          Inr (\<lparr>jb_id = next_id, jb_node = p, jb_assigns = assigns it, jb_start = 0, jb_end = 0,
                jb_stdout_path = [], jb_stderr_path = []\<rparr>, next_id + 1))"

fun assigns_string :: "assignment_t list \<Rightarrow> np_error + string" where
  "assigns_string [] = Inr []"
| "assigns_string (a # as) =
     bindE (assignment_as_string a) (\<lambda>s.
     bindE (assigns_string as) (\<lambda>rest. Inr (''['' @ s @ '']'' @ rest)))"

definition job_as_string :: "testnode_t \<Rightarrow> job_t \<Rightarrow> np_error + string" where
  "job_as_string root j =
     bindE (assigns_string (jb_assigns j)) (\<lambda>s. Inr (get_fullname root (jb_node j) @ s))"

text \<open>What a test process changes: the parameter variables, the dynamic mocks and the registry.\<close>

record testproc =
  tp_vars :: variables
  tp_dyn :: "intercept_t list"
  tp_reg :: ireg

fun apply_all :: "assignment_t list \<Rightarrow> variables \<Rightarrow> np_error + variables" where
  "apply_all [] vs = Inr vs"
| "apply_all (a # as) vs = bindE (apply_assignment a vs) (apply_all as)"

definition job_pre_run_parent :: "int \<Rightarrow> job_t \<Rightarrow> job_t" where
  "job_pre_run_parent now j = j\<lparr>jb_start := now\<rparr>"

definition job_pre_run :: "kernel \<Rightarrow> testnode_t \<Rightarrow> job_t \<Rightarrow> testproc \<Rightarrow> np_error + testproc" where
  "job_pre_run k root j tp =
     bindE (apply_all (jb_assigns j) (tp_vars tp)) (\<lambda>vs.
       Inr (tp\<lparr>tp_vars := vs, tp_reg := pre_run k root (jb_node j) (tp_reg tp)\<rparr>))"

definition job_post_run_parent :: "int \<Rightarrow> job_t \<Rightarrow> job_t" where
  "job_post_run_parent now j = j\<lparr>jb_end := now\<rparr>"

definition job_post_run :: "kernel \<Rightarrow> testnode_t \<Rightarrow> job_t \<Rightarrow> testproc \<Rightarrow> testproc" where
  "job_post_run k root j tp =
     (let (dyn, reg) = post_run k root (jb_node j) (tp_dyn tp, tp_reg tp)
      in \<lparr>tp_vars = fold unapply_assignment (jb_assigns j) (tp_vars tp), tp_dyn = dyn, tp_reg = reg\<rparr>)"

definition get_elapsed :: "int \<Rightarrow> job_t \<Rightarrow> int" where
  "get_elapsed now j = (let e = (if jb_end j = 0 then now else jb_end j) in e - jb_start j)"

text \<open>
  Reading back the captured output. A file answers to \<^verbatim>\<open>open\<close>, to \<^verbatim>\<open>fstat\<close> with its
  size, and to \<^verbatim>\<open>read\<close> with chunks; what is not read stays zero.
\<close>

datatype file_t = Open_Fails | Fstat_Fails | File nat pipe

function read_all :: "nat \<Rightarrow> pipe \<Rightarrow> u8 list" where
  "read_all remain p =
     (if remain = 0 then []
      else case read_fd remain p of
        (None, p') \<Rightarrow> []
      | (Some bs, p') \<Rightarrow> if bs = [] then [] else bs @ read_all (remain - length bs) p')"
  by pat_completeness auto
termination
  by (relation "measure fst") (auto simp: length_greater_0_conv [symmetric] simp del: length_greater_0_conv)

declare read_all.simps [simp del]

definition get_file_contents :: "file_t \<Rightarrow> string" where
  "get_file_contents f =
     (case f of
        Open_Fails \<Rightarrow> []
      | Fstat_Fails \<Rightarrow> []
      | File sz p \<Rightarrow>
          (let bs = read_all sz p
           in string_of_bytes (bs @ replicate (sz - length bs) 0)))"

section \<open>Children\<close>

datatype child_state = RUNNING | TIMEOUT1 | TIMEOUT2 | FINISHED

record child_t =
  ch_pid :: nat
  ch_pipe :: pipe
  ch_job :: job_t
  ch_result :: result_t
  ch_state :: child_state
  ch_deadline :: int

text \<open>\<^verbatim>\<open>xmalloc\<close> clears the object, so the deadline starts at zero.\<close>

definition child_new :: "nat \<Rightarrow> pipe \<Rightarrow> job_t \<Rightarrow> child_t" where
  "child_new pid p j = \<lparr>ch_pid = pid, ch_pipe = p, ch_job = j, ch_result = R_UNKNOWN,
     ch_state = RUNNING, ch_deadline = 0\<rparr>"

definition is_finished :: "child_t \<Rightarrow> bool" where
  "is_finished c \<longleftrightarrow> ch_state c = FINISHED"

definition merge_result :: "result_t \<Rightarrow> child_t \<Rightarrow> child_t" where
  "merge_result r c = c\<lparr>ch_result := merge (ch_result c) r\<rparr>"

definition handle_hangup :: "child_t \<Rightarrow> child_t" where
  "handle_hangup c = c\<lparr>ch_state := FINISHED\<rparr>"

text \<open>The events passed to the listeners are returned with the child.\<close>

definition handle_input :: "child_t \<Rightarrow> np_error + child_t \<times> event_t list" where
  "handle_input c =
     (if ch_state c = FINISHED then Inr (c, [])
      else case handle_call (ch_result c) (ch_pipe c) of
        (Inl e, p) \<Rightarrow> Inl e
      | (Inr (again, res, ev), p) \<Rightarrow>
          (let c' = c\<lparr>ch_result := res, ch_pipe := p\<rparr>
           in Inr (if again then c' else c'\<lparr>ch_state := FINISHED\<rparr>, case ev of None \<Rightarrow> [] | Some e \<Rightarrow> [e])))"

datatype sig = SIGTERM | SIGKILL

definition timeout_event :: "nat \<Rightarrow> event_t" where
  "timeout_event pid = mk_event EV_TIMEOUT
     (snprintf 80 (''Child process '' @ print_base lower_digits 10 pid @ '' timed out, killing''))"

definition handle_timeout :: "int \<Rightarrow> child_t \<Rightarrow> np_error + child_t \<times> event_t list \<times> (nat \<times> sig) list" where
  "handle_timeout now c =
     (case ch_state c of
        RUNNING \<Rightarrow>
          if ch_deadline c \<le> now
          then bindE (raise_event (timeout_event (ch_pid c))) (\<lambda>(n, r).
            Inr ((merge_result r c)\<lparr>ch_state := TIMEOUT1, ch_deadline := now + 3 * NANOSEC_PER_SEC\<rparr>,
                 [n], [(ch_pid c, SIGTERM)]))
          else Inr (c, [], [])
      | TIMEOUT1 \<Rightarrow> Inr (c\<lparr>ch_state := TIMEOUT2, ch_deadline := 0\<rparr>, [], [(ch_pid c, SIGKILL)])
      | _ \<Rightarrow> Inr (c, [], []))"

section \<open>A whole conversation\<close>

fun session_bytes :: "event_t list \<Rightarrow> result_t \<Rightarrow> np_error + u8 list" where
  "session_bytes [] res = Inr (proxy_end_job res)"
| "session_bytes (ev # evs) res =
     bindE (proxy_add_event ev) (\<lambda>b. bindE (session_bytes evs res) (\<lambda>bs. Inr (b @ bs)))"

text \<open>\<open>n\<close> wake-ups of the parent for input from one child.\<close>

fun handle_inputs :: "nat \<Rightarrow> child_t \<Rightarrow> np_error + child_t \<times> event_t list" where
  "handle_inputs 0 c = Inr (c, [])"
| "handle_inputs (Suc n) c =
     bindE (handle_input c) (\<lambda>(c1, e1). bindE (handle_inputs n c1) (\<lambda>(c2, e2). Inr (c2, e1 @ e2)))"

text \<open>An event as the child's listener sends it: normalised, with strings that fit.\<close>

definition proxied :: "event_t \<Rightarrow> bool" where
  "proxied n \<longleftrightarrow> ev_wf n \<and> sendable_event n \<and> normal_form n = n"

lemma proxied_normal_form: "ev_wf ev \<Longrightarrow> sendable_event (normal_form ev) \<Longrightarrow> proxied (normal_form ev)"
  by (simp add: proxied_def normal_form_wf normal_form_idem)

lemma session_bytes_ok: "\<forall>ev\<in>set evs. proxied ev \<Longrightarrow> \<exists>bs. session_bytes evs res = Inr bs"
proof (induction evs)
  case (Cons ev evs)
  then obtain b where "serialise_event ev = Inr b" using event_codes [of ev] by (auto simp: proxied_def)
  with Cons show ?case by (auto simp: proxy_add_event_def)
qed simp

definition results :: "event_t list \<Rightarrow> result_t \<Rightarrow> result_t" where
  "results evs r = fold (\<lambda>ev r. merge r (get_result ev)) evs r"

lemma results_Cons [simp]: "results (ev # evs) r = results evs (merge r (get_result ev))"
  by (simp add: results_def)

lemma results_Nil [simp]: "results [] r = r"
  by (simp add: results_def)

lemma results_FAIL_iff: "results evs r = R_FAIL \<longleftrightarrow> r = R_FAIL \<or> (\<exists>ev\<in>set evs. get_result ev = R_FAIL)"
  by (induction evs arbitrary: r) auto

lemma handle_inputs_session:
  assumes "\<forall>ev\<in>set evs. proxied ev" "session_bytes evs res = Inr bs" "ch_state c \<noteq> FINISHED"
    "good_pipe (ch_pipe c)" "pipe_bytes (ch_pipe c) = bs @ rest"
  shows "\<exists>c'. handle_inputs (Suc (length evs)) c = Inr (c', evs) \<and> ch_state c' = FINISHED
    \<and> ch_result c' = merge (results evs (ch_result c)) res \<and> ch_job c' = ch_job c \<and> ch_pid c' = ch_pid c"
  using assms
proof (induction evs arbitrary: c bs)
  case Nil
  then have "pipe_bytes (ch_pipe c) = proxy_end_job res @ rest" by simp
  from handle_call_finished [OF Nil.prems(4) this, of "ch_result c"] obtain p' where
    "handle_call (ch_result c) (ch_pipe c) = (Inr (False, merge (ch_result c) res, None), p')" by metis
  with Nil.prems(3) show ?case by (simp add: handle_input_def Let_def)
next
  case (Cons ev evs)
  obtain b b' where b: "proxy_add_event ev = Inr b" "session_bytes evs res = Inr b'" "bs = b @ b'"
    using Cons.prems(2) by (auto simp: bindE_Inr_iff)
  have ev: "sendable_event ev" "ev_wf ev" "normal_form ev = ev" using Cons.prems(1) by (auto simp: proxied_def)
  have "pipe_bytes (ch_pipe c) = b @ (b' @ rest)" using Cons.prems(5) b by simp
  from handle_call_event [OF ev(1,2) b(1) Cons.prems(4) this, of "ch_result c"] obtain p' where
    p': "handle_call (ch_result c) (ch_pipe c) = (Inr (True, merge (ch_result c) (get_result ev), Some ev), p')"
      "good_pipe p'" "pipe_bytes p' = b' @ rest" using ev(3) by metis
  let ?c = "c\<lparr>ch_result := merge (ch_result c) (get_result ev), ch_pipe := p'\<rparr>"
  have h: "handle_input c = Inr (?c, [ev])"
    using p'(1) Cons.prems(3) by (simp add: handle_input_def Let_def)
  have "\<exists>c'. handle_inputs (Suc (length evs)) ?c = Inr (c', evs) \<and> ch_state c' = FINISHED
    \<and> ch_result c' = merge (results evs (ch_result ?c)) res \<and> ch_job c' = ch_job ?c \<and> ch_pid c' = ch_pid ?c"
    by (rule Cons.IH [OF _ b(2)]) (use Cons.prems p' in auto)
  then obtain c' where "handle_inputs (Suc (length evs)) ?c = Inr (c', evs)" "ch_state c' = FINISHED"
    "ch_result c' = merge (results evs (ch_result ?c)) res" "ch_job c' = ch_job ?c" "ch_pid c' = ch_pid ?c" by blast
  then show ?case using h by simp
qed

section \<open>Timeouts\<close>

lemma timeout_event_wf: "ev_wf (timeout_event pid)"
  by (simp add: timeout_event_def ev_wf_build)

lemma timeout_event_result: "get_result (timeout_event pid) = R_FAIL"
  by (simp add: timeout_event_def mk_event_def get_result_def events_of_uint_def events_all_def)

text \<open>
  C30. A running child whose deadline has passed fails its test, is told to terminate and gets
  three more seconds; the next timeout kills it for good; further ones do nothing. A child
  whose deadline has not passed is left alone.
\<close>

theorem timeout_escalates:
  assumes "ch_state c = RUNNING" "ch_deadline c \<le> t1"
  shows "\<exists>c1 c2. handle_timeout t1 c = Inr (c1, [normal_form (timeout_event (ch_pid c))], [(ch_pid c, SIGTERM)])
      \<and> ch_result c1 = R_FAIL \<and> ch_deadline c1 = t1 + 3 * NANOSEC_PER_SEC
      \<and> handle_timeout t2 c1 = Inr (c2, [], [(ch_pid c, SIGKILL)]) \<and> ch_deadline c2 = 0
      \<and> handle_timeout t3 c2 = Inr (c2, [], []) \<and> ch_result c2 = R_FAIL
      \<and> (t0 < ch_deadline c \<longrightarrow> handle_timeout t0 c = Inr (c, [], []))"
  using assms
  by (simp add: handle_timeout_def raise_event_normal timeout_event_wf timeout_event_result merge_result_def)

definition demo_child :: child_t where
  "demo_child = child_new 42 [] \<lparr>jb_id = 1, jb_node = [], jb_assigns = [], jb_start = 0, jb_end = 0,
     jb_stdout_path = [], jb_stderr_path = []\<rparr>"

theorem timeout_escalates_witness:
  "\<exists>c1. handle_timeout 5 demo_child = Inr (c1, [normal_form (timeout_event 42)], [(42, SIGTERM)]) \<and> ch_result c1 = R_FAIL"
  using timeout_escalates [of demo_child 5 6 7 0] by (auto simp: demo_child_def child_new_def)

text \<open>
  The grace period is not kept: once a child has been told to terminate, any later
  timeout of the poll, whichever child it was for, kills it even before its own extended
  deadline.
\<close>

theorem grace_period_ignored:
  assumes "ch_state c = TIMEOUT1" "now < ch_deadline c"
  shows "\<exists>c'. handle_timeout now c = Inr (c', [], [(ch_pid c, SIGKILL)])"
  using assms by (simp add: handle_timeout_def)

theorem grace_period_ignored_witness:
  "\<exists>c'. handle_timeout 1 (demo_child\<lparr>ch_state := TIMEOUT1, ch_deadline := 3000000000\<rparr>) = Inr (c', [], [(42, SIGKILL)])"
  using grace_period_ignored [of "demo_child\<lparr>ch_state := TIMEOUT1, ch_deadline := 3000000000\<rparr>" 1]
  by (simp add: demo_child_def child_new_def)

section \<open>Parameters of a run\<close>

lemma apply_all_vars:
  "apply_all as vs = Inr vs' \<Longrightarrow> v \<notin> (\<lambda>a. pm_variable (as_param a)) ` set as \<Longrightarrow> vs' v = vs v"
proof (induction as arbitrary: vs)
  case (Cons a as)
  then obtain v1 where v1: "apply_assignment a vs = Inr v1" "apply_all as v1 = Inr vs'"
    by (auto simp: bindE_Inr_iff)
  then have "v1 v = vs v" using Cons.prems by (auto simp: apply_assignment_def split: if_splits)
  with Cons v1 show ?case by simp
qed simp

lemma apply_all_set:
  "apply_all as vs = Inr vs' \<Longrightarrow> distinct (map (\<lambda>a. pm_variable (as_param a)) as) \<Longrightarrow> a \<in> set as \<Longrightarrow>
     as_idx a < length (pm_values (as_param a)) \<and>
     vs' (pm_variable (as_param a)) = Some (pm_values (as_param a) ! as_idx a)"
proof (induction as arbitrary: vs)
  case (Cons b as)
  then obtain v1 where v1: "apply_assignment b vs = Inr v1" "apply_all as v1 = Inr vs'"
    by (auto simp: bindE_Inr_iff)
  show ?case
  proof (cases "a = b")
    case True
    with Cons.prems have "pm_variable (as_param a) \<notin> (\<lambda>a. pm_variable (as_param a)) ` set as" by auto
    with apply_all_vars [OF v1(2) this] v1(1) True show ?thesis
      by (auto simp: apply_assignment_def split: if_splits)
  next
    case False
    with Cons v1 show ?thesis by auto
  qed
qed simp

lemma unapply_all: "fold unapply_assignment as vs v = (if v \<in> (\<lambda>a. pm_variable (as_param a)) ` set as then None else vs v)"
  by (induction as arbitrary: vs) (auto simp: unapply_assignment_def)

text \<open>
  Before a test runs, each of its parameter variables is set to the value its assignment
  selects; afterwards they are all reset to null, and no other variable has been touched.
\<close>

theorem job_parameters_set_and_reset:
  assumes "job_pre_run k root j tp = Inr tp'" "distinct (map (\<lambda>a. pm_variable (as_param a)) (jb_assigns j))"
  shows "(\<forall>a\<in>set (jb_assigns j). tp_vars tp' (pm_variable (as_param a)) = Some (pm_values (as_param a) ! as_idx a))
    \<and> tp_vars (job_post_run k root j tp') =
        (\<lambda>v. if v \<in> (\<lambda>a. pm_variable (as_param a)) ` set (jb_assigns j) then None else tp_vars tp v)"
proof -
  obtain vs where vs: "apply_all (jb_assigns j) (tp_vars tp) = Inr vs" "tp_vars tp' = vs"
    using assms(1) by (auto simp: job_pre_run_def bindE_Inr_iff)
  then show ?thesis
    using apply_all_set [OF vs(1) assms(2)] apply_all_vars [OF vs(1)]
    by (auto simp: job_post_run_def unapply_all Let_def split: prod.split)
qed

definition demo_job :: job_t where
  "demo_job = \<lparr>jb_id = 1, jb_node = [], jb_assigns = [\<lparr>as_param =
     \<lparr>pm_name = ''p'', pm_variable = 9, pm_values = [''x'', ''y'']\<rparr>, as_idx = 1\<rparr>], jb_start = 0, jb_end = 0,
     jb_stdout_path = [], jb_stderr_path = []\<rparr>"

theorem job_parameters_set_and_reset_witness:
  "\<exists>tp'. job_pre_run demo_kernel demo_tree demo_job \<lparr>tp_vars = Map.empty, tp_dyn = [], tp_reg = demo_ireg\<rparr> = Inr tp'
     \<and> tp_vars tp' 9 = Some ''y''"
proof -
  obtain tp' where t: "job_pre_run demo_kernel demo_tree demo_job
      \<lparr>tp_vars = Map.empty, tp_dyn = [], tp_reg = demo_ireg\<rparr> = Inr tp'"
    by (simp add: job_pre_run_def demo_job_def apply_assignment_def)
  from job_parameters_set_and_reset [OF t] t show ?thesis by (simp add: demo_job_def)
qed

lemma apply_all_empty:
  "\<exists>a\<in>set as. pm_values (as_param a) = [] \<Longrightarrow> apply_all as vs = Inl Out_Of_Range"
  by (induction as arbitrary: vs) (auto simp: apply_assignment_def)

text \<open>
  A parameter declared without any value passes the plan iterator, but setting it up in
  the child reads past the end of its value list.
\<close>

theorem empty_parameter_out_of_range:
  assumes "pm \<in> set (parameters_at root p)" "pm_values pm = []" "jb_assigns j \<in> set (combos (parameters_at root p))"
  shows "job_pre_run k root j tp = Inl Out_Of_Range"
proof -
  have "map as_param (jb_assigns j) = parameters_at root p"
    using assms(3) by (simp add: set_combos)
  with assms(1,2) have "\<exists>a\<in>set (jb_assigns j). pm_values (as_param a) = []" by (metis image_iff set_map)
  then show ?thesis using apply_all_empty by (auto simp: job_pre_run_def)
qed

theorem empty_parameter_out_of_range_witness:
  "job_pre_run demo_kernel
     (add_parameter ''q'' 8 ''  '' demo_tree) (demo_job\<lparr>jb_assigns := [assign (mk_parameter ''q'' 8 ''  '') 0]\<rparr>)
     \<lparr>tp_vars = Map.empty, tp_dyn = [], tp_reg = demo_ireg\<rparr>
   = Inl Out_Of_Range"
proof -
  let ?pm = "mk_parameter ''q'' 8 ''  ''"
  have v: "pm_values ?pm = []" by (simp add: mk_parameter_def tokens_eq)
  have p: "parameters_at (add_parameter ''q'' 8 ''  '' demo_tree) [] = [?pm]"
    by (simp add: parameters_at_def demo_tree_def)
  show ?thesis
    by (rule empty_parameter_out_of_range [of ?pm _ "[]"]) (simp_all add: p v row_def row_size_def)
qed

end
