(* ===== verification/NP_Runner.thy ===== *)
theory NP_Runner
  imports NP_Job
begin

text \<open>
  \<^verbatim>\<open>np/runner.cxx\<close>: starting test processes, waiting for them, reaping them and collecting
  their results, and the code that runs inside a test process. What the kernel answers to
  \<^verbatim>\<open>poll\<close>, \<^verbatim>\<open>waitpid\<close>, \<^verbatim>\<open>fork\<close>, \<^verbatim>\<open>mkstemp\<close> and the clock is an argument of the
  operation that asks, in the order of asking; what the test functions do is a function from
  the function to its outcome. The calls made to the listeners are collected in a trace.
\<close>

section \<open>State\<close>

datatype listener = Text_Listener | Junit_Listener | Proxy_Listener

definition needs_stdout :: "listener \<Rightarrow> bool" where
  "needs_stdout l \<longleftrightarrow> l = Junit_Listener"

datatype lcall =
    L_Begin
  | L_End
  | L_Begin_Job job_t
  | L_End_Job job_t result_t
  | L_Add_Event job_t event_t

record runner_t =
  rn_listeners :: "listener list"
  rn_nrun :: u32
  rn_nfailed :: u32
  rn_children :: "child_t list"
  rn_nrunning :: u32
  rn_maxchildren :: u32
  rn_timeout :: int
  rn_needs_stdout :: bool
  rn_caught_sigchld :: bool
  rn_trace :: "(lcall \<times> listener list) list"
  rn_kills :: "(nat \<times> sig) list"

text \<open>
  \<^verbatim>\<open>dispatch_listeners\<close>: the call goes to every listener, in the order of adding; an entry
  of the trace is the call and the listeners that got it.
\<close>

definition dispatch :: "lcall \<Rightarrow> runner_t \<Rightarrow> runner_t" where
  "dispatch c r = r\<lparr>rn_trace := rn_trace r @ [(c, rn_listeners r)]\<rparr>"

definition choose_timeout :: "bool \<Rightarrow> bool \<Rightarrow> int" where
  "choose_timeout debugger valgrind =
     (if debugger then 0 else let timeout = 30 in if valgrind then timeout * 3 else timeout)"

definition runner_new :: "bool \<Rightarrow> bool \<Rightarrow> runner_t" where
  "runner_new debugger valgrind =
     \<lparr>rn_listeners = [], rn_nrun = 0, rn_nfailed = 0, rn_children = [], rn_nrunning = 0,
      rn_maxchildren = 1, rn_timeout = choose_timeout debugger valgrind, rn_needs_stdout = False,
      rn_caught_sigchld = False, rn_trace = [], rn_kills = []\<rparr>"

text \<open>The number of processors is what \<^verbatim>\<open>sysconf\<close> answers.\<close>

definition set_concurrency :: "int \<Rightarrow> int \<Rightarrow> runner_t \<Rightarrow> runner_t" where
  "set_concurrency nproc n r =
     (let n1 = (if n = 0 then nproc else n);
          n2 = (if n1 < 1 then 1 else n1)
      in r\<lparr>rn_maxchildren := word_of_int n2\<rparr>)"

definition destroy_listeners :: "runner_t \<Rightarrow> runner_t" where
  "destroy_listeners r = r\<lparr>rn_listeners := [], rn_needs_stdout := False\<rparr>"

definition add_listener :: "listener \<Rightarrow> runner_t \<Rightarrow> runner_t" where
  "add_listener l r = r\<lparr>rn_listeners := rn_listeners r @ [l],
     rn_needs_stdout := rn_needs_stdout r \<or> needs_stdout l\<rparr>"

definition set_listener :: "listener \<Rightarrow> runner_t \<Rightarrow> runner_t" where
  "set_listener l r = (let r1 = destroy_listeners r in r1\<lparr>rn_listeners := rn_listeners r1 @ [l]\<rparr>)"

definition np_set_output_format :: "string \<Rightarrow> runner_t \<Rightarrow> bool \<times> runner_t" where
  "np_set_output_format fmt r =
     (if fmt = ''junit'' then (True, add_listener Junit_Listener r)
      else if fmt = ''text'' then (True, add_listener Text_Listener r)
      else (False, r))"

definition runner_begin :: "runner_t \<Rightarrow> runner_t" where
  "runner_begin r = dispatch L_Begin r"

definition runner_end :: "runner_t \<Rightarrow> runner_t" where
  "runner_end r = dispatch L_End r"

definition dispatch_events :: "job_t \<Rightarrow> event_t list \<Rightarrow> runner_t \<Rightarrow> runner_t" where
  "dispatch_events j evs r = fold (\<lambda>ev. dispatch (L_Add_Event j ev)) evs r"

section \<open>Starting a child process\<close>

datatype fork_res = Fork_Child | Fork_Parent nat | Fork_Eagain | Fork_Error

text \<open>
  The retry loop: the process it ends in and the delays slept, in milliseconds. Too few
  answers count as a failure of \<^verbatim>\<open>fork\<close>.
\<close>

fun fork_loop :: "nat \<Rightarrow> nat \<Rightarrow> fork_res list \<Rightarrow> (np_error + nat option) \<times> nat list" where
  "fork_loop max_sleeps delay_ms [] = (Inl (Fatal_Exit ''fork''), [])"
| "fork_loop max_sleeps delay_ms (Fork_Child # rs) = (Inr None, [])"
| "fork_loop max_sleeps delay_ms (Fork_Parent pid # rs) = (Inr (Some pid), [])"
| "fork_loop max_sleeps delay_ms (Fork_Error # rs) = (Inl (Fatal_Exit ''fork''), [])"
| "fork_loop max_sleeps delay_ms (Fork_Eagain # rs) =
     (if max_sleeps > 0
      then let (res, ds) = fork_loop (max_sleeps - 1) (delay_ms + delay_ms div 2) rs
           in (res, delay_ms # ds)
      else (Inl (Fatal_Exit ''fork''), []))"

record fork_env =
  fe_pipe_ok :: bool
  fe_tmpfiles :: "string option \<times> string option"
  fe_forks :: "fork_res list"
  fe_stream :: pipe

text \<open>
  \<^verbatim>\<open>fork_child\<close>: in the parent the new child is added; in the child process the runner is
  returned unchanged, with no child.
\<close>

definition fork_child :: "fork_env \<Rightarrow> job_t \<Rightarrow> runner_t \<Rightarrow> np_error + child_t option \<times> runner_t" where
  "fork_child fe j r =
     (if \<not> fe_pipe_ok fe then Inl (Fatal_Exit ''pipe'')
      else if rn_needs_stdout r \<and> (fst (fe_tmpfiles fe) = None \<or> snd (fe_tmpfiles fe) = None)
      then Inl (Fatal_Exit ''mkstemp'')
      else case fst (fork_loop 20 10 (fe_forks fe)) of
        Inl e \<Rightarrow> Inl e
      | Inr None \<Rightarrow> Inr (None, r)
      | Inr (Some pid) \<Rightarrow>
          let j1 = (if rn_needs_stdout r
                    then j\<lparr>jb_stdout_path := the (fst (fe_tmpfiles fe)), jb_stderr_path := the (snd (fe_tmpfiles fe))\<rparr>
                    else j);
              c = child_new pid (fe_stream fe) j1;
              c1 = (if rn_timeout r \<noteq> 0
                    then c\<lparr>ch_deadline := jb_start j + rn_timeout r * NANOSEC_PER_SEC\<rparr> else c)
          in Inr (Some c1, r\<lparr>rn_children := rn_children r @ [c1], rn_nrunning := rn_nrunning r + 1\<rparr>))"

section \<open>Reaping\<close>

datatype wait_res =
    W_Exited nat nat
  | W_Signaled nat nat
  | W_Stopped nat nat
  | W_None
  | W_No_Child
  | W_Error

definition exit_event :: "nat \<Rightarrow> nat \<Rightarrow> event_t" where
  "exit_event pid status = mk_event EV_EXIT (snprintf 1024
     (''child process '' @ print_base lower_digits 10 pid @ '' exited with '' @ print_base lower_digits 10 status))"

definition signal_event :: "nat \<Rightarrow> nat \<Rightarrow> event_t" where
  "signal_event pid sg = mk_event EV_SIGNAL (snprintf 1024
     (''child process '' @ print_base lower_digits 10 pid @ '' died on signal '' @ print_base lower_digits 10 sg))"

fun find_pid :: "nat \<Rightarrow> child_t list \<Rightarrow> nat option" where
  "find_pid pid [] = None"
| "find_pid pid (c # cs) = (if ch_pid c = pid then Some 0 else map_option Suc (find_pid pid cs))"

definition remove_nth :: "nat \<Rightarrow> 'a list \<Rightarrow> 'a list" where
  "remove_nth i xs = take i xs @ drop (Suc i) xs"

text \<open>The end of a reaped child: the counters, the listeners, and its removal.\<close>

definition finish_child :: "int \<Rightarrow> nat \<Rightarrow> child_t \<Rightarrow> runner_t \<Rightarrow> runner_t" where
  "finish_child now i c r =
     (let c1 = merge_result R_PASS c;
          j = job_post_run_parent now (ch_job c1);
          r1 = r\<lparr>rn_nfailed := rn_nfailed r + (if ch_result c1 = R_FAIL then 1 else 0),
                rn_nrun := rn_nrun r + 1\<rparr>;
          r2 = dispatch (L_End_Job j (ch_result c1)) r1
      in r2\<lparr>rn_children := remove_nth i (rn_children r2)\<rparr>)"

definition raise_for :: "child_t \<Rightarrow> event_t \<Rightarrow> runner_t \<Rightarrow> np_error + child_t \<times> runner_t" where
  "raise_for c ev r =
     bindE (raise_event ev) (\<lambda>(n, res).
       Inr (merge_result res c, dispatch (L_Add_Event (ch_job c) n) r))"

fun reap_loop :: "int \<Rightarrow> wait_res list \<Rightarrow> nat \<Rightarrow> runner_t \<Rightarrow> np_error + nat \<times> runner_t" where
  "reap_loop now [] num r = Inr (num, r)"
| "reap_loop now (W_None # ws) num r = Inr (num, r)"
| "reap_loop now (W_No_Child # ws) num r = Inr (num, r)"
| "reap_loop now (W_Error # ws) num r = Inr (num, r)"
| "reap_loop now (W_Stopped pid sg # ws) num r = reap_loop now ws num r"
| "reap_loop now (W_Exited pid status # ws) num r =
     (case find_pid pid (rn_children r) of
        None \<Rightarrow> reap_loop now ws num r
      | Some i \<Rightarrow>
          if status \<noteq> 0
          then bindE (raise_for (rn_children r ! i) (exit_event pid status) r) (\<lambda>(c, r1).
                 reap_loop now ws (Suc num) (finish_child now i c r1))
          else reap_loop now ws num (finish_child now i (rn_children r ! i) r))"
| "reap_loop now (W_Signaled pid sg # ws) num r =
     (case find_pid pid (rn_children r) of
        None \<Rightarrow> reap_loop now ws num r
      | Some i \<Rightarrow>
          bindE (raise_for (rn_children r ! i) (signal_event pid sg) r) (\<lambda>(c, r1).
            reap_loop now ws (Suc num) (finish_child now i (handle_hangup c) r1)))"

definition reap_children :: "int \<Rightarrow> wait_res list \<Rightarrow> runner_t \<Rightarrow> np_error + nat \<times> runner_t" where
  "reap_children now ws r = reap_loop now ws 0 (r\<lparr>rn_caught_sigchld := False\<rparr>)"

section \<open>Waiting\<close>

definition find_finished_child :: "runner_t \<Rightarrow> child_t option" where
  "find_finished_child r = find is_finished (rn_children r)"

text \<open>The nearest deadline of the unfinished children, as a timeout from \<open>start\<close>: -1 for none.\<close>

fun nearest :: "int \<Rightarrow> int \<Rightarrow> child_t list \<Rightarrow> int" where
  "nearest start timeout [] = timeout"
| "nearest start timeout (c # cs) =
     (if is_finished c \<or> ch_deadline c = 0 then nearest start timeout cs
      else let to = ch_deadline c - start
           in nearest start (if to \<le> 0 then 0 else if timeout < 0 \<or> timeout > to then to else timeout) cs)"

text \<open>
  The argument of \<^verbatim>\<open>poll\<close> in milliseconds, converted to its parameter type \<^verbatim>\<open>int\<close>, and the new count of
  zero timeouts.
\<close>

definition poll_timeout :: "int \<Rightarrow> nat \<Rightarrow> child_t list \<Rightarrow> int \<times> nat" where
  "poll_timeout start nzeroes cs =
     (let t0 = nearest start (- 1) cs;
          (t1, nz) = (if t0 = 0 then (if Suc nzeroes > 5 then NANOSEC_PER_SEC else t0, Suc nzeroes) else (t0, 0))
      in (sint (word_of_int (if t1 < 0 then - 1 else (t1 + 500000) div 1000000) :: u32), nz))"

datatype poll_res =
    Poll_Ready "(bool \<times> bool) list"
  | Poll_Timeout int
  | Poll_Eintr "wait_res list"
  | Poll_Error

text \<open>A poll with some descriptors ready: input first, then hangup, child by child.\<close>

fun ready_children :: "(bool \<times> bool) list \<Rightarrow> child_t list \<Rightarrow> runner_t \<Rightarrow>
    np_error + child_t list \<times> nat \<times> runner_t" where
  "ready_children revs [] r = Inr ([], 0, r)"
| "ready_children revs (c # cs) r =
     (if is_finished c
      then bindE (ready_children revs cs r) (\<lambda>(cs', n, r'). Inr (c # cs', n, r'))
      else
        let (pollin, pollhup) = (case revs of [] \<Rightarrow> (False, False) | x # xs \<Rightarrow> x);
            revs' = (case revs of [] \<Rightarrow> [] | x # xs \<Rightarrow> xs)
        in bindE (if pollin then handle_input c else Inr (c, [])) (\<lambda>(c1, evs).
           let r1 = dispatch_events (ch_job c) evs r;
               c2 = (if pollhup then handle_hangup c1 else c1)
           in bindE (ready_children revs' cs r1) (\<lambda>(cs', n, r').
                Inr (c2 # cs', (if is_finished c2 then Suc n else n), r'))))"

fun timeout_children :: "int \<Rightarrow> child_t list \<Rightarrow> runner_t \<Rightarrow> np_error + child_t list \<times> runner_t" where
  "timeout_children now [] r = Inr ([], r)"
| "timeout_children now (c # cs) r =
     (if is_finished c
      then bindE (timeout_children now cs r) (\<lambda>(cs', r'). Inr (c # cs', r'))
      else bindE (handle_timeout now c) (\<lambda>(c1, evs, ks).
             let r1 = (dispatch_events (ch_job c) evs r)\<lparr>rn_kills := rn_kills r @ ks\<rparr>
             in bindE (timeout_children now cs r1) (\<lambda>(cs', r'). Inr (c1 # cs', r'))))"

text \<open>
  Synchronous reaping of the finished children in their start order: one list of answers per
  child; the loop ends when no finished child is left.
\<close>

fun reap_finished :: "int \<Rightarrow> wait_res list list \<Rightarrow> runner_t \<Rightarrow> np_error + runner_t" where
  "reap_finished now [] r = (case find_finished_child r of None \<Rightarrow> Inr r | Some c \<Rightarrow> Inl (Fatal_Exit ''waitpid''))"
| "reap_finished now (ws # wss) r =
     (case find_finished_child r of
        None \<Rightarrow> Inr r
      | Some c \<Rightarrow> bindE (reap_children now ws r) (\<lambda>(n, r'). reap_finished now wss r'))"

text \<open>
  One round of the loop in \<^verbatim>\<open>wait\<close>: the clock at its start, the answer of \<^verbatim>\<open>poll\<close>, and the
  answers for reaping afterwards. The result says how many children are finished; \<^const>\<open>None\<close>
  is the early return on an error of \<^verbatim>\<open>poll\<close>.
\<close>

definition wait_round :: "int \<Rightarrow> poll_res \<Rightarrow> wait_res list list \<Rightarrow> runner_t \<Rightarrow> np_error + nat option \<times> runner_t" where
  "wait_round now pr wss r =
     (let pfd = filter (\<lambda>c. \<not> is_finished c) (rn_children r)
      in if of_nat (length pfd) \<noteq> rn_nrunning r then Inl Assert_Failed
         else if length pfd = 0 then Inl Assert_Failed
         else
           bindE (case pr of
               Poll_Error \<Rightarrow> Inr (None, r)
             | Poll_Eintr ws \<Rightarrow>
                 if rn_caught_sigchld r then bindE (reap_children now ws r) (\<lambda>(n, r1). Inr (Some n, r1))
                 else Inr (None, r)
             | Poll_Timeout t \<Rightarrow>
                 bindE (timeout_children t (rn_children r) r) (\<lambda>(cs, r1). Inr (Some 0, r1\<lparr>rn_children := cs\<rparr>))
             | Poll_Ready revs \<Rightarrow>
                 bindE (ready_children revs (rn_children r) r) (\<lambda>(cs, n, r1). Inr (Some n, r1\<lparr>rn_children := cs\<rparr>)))
             (\<lambda>(nf, r1).
               case nf of
                 None \<Rightarrow> Inr (None, r1)
               | Some n \<Rightarrow>
                   if n \<noteq> 0
                   then bindE (reap_finished now wss (r1\<lparr>rn_nrunning := rn_nrunning r1 - of_nat n\<rparr>))
                          (\<lambda>r2. Inr (Some n, r2))
                   else Inr (Some 0, r1)))"

text \<open>What the kernel does during one round; a SIGCHLD may arrive before the poll returns.\<close>

record round_env =
  re_now :: int
  re_sigchld :: bool
  re_poll :: poll_res
  re_waits :: "wait_res list list"

text \<open>
  \<^verbatim>\<open>wait\<close>: rounds until a child is finished or the poll fails; \<^const>\<open>None\<close> when the list of
  rounds ends first, that is while the parent is still waiting.
\<close>

fun wait_rounds :: "round_env list \<Rightarrow> runner_t \<Rightarrow> (np_error + runner_t \<times> round_env list) option" where
  "wait_rounds [] r = None"
| "wait_rounds (e # es) r =
     (case wait_round (re_now e) (re_poll e) (re_waits e)
             (r\<lparr>rn_caught_sigchld := rn_caught_sigchld r \<or> re_sigchld e\<rparr>) of
        Inl err \<Rightarrow> Some (Inl err)
      | Inr (None, r') \<Rightarrow> Some (Inr (r', es))
      | Inr (Some n, r') \<Rightarrow> if n \<noteq> 0 then Some (Inr (r', es)) else wait_rounds es r')"

definition runner_wait :: "round_env list \<Rightarrow> runner_t \<Rightarrow> (np_error + runner_t \<times> round_env list) option" where
  "runner_wait es r = (if rn_nrunning r = 0 then Some (Inr (r, es)) else wait_rounds es r)"

section \<open>Inside a test process\<close>

text \<open>
  What calling a function does: the events it raises without stopping (through
  \<^verbatim>\<open>np_raise\<close>), and how it ends: it returns nothing or a number, or throws an event.
\<close>

datatype fn_end = Ret_Void | Ret_Int int | Throws event_t

type_synonym exec = "function_t \<Rightarrow> event_t list \<times> fn_end"

text \<open>Events raised so far, normalised, in order: what the process's listener has been given.\<close>

fun raise_all :: "event_t list \<Rightarrow> np_error + event_t list" where
  "raise_all [] = Inr []"
| "raise_all (ev # evs) =
     bindE (raise_event ev) (\<lambda>(n, r). bindE (raise_all evs) (\<lambda>ns. Inr (n # ns)))"

definition int_string :: "int \<Rightarrow> string" where
  "int_string i = (if i < 0 then CHR ''-'' # print_base lower_digits 10 (nat (- i))
     else print_base lower_digits 10 (nat i))"

definition fixture_event :: "function_t \<Rightarrow> int \<Rightarrow> event_t" where
  "fixture_event f i = in_function_spiegel f
     (mk_event EV_FIXTURE (snprintf 64 (''fixture returned '' @ int_string i)))"

text \<open>\<^verbatim>\<open>run_function\<close>: the events raised and the event thrown, if any.\<close>

definition run_function :: "exec \<Rightarrow> functype_t \<Rightarrow> function_t \<Rightarrow> np_error + event_t list \<times> event_t option" where
  "run_function ex ft f =
     (let (evs, e) = ex f
      in bindE (raise_all evs) (\<lambda>ns.
         case e of
           Throws ev \<Rightarrow> Inr (ns, Some ev)
         | Ret_Void \<Rightarrow> if ft = FT_TEST then Inr (ns, None) else Inl Assert_Failed
         | Ret_Int i \<Rightarrow>
             if ft = FT_TEST then Inl Assert_Failed
             else if i \<noteq> 0 then Inr (ns, Some (fixture_event f i)) else Inr (ns, None)))"

fun run_functions :: "exec \<Rightarrow> functype_t \<Rightarrow> function_t list \<Rightarrow> np_error + event_t list \<times> event_t option" where
  "run_functions ex ft [] = Inr ([], None)"
| "run_functions ex ft (f # fs) =
     bindE (run_function ex ft f) (\<lambda>(ns, th).
       case th of
         Some ev \<Rightarrow> Inr (ns, Some ev)
       | None \<Rightarrow> bindE (run_functions ex ft fs) (\<lambda>(ns', th'). Inr (ns @ ns', th')))"

definition run_fixtures :: "exec \<Rightarrow> testnode_t \<Rightarrow> pos \<Rightarrow> functype_t \<Rightarrow> np_error + event_t list \<times> event_t option" where
  "run_fixtures ex root p ft = run_functions ex ft (get_fixtures root p ft)"

text \<open>A guarded phase: run it, and report what it throws with the kind of function it was.\<close>

definition run_phase :: "functype_t \<Rightarrow> np_error + event_t list \<times> event_t option \<Rightarrow> result_t \<Rightarrow>
    np_error + event_t list \<times> result_t" where
  "run_phase ft m res =
     bindE m (\<lambda>(ns, th).
       case th of
         None \<Rightarrow> Inr (ns, res)
       | Some ev \<Rightarrow>
           bindE (raise_event (in_functype (uint_of_functype ft) ev)) (\<lambda>(n, r).
             Inr (ns @ [n], merge res r)))"

definition fdleak_event :: "nat \<Rightarrow> string \<Rightarrow> string \<Rightarrow> event_t" where
  "fdleak_event fd pre post =
     (let num = print_base lower_digits 10 fd
      in mk_event EV_FDLEAK (snprintf 1024
           (if post = [] then ''test closed file descriptor '' @ num @ '' -> '' @ pre @ [CHR 0x0A]
            else if pre = [] then ''test leaked file descriptor '' @ num @ '' -> '' @ post @ [CHR 0x0A]
            else ''test reopened file descriptor '' @ num @ '' -> '' @ pre @ '' as '' @ post @ [CHR 0x0A])))"

definition fd_name :: "string list \<Rightarrow> nat \<Rightarrow> string" where
  "fd_name fds fd = (if fd < length fds then fds ! fd else [])"

fun leak_loop :: "string list \<Rightarrow> string list \<Rightarrow> nat list \<Rightarrow> result_t \<Rightarrow> np_error + event_t list \<times> result_t" where
  "leak_loop prefds postfds [] res = Inr ([], res)"
| "leak_loop prefds postfds (fd # fds) res =
     (if fd_name prefds fd = fd_name postfds fd then leak_loop prefds postfds fds res
      else bindE (raise_event (fdleak_event fd (fd_name prefds fd) (fd_name postfds fd))) (\<lambda>(n, r).
           bindE (leak_loop prefds postfds fds (merge res r)) (\<lambda>(ns, res'). Inr (n # ns, res'))))"

definition descriptor_leaks :: "string list \<Rightarrow> string list \<Rightarrow> result_t \<Rightarrow> np_error + event_t list \<times> result_t" where
  "descriptor_leaks prefds postfds res =
     leak_loop prefds postfds [0..<max (length prefds) (length postfds)] res"

text \<open>Valgrind's answers: bytes leaked and errors found; both zero without Valgrind.\<close>

definition valgrind_errors :: "nat \<Rightarrow> nat \<Rightarrow> result_t \<Rightarrow> np_error + event_t list \<times> result_t" where
  "valgrind_errors leaked nerrors res =
     bindE (if leaked \<noteq> 0
            then bindE (raise_event (mk_event EV_VALGRIND (snprintf 1024
                   (print_base lower_digits 10 leaked @ '' bytes of memory leaked'')))) (\<lambda>(n, r). Inr ([n], merge res r))
            else Inr ([], res)) (\<lambda>(ns, res1).
     if nerrors \<noteq> 0
     then bindE (raise_event (mk_event EV_VALGRIND (snprintf 1024
            (print_base lower_digits 10 nerrors @ '' unsuppressed errors found by valgrind'')))) (\<lambda>(n, r).
            Inr (ns @ [n], merge res1 r))
     else Inr (ns, res1))"

record test_env =
  te_exec :: exec
  te_prefds :: "string list"
  te_postfds :: "string list"
  te_leaked :: nat
  te_nerrors :: nat

text \<open>The test and its tear-down, which run unless the set-up reported something.\<close>

definition run_test_body :: "exec \<Rightarrow> testnode_t \<Rightarrow> pos \<Rightarrow> result_t \<Rightarrow> np_error + event_t list \<times> result_t" where
  "run_test_body ex root p res =
     (if res \<noteq> R_UNKNOWN then Inr ([], res)
      else case node_at root p of
        None \<Rightarrow> Inl Null_Deref
      | Some n \<Rightarrow>
          (case tn_funcs n FT_TEST of
             None \<Rightarrow> Inl Null_Deref
           | Some f \<Rightarrow>
               bindE (run_phase FT_TEST (run_function ex FT_TEST f) res) (\<lambda>(n1, res1).
               bindE (run_phase FT_AFTER (run_fixtures ex root p FT_AFTER) res1) (\<lambda>(n2, res2).
               Inr (n1 @ n2, merge res2 R_PASS)))))"

definition run_test_code :: "kernel \<Rightarrow> testnode_t \<Rightarrow> test_env \<Rightarrow> job_t \<Rightarrow> testproc \<Rightarrow>
    np_error + event_t list \<times> result_t \<times> testproc" where
  "run_test_code k root te j tp =
     bindE (job_pre_run k root j tp) (\<lambda>tp1.
     bindE (run_phase FT_BEFORE (run_fixtures (te_exec te) root (jb_node j) FT_BEFORE) R_UNKNOWN) (\<lambda>(n1, res1).
     bindE (run_test_body (te_exec te) root (jb_node j) res1) (\<lambda>(n2, res2).
     let tp2 = job_post_run k root j tp1 in
     bindE (descriptor_leaks (te_prefds te) (te_postfds te) res2) (\<lambda>(n3, res3).
     bindE (valgrind_errors (te_leaked te) (te_nerrors te) res3) (\<lambda>(n4, res4).
     Inr (n1 @ n2 @ n3 @ n4, res4, tp2))))))"

text \<open>The child's side of \<^verbatim>\<open>begin_job\<close>: everything it writes to the event pipe.\<close>

definition child_main :: "kernel \<Rightarrow> testnode_t \<Rightarrow> test_env \<Rightarrow> job_t \<Rightarrow> testproc \<Rightarrow> np_error + u8 list" where
  "child_main k root te j tp =
     bindE (run_test_code k root te j tp) (\<lambda>(evs, res, tp'). session_bytes evs res)"

section \<open>The main loop\<close>

record job_env =
  je_now :: int
  je_fork :: fork_env

text \<open>The parent's side of \<^verbatim>\<open>begin_job\<close>.\<close>

definition begin_job :: "job_env \<Rightarrow> job_t \<Rightarrow> runner_t \<Rightarrow> np_error + child_t option \<times> runner_t" where
  "begin_job je j r =
     (let r1 = dispatch (L_Begin_Job j) r
      in fork_child (je_fork je) (job_pre_run_parent (je_now je) j) r1)"

record run_state =
  rs_itr :: plan_iterator
  rs_next_id :: u32
  rs_jobs :: "job_env list"
  rs_rounds :: "round_env list"
  rs_runner :: runner_t

text \<open>
  The inner loop: start jobs while there is room. \<^const>\<open>None\<close> when the answers for starting
  jobs run out. In the new process \<^verbatim>\<open>begin_job\<close> ends with \<^verbatim>\<open>exit\<close> and does not return.
\<close>

fun start_jobs :: "nat \<Rightarrow> nat \<Rightarrow> testnode_t \<Rightarrow> plan_t \<Rightarrow> run_state \<Rightarrow> (np_error + run_state) option" where
  "start_jobs 0 fuel root plan s = None"
| "start_jobs (Suc n) fuel root plan s =
     (if rn_nrunning (rs_runner s) < rn_maxchildren (rs_runner s)
         \<and> \<not> plan_iterator_eq (rs_itr s) (plan_end plan)
      then case rs_jobs s of
        [] \<Rightarrow> None
      | je # jes \<Rightarrow>
          (case bindE (job_new (rs_next_id s) (rs_itr s)) (\<lambda>(j, nid).
                  bindE (begin_job je j (rs_runner s)) (\<lambda>(c, r').
                    case c of None \<Rightarrow> Inl (Fatal_Exit ''child'') | Some c' \<Rightarrow> Inr (nid, r'))) of
             Inl e \<Rightarrow> Some (Inl e)
           | Inr (nid, r') \<Rightarrow>
               (case plan_incr fuel root plan (rs_itr s) of
                  None \<Rightarrow> None
                | Some (Inl e) \<Rightarrow> Some (Inl e)
                | Some (Inr it) \<Rightarrow>
                    start_jobs n fuel root plan
                      (s\<lparr>rs_itr := it, rs_next_id := nid, rs_jobs := jes, rs_runner := r'\<rparr>)))
      else Some (Inr s))"

fun run_loop :: "nat \<Rightarrow> nat \<Rightarrow> testnode_t \<Rightarrow> plan_t \<Rightarrow> run_state \<Rightarrow> (np_error + run_state) option" where
  "run_loop 0 fuel root plan s = None"
| "run_loop (Suc n) fuel root plan s =
     (case start_jobs (Suc n) fuel root plan s of
        None \<Rightarrow> None
      | Some (Inl e) \<Rightarrow> Some (Inl e)
      | Some (Inr s1) \<Rightarrow>
          if rn_nrunning (rs_runner s1) = 0 then Some (Inr s1)
          else case runner_wait (rs_rounds s1) (rs_runner s1) of
            None \<Rightarrow> None
          | Some (Inl e) \<Rightarrow> Some (Inl e)
          | Some (Inr (r, es)) \<Rightarrow> run_loop n fuel root plan (s1\<lparr>rs_runner := r, rs_rounds := es\<rparr>))"

text \<open>
  \<^verbatim>\<open>run_tests\<close>: the exit code and the runner at the end. The plan given, or all tests; the
  default listener; a last reaping of whatever is left.
\<close>

definition run_tests :: "nat \<Rightarrow> nat \<Rightarrow> testnode_t \<Rightarrow> plan_t option \<Rightarrow> u32 \<Rightarrow> job_env list \<Rightarrow> round_env list \<Rightarrow>
    int \<Rightarrow> wait_res list \<Rightarrow> runner_t \<Rightarrow> (np_error + bool \<times> runner_t) option" where
  "run_tests n fuel root oplan next_id jes es now ws r0 =
     (let plan = (case oplan of Some p \<Rightarrow> p | None \<Rightarrow> add_node [] []);
          r1 = (if rn_listeners r0 = [] then add_listener Text_Listener r0 else r0);
          r2 = (runner_begin r1)\<lparr>rn_nrunning := 0\<rparr>
      in case plan_begin fuel root plan of
           None \<Rightarrow> None
         | Some (Inl e) \<Rightarrow> Some (Inl e)
         | Some (Inr it) \<Rightarrow>
             (case run_loop n fuel root plan
                     \<lparr>rs_itr = it, rs_next_id = next_id, rs_jobs = jes, rs_rounds = es, rs_runner = r2\<rparr> of
                None \<Rightarrow> None
              | Some (Inl e) \<Rightarrow> Some (Inl e)
              | Some (Inr s) \<Rightarrow>
                  Some (bindE (if rn_children (rs_runner s) \<noteq> []
                               then bindE (reap_children now ws (rs_runner s)) (\<lambda>(m, r). Inr r)
                               else Inr (rs_runner s)) (\<lambda>r.
                        let r3 = runner_end r in Inr (rn_nfailed r3 \<noteq> 0, r3)))))"

text \<open>\<^verbatim>\<open>list_tests\<close>: the names printed, one per run of visits of the same node.\<close>

fun list_names :: "testnode_t \<Rightarrow> pos option \<Rightarrow> (pos option \<times> assignment_t list) list \<Rightarrow> string list" where
  "list_names root tn [] = []"
| "list_names root tn ((p, as) # vs) =
     (if p \<noteq> tn then get_fullname root (the p) # list_names root p vs else list_names root tn vs)"

definition list_tests :: "nat \<Rightarrow> nat \<Rightarrow> testnode_t \<Rightarrow> plan_t option \<Rightarrow> (np_error + string list) option" where
  "list_tests n fuel root oplan =
     (let plan = (case oplan of Some p \<Rightarrow> p | None \<Rightarrow> add_node [] [])
      in case plan_walk n fuel root plan of
           None \<Rightarrow> None
         | Some r \<Rightarrow> Some (bindE r (\<lambda>vs. Inr (list_names root None vs))))"

section \<open>Counting jobs\<close>

fun is_begin_job :: "lcall \<Rightarrow> bool" where
  "is_begin_job (L_Begin_Job j) \<longleftrightarrow> True"
| "is_begin_job _ \<longleftrightarrow> False"

fun is_end_job :: "lcall \<Rightarrow> bool" where
  "is_end_job (L_End_Job j res) \<longleftrightarrow> True"
| "is_end_job _ \<longleftrightarrow> False"

fun is_failed_job :: "lcall \<Rightarrow> bool" where
  "is_failed_job (L_End_Job j res) \<longleftrightarrow> res = R_FAIL"
| "is_failed_job _ \<longleftrightarrow> False"

lemma is_failed_job_iff: "is_failed_job c \<longleftrightarrow> (\<exists>j. c = L_End_Job j R_FAIL)"
  by (cases c) auto

definition calls :: "(lcall \<Rightarrow> bool) \<Rightarrow> runner_t \<Rightarrow> nat" where
  "calls P r = length (filter (\<lambda>(c, ls). P c) (rn_trace r))"

text \<open>What a listener that counts since the beginning arrives at: the jobs ended and failed.\<close>

fun told :: "lcall \<Rightarrow> u32 \<times> u32 \<Rightarrow> u32 \<times> u32" where
  "told L_Begin nf = (0, 0)"
| "told (L_End_Job j res) nf = (fst nf + 1, if res = R_FAIL then snd nf + 1 else snd nf)"
| "told _ nf = nf"

definition told_counts :: "runner_t \<Rightarrow> u32 \<times> u32" where
  "told_counts r = fold (\<lambda>(c, ls). told c) (rn_trace r) (0, 0)"

definition cnt_inv :: "runner_t \<Rightarrow> bool" where
  "cnt_inv r \<longleftrightarrow> rn_nrun r = of_nat (calls is_end_job r) \<and> rn_nfailed r = of_nat (calls is_failed_job r) \<and>
     calls is_begin_job r = calls is_end_job r + length (rn_children r) \<and> told_counts r = (rn_nrun r, rn_nfailed r)"

lemma told_counts_dispatch: "told_counts (dispatch c r) = told c (told_counts r)"
  by (simp add: told_counts_def dispatch_def)

lemma told_counts_update [simp]:
  "told_counts (r\<lparr>rn_children := cs\<rparr>) = told_counts r" "told_counts (r\<lparr>rn_nrunning := n\<rparr>) = told_counts r"
  "told_counts (r\<lparr>rn_nrun := m\<rparr>) = told_counts r" "told_counts (r\<lparr>rn_nfailed := m\<rparr>) = told_counts r"
  "told_counts (r\<lparr>rn_caught_sigchld := b\<rparr>) = told_counts r" "told_counts (r\<lparr>rn_kills := k\<rparr>) = told_counts r"
  by (simp_all add: told_counts_def)

lemma calls_dispatch: "calls P (dispatch c r) = calls P r + (if P c then 1 else 0)"
  by (simp add: calls_def dispatch_def)

lemma dispatch_fields [simp]:
  "rn_nrun (dispatch c r) = rn_nrun r" "rn_nfailed (dispatch c r) = rn_nfailed r"
  "rn_children (dispatch c r) = rn_children r" "rn_nrunning (dispatch c r) = rn_nrunning r"
  "rn_maxchildren (dispatch c r) = rn_maxchildren r" "rn_timeout (dispatch c r) = rn_timeout r"
  "rn_needs_stdout (dispatch c r) = rn_needs_stdout r" "rn_listeners (dispatch c r) = rn_listeners r"
  "rn_caught_sigchld (dispatch c r) = rn_caught_sigchld r" "rn_kills (dispatch c r) = rn_kills r"
  by (simp_all add: dispatch_def)

lemma calls_update [simp]:
  "calls P (r\<lparr>rn_children := cs\<rparr>) = calls P r" "calls P (r\<lparr>rn_nrunning := n\<rparr>) = calls P r"
  "calls P (r\<lparr>rn_nrun := m\<rparr>) = calls P r" "calls P (r\<lparr>rn_nfailed := m\<rparr>) = calls P r"
  "calls P (r\<lparr>rn_caught_sigchld := b\<rparr>) = calls P r" "calls P (r\<lparr>rn_kills := k\<rparr>) = calls P r"
  by (simp_all add: calls_def)

text \<open>What raising events leaves alone.\<close>

definition same_counts :: "runner_t \<Rightarrow> runner_t \<Rightarrow> bool" where
  "same_counts r r' \<longleftrightarrow> rn_nrun r' = rn_nrun r \<and> rn_nfailed r' = rn_nfailed r \<and> rn_children r' = rn_children r \<and>
     rn_nrunning r' = rn_nrunning r \<and> rn_maxchildren r' = rn_maxchildren r \<and>
     calls is_begin_job r' = calls is_begin_job r \<and> calls is_end_job r' = calls is_end_job r \<and>
     calls is_failed_job r' = calls is_failed_job r \<and> told_counts r' = told_counts r"

lemma same_counts_refl [simp]: "same_counts r r"
  by (simp add: same_counts_def)

lemma same_counts_trans: "same_counts r1 r2 \<Longrightarrow> same_counts r2 r3 \<Longrightarrow> same_counts r1 r3"
  by (simp add: same_counts_def)

lemma same_counts_event: "same_counts r (dispatch (L_Add_Event j ev) r)"
  by (simp add: same_counts_def calls_dispatch told_counts_dispatch)

lemma same_counts_events: "same_counts r (dispatch_events j evs r)"
  unfolding dispatch_events_def
proof (induction evs arbitrary: r)
  case (Cons ev evs)
  then show ?case using same_counts_trans [OF same_counts_event] by (metis fold_simps(2))
qed simp

lemma same_counts_kills [simp]: "same_counts r (r'\<lparr>rn_kills := k\<rparr>) = same_counts r r'"
  by (simp add: same_counts_def)

lemma cnt_inv_same: "cnt_inv r \<Longrightarrow> same_counts r r' \<Longrightarrow> length cs = length (rn_children r) \<Longrightarrow>
  cnt_inv (r'\<lparr>rn_children := cs\<rparr>)"
  by (simp add: cnt_inv_def same_counts_def)

lemma cnt_inv_fields [simp]:
  "cnt_inv (r\<lparr>rn_nrunning := n\<rparr>) = cnt_inv r" "cnt_inv (r\<lparr>rn_caught_sigchld := b\<rparr>) = cnt_inv r"
  by (simp_all add: cnt_inv_def)

lemma find_pid_Some: "find_pid pid cs = Some i \<Longrightarrow> i < length cs \<and> ch_pid (cs ! i) = pid"
  by (induction cs arbitrary: i) (auto split: if_splits)

lemma length_remove_nth: "i < length xs \<Longrightarrow> length (remove_nth i xs) = length xs - 1"
  by (simp add: remove_nth_def)

lemma finish_child_cnt:
  "cnt_inv r \<Longrightarrow> i < length (rn_children r) \<Longrightarrow> cnt_inv (finish_child now i c r)"
  by (simp add: finish_child_def Let_def cnt_inv_def calls_dispatch told_counts_dispatch length_remove_nth)

lemma raise_for_same:
  "raise_for c ev r = Inr (c', r') \<Longrightarrow> same_counts r r'"
  by (auto simp: raise_for_def bindE_Inr_iff same_counts_event)

lemma same_counts_cnt: "cnt_inv r \<Longrightarrow> same_counts r r' \<Longrightarrow> cnt_inv r' \<and> rn_children r' = rn_children r"
  by (simp add: cnt_inv_def same_counts_def)

lemma reap_loop_cnt:
  "reap_loop now ws num r = Inr (n, r') \<Longrightarrow> cnt_inv r \<Longrightarrow> cnt_inv r'"
proof (induction now ws num r rule: reap_loop.induct)
  case (6 now pid status ws num r)
  show ?case
  proof (cases "find_pid pid (rn_children r)")
    case (Some i)
    note i = find_pid_Some [OF Some]
    show ?thesis
    proof (cases "status = 0")
      case True
      with 6 Some i show ?thesis by (simp add: finish_child_cnt)
    next
      case False
      then obtain c r1 where c: "raise_for (rn_children r ! i) (exit_event pid status) r = Inr (c, r1)"
        "reap_loop now ws (Suc num) (finish_child now i c r1) = Inr (n, r')"
        using 6(4) Some by (auto simp: bindE_Inr_iff)
      note S = same_counts_cnt [OF 6(5) raise_for_same [OF c(1)]]
      then have "cnt_inv (finish_child now i c r1)" using i by (simp add: finish_child_cnt)
      with 6(2) [OF Some False] c show ?thesis by blast
    qed
  qed (use 6 in simp)
next
  case (7 now pid sg ws num r)
  show ?case
  proof (cases "find_pid pid (rn_children r)")
    case (Some i)
    note i = find_pid_Some [OF Some]
    obtain c r1 where c: "raise_for (rn_children r ! i) (signal_event pid sg) r = Inr (c, r1)"
      "reap_loop now ws (Suc num) (finish_child now i (handle_hangup c) r1) = Inr (n, r')"
      using 7(3) Some by (auto simp: bindE_Inr_iff)
    note S = same_counts_cnt [OF 7(4) raise_for_same [OF c(1)]]
    then have "cnt_inv (finish_child now i (handle_hangup c) r1)" using i by (simp add: finish_child_cnt)
    with 7(2) [OF Some] c show ?thesis by blast
  qed (use 7 in simp)
qed auto

lemma reap_children_cnt: "reap_children now ws r = Inr (n, r') \<Longrightarrow> cnt_inv r \<Longrightarrow> cnt_inv r'"
  unfolding reap_children_def by (drule reap_loop_cnt) simp_all

lemma ready_children_same:
  "ready_children revs cs r = Inr (cs', n, r') \<Longrightarrow> same_counts r r' \<and> length cs' = length cs"
proof (induction cs arbitrary: revs r cs' n r')
  case (Cons c cs)
  show ?case
  proof (cases "is_finished c")
    case True
    with Cons show ?thesis by (auto simp: bindE_Inr_iff)
  next
    case False
    obtain pi ph where x: "(case revs of [] \<Rightarrow> (False, False) | x # xs \<Rightarrow> x) = (pi, ph)" by fastforce
    obtain c1 evs cs1 m where h: "(if pi then handle_input c else Inr (c, [])) = Inr (c1, evs)"
      "ready_children (case revs of [] \<Rightarrow> [] | x # xs \<Rightarrow> xs) cs (dispatch_events (ch_job c) evs r) = Inr (cs1, m, r')"
      "cs' = (if ph then handle_hangup c1 else c1) # cs1"
      using Cons.prems False x by (auto simp: bindE_Inr_iff Let_def)
    from Cons.IH [OF h(2)] h(3) same_counts_trans [OF same_counts_events] show ?thesis by auto
  qed
qed simp

lemma timeout_children_same:
  "timeout_children now cs r = Inr (cs', r') \<Longrightarrow> same_counts r r' \<and> length cs' = length cs"
proof (induction cs arbitrary: r cs' r')
  case (Cons c cs)
  show ?case
  proof (cases "is_finished c")
    case True
    with Cons show ?thesis by (auto simp: bindE_Inr_iff)
  next
    case False
    then obtain c1 evs ks cs1 where h: "handle_timeout now c = Inr (c1, evs, ks)"
      "timeout_children now cs ((dispatch_events (ch_job c) evs r)\<lparr>rn_kills := rn_kills r @ ks\<rparr>) = Inr (cs1, r')"
      "cs' = c1 # cs1"
      using Cons.prems by (auto simp: bindE_Inr_iff Let_def)
    have same: "same_counts r ((dispatch_events (ch_job c) evs r)\<lparr>rn_kills := rn_kills r @ ks\<rparr>)"
      using same_counts_events by simp
    from Cons.IH [OF h(2)] h(3) same_counts_trans [OF same] show ?thesis by auto
  qed
qed simp

lemma reap_finished_cnt: "reap_finished now wss r = Inr r' \<Longrightarrow> cnt_inv r \<Longrightarrow> cnt_inv r'"
proof (induction wss arbitrary: r)
  case (Cons ws wss)
  then show ?case by (auto simp: bindE_Inr_iff dest: reap_children_cnt split: option.splits)
qed (auto split: option.splits)

lemma wait_round_cnt:
  assumes "wait_round now pr wss r = Inr (nf, r')" "cnt_inv r"
  shows "cnt_inv r'"
proof -
  obtain nf1 r1 where m: "(case pr of
               Poll_Error \<Rightarrow> Inr (None, r)
             | Poll_Eintr ws \<Rightarrow>
                 if rn_caught_sigchld r then bindE (reap_children now ws r) (\<lambda>(n, r1). Inr (Some n, r1))
                 else Inr (None, r)
             | Poll_Timeout t \<Rightarrow>
                 bindE (timeout_children t (rn_children r) r) (\<lambda>(cs, r1). Inr (Some 0, r1\<lparr>rn_children := cs\<rparr>))
             | Poll_Ready revs \<Rightarrow>
                 bindE (ready_children revs (rn_children r) r) (\<lambda>(cs, n, r1). Inr (Some n, r1\<lparr>rn_children := cs\<rparr>)))
      = Inr (nf1, r1)"
    and rest: "(case nf1 of None \<Rightarrow> Inr (None, r1)
      | Some n \<Rightarrow> if n \<noteq> 0
          then bindE (reap_finished now wss (r1\<lparr>rn_nrunning := rn_nrunning r1 - of_nat n\<rparr>)) (\<lambda>r2. Inr (Some n, r2))
          else Inr (Some 0, r1)) = (Inr (nf, r') :: np_error + nat option \<times> runner_t)"
    using assms(1) by (auto simp: wait_round_def Let_def bindE_Inr_iff split: if_splits)
  have "cnt_inv r1"
    using m assms(2)
    by (auto simp: bindE_Inr_iff split: poll_res.splits if_splits
        dest!: ready_children_same timeout_children_same reap_children_cnt intro: cnt_inv_same)
  with rest show ?thesis
    by (auto simp: bindE_Inr_iff split: option.splits if_splits dest: reap_finished_cnt)
qed

lemma begin_job_cnt:
  assumes "begin_job je j r = Inr (Some c, r')" "cnt_inv r"
  shows "cnt_inv r'"
  using assms
  by (auto simp: begin_job_def fork_child_def Let_def cnt_inv_def calls_dispatch told_counts_dispatch
      split: if_splits sum.splits option.splits)

text \<open>The steps of a runner in the parent process, and the states they lead to.\<close>

inductive rstep :: "runner_t \<Rightarrow> runner_t \<Rightarrow> bool" where
  begin_job: "begin_job je j r = Inr (Some c, r') \<Longrightarrow> rstep r r'"
| wait_round: "wait_round now pr wss (r\<lparr>rn_caught_sigchld := b\<rparr>) = Inr (nf, r') \<Longrightarrow> rstep r r'"
| reap: "reap_children now ws r = Inr (n, r') \<Longrightarrow> rstep r r'"

inductive_cases rstepE: "rstep r r'"

lemma rstep_cnt: "rstep r r' \<Longrightarrow> cnt_inv r \<Longrightarrow> cnt_inv r'"
  by (erule rstepE)
     (auto dest: begin_job_cnt reap_children_cnt wait_round_cnt
       simp: cnt_inv_def calls_dispatch told_counts_dispatch)

lemma rsteps_cnt: "rstep\<^sup>*\<^sup>* r r' \<Longrightarrow> cnt_inv r \<Longrightarrow> cnt_inv r'"
  by (induction rule: rtranclp_induct) (auto dest: rstep_cnt)

lemma start_jobs_steps:
  "start_jobs n fuel root plan s = Some (Inr s') \<Longrightarrow> rstep\<^sup>*\<^sup>* (rs_runner s) (rs_runner s')"
proof (induction n arbitrary: s)
  case (Suc n)
  show ?case
  proof (cases "rn_nrunning (rs_runner s) < rn_maxchildren (rs_runner s)
      \<and> \<not> plan_iterator_eq (rs_itr s) (plan_end plan)")
    case True
    then obtain je jes j nid c r' it where b: "rs_jobs s = je # jes"
      "begin_job je j (rs_runner s) = Inr (Some c, r')"
      "start_jobs n fuel root plan (s\<lparr>rs_itr := it, rs_next_id := nid, rs_jobs := jes, rs_runner := r'\<rparr>) = Some (Inr s')"
      using Suc.prems
      by (auto simp: bindE_Inr_iff split: list.splits sum.splits option.splits)
    from Suc.IH [OF b(3)] have "rstep\<^sup>*\<^sup>* r' (rs_runner s')" by simp
    with rstep.begin_job [OF b(2)] show ?thesis by (rule converse_rtranclp_into_rtranclp)
  next
    case False
    then have "s' = s" using Suc.prems by auto
    then show ?thesis by simp
  qed
qed simp

lemma wait_rounds_steps:
  "wait_rounds es r = Some (Inr (r', es')) \<Longrightarrow> rstep\<^sup>*\<^sup>* r r'"
proof (induction es arbitrary: r)
  case (Cons e es)
  obtain nf r1 where w: "wait_round (re_now e) (re_poll e) (re_waits e)
      (r\<lparr>rn_caught_sigchld := rn_caught_sigchld r \<or> re_sigchld e\<rparr>) = Inr (nf, r1)"
    using Cons.prems by (auto split: sum.splits)
  have s: "rstep r r1" using rstep.wait_round [OF w] .
  show ?case
  proof (cases "nf = Some 0")
    case True
    with Cons w have "rstep\<^sup>*\<^sup>* r1 r'" by simp
    with s show ?thesis by (rule converse_rtranclp_into_rtranclp)
  next
    case False
    then have "r' = r1" using Cons.prems w by (auto split: option.splits)
    with s show ?thesis by auto
  qed
qed simp

lemma run_loop_steps:
  "run_loop n fuel root plan s = Some (Inr s') \<Longrightarrow>
     rstep\<^sup>*\<^sup>* (rs_runner s) (rs_runner s') \<and> rn_nrunning (rs_runner s') = 0"
proof (induction n arbitrary: s)
  case (Suc n)
  obtain s1 where s1: "start_jobs (Suc n) fuel root plan s = Some (Inr s1)"
    using Suc.prems by (auto split: option.splits sum.splits)
  note a = start_jobs_steps [OF s1]
  show ?case
  proof (cases "rn_nrunning (rs_runner s1) = 0")
    case True
    with Suc.prems s1 have "s' = s1" by simp
    with a True show ?thesis by simp
  next
    case False
    then obtain r es where w: "runner_wait (rs_rounds s1) (rs_runner s1) = Some (Inr (r, es))"
      "run_loop n fuel root plan (s1\<lparr>rs_runner := r, rs_rounds := es\<rparr>) = Some (Inr s')"
      using Suc.prems s1 by (auto simp del: start_jobs.simps split: option.splits sum.splits)
    have "rstep\<^sup>*\<^sup>* (rs_runner s1) r"
      using w(1) False wait_rounds_steps by (auto simp: runner_wait_def)
    with Suc.IH [OF w(2)] a show ?thesis by (auto dest: rtranclp_trans)
  qed
qed simp

lemma run_tests_steps:
  assumes "run_tests n fuel root oplan next_id jes es now ws r0 = Some (Inr (code, r))"
  shows "\<exists>r1 r2. rn_children r1 = rn_children r0 \<and> rn_nrun r1 = rn_nrun r0 \<and> rn_nfailed r1 = rn_nfailed r0
    \<and> rn_trace r1 = rn_trace r0 \<and> rstep\<^sup>*\<^sup>* ((runner_begin r1)\<lparr>rn_nrunning := 0\<rparr>) r2 \<and> r = runner_end r2 \<and> code = (rn_nfailed r \<noteq> 0)"
proof -
  define plan where "plan = (case oplan of Some p \<Rightarrow> p | None \<Rightarrow> add_node [] [])"
  define r1 where "r1 = (if rn_listeners r0 = [] then add_listener Text_Listener r0 else r0)"
  obtain it s where it: "plan_begin fuel root plan = Some (Inr it)"
    and s: "run_loop n fuel root plan \<lparr>rs_itr = it, rs_next_id = next_id, rs_jobs = jes, rs_rounds = es,
       rs_runner = (runner_begin r1)\<lparr>rn_nrunning := 0\<rparr>\<rparr> = Some (Inr s)"
    using assms unfolding run_tests_def Let_def plan_def [symmetric] r1_def [symmetric]
    by (auto split: option.splits sum.splits)
  obtain r2 where r2: "(if rn_children (rs_runner s) \<noteq> []
       then bindE (reap_children now ws (rs_runner s)) (\<lambda>(m, r). Inr r) else Inr (rs_runner s)) = Inr r2"
    and r: "r = runner_end r2" "code = (rn_nfailed r \<noteq> 0)"
    using assms it s unfolding run_tests_def Let_def plan_def [symmetric] r1_def [symmetric]
    by (auto simp: bindE_Inr_iff)
  have "rstep\<^sup>*\<^sup>* ((runner_begin r1)\<lparr>rn_nrunning := 0\<rparr>) (rs_runner s)"
    using run_loop_steps [OF s] by simp
  moreover have "rstep\<^sup>*\<^sup>* (rs_runner s) r2"
    using r2 by (auto simp: bindE_Inr_iff split: if_splits intro: rstep.reap)
  ultimately have "rstep\<^sup>*\<^sup>* ((runner_begin r1)\<lparr>rn_nrunning := 0\<rparr>) r2" by (rule rtranclp_trans)
  with r show ?thesis by (intro exI [of _ r1] exI [of _ r2]) (auto simp: r1_def add_listener_def)
qed

text \<open>The counters and what the listeners were told agree at the end of a run of a fresh runner.\<close>

lemma run_tests_cnt:
  assumes "run_tests n fuel root oplan next_id jes es now ws (runner_new dbg vg) = Some (Inr (code, r))"
  shows "cnt_inv r \<and> code = (rn_nfailed r \<noteq> 0)"
proof -
  obtain r1 r2 where r1: "rn_children r1 = []" "rn_nrun r1 = 0" "rn_nfailed r1 = 0" "rn_trace r1 = []"
    "rstep\<^sup>*\<^sup>* ((runner_begin r1)\<lparr>rn_nrunning := 0\<rparr>) r2" "r = runner_end r2" "code = (rn_nfailed r \<noteq> 0)"
    using run_tests_steps [OF assms] by (auto simp: runner_new_def)
  have "told_counts r1 = (0, 0)" "calls P r1 = 0" for P using r1(4) by (simp_all add: told_counts_def calls_def)
  then have "cnt_inv ((runner_begin r1)\<lparr>rn_nrunning := 0\<rparr>)"
    using r1(1-3) by (simp add: cnt_inv_def runner_begin_def calls_dispatch told_counts_dispatch)
  from rsteps_cnt [OF r1(5) this] r1(6,7) show ?thesis
    by (simp add: cnt_inv_def runner_end_def calls_dispatch told_counts_dispatch)
qed

text \<open>
  C2. When a run of the tests of a fresh runner ends, the counters agree with what the
  listeners were told: every job announced has ended except those still held as children,
  the number of tests run is the number of jobs ended, the number failed is the number ended
  with a failure, and the exit code is non-zero exactly if some job ended with a failure.
\<close>

theorem run_tests_exit_code:
  assumes "run_tests n fuel root oplan next_id jes es now ws (runner_new dbg vg) = Some (Inr (code, r))"
    and "length (rn_trace r) < 2 ^ 32"
  shows "(code \<longleftrightarrow> (\<exists>j ls. (L_End_Job j R_FAIL, ls) \<in> set (rn_trace r)))
    \<and> unat (rn_nrun r) = calls is_end_job r \<and> unat (rn_nfailed r) = calls is_failed_job r
    \<and> calls is_begin_job r = calls is_end_job r + length (rn_children r)"
proof -
  have inv: "cnt_inv r" "code = (rn_nfailed r \<noteq> 0)" using run_tests_cnt [OF assms(1)] by simp_all
  have le: "calls P r < 2 ^ 32" for P
    by (rule le_less_trans [OF _ assms(2)]) (simp add: calls_def)
  have u: "unat (rn_nrun r) = calls is_end_job r" "unat (rn_nfailed r) = calls is_failed_job r"
    using inv le by (simp_all add: cnt_inv_def unat_of_nat_u32)
  have "rn_nfailed r \<noteq> 0 \<longleftrightarrow> calls is_failed_job r \<noteq> 0"
    using u(2) by (metis unat_eq_zero)
  also have "\<dots> \<longleftrightarrow> (\<exists>j ls. (L_End_Job j R_FAIL, ls) \<in> set (rn_trace r))"
    by (auto simp: calls_def filter_empty_conv is_failed_job_iff split: prod.splits) blast
  finally show ?thesis using u inv by (simp add: cnt_inv_def)
qed

text \<open>A run of one failing test, for the evaluation below.\<close>

definition demo_job_env :: job_env where
  "demo_job_env = \<lparr>je_now = 100, je_fork = \<lparr>fe_pipe_ok = True, fe_tmpfiles = (None, None),
     fe_forks = [Fork_Eagain, Fork_Parent 7], fe_stream = [Chunk (proxy_end_job R_FAIL)]\<rparr>\<rparr>"

definition demo_round :: round_env where
  "demo_round = \<lparr>re_now = 200, re_sigchld = False, re_poll = Poll_Ready [(True, False)],
     re_waits = [[W_Exited 7 0, W_No_Child]]\<rparr>"

definition demo_run :: "(np_error + bool \<times> runner_t) option" where
  "demo_run = run_tests 5 5 demo_suite (Some [[1]]) 1 [demo_job_env] [demo_round] 300 [] (runner_new False False)"

lemma demo_run_ok:
  "case demo_run of Some (Inr (code, r)) \<Rightarrow> code \<and> length (rn_trace r) = 4 | _ \<Rightarrow> False"
  by code_simp

theorem run_tests_exit_code_witness:
  "\<exists>r. demo_run = Some (Inr (True, r)) \<and> (\<exists>j ls. (L_End_Job j R_FAIL, ls) \<in> set (rn_trace r))"
proof -
  obtain r where r: "demo_run = Some (Inr (True, r))" "length (rn_trace r) = 4"
    using demo_run_ok by (auto split: option.splits sum.splits)
  have "\<exists>j ls. (L_End_Job j R_FAIL, ls) \<in> set (rn_trace r)"
    using run_tests_exit_code [of 5 5 demo_suite "Some [[1]]" 1 "[demo_job_env]" "[demo_round]" 300 "[]" False False True r]
      r by (simp add: demo_run_def)
  with r show ?thesis by blast
qed

section \<open>The verdict on a test\<close>

text \<open>Test functions raise and throw events built by the library's initialisers.\<close>

definition exec_wf :: "exec \<Rightarrow> bool" where
  "exec_wf ex \<longleftrightarrow> (\<forall>f. (\<forall>ev\<in>set (fst (ex f)). ev_wf ev) \<and> (\<forall>ev. snd (ex f) = Throws ev \<longrightarrow> ev_wf ev))"

definition nf_ok :: "event_t \<Rightarrow> bool" where
  "nf_ok n \<longleftrightarrow> ev_wf n \<and> normal_form n = n"

lemma nf_ok_proxied: "nf_ok n \<Longrightarrow> sendable_event n \<Longrightarrow> proxied n"
  by (simp add: nf_ok_def proxied_def)

lemma raise_event_nf: "ev_wf ev \<Longrightarrow> raise_event ev = Inr (n, r) \<Longrightarrow> nf_ok n \<and> r = get_result n"
  using get_result_which [of "normal_form ev" ev]
  by (auto simp: raise_event_normal nf_ok_def normal_form_wf normal_form_idem)

lemma raise_all_nf: "\<forall>ev\<in>set evs. ev_wf ev \<Longrightarrow> raise_all evs = Inr ns \<Longrightarrow> \<forall>n\<in>set ns. nf_ok n"
  by (induction evs arbitrary: ns) (auto simp: bindE_Inr_iff dest: raise_event_nf)

lemma fixture_event_wf: "ev_wf (fixture_event f i)"
  by (simp add: fixture_event_def ev_wf_build)

lemma run_function_nf:
  assumes "exec_wf ex" "run_function ex ft f = Inr (ns, th)"
  shows "(\<forall>n\<in>set ns. nf_ok n) \<and> (\<forall>ev. th = Some ev \<longrightarrow> ev_wf ev)"
proof -
  obtain evs e where e: "ex f = (evs, e)" by fastforce
  with assms(1) have wf: "\<forall>ev\<in>set evs. ev_wf ev" "\<forall>ev. e = Throws ev \<longrightarrow> ev_wf ev"
    by (auto simp: exec_wf_def) (metis fst_conv, metis snd_conv)
  from assms(2) e wf show ?thesis
    by (cases e) (auto simp: run_function_def bindE_Inr_iff fixture_event_wf dest: raise_all_nf
        split: fn_end.splits if_splits)
qed

lemma run_functions_nf:
  "exec_wf ex \<Longrightarrow> run_functions ex ft fs = Inr (ns, th) \<Longrightarrow>
     (\<forall>n\<in>set ns. nf_ok n) \<and> (\<forall>ev. th = Some ev \<longrightarrow> ev_wf ev)"
proof (induction fs arbitrary: ns th)
  case (Cons f fs)
  then obtain n1 t1 where f: "run_function ex ft f = Inr (n1, t1)"
    by (auto simp: bindE_Inr_iff)
  with Cons run_function_nf [OF Cons.prems(1) f] show ?case
    by (auto simp: bindE_Inr_iff split: option.splits)
qed simp

lemma results_append [simp]: "results (xs @ ys) r = results ys (results xs r)"
  by (simp add: results_def)

lemma results_max: "results xs r = max r (results xs R_UNKNOWN)"
proof (induction xs arbitrary: r)
  case (Cons x xs)
  from Cons [of "merge r (get_result x)"] Cons [of "merge R_UNKNOWN (get_result x)"] show ?case
    by (simp add: merge_max max.assoc max.absorb2)
qed (simp add: max.absorb1)

lemma results_ge: "r \<le> results xs r"
  by (subst results_max) simp

lemma results_merge: "results xs (merge r q) = merge (results xs r) q"
proof (induction xs arbitrary: r)
  case (Cons x xs)
  have "merge (merge r q) (get_result x) = merge (merge r (get_result x)) q"
    by (simp add: merge_max max.assoc max.commute max.left_commute)
  with Cons show ?case by simp
qed simp

lemma results_mono: "r \<le> q \<Longrightarrow> results xs r \<le> results xs q"
  using results_max [of xs r] results_max [of xs q] by (simp add: max.coboundedI1)

lemma run_phase_nf:
  assumes "run_phase ft m res = Inr (ns, res')"
    and "\<And>n1 th. m = Inr (n1, th) \<Longrightarrow> (\<forall>n\<in>set n1. nf_ok n) \<and> (\<forall>ev. th = Some ev \<longrightarrow> ev_wf ev)"
  shows "(\<forall>n\<in>set ns. nf_ok n) \<and> res' \<le> results ns res"
proof -
  obtain n1 th where m: "m = Inr (n1, th)" using assms(1) by (auto simp: run_phase_def bindE_Inr_iff)
  note M = assms(2) [OF m]
  show ?thesis
  proof (cases th)
    case None
    then show ?thesis using assms(1) m M results_ge by (auto simp: run_phase_def)
  next
    case (Some ev)
    then obtain n r where n: "raise_event (in_functype (uint_of_functype ft) ev) = Inr (n, r)"
      "ns = n1 @ [n]" "res' = merge res r"
      using assms(1) m by (auto simp: run_phase_def bindE_Inr_iff)
    have "nf_ok n \<and> r = get_result n"
      using raise_event_nf [OF ev_wf_build(7) n(1)] M Some by blast
    with n M results_ge [of res n1] show ?thesis
      by (auto simp: merge_max intro: max.coboundedI1)
  qed
qed

lemma leak_loop_nf:
  "leak_loop a b fds res = Inr (ns, res') \<Longrightarrow> (\<forall>n\<in>set ns. nf_ok n) \<and> res' \<le> results ns res"
proof (induction fds arbitrary: res ns res')
  case (Cons fd fds)
  show ?case
  proof (cases "fd_name a fd = fd_name b fd")
    case True
    with Cons show ?thesis by simp
  next
    case False
    then obtain n r ns1 where n: "raise_event (fdleak_event fd (fd_name a fd) (fd_name b fd)) = Inr (n, r)"
      "leak_loop a b fds (merge res r) = Inr (ns1, res')" "ns = n # ns1"
      using Cons.prems by (auto simp: bindE_Inr_iff)
    have "nf_ok n \<and> r = get_result n"
      by (rule raise_event_nf [OF _ n(1)]) (simp add: fdleak_event_def Let_def ev_wf_build)
    with Cons.IH [OF n(2)] n(3) show ?thesis by simp
  qed
qed simp

lemma valgrind_errors_nf:
  assumes "valgrind_errors leaked nerrors res = Inr (ns, res')"
  shows "(\<forall>n\<in>set ns. nf_ok n) \<and> res' \<le> results ns res"
  using assms
  by (auto simp: valgrind_errors_def bindE_Inr_iff split: if_splits
      dest!: raise_event_nf [OF ev_wf_build(2)])

lemma run_test_body_nf:
  assumes "exec_wf ex" "run_test_body ex root p res = Inr (ns, res')"
  shows "(\<forall>n\<in>set ns. nf_ok n) \<and> res' \<le> merge (results ns res) R_PASS"
proof (cases "res = R_UNKNOWN")
  case False
  with assms(2) show ?thesis by (auto simp: run_test_body_def merge_max)
next
  case True
  then obtain n f n1 r1 n2 r2 where
    "run_phase FT_TEST (run_function ex FT_TEST f) res = Inr (n1, r1)"
    "run_phase FT_AFTER (run_fixtures ex root p FT_AFTER) r1 = Inr (n2, r2)"
    "ns = n1 @ n2" "res' = merge r2 R_PASS"
    using assms(2) by (auto simp: run_test_body_def bindE_Inr_iff split: option.splits)
  moreover from this(1) have "(\<forall>n\<in>set n1. nf_ok n) \<and> r1 \<le> results n1 res"
    by (rule run_phase_nf) (rule run_function_nf [OF assms(1)])
  moreover from calculation(2) have "(\<forall>n\<in>set n2. nf_ok n) \<and> r2 \<le> results n2 r1"
    by (rule run_phase_nf) (rule run_functions_nf [OF assms(1)], simp add: run_fixtures_def)
  ultimately show ?thesis
    using results_mono [of r1 "results n1 res" n2] by (auto simp: merge_max intro: order_trans max.coboundedI1)
qed

lemma run_test_code_nf:
  assumes "exec_wf (te_exec te)" "run_test_code k root te j tp = Inr (evs, res, tp')"
  shows "(\<forall>n\<in>set evs. nf_ok n) \<and> res \<le> merge (results evs R_UNKNOWN) R_PASS"
proof -
  obtain tp1 n1 r1 n2 r2 n3 r3 n4 where
    b: "run_phase FT_BEFORE (run_fixtures (te_exec te) root (jb_node j) FT_BEFORE) R_UNKNOWN = Inr (n1, r1)"
    and t: "run_test_body (te_exec te) root (jb_node j) r1 = Inr (n2, r2)"
    and l: "descriptor_leaks (te_prefds te) (te_postfds te) r2 = Inr (n3, r3)"
    and v: "valgrind_errors (te_leaked te) (te_nerrors te) r3 = Inr (n4, res)"
    and evs: "evs = n1 @ n2 @ n3 @ n4"
    using assms(2) by (auto simp: run_test_code_def bindE_Inr_iff Let_def)
  have B: "(\<forall>n\<in>set n1. nf_ok n) \<and> r1 \<le> results n1 R_UNKNOWN"
    using b by (rule run_phase_nf) (rule run_functions_nf [OF assms(1)], simp add: run_fixtures_def)
  note T = run_test_body_nf [OF assms(1) t]
  note L = leak_loop_nf [OF l [unfolded descriptor_leaks_def]]
  note V = valgrind_errors_nf [OF v]
  have "results n2 r1 \<le> results n2 (results n1 R_UNKNOWN)" using B by (simp add: results_mono)
  then have "r2 \<le> merge (results n2 (results n1 R_UNKNOWN)) R_PASS"
    using T by (auto simp: merge_max le_max_iff_disj)
  then have "results n4 (results n3 r2) \<le> results n4 (results n3 (merge (results n2 (results n1 R_UNKNOWN)) R_PASS))"
    by (intro results_mono)
  moreover have "res \<le> results n4 (results n3 r2)"
    using L V results_mono order_trans by blast
  ultimately have "res \<le> results n4 (results n3 (merge (results n2 (results n1 R_UNKNOWN)) R_PASS))"
    by (rule order_trans [rotated])
  also have "\<dots> = merge (results evs R_UNKNOWN) R_PASS"
    by (simp add: evs results_merge)
  finally show ?thesis using B T L V evs by auto
qed

lemma reap_exit_zero:
  assumes "find_pid pid (rn_children r) = Some i"
  shows "reap_children now [W_Exited pid 0, W_No_Child] r =
    Inr (0, finish_child now i (rn_children r ! i) (r\<lparr>rn_caught_sigchld := False\<rparr>))"
  using assms by (simp add: reap_children_def)

text \<open>
  C1. The verdict on a test is the worst result of the events it raised, and a pass if none of
  them says otherwise: whatever the test process does, the bytes it writes, delivered to the
  parent in any pieces, make the parent pass exactly those events to its listeners, and when
  the process is reaped the job is ended with that verdict and counted as failed exactly if
  some event is a failure.
\<close>

theorem test_verdict:
  assumes ex: "exec_wf (te_exec te)"
    and run: "run_test_code k root te j tp = Inr (evs, res, tp')"
    and fit: "\<forall>ev\<in>set evs. sendable_event ev"
    and c: "ch_state c = RUNNING" "ch_result c = R_UNKNOWN" "good_pipe (ch_pipe c)"
      "child_main k root te j tp = Inr (pipe_bytes (ch_pipe c))"
  shows "\<exists>c'. handle_inputs (Suc (length evs)) c = Inr (c', evs) \<and> is_finished c' \<and>
    (\<forall>r now i. find_pid (ch_pid c) (rn_children r) = Some i \<longrightarrow> rn_children r ! i = c' \<longrightarrow>
      (\<exists>r'. reap_children now [W_Exited (ch_pid c) 0, W_No_Child] r = Inr (0, r') \<and>
        rn_trace r' = rn_trace r @ [(L_End_Job (job_post_run_parent now (ch_job c))
          (merge (results evs R_UNKNOWN) R_PASS), rn_listeners r)] \<and>
        rn_nfailed r' = rn_nfailed r + (if \<exists>ev\<in>set evs. get_result ev = R_FAIL then 1 else 0)))"
proof -
  note N = run_test_code_nf [OF ex run]
  have px: "\<forall>ev\<in>set evs. proxied ev" using N fit nf_ok_proxied by blast
  obtain bs where bs: "session_bytes evs res = Inr bs" using session_bytes_ok [OF px] by blast
  then have "pipe_bytes (ch_pipe c) = bs @ []" using c(4) run by (simp add: child_main_def)
  from handle_inputs_session [OF px bs _ c(3) this] c(1) obtain c' where c':
    "handle_inputs (Suc (length evs)) c = Inr (c', evs)" "ch_state c' = FINISHED"
    "ch_result c' = merge (results evs (ch_result c)) res" "ch_job c' = ch_job c" "ch_pid c' = ch_pid c"
    by auto
  let ?v = "merge (results evs R_UNKNOWN) R_PASS"
  have v: "merge (ch_result c') R_PASS = ?v"
    using c'(3) c(2) N by (auto simp: merge_max max_def split: if_splits)
  have fail: "?v = R_FAIL \<longleftrightarrow> (\<exists>ev\<in>set evs. get_result ev = R_FAIL)"
    by (simp add: results_FAIL_iff)
  have "\<exists>r'. reap_children now [W_Exited (ch_pid c) 0, W_No_Child] r = Inr (0, r') \<and>
        rn_trace r' = rn_trace r @ [(L_End_Job (job_post_run_parent now (ch_job c)) ?v, rn_listeners r)] \<and>
        rn_nfailed r' = rn_nfailed r + (if \<exists>ev\<in>set evs. get_result ev = R_FAIL then 1 else 0)"
    if "find_pid (ch_pid c) (rn_children r) = Some i" "rn_children r ! i = c'" for r now i
    using reap_exit_zero [OF that(1), of now] that(2) v c'(4) fail
    by (auto simp: finish_child_def Let_def merge_result_def dispatch_def)
  with c' show ?thesis by (auto simp: is_finished_def)
qed

definition demo_test_env :: test_env where
  "demo_test_env = \<lparr>te_exec = (\<lambda>f. ([], Throws (at_line ''t.c'' 3 (mk_event EV_ASSERT ''x'')))),
     te_prefds = [], te_postfds = [], te_leaked = 0, te_nerrors = 0\<rparr>"

definition demo_testproc :: testproc where
  "demo_testproc = \<lparr>tp_vars = Map.empty, tp_dyn = [], tp_reg = demo_ireg\<rparr>"

definition demo_c_job :: job_t where
  "demo_c_job = \<lparr>jb_id = 1, jb_node = [1], jb_assigns = [], jb_start = 0, jb_end = 0,
     jb_stdout_path = [], jb_stderr_path = []\<rparr>"

definition demo_event :: event_t where
  "demo_event = in_functype (uint_of_functype FT_TEST) (at_line ''t.c'' 3 (mk_event EV_ASSERT ''x''))"

lemma demo_event_simps:
  "ev_wf demo_event" "get_result demo_event = R_FAIL" "sendable_event (normal_form demo_event)"
proof -
  show "ev_wf demo_event" unfolding demo_event_def by (intro ev_wf_build)
  show "get_result demo_event = R_FAIL"
    by (simp add: demo_event_def get_result_def in_functype_def at_line_def mk_event_def events_of_uint_def events_all_def)
  show "sendable_event (normal_form demo_event)"
    unfolding sendable_event_def normal_form_fields flagged_bit demo_event_def
    by (simp add: in_functype_def at_line_def mk_event_def xstr_def sendable_string_def c_string_def NUL_def char_of_def
        bit_or_iff bit_LT)
qed

lemma demo_run_test_code:
  "\<exists>tp'. run_test_code demo_kernel demo_suite demo_test_env demo_c_job demo_testproc =
     Inr ([normal_form demo_event], R_FAIL, tp')"
  using raise_event_normal [OF demo_event_simps(1)] demo_event_simps(2)
  by (simp add: run_test_code_def job_pre_run_def demo_c_job_def run_phase_def run_fixtures_def get_fixtures_def
      demo_suite_def run_test_body_def run_function_def demo_test_env_def demo_event_def [symmetric]
      descriptor_leaks_def valgrind_errors_def Let_def merge_max)

theorem test_verdict_witness:
  "\<exists>bs c'. child_main demo_kernel demo_suite demo_test_env demo_c_job demo_testproc = Inr bs
     \<and> handle_inputs 2 (child_new 7 [Chunk bs] demo_c_job) = Inr (c', [normal_form demo_event]) \<and> is_finished c'"
proof -
  obtain tp' where r: "run_test_code demo_kernel demo_suite demo_test_env demo_c_job demo_testproc =
     Inr ([normal_form demo_event], R_FAIL, tp')" using demo_run_test_code by blast
  have ex: "exec_wf (te_exec demo_test_env)"
    by (simp add: exec_wf_def demo_test_env_def ev_wf_build)
  have "\<forall>ev\<in>set [normal_form demo_event]. proxied ev"
    using proxied_normal_form demo_event_simps by simp
  then obtain bs where bs: "session_bytes [normal_form demo_event] R_FAIL = Inr bs" using session_bytes_ok by blast
  then have "bs \<noteq> []"
    by (auto simp: bindE_Inr_iff proxy_end_job_def serialise_uint_def bytes_of_u32_def)
  then show ?thesis
    using test_verdict [OF ex r, of "child_new 7 [Chunk bs] demo_c_job"] bs demo_event_simps(3) r
    by (auto simp: child_new_def child_main_def numeral_2_eq_2)
qed

section \<open>Lost results\<close>

text \<open>
  C35. If the poll reports input and hangup together for a child that has written more than
  one call, only the first call is handled: the child is marked finished and everything
  behind the first call is dropped, so that a process which exits normally passes on the
  strength of its first event alone, whatever failures it reported after it.
\<close>

theorem hangup_drops_pending_calls:
  assumes ev: "proxied ev" "proxy_add_event ev = Inr b" "get_result ev \<noteq> R_FAIL"
    and c: "ch_state c = RUNNING" "ch_result c = R_UNKNOWN" "good_pipe (ch_pipe c)"
      "pipe_bytes (ch_pipe c) = b @ pending"
    and r: "rn_children r = [c]"
  shows "\<exists>c' r1 r2. ready_children [(True, True)] (rn_children r) r = Inr ([c'], 1, r1)
    \<and> is_finished c' \<and> pipe_bytes (ch_pipe c') = pending
    \<and> reap_children now [W_Exited (ch_pid c) 0, W_No_Child] (r1\<lparr>rn_children := [c']\<rparr>) = Inr (0, r2)
    \<and> rn_nfailed r2 = rn_nfailed r"
proof -
  have e: "sendable_event ev" "ev_wf ev" "normal_form ev = ev" using ev(1) by (auto simp: proxied_def)
  obtain p' where p': "handle_call (ch_result c) (ch_pipe c) =
      (Inr (True, merge (ch_result c) (get_result ev), Some ev), p')" "pipe_bytes p' = pending"
    using handle_call_event [OF e(1,2) ev(2) c(3,4), of "ch_result c"] e(3) by metis
  let ?c1 = "c\<lparr>ch_result := merge (ch_result c) (get_result ev), ch_pipe := p'\<rparr>"
  let ?c' = "handle_hangup ?c1" and ?r1 = "dispatch_events (ch_job c) [ev] r"
  have h: "handle_input c = Inr (?c1, [ev])"
    using p'(1) c(1) by (simp add: handle_input_def Let_def)
  have a: "ready_children [(True, True)] (rn_children r) r = Inr ([?c'], 1, ?r1)"
    using r h c(1) by (simp add: is_finished_def Let_def handle_hangup_def)
  have f: "find_pid (ch_pid c) (rn_children (?r1\<lparr>rn_children := [?c']\<rparr>)) = Some 0"
    by (simp add: handle_hangup_def)
  have "rn_nfailed ?r1 = rn_nfailed r" by (simp add: dispatch_events_def)
  then have "rn_nfailed (finish_child now 0 ?c' ((?r1\<lparr>rn_children := [?c']\<rparr>)\<lparr>rn_caught_sigchld := False\<rparr>)) = rn_nfailed r"
    using c(2) ev(3) by (simp add: finish_child_def Let_def merge_result_def handle_hangup_def)
  with a reap_exit_zero [OF f, of now] p'(2) show ?thesis
    by (auto simp: is_finished_def handle_hangup_def)
qed

definition demo_runner :: "child_t list \<Rightarrow> runner_t" where
  "demo_runner cs = (runner_new False False)\<lparr>rn_children := cs, rn_nrunning := of_nat (length cs)\<rparr>"

definition demo_syslog :: event_t where
  "demo_syslog = normal_form (mk_event EV_SYSLOG ''m'')"

lemma demo_syslog_simps: "proxied demo_syslog" "get_result demo_syslog = R_UNKNOWN"
proof -
  have wf: "ev_wf (mk_event EV_SYSLOG ''m'')" by (rule ev_wf_build)
  have "sendable_event (normal_form (mk_event EV_SYSLOG ''m''))"
    unfolding sendable_event_def normal_form_fields flagged_bit
    by (simp add: mk_event_def xstr_def sendable_string_def c_string_def NUL_def char_of_def)
  with wf show "proxied demo_syslog" unfolding demo_syslog_def by (rule proxied_normal_form)
  have "get_result demo_syslog = get_result (mk_event EV_SYSLOG ''m'')"
    unfolding demo_syslog_def by (rule get_result_which) simp
  then show "get_result demo_syslog = R_UNKNOWN"
    by (simp add: get_result_def mk_event_def events_of_uint_def events_all_def)
qed

theorem hangup_drops_pending_calls_witness:
  "\<exists>b c' r1 r2. proxy_add_event demo_syslog = Inr b
    \<and> ready_children [(True, True)] [child_new 7 [Chunk (b @ proxy_end_job R_FAIL)] demo_c_job]
        (demo_runner [child_new 7 [Chunk (b @ proxy_end_job R_FAIL)] demo_c_job]) = Inr ([c'], 1, r1)
    \<and> reap_children 9 [W_Exited 7 0, W_No_Child] (r1\<lparr>rn_children := [c']\<rparr>) = Inr (0, r2) \<and> rn_nfailed r2 = 0"
proof -
  obtain b where b: "proxy_add_event demo_syslog = Inr b"
    using event_codes [of demo_syslog] demo_syslog_simps(1) by (auto simp: proxied_def proxy_add_event_def)
  have nf: "get_result demo_syslog \<noteq> R_FAIL" by (simp add: demo_syslog_simps(2))
  let ?c = "child_new 7 [Chunk (b @ proxy_end_job R_FAIL)] demo_c_job"
  have "b @ proxy_end_job R_FAIL \<noteq> []" by (simp add: proxy_end_job_def serialise_uint_def bytes_of_u32_def)
  then have "\<exists>c' r1 r2. ready_children [(True, True)] (rn_children (demo_runner [?c])) (demo_runner [?c]) = Inr ([c'], 1, r1)
    \<and> is_finished c' \<and> pipe_bytes (ch_pipe c') = proxy_end_job R_FAIL
    \<and> reap_children 9 [W_Exited (ch_pid ?c) 0, W_No_Child] (r1\<lparr>rn_children := [c']\<rparr>) = Inr (0, r2)
    \<and> rn_nfailed r2 = rn_nfailed (demo_runner [?c])"
    using b demo_syslog_simps(1) nf
    by (intro hangup_drops_pending_calls) (simp_all add: child_new_def demo_runner_def)
  with b show ?thesis by (auto simp: child_new_def demo_runner_def runner_new_def)
qed

text \<open>
  A child that exits with status zero and is reaped after an interrupted poll, before its
  pipe was read to the end, is removed but not counted as finished: the count of running
  children stays one too high and the next round of waiting fails its assertion.
\<close>

theorem interrupted_poll_miscounts:
  assumes "rn_children r = [c]" "ch_state c = RUNNING" "rn_nrunning r = 1" "rn_caught_sigchld r"
  shows "\<exists>r'. wait_round now (Poll_Eintr [W_Exited (ch_pid c) 0, W_None]) wss r = Inr (Some 0, r')
    \<and> rn_children r' = [] \<and> rn_nrunning r' = 1 \<and> wait_round now' pr wss' r' = Inl Assert_Failed"
  using assms
  by (simp add: wait_round_def is_finished_def reap_children_def finish_child_def Let_def remove_nth_def)

theorem interrupted_poll_miscounts_witness:
  "\<exists>r'. wait_round 1 (Poll_Eintr [W_Exited 7 0, W_None]) []
      ((demo_runner [child_new 7 [] demo_c_job])\<lparr>rn_caught_sigchld := True\<rparr>) = Inr (Some 0, r')
    \<and> wait_round 2 Poll_Error [] r' = Inl Assert_Failed"
  using interrupted_poll_miscounts [of "(demo_runner [child_new 7 [] demo_c_job])\<lparr>rn_caught_sigchld := True\<rparr>"
      "child_new 7 [] demo_c_job" 1 "[]" 2 Poll_Error "[]"]
  by (auto simp: demo_runner_def child_new_def)

section \<open>Timeouts of the poll and retries of fork\<close>

text \<open>The deadlines of the children that still run.\<close>

definition pending_deadlines :: "child_t list \<Rightarrow> int set" where
  "pending_deadlines cs = {ch_deadline c |c. c \<in> set cs \<and> \<not> is_finished c \<and> ch_deadline c \<noteq> 0}"

lemma pending_deadlines_Cons:
  "pending_deadlines (c # cs) =
     (if is_finished c \<or> ch_deadline c = 0 then pending_deadlines cs else insert (ch_deadline c) (pending_deadlines cs))"
  by (auto simp: pending_deadlines_def)

lemma finite_pending_deadlines [simp]: "finite (pending_deadlines cs)"
  by (induction cs) (auto simp: pending_deadlines_Cons, simp add: pending_deadlines_def)

lemma nearest_min:
  "nearest start t cs =
     (if pending_deadlines cs = {} then t
      else let to = max 0 (Min (pending_deadlines cs) - start) in if t < 0 then to else min t to)"
proof (induction cs arbitrary: t)
  case Nil
  show ?case by (simp add: pending_deadlines_def)
next
  case (Cons c cs)
  show ?case
  proof (cases "is_finished c \<or> ch_deadline c = 0")
    case True
    then show ?thesis by (simp add: Cons.IH pending_deadlines_Cons)
  next
    case False
    let ?D = "pending_deadlines cs"
    obtain M where M: "Min ?D = M" by blast
    have "Min (insert (ch_deadline c) ?D) = (if ?D = {} then ch_deadline c else min (ch_deadline c) M)" by (simp add: M)
    with False show ?thesis by (auto simp: Cons.IH pending_deadlines_Cons M Let_def min_def max_def simp del: Min_insert)
  qed
qed

text \<open>A number of milliseconds that an \<^verbatim>\<open>int\<close> holds is handed to \<^verbatim>\<open>poll\<close> unchanged.\<close>

lemma sint_poll: "- 1 \<le> t \<Longrightarrow> t < 2 ^ 31 \<Longrightarrow> sint (word_of_int t :: u32) = t"
  by (subst sint_sbintrunc') (simp add: signed_take_bit_int_eq_self)

text \<open>
  C31. The argument of the poll is the nearest deadline of the children that still run. With no
  deadline the poll waits for ever. While the nearest deadline lies ahead it waits for that
  deadline rounded to milliseconds: it may wake up to half a millisecond before or after it. While
  some child is overdue it does not wait, but from the sixth such poll in a row on it waits a whole
  second past the deadline, so as not to spin. The nearest deadline is supposed to be less than
  24 days (2 ^ 31 milliseconds) away; beyond that the conversion to \<^verbatim>\<open>int\<close> wraps around.
\<close>

theorem poll_timeout_bounds:
  assumes "poll_timeout start nz cs = (t, nz')"
    and "\<forall>d\<in>pending_deadlines cs. d - start < 2147483647 * 1000000"
  shows "(pending_deadlines cs = {} \<longrightarrow> t = - 1 \<and> nz' = 0) \<and>
    (\<forall>d\<in>pending_deadlines cs.
       (d \<le> start \<longrightarrow> t = (if nz < 5 then 0 else 1000) \<and> nz' = Suc nz) \<and>
       (start < d \<and> (\<forall>d'\<in>pending_deadlines cs. d \<le> d') \<longrightarrow>
          \<bar>t * 1000000 - (d - start)\<bar> \<le> 500000 \<and> 0 \<le> t \<and> nz' = 0))"
proof -
  let ?D = "pending_deadlines cs"
  have ahead: "\<bar>t * 1000000 - (d - start)\<bar> \<le> 500000 \<and> 0 \<le> t \<and> nz' = 0"
    if d: "d \<in> ?D" "start < d" "\<forall>d'\<in>?D. d \<le> d'" for d
  proof -
    have "Min ?D = d" using d by (intro Min_eqI) auto
    with d have n: "nearest start (- 1) cs = d - start" "start < d" by (auto simp: nearest_min)
    let ?t = "(d - start + 500000) div 1000000"
    have "0 \<le> ?t" "?t < 2 ^ 31" using n(2) assms(2) d(1) by (auto simp: pos_imp_zdiv_nonneg_iff)
    then have "t = ?t" "nz' = 0" using assms(1) n by (auto simp: poll_timeout_def sint_poll)
    then show ?thesis using \<open>0 \<le> ?t\<close> by (auto simp: abs_le_iff)
  qed
  have overdue: "t = (if nz < 5 then 0 else 1000) \<and> nz' = Suc nz" if d: "d \<in> ?D" "d \<le> start" for d
  proof -
    have "Min ?D \<le> start" using d by (meson Min_le finite_pending_deadlines order.trans)
    with d have "nearest start (- 1) cs = 0" by (auto simp: nearest_min)
    then show ?thesis using assms(1) by (auto simp: poll_timeout_def NANOSEC_PER_SEC_def sint_poll split: if_splits)
  qed
  have "t = - 1 \<and> nz' = 0" if "?D = {}"
    using that assms(1) by (auto simp: poll_timeout_def nearest_min sint_poll)
  with ahead overdue show ?thesis by blast
qed

theorem poll_timeout_bounds_witness:
  "\<exists>t nz'. poll_timeout 0 0 [demo_child\<lparr>ch_deadline := 2000000\<rparr>] = (t, nz') \<and> \<bar>t * 1000000 - 2000000\<bar> \<le> 500000 \<and> nz' = 0"
proof -
  have D: "pending_deadlines [demo_child\<lparr>ch_deadline := 2000000\<rparr>] = {2000000}"
    by (auto simp: pending_deadlines_def demo_child_def child_new_def is_finished_def)
  obtain t nz' where p: "poll_timeout 0 0 [demo_child\<lparr>ch_deadline := 2000000\<rparr>] = (t, nz')" by fastforce
  show ?thesis using poll_timeout_bounds [OF p] p by (auto simp: D)
qed

lemma fork_loop_delays: "length (snd (fork_loop m d rs)) \<le> m"
  by (induction m d rs rule: fork_loop.induct) (auto split: prod.split)

end
