(* ===== verification/NP_Enumerations.thy ===== *)
theory NP_Enumerations
  imports NP_Common
begin

text \<open>
  \<^verbatim>\<open>np/spiegel/dwarf/enumerations.hxx\<close>, \<^verbatim>\<open>enumerations.cxx\<close> and \<^verbatim>\<open>string_table.cxx\<close>: the
  constants of the DWARF standard as the enumerations declare them, the tables of their names,
  and the conversions between the two. An enumeration is the list of its enumerators with
  their values; a table is its prefix and the strings before the terminating null, where two
  string literals without a comma between them are one string.
\<close>

section \<open>String tables\<close>

record string_table_t =
  st_prefix :: string
  st_names :: "string list"

fun index_from :: "nat \<Rightarrow> string \<Rightarrow> string list \<Rightarrow> int" where
  "index_from i name [] = - 1"
| "index_from i name (n # ns) = (if n = name then int i else index_from (Suc i) name ns)"

definition to_index :: "string_table_t \<Rightarrow> string \<Rightarrow> int" where
  "to_index t name =
     (let len = length (st_prefix t)
      in if len \<noteq> 0 \<and> take len name \<noteq> st_prefix t then - 1
         else index_from 0 (drop len name) (st_names t))"

text \<open>The names are printed into a buffer of 256 bytes.\<close>

definition to_name :: "string_table_t \<Rightarrow> int \<Rightarrow> string" where
  "to_name t i =
     (let name = (if i < 0 \<or> i \<ge> int (length (st_names t)) \<or> st_names t ! nat i = [] then None
                  else Some (st_names t ! nat i));
          hexed = ''0x'' @ print_base lower_digits 16 (unat (word_of_int i :: u32))
      in if st_prefix t \<noteq> []
         then (case name of
                 Some n \<Rightarrow> snprintf 256 (st_prefix t @ n)
               | None \<Rightarrow> snprintf 256 (st_prefix t @ hexed))
         else (case name of Some n \<Rightarrow> n | None \<Rightarrow> snprintf 256 hexed))"

section \<open>Enumerations\<close>

definition section_names :: "(string \<times> int) list" where
  "section_names = [
     (''DW_sec_none'', - 1), (''DW_sec_aranges'', 0x0), (''DW_sec_pubnames'', 0x1),
     (''DW_sec_info'', 0x2), (''DW_sec_abbrev'', 0x3), (''DW_sec_line'', 0x4),
     (''DW_sec_frame'', 0x5), (''DW_sec_str'', 0x6), (''DW_sec_loc'', 0x7),
     (''DW_sec_ranges'', 0x8), (''DW_sec_num'', 0x9)]"

definition children_values :: "(string \<times> int) list" where
  "children_values = [
     (''DW_CHILDREN_no'', 0x0), (''DW_CHILDREN_yes'', 0x1)]"

definition form_values :: "(string \<times> int) list" where
  "form_values = [
     (''DW_FORM_addr'', 0x1), (''DW_FORM_block2'', 0x3), (''DW_FORM_block4'', 0x4),
     (''DW_FORM_data2'', 0x5), (''DW_FORM_data4'', 0x6), (''DW_FORM_data8'', 0x7),
     (''DW_FORM_string'', 0x8), (''DW_FORM_block'', 0x9), (''DW_FORM_block1'', 0xa),
     (''DW_FORM_data1'', 0xb), (''DW_FORM_flag'', 0xc), (''DW_FORM_sdata'', 0xd),
     (''DW_FORM_strp'', 0xe), (''DW_FORM_udata'', 0xf), (''DW_FORM_ref_addr'', 0x10),
     (''DW_FORM_ref1'', 0x11), (''DW_FORM_ref2'', 0x12), (''DW_FORM_ref4'', 0x13),
     (''DW_FORM_ref8'', 0x14), (''DW_FORM_ref_udata'', 0x15), (''DW_FORM_indirect'', 0x16),
     (''DW_FORM_sec_offset'', 0x17), (''DW_FORM_exprloc'', 0x18), (''DW_FORM_flag_present'', 0x19),
     (''DW_FORM_ref_sig8'', 0x20)]"

definition tag_names :: "(string \<times> int) list" where
  "tag_names = [
     (''DW_TAG_array_type'', 0x1), (''DW_TAG_class_type'', 0x2), (''DW_TAG_entry_point'', 0x3),
     (''DW_TAG_enumeration_type'', 0x4), (''DW_TAG_formal_parameter'', 0x5),
     (''DW_TAG_imported_declaration'', 0x8), (''DW_TAG_label'', 0xa),
     (''DW_TAG_lexical_block'', 0xb), (''DW_TAG_member'', 0xd), (''DW_TAG_pointer_type'', 0xf),
     (''DW_TAG_reference_type'', 0x10), (''DW_TAG_compile_unit'', 0x11),
     (''DW_TAG_string_type'', 0x12), (''DW_TAG_structure_type'', 0x13),
     (''DW_TAG_subroutine_type'', 0x15), (''DW_TAG_typedef'', 0x16), (''DW_TAG_union_type'', 0x17),
     (''DW_TAG_unspecified_parameters'', 0x18), (''DW_TAG_variant'', 0x19),
     (''DW_TAG_common_block'', 0x1a), (''DW_TAG_common_inclusion'', 0x1b),
     (''DW_TAG_inheritance'', 0x1c), (''DW_TAG_inlined_subroutine'', 0x1d),
     (''DW_TAG_module'', 0x1e), (''DW_TAG_ptr_to_member_type'', 0x1f), (''DW_TAG_set_type'', 0x20),
     (''DW_TAG_subrange_type'', 0x21), (''DW_TAG_with_stmt'', 0x22),
     (''DW_TAG_access_declaration'', 0x23), (''DW_TAG_base_type'', 0x24),
     (''DW_TAG_catch_block'', 0x25), (''DW_TAG_const_type'', 0x26), (''DW_TAG_constant'', 0x27),
     (''DW_TAG_enumerator'', 0x28), (''DW_TAG_file_type'', 0x29), (''DW_TAG_friend'', 0x2a),
     (''DW_TAG_namelist'', 0x2b), (''DW_TAG_namelist_item'', 0x2c), (''DW_TAG_packed_type'', 0x2d),
     (''DW_TAG_subprogram'', 0x2e), (''DW_TAG_template_type_param'', 0x2f),
     (''DW_TAG_template_value_param'', 0x30), (''DW_TAG_thrown_type'', 0x31),
     (''DW_TAG_try_block'', 0x32), (''DW_TAG_variant_part'', 0x33), (''DW_TAG_variable'', 0x34),
     (''DW_TAG_volatile_type'', 0x35), (''DW_TAG_dwarf_procedure'', 0x36),
     (''DW_TAG_restrict_type'', 0x37), (''DW_TAG_interface_type'', 0x38),
     (''DW_TAG_namespace_type'', 0x39), (''DW_TAG_imported_module'', 0x3a),
     (''DW_TAG_unspecified_type'', 0x3b), (''DW_TAG_partial_unit'', 0x3c),
     (''DW_TAG_imported_unit'', 0x3d), (''DW_TAG_condition'', 0x3f),
     (''DW_TAG_shared_type'', 0x40), (''DW_TAG_type_unit'', 0x41),
     (''DW_TAG_rvalue_reference_type'', 0x42), (''DW_TAG_template_alias'', 0x43)]"

definition attribute_names :: "(string \<times> int) list" where
  "attribute_names = [
     (''DW_AT_sibling'', 0x1), (''DW_AT_location'', 0x2), (''DW_AT_name'', 0x3),
     (''DW_AT_ordering'', 0x9), (''DW_AT_byte_size'', 0xb), (''DW_AT_bit_offset'', 0xc),
     (''DW_AT_bit_size'', 0xd), (''DW_AT_stmt_list'', 0x10), (''DW_AT_low_pc'', 0x11),
     (''DW_AT_high_pc'', 0x12), (''DW_AT_language'', 0x13), (''DW_AT_discr'', 0x15),
     (''DW_AT_discr_value'', 0x16), (''DW_AT_visibility'', 0x17), (''DW_AT_import'', 0x18),
     (''DW_AT_string_length'', 0x19), (''DW_AT_common_reference'', 0x1a),
     (''DW_AT_comp_dir'', 0x1b), (''DW_AT_const_value'', 0x1c), (''DW_AT_containing_type'', 0x1d),
     (''DW_AT_default_value'', 0x1e), (''DW_AT_inline'', 0x20), (''DW_AT_is_optional'', 0x21),
     (''DW_AT_lower_bound'', 0x22), (''DW_AT_producer'', 0x25), (''DW_AT_prototyped'', 0x27),
     (''DW_AT_return_addr'', 0x2a), (''DW_AT_start_scope'', 0x2c), (''DW_AT_stride_size'', 0x2e),
     (''DW_AT_upper_bound'', 0x2f), (''DW_AT_abstract_origin'', 0x31),
     (''DW_AT_accessibility'', 0x32), (''DW_AT_address_class'', 0x33),
     (''DW_AT_artificial'', 0x34), (''DW_AT_base_types'', 0x35),
     (''DW_AT_calling_convention'', 0x36), (''DW_AT_count'', 0x37),
     (''DW_AT_data_member_location'', 0x38), (''DW_AT_decl_column'', 0x39),
     (''DW_AT_decl_file'', 0x3a), (''DW_AT_decl_line'', 0x3b), (''DW_AT_declaration'', 0x3c),
     (''DW_AT_discr_list'', 0x3d), (''DW_AT_encoding'', 0x3e), (''DW_AT_external'', 0x3f),
     (''DW_AT_frame_base'', 0x40), (''DW_AT_friend'', 0x41), (''DW_AT_identifier_case'', 0x42),
     (''DW_AT_macro_info'', 0x43), (''DW_AT_namelist_item'', 0x44), (''DW_AT_priority'', 0x45),
     (''DW_AT_segment'', 0x46), (''DW_AT_specification'', 0x47), (''DW_AT_static_link'', 0x48),
     (''DW_AT_type'', 0x49), (''DW_AT_use_location'', 0x4a), (''DW_AT_variable_parameter'', 0x4b),
     (''DW_AT_virtuality'', 0x4c), (''DW_AT_vtable_elem_location'', 0x4d),
     (''DW_AT_allocated'', 0x4e), (''DW_AT_associated'', 0x4f), (''DW_AT_data_location'', 0x50),
     (''DW_AT_byte_stride'', 0x51), (''DW_AT_entry_pc'', 0x52), (''DW_AT_use_UTF8'', 0x53),
     (''DW_AT_extension'', 0x54), (''DW_AT_ranges'', 0x55), (''DW_AT_trampoline'', 0x56),
     (''DW_AT_call_column'', 0x57), (''DW_AT_call_file'', 0x58), (''DW_AT_call_line'', 0x59),
     (''DW_AT_description'', 0x5a), (''DW_AT_binary_scale'', 0x5b),
     (''DW_AT_decimal_scale'', 0x5c), (''DW_AT_small'', 0x5d), (''DW_AT_decimal_sign'', 0x5e),
     (''DW_AT_digit_count'', 0x5f), (''DW_AT_picture_string'', 0x60), (''DW_AT_mutable'', 0x61),
     (''DW_AT_threads_scaled'', 0x62), (''DW_AT_explicit'', 0x63),
     (''DW_AT_object_pointer'', 0x64), (''DW_AT_endianity'', 0x65), (''DW_AT_elemental'', 0x66),
     (''DW_AT_pure'', 0x67), (''DW_AT_recursive'', 0x68), (''DW_AT_signature'', 0x69),
     (''DW_AT_main_subprogram'', 0x6a), (''DW_AT_data_bit_offset'', 0x6b),
     (''DW_AT_const_expr'', 0x6c), (''DW_AT_enum_class'', 0x6d), (''DW_AT_linkage_name'', 0x6e),
     (''DW_AT_max_basic'', 0x6f), (''DW_AT_lo_user'', 0x2000),
     (''DW_AT_gnu_mangled_name'', 0x2007), (''DW_AT_max_user'', 0x2008), (''DW_AT_hi_user'', 0x3fff)]"

definition encoding_values :: "(string \<times> int) list" where
  "encoding_values = [
     (''DW_ATE_address'', 0x1), (''DW_ATE_boolean'', 0x2), (''DW_ATE_complex_float'', 0x3),
     (''DW_ATE_float'', 0x4), (''DW_ATE_signed'', 0x5), (''DW_ATE_signed_char'', 0x6),
     (''DW_ATE_unsigned'', 0x7), (''DW_ATE_unsigned_char'', 0x8), (''DW_ATE_UTF'', 0x10)]"

definition lineno_standard_opcodes :: "(string \<times> int) list" where
  "lineno_standard_opcodes = [
     (''DW_LNS_copy'', 0x1), (''DW_LNS_advance_pc'', 0x2), (''DW_LNS_advance_line'', 0x3),
     (''DW_LNS_set_file'', 0x4), (''DW_LNS_set_column'', 0x5), (''DW_LNS_negate_stmt'', 0x6),
     (''DW_LNS_set_basic_block'', 0x7), (''DW_LNS_const_add_pc'', 0x8),
     (''DW_LNS_fixed_advance_pc'', 0x9), (''DW_LNS_set_prologue_end'', 0xa),
     (''DW_LNS_set_epilogue_begin'', 0xb), (''DW_LNS_set_isa'', 0xc)]"

definition lineno_extended_opcodes :: "(string \<times> int) list" where
  "lineno_extended_opcodes = [
     (''DW_LNE_end_sequence'', 0x1), (''DW_LNE_set_address'', 0x2), (''DW_LNE_define_file'', 0x3),
     (''DW_LNE_set_discriminator'', 0x4)]"

section \<open>Tables of names\<close>

definition secnames :: string_table_t where
  "secnames = \<lparr>st_prefix = '''', st_names = [
     ''.debug_aranges'', ''.debug_pubnames'', ''.debug_info'', ''.debug_abbrev'', ''.debug_line'',
     ''.debug_frame'', ''.debug_str'', ''.debug_loc'', ''.debug_ranges'']\<rparr>"

definition childvals :: string_table_t where
  "childvals = \<lparr>st_prefix = ''DW_CHILDREN_'', st_names = [
     ''no'', ''yes'']\<rparr>"

definition formvals :: string_table_t where
  "formvals = \<lparr>st_prefix = ''DW_FORM_'', st_names = [
     '''', ''addr'', '''', ''block2'', ''block4'', ''data2'', ''data4'', ''data8'', ''string'',
     ''block'', ''block1'', ''data1'', ''flag'', ''sdata'', ''strp'', ''udata'', ''ref_addr'',
     ''ref1'', ''ref2'', ''ref4'', ''ref8'', ''ref_udata'', ''indirect'', ''sec_offset'',
     ''exprloc'', ''flag_present'', '''', '''', '''', '''', '''', '''', ''ref_sig8'']\<rparr>"

definition tagnames :: string_table_t where
  "tagnames = \<lparr>st_prefix = ''DW_TAG_'', st_names = [
     '''', ''array_type'', ''class_type'', ''entry_point'', ''enumeration_type'',
     ''formal_parameter'', '''', '''', ''imported_declaration'', '''', ''label'',
     ''lexical_block'', '''', ''member'', '''', ''pointer_type'', ''reference_type'',
     ''compile_unit'', ''string_type'', ''structure_type'', '''', ''subroutine_type'', ''typedef'',
     ''union_type'', ''unspecified_parameters'', ''variant'', ''common_block'',
     ''common_inclusion'', ''inheritance'', ''inlined_subroutine'', ''module'',
     ''ptr_to_member_type'', ''set_type'', ''subrange_type'', ''with_stmt'',
     ''access_declaration'', ''base_type'', ''catch_block'', ''const_type'', ''constant'',
     ''enumerator'', ''file_type'', ''friend'', ''namelist'', ''namelist_item'', ''packed_type'',
     ''subprogram'', ''template_type_param'', ''template_value_param'', ''thrown_type'',
     ''try_block'', ''variant_part'', ''variable'', ''volatile_type'', ''dwarf_procedure'',
     ''restrict_type'', ''interface_type'', ''namespace_type'', ''imported_module'',
     ''unspecified_type'', ''partial_unit'', ''imported_unit'', '''', ''condition'',
     ''shared_type'', ''type_unit'', ''rvalue_reference_type'', ''template_alias'']\<rparr>"

definition attrnames :: string_table_t where
  "attrnames = \<lparr>st_prefix = ''DW_AT_'', st_names = [
     '''', ''sibling'', ''location'', ''name'', '''', '''', '''', '''', '''', ''ordering'', '''',
     ''byte_size'', ''bit_offset'', ''bit_size'', '''', '''', ''stmt_list'', ''low_pc'',
     ''high_pc'', ''language'', '''', ''discr'', ''discr_value'', ''visibility'', ''import'',
     ''string_length'', ''common_reference'', ''comp_dir'', ''const_value'', ''containing_type'',
     ''default_value'', '''', ''inline'', ''is_optional'', ''lower_bound'', '''', '''',
     ''producer'', '''', ''prototyped'', '''', '''', ''return_addr'', '''', ''start_scope'', '''',
     ''stride_size'', ''upper_bound'', '''', ''abstract_origin'', ''accessibility'',
     ''address_class'', ''artificial'', ''base_types'', ''calling_convention'', ''count'',
     ''data_member_location'', ''decl_column'', ''decl_file'', ''decl_line'', ''declaration'',
     ''discr_list'', ''encoding'', ''external'', ''frame_base'', ''friend'', ''identifier_case'',
     ''macro_info'', ''namelist_item'', ''priority'', ''segment'', ''specification'',
     ''static_link'', ''type'', ''use_location'', ''variable_parameter'', ''virtuality'',
     ''vtable_elem_location'', ''allocated'', ''associated'', ''data_location'', ''byte_stride'',
     ''entry_pc'', ''use_UTF8'', ''extension'', ''ranges'', ''trampoline'', ''call_column'',
     ''call_file'', ''call_line'', ''description'', ''binary_scale'', ''decimal_scale'', ''small'',
     ''decimal_sign'', ''digit_count'', ''picture_string'', ''mutable'', ''threads_scaled'',
     ''explicit'', ''object_pointer'', ''endianity'', ''elemental'', ''pure'', ''recursive'',
     ''signature'', ''main_subprogram'', ''data_bit_offset'', ''const_expr'', ''enum_class'',
     ''linkage_name'']\<rparr>"

definition encvals :: string_table_t where
  "encvals = \<lparr>st_prefix = ''DW_ATE_'', st_names = [
     '''', ''address'', ''boolean'', ''complex_float'', ''float'', ''signed'', ''signed_char'',
     ''unsigned'', ''unsigned_char'', '''', '''', '''', '''', '''', '''', '''', ''utf-8'']\<rparr>"

definition lnsopvals :: string_table_t where
  "lnsopvals = \<lparr>st_prefix = ''DW_LNS_'', st_names = [
     ''copy'', ''advance_pc'', ''advance_line'', ''set_file'', ''set_column'', ''negate_stmt'',
     ''set_basic_block'', ''const_add_pc'', ''fixed_advance_pc'', ''set_prologue_end'',
     ''set_epilogue_begin'', ''set_isa'']\<rparr>"

definition lneopvals :: string_table_t where
  "lneopvals = \<lparr>st_prefix = ''DW_LNE_'', st_names = [
     '''', ''end_sequence'', ''set_address'', ''define_file'', ''set_discriminator'']\<rparr>"

section \<open>Names and values\<close>

text \<open>An enumerator is named by a table if the table converts it both ways.\<close>

definition named_by :: "string_table_t \<Rightarrow> string \<times> int \<Rightarrow> bool" where
  "named_by t = (\<lambda>(n, v). to_name t v = n \<and> to_index t n = v)"

lemma index_from_nth:
  assumes "i < length ns" "\<forall>j<i. ns ! j \<noteq> ns ! i"
  shows "index_from k (ns ! i) ns = int (k + i)"
  using assms
proof (induction ns arbitrary: i k)
  case (Cons n ns)
  show ?case
  proof (cases i)
    case (Suc m)
    then have "\<forall>j<m. ns ! j \<noteq> ns ! m" "n \<noteq> ns ! m" using Cons.prems by force+
    with Suc Cons show ?thesis by simp
  qed simp
qed simp

lemma to_name_valid:
  assumes "i < length (st_names t)" "st_names t ! i \<noteq> []" "length (st_prefix t @ st_names t ! i) < 256"
  shows "to_name t (int i) = st_prefix t @ st_names t ! i"
  using assms by (simp add: to_name_def snprintf_def Let_def)

text \<open>
  Converting a value to its name and back gives the value, for every value of a table that
  has a name of its own that fits the buffer.
\<close>

theorem name_index_roundtrip:
  assumes "i < length (st_names t)" "st_names t ! i \<noteq> []" "\<forall>j<i. st_names t ! j \<noteq> st_names t ! i"
    "length (st_prefix t @ st_names t ! i) < 256"
  shows "to_index t (to_name t (int i)) = int i"
  using assms index_from_nth [of i "st_names t" 0] by (simp add: to_name_valid to_index_def)

theorem name_index_roundtrip_witness: "to_index encvals (to_name encvals 5) = 5"
proof -
  have "\<forall>j<5. st_names encvals ! j \<noteq> st_names encvals ! 5"
    by (auto simp: encvals_def less_Suc_eq numeral_eq_Suc)
  then show ?thesis
    using name_index_roundtrip [of 5 encvals] by (simp add: encvals_def)
qed

lemma childvals_named: "list_all (named_by childvals) children_values"
  by code_simp

lemma formvals_named: "list_all (named_by formvals) form_values"
  by code_simp

lemma lneopvals_named: "list_all (named_by lneopvals) lineno_extended_opcodes"
  by code_simp

lemma tagnames_named: "list_all (named_by tagnames) tag_names"
  by code_simp

lemma attrnames_named: "list_all (named_by attrnames) (filter (\<lambda>(n, v). v < 0x6f) attribute_names)"
  by code_simp

text \<open>
  Every enumerator of the forms, tags, child markers, extended line number opcodes and
  basic attributes has its own name in its table, at the index of its value.
\<close>

theorem enumerators_named:
  "list_all (named_by childvals) children_values \<and> list_all (named_by formvals) form_values
   \<and> list_all (named_by tagnames) tag_names \<and> list_all (named_by lneopvals) lineno_extended_opcodes
   \<and> list_all (named_by attrnames) (filter (\<lambda>(n, v). v < 0x6f) attribute_names)"
  using childvals_named formvals_named tagnames_named lneopvals_named attrnames_named by blast

text \<open>
  The table of standard line number opcodes is off by one: its first literal lacks a comma,
  so every opcode has the index below its value, and converting an opcode gives the name of
  the next one.
\<close>

theorem lnsopvals_off_by_one:
  "list_all (\<lambda>(n, v). to_index lnsopvals n = v - 1) lineno_standard_opcodes
   \<and> to_name lnsopvals 0x01 = ''DW_LNS_advance_pc'' \<and> to_name lnsopvals 0x0c = ''DW_LNS_0xc''"
proof (intro conjI)
  show "list_all (\<lambda>(n, v). to_index lnsopvals n = v - 1) lineno_standard_opcodes" by code_simp
  show "to_name lnsopvals 0x01 = ''DW_LNS_advance_pc''" by code_simp
  show "to_name lnsopvals 0x0c = ''DW_LNS_0xc''" by code_simp
qed

end
