(* ===== verification/NP_Lineno.thy ===== *)
theory NP_Lineno
  imports NP_Reader NP_Filename
begin

text \<open>
  \<^verbatim>\<open>np/spiegel/dwarf/lineno_program.cxx\<close> and \<^verbatim>\<open>.hxx\<close>: the header of a DWARF line number
  program, the state machine that runs it, and the search for the source line of an address.
  A delegate is a function of the run state (the facade \<^verbatim>\<open>range_t\<close> only reads the run state)
  and of its own state. The loops end because every round reads at least one byte.
\<close>

section \<open>Opcodes\<close>

abbreviation (input) DW_LNS_copy :: u8 where "DW_LNS_copy \<equiv> 0x01"
abbreviation (input) DW_LNS_advance_pc :: u8 where "DW_LNS_advance_pc \<equiv> 0x02"
abbreviation (input) DW_LNS_advance_line :: u8 where "DW_LNS_advance_line \<equiv> 0x03"
abbreviation (input) DW_LNS_set_file :: u8 where "DW_LNS_set_file \<equiv> 0x04"
abbreviation (input) DW_LNS_set_column :: u8 where "DW_LNS_set_column \<equiv> 0x05"
abbreviation (input) DW_LNS_negate_stmt :: u8 where "DW_LNS_negate_stmt \<equiv> 0x06"
abbreviation (input) DW_LNS_set_basic_block :: u8 where "DW_LNS_set_basic_block \<equiv> 0x07"
abbreviation (input) DW_LNS_const_add_pc :: u8 where "DW_LNS_const_add_pc \<equiv> 0x08"
abbreviation (input) DW_LNS_fixed_advance_pc :: u8 where "DW_LNS_fixed_advance_pc \<equiv> 0x09"
abbreviation (input) DW_LNS_set_prologue_end :: u8 where "DW_LNS_set_prologue_end \<equiv> 0x0a"
abbreviation (input) DW_LNS_set_epilogue_begin :: u8 where "DW_LNS_set_epilogue_begin \<equiv> 0x0b"
abbreviation (input) DW_LNS_set_isa :: u8 where "DW_LNS_set_isa \<equiv> 0x0c"
abbreviation (input) DW_LNE_end_sequence :: u8 where "DW_LNE_end_sequence \<equiv> 0x01"
abbreviation (input) DW_LNE_set_address :: u8 where "DW_LNE_set_address \<equiv> 0x02"
abbreviation (input) DW_LNE_define_file :: u8 where "DW_LNE_define_file \<equiv> 0x03"
abbreviation (input) DW_LNE_set_discriminator :: u8 where "DW_LNE_set_discriminator \<equiv> 0x04"

section \<open>State\<close>

record file_table_entry_t =
  fte_filename :: string
  fte_directory_index :: u32
  fte_mtime :: u32
  fte_length :: u32

record registers_t =
  rg_address :: addr_t
  rg_file :: u32
  rg_line :: u32
  rg_column :: u32
  rg_is_stmt :: bool
  rg_basic_block :: bool
  rg_end_sequence :: bool
  rg_prologue_end :: bool
  rg_epilogue_begin :: bool
  rg_isa :: u32
  rg_op_index :: u32
  rg_discriminator :: u32

text \<open>The compilation directory is a pointer that may be null.\<close>

record lineno_program_t =
  lp_compilation_directory :: "string option"
  lp_reader :: reader_t
  lp_header_length :: offset_t
  lp_version :: u16
  lp_minimum_instruction_length :: u8
  lp_maximum_operations :: u8
  lp_default_is_stmt :: bool
  lp_line_base :: u8
  lp_line_range :: u8
  lp_opcode_base :: u8
  lp_include_directories :: "string list"
  lp_files :: "file_table_entry_t list"

record run_state_t =
  rs_registers :: registers_t
  rs_start :: registers_t
  rs_have_start :: bool
  rs_additional_files :: "file_table_entry_t list"
  rs_running :: bool

datatype status_t = SUCCESS | ERR_BAD_OPCODE | ERR_OPCODE_FETCH | ERR_OPERAND_FETCH | ERR_HALTED_BY_DELEGATE

type_synonym 'd delegate_t = "run_state_t \<Rightarrow> 'd \<Rightarrow> np_error + bool \<times> 'd"

definition zero_registers :: registers_t where
  "zero_registers =
     \<lparr>rg_address = 0, rg_file = 0, rg_line = 0, rg_column = 0, rg_is_stmt = False, rg_basic_block = False,
      rg_end_sequence = False, rg_prologue_end = False, rg_epilogue_begin = False, rg_isa = 0,
      rg_op_index = 0, rg_discriminator = 0\<rparr>"

definition run_state_init :: run_state_t where
  "run_state_init =
     \<lparr>rs_registers = zero_registers, rs_start = zero_registers, rs_have_start = False,
      rs_additional_files = [], rs_running = True\<rparr>"

section \<open>Reading the header\<close>

fun skip_opcode_lengths :: "nat \<Rightarrow> unit rd" where
  "skip_opcode_lengths 0 r = (Some (), r)"
| "skip_opcode_lengths (Suc n) r = rd_bind read_u8 (\<lambda>v. skip_opcode_lengths n) r"

lemma read_string_remains: "read_string r = (Some s, r') \<Longrightarrow> get_remains r' < get_remains r"
  by (auto simp: read_string_def get_remains_def rd_rest_def dest!: memchr0_Some split: option.splits)

function read_directories :: "string list rd" where
  "read_directories r =
     (case read_string r of
        (None, r1) \<Rightarrow> (None, r1)
      | (Some v, r1) \<Rightarrow>
          if v = [] then (Some [], r1)
          else (case read_directories r1 of (None, r2) \<Rightarrow> (None, r2) | (Some ds, r2) \<Rightarrow> (Some (v # ds), r2)))"
  by auto
termination
  by (relation "measure get_remains") (auto dest: sym read_string_remains)

declare read_directories.simps [simp del]

definition read_file_rest :: "string \<Rightarrow> file_table_entry_t rd" where
  "read_file_rest f =
     rd_bind read_uleb128 (\<lambda>di. rd_bind read_uleb128 (\<lambda>mt. rd_bind read_uleb128 (\<lambda>len.
       rd_return \<lparr>fte_filename = f, fte_directory_index = di, fte_mtime = mt, fte_length = len\<rparr>)))"

lemma read_file_rest_op: "reader_op (read_file_rest f)"
  unfolding read_file_rest_def by (intro reader_op_bind reader_op_return read_uleb128_op.reader_op_axioms)

function read_files :: "file_table_entry_t list rd" where
  "read_files r =
     (case read_string r of
        (None, r1) \<Rightarrow> (None, r1)
      | (Some v, r1) \<Rightarrow>
          if v = [] then (Some [], r1)
          else (case read_file_rest v r1 of
                  (None, r2) \<Rightarrow> (None, r2)
                | (Some e, r2) \<Rightarrow>
                    (case read_files r2 of (None, r3) \<Rightarrow> (None, r3) | (Some fs, r3) \<Rightarrow> (Some (e # fs), r3))))"
  by auto
termination
proof (relation "measure get_remains", simp)
  fix r x r1 v y r2 e
  assume "(x, r1) = read_string r" "x = Some v" "v \<noteq> []" "(y, r2) = read_file_rest v r1" "y = Some e"
  then have "get_remains r1 < get_remains r" "get_remains r2 \<le> get_remains r1"
    using read_string_remains [of r v r1] reader_op.op_remains [OF read_file_rest_op, of v r1 y r2] by simp_all
  then show "(r2, r) \<in> measure get_remains" by simp
qed

declare read_files.simps [simp del]

text \<open>
  The fields of the header from the version on; \<open>None\<close> where the code returns false. The
  length of the header is counted from the version field, where the reader starts.
\<close>

definition read_header_fields :: "string option \<Rightarrow> lineno_program_t rd" where
  "read_header_fields cd r0 =
     (rd_bind read_u16 (\<lambda>version.
      if version < 2 \<or> version > 4 then (\<lambda>r. (None, r))
      else rd_bind read_offset (\<lambda>hl r1.
        (let header_length = hl + of_nat (get_offset r1)
         in rd_bind read_u8 (\<lambda>minl.
            rd_bind (if version \<ge> 4 then read_u8 else rd_return 1) (\<lambda>maxo.
            rd_bind read_u8 (\<lambda>dis.
            rd_bind read_s8 (\<lambda>lb.
            rd_bind read_u8 (\<lambda>lr.
            rd_bind read_u8 (\<lambda>ob.
            rd_bind (skip_opcode_lengths (unat ob - 1)) (\<lambda>_.
            rd_bind read_directories (\<lambda>dirs.
            rd_bind read_files (\<lambda>files r2.
              if header_length \<noteq> of_nat (get_offset r2) then (None, r2)
              else (Some \<lparr>lp_compilation_directory = cd, lp_reader = r2, lp_header_length = header_length,
                      lp_version = version, lp_minimum_instruction_length = minl,
                      lp_maximum_operations = maxo, lp_default_is_stmt = (dis \<noteq> 0),
                      lp_line_base = lb, lp_line_range = lr, lp_opcode_base = ob,
                      lp_include_directories = dirs, lp_files = files\<rparr>, r2)))))))))) r1)))) r0"

text \<open>\<^verbatim>\<open>read_header\<close>: the program, if its header is good, and the section's reader.\<close>

definition lineno_read_header :: "string option \<Rightarrow> reader_t \<Rightarrow> np_error + lineno_program_t option \<times> reader_t" where
  "lineno_read_header cd r =
     (case read_initial_length r of
        (None, r1) \<Rightarrow> Inr (None, r1)
      | (Some (unit_length, is64), r1) \<Rightarrow>
          if unat unit_length > get_remains r1 then Inl (Fatal_Exit ''Bad DWARF compile unit length'')
          else let unit_reader = set_is64 is64 (initial_subset (unat unit_length) r1);
                   r2 = snd (skip (unat unit_length) r1)
               in Inr (fst (read_header_fields cd unit_reader), r2))"

section \<open>The state machine\<close>

definition reset_registers :: "lineno_program_t \<Rightarrow> run_state_t \<Rightarrow> run_state_t" where
  "reset_registers p rs =
     rs\<lparr>rs_registers :=
       \<lparr>rg_address = 0, rg_file = 1, rg_line = 1, rg_column = 0, rg_is_stmt = lp_default_is_stmt p,
        rg_basic_block = False, rg_end_sequence = False, rg_prologue_end = False,
        rg_epilogue_begin = False, rg_isa = 0, rg_op_index = 0, rg_discriminator = 0\<rparr>\<rparr>"

definition upd_registers :: "(registers_t \<Rightarrow> registers_t) \<Rightarrow> run_state_t \<Rightarrow> run_state_t" where
  "upd_registers f rs = rs\<lparr>rs_registers := f (rs_registers rs)\<rparr>"

text \<open>What \<^verbatim>\<open>copy\<close> does after the delegate asked to go on.\<close>

definition copy_registers :: "run_state_t \<Rightarrow> run_state_t" where
  "copy_registers rs =
     (let rs1 = (if rg_end_sequence (rs_registers rs)
                 then rs\<lparr>rs_have_start := False, rs_start := zero_registers\<rparr>
                 else rs\<lparr>rs_have_start := True, rs_start := rs_registers rs\<rparr>)
      in upd_registers (\<lambda>g. g\<lparr>rg_basic_block := False, rg_prologue_end := False,
                              rg_epilogue_begin := False, rg_discriminator := 0\<rparr>) rs1)"

definition ln_copy :: "'d delegate_t \<Rightarrow> run_state_t \<Rightarrow> 'd \<Rightarrow> np_error + run_state_t \<times> 'd" where
  "ln_copy dl rs d =
     bindE (if rs_have_start rs then dl rs d else Inr (True, d)) (\<lambda>(go, d').
       if go then Inr (copy_registers rs, d') else Inr (rs\<lparr>rs_running := False\<rparr>, d'))"

definition advance_pc :: "lineno_program_t \<Rightarrow> u32 \<Rightarrow> run_state_t \<Rightarrow> np_error + run_state_t" where
  "advance_pc p operation_advance rs =
     (if lp_maximum_operations p = 0 then Inl Divide_By_Zero
      else let new_op_index = rg_op_index (rs_registers rs) + operation_advance;
               maxo = ucast (lp_maximum_operations p)
           in Inr (upd_registers (\<lambda>g. g\<lparr>rg_address := rg_address g +
                       ucast ((new_op_index div maxo) * ucast (lp_minimum_instruction_length p)),
                     rg_op_index := new_op_index mod maxo\<rparr>) rs))"

definition advance_line :: "u32 \<Rightarrow> run_state_t \<Rightarrow> run_state_t" where
  "advance_line n = upd_registers (\<lambda>g. g\<lparr>rg_line := rg_line g + n\<rparr>)"

definition special_opcode_line_advance :: "lineno_program_t \<Rightarrow> u8 \<Rightarrow> np_error + u32" where
  "special_opcode_line_advance p opcode =
     (if lp_line_range p = 0 then Inl Divide_By_Zero
      else Inr (scast (lp_line_base p) + ucast ((opcode - lp_opcode_base p) mod lp_line_range p)))"

definition special_opcode_operation_advance :: "lineno_program_t \<Rightarrow> u8 \<Rightarrow> np_error + u32" where
  "special_opcode_operation_advance p opcode =
     (if lp_line_range p = 0 then Inl Divide_By_Zero
      else Inr (ucast ((opcode - lp_opcode_base p) div lp_line_range p)))"

text \<open>One round of the loop returns a status, or goes on with a new state.\<close>

datatype 'd ln_result = Stop status_t 'd | Go run_state_t 'd reader_t

definition fetch :: "'a rd \<Rightarrow> status_t \<Rightarrow> 'd \<Rightarrow> reader_t \<Rightarrow> ('a \<Rightarrow> reader_t \<Rightarrow> np_error + 'd ln_result) \<Rightarrow> np_error + 'd ln_result" where
  "fetch m err d r k = (case m r of (None, r') \<Rightarrow> Inr (Stop err d) | (Some x, r') \<Rightarrow> k x r')"

definition exec_extended ::
  "lineno_program_t \<Rightarrow> 'd delegate_t \<Rightarrow> u8 \<Rightarrow> run_state_t \<Rightarrow> 'd \<Rightarrow> reader_t \<Rightarrow> np_error + 'd ln_result" where
  "exec_extended p dl opcode rs d r =
     (if opcode = DW_LNE_end_sequence then
        bindE (ln_copy dl (upd_registers (\<lambda>g. g\<lparr>rg_end_sequence := True\<rparr>) rs) d)
          (\<lambda>(rs', d'). Inr (Go (reset_registers p rs') d' r))
      else if opcode = DW_LNE_set_address then
        fetch read_addr ERR_OPERAND_FETCH d r (\<lambda>v r'.
          Inr (Go (upd_registers (\<lambda>g. g\<lparr>rg_address := v, rg_op_index := 0\<rparr>) rs) d r'))
      else if opcode = DW_LNE_define_file then
        fetch (rd_bind read_string read_file_rest) ERR_OPERAND_FETCH d r (\<lambda>e r'.
          Inr (Go (rs\<lparr>rs_additional_files := rs_additional_files rs @ [e]\<rparr>) d r'))
      else if opcode = DW_LNE_set_discriminator then
        fetch read_uleb128 ERR_OPCODE_FETCH d r (\<lambda>v r'.
          Inr (Go (upd_registers (\<lambda>g. g\<lparr>rg_discriminator := v\<rparr>) rs) d r'))
      else Inr (Stop ERR_BAD_OPCODE d))"

text \<open>Standard opcodes the switch does not know do nothing.\<close>

definition exec_standard ::
  "lineno_program_t \<Rightarrow> 'd delegate_t \<Rightarrow> u8 \<Rightarrow> run_state_t \<Rightarrow> 'd \<Rightarrow> reader_t \<Rightarrow> np_error + 'd ln_result" where
  "exec_standard p dl opcode rs d r =
     (if opcode = DW_LNS_copy then bindE (ln_copy dl rs d) (\<lambda>(rs', d'). Inr (Go rs' d' r))
      else if opcode = DW_LNS_advance_pc then
        fetch read_uleb128 ERR_OPERAND_FETCH d r (\<lambda>u r'. bindE (advance_pc p u rs) (\<lambda>rs'. Inr (Go rs' d r')))
      else if opcode = DW_LNS_advance_line then
        fetch read_sleb128 ERR_OPERAND_FETCH d r (\<lambda>s r'. Inr (Go (advance_line s rs) d r'))
      else if opcode = DW_LNS_set_file then
        fetch read_uleb128 ERR_OPERAND_FETCH d r (\<lambda>u r'. Inr (Go (upd_registers (\<lambda>g. g\<lparr>rg_file := u\<rparr>) rs) d r'))
      else if opcode = DW_LNS_set_column then
        fetch read_uleb128 ERR_OPERAND_FETCH d r (\<lambda>u r'. Inr (Go (upd_registers (\<lambda>g. g\<lparr>rg_column := u\<rparr>) rs) d r'))
      else if opcode = DW_LNS_negate_stmt then Inr (Go (upd_registers (\<lambda>g. g\<lparr>rg_is_stmt := \<not> rg_is_stmt g\<rparr>) rs) d r)
      else if opcode = DW_LNS_set_basic_block then Inr (Go (upd_registers (\<lambda>g. g\<lparr>rg_basic_block := True\<rparr>) rs) d r)
      else if opcode = DW_LNS_const_add_pc then
        bindE (special_opcode_operation_advance p 255) (\<lambda>u. bindE (advance_pc p u rs) (\<lambda>rs'. Inr (Go rs' d r)))
      else if opcode = DW_LNS_fixed_advance_pc then
        fetch read_u16 ERR_OPERAND_FETCH d r (\<lambda>h r'.
          Inr (Go (upd_registers (\<lambda>g. g\<lparr>rg_address := rg_address g + ucast h\<rparr>) rs) d r'))
      else if opcode = DW_LNS_set_prologue_end then Inr (Go (upd_registers (\<lambda>g. g\<lparr>rg_prologue_end := True\<rparr>) rs) d r)
      else if opcode = DW_LNS_set_epilogue_begin then Inr (Go (upd_registers (\<lambda>g. g\<lparr>rg_epilogue_begin := True\<rparr>) rs) d r)
      else if opcode = DW_LNS_set_isa then
        fetch read_uleb128 ERR_OPERAND_FETCH d r (\<lambda>u r'. Inr (Go (upd_registers (\<lambda>g. g\<lparr>rg_isa := u\<rparr>) rs) d r'))
      else Inr (Go rs d r))"

definition exec_special ::
  "lineno_program_t \<Rightarrow> 'd delegate_t \<Rightarrow> u8 \<Rightarrow> run_state_t \<Rightarrow> 'd \<Rightarrow> reader_t \<Rightarrow> np_error + 'd ln_result" where
  "exec_special p dl opcode rs d r =
     bindE (special_opcode_line_advance p opcode) (\<lambda>l.
     bindE (special_opcode_operation_advance p opcode) (\<lambda>u.
     bindE (advance_pc p u (advance_line l rs)) (\<lambda>rs1.
     bindE (ln_copy dl rs1 d) (\<lambda>(rs', d'). Inr (Go rs' d' r)))))"

definition ln_step ::
  "lineno_program_t \<Rightarrow> 'd delegate_t \<Rightarrow> u8 \<Rightarrow> run_state_t \<Rightarrow> 'd \<Rightarrow> reader_t \<Rightarrow> np_error + 'd ln_result" where
  "ln_step p dl opcode rs d r =
     (if opcode = 0 then
        fetch read_uleb128 ERR_OPCODE_FETCH d r (\<lambda>nbytes r1.
        fetch read_u8 ERR_OPCODE_FETCH d r1 (\<lambda>op r2. exec_extended p dl op rs d r2))
      else if opcode < lp_opcode_base p then exec_standard p dl opcode rs d r
      else exec_special p dl opcode rs d r)"

lemma fetch_Go:
  assumes "fetch m err d r k = Inr (Go rs' d' r')"
  obtains x r1 where "m r = (Some x, r1)" "k x r1 = Inr (Go rs' d' r')"
  using assms by (cases "m r") (auto simp: fetch_def split: option.splits)

lemma fetch_remains:
  assumes "reader_op m" "fetch m err d r k = Inr (Go rs' d' r')"
    and "\<And>x r1. k x r1 = Inr (Go rs' d' r') \<Longrightarrow> get_remains r' \<le> get_remains r1"
  shows "get_remains r' \<le> get_remains r"
  using fetch_Go [OF assms(2)] assms(3) reader_op.op_remains [OF assms(1)] by (metis order_trans)

lemmas fetch_ops = read_u8_op.reader_op_axioms read_u16_op.reader_op_axioms
  read_uleb128_op.reader_op_axioms read_sleb128_op.reader_op_axioms
  read_u64_op.reader_op_axioms [folded read_addr_def]
  reader_op_bind [OF read_string_op.reader_op_axioms read_file_rest_op]

lemma exec_extended_remains:
  "exec_extended p dl opcode rs d r = Inr (Go rs' d' r') \<Longrightarrow> get_remains r' \<le> get_remains r"
  unfolding exec_extended_def
  by (auto simp: bindE_Inr_iff split: if_splits prod.splits elim!: fetch_remains [rotated] intro: fetch_ops)

lemma exec_standard_remains:
  "exec_standard p dl opcode rs d r = Inr (Go rs' d' r') \<Longrightarrow> get_remains r' \<le> get_remains r"
  unfolding exec_standard_def
  by (auto simp: bindE_Inr_iff split: if_splits prod.splits elim!: fetch_remains [rotated] intro: fetch_ops)

lemma exec_special_remains:
  "exec_special p dl opcode rs d r = Inr (Go rs' d' r') \<Longrightarrow> r' = r"
  by (auto simp: exec_special_def bindE_Inr_iff split: prod.splits)

lemma ln_step_remains:
  assumes "ln_step p dl opcode rs d r = Inr (Go rs' d' r')"
  shows "get_remains r' \<le> get_remains r"
proof (cases "opcode = 0")
  case True
  with assms have "fetch read_uleb128 ERR_OPCODE_FETCH d r (\<lambda>nbytes r1.
      fetch read_u8 ERR_OPCODE_FETCH d r1 (\<lambda>op r2. exec_extended p dl op rs d r2)) = Inr (Go rs' d' r')"
    by (simp add: ln_step_def)
  then show ?thesis
    by (rule fetch_remains [OF read_uleb128_op.reader_op_axioms])
      (erule fetch_remains [OF read_u8_op.reader_op_axioms], erule exec_extended_remains)
next
  case False
  with assms show ?thesis
    by (auto simp: ln_step_def split: if_splits dest: exec_standard_remains exec_special_remains)
qed

lemma read_u8_remains: "read_u8 r = (Some b, r') \<Longrightarrow> get_remains r' < get_remains r"
  by (auto simp: read_u8_def get_remains_def split: if_splits)

function ln_run_loop ::
  "lineno_program_t \<Rightarrow> 'd delegate_t \<Rightarrow> run_state_t \<Rightarrow> 'd \<Rightarrow> reader_t \<Rightarrow> np_error + status_t \<times> 'd" where
  "ln_run_loop p dl rs d r =
     (if \<not> rs_running rs then Inr (ERR_HALTED_BY_DELEGATE, d)
      else case read_u8 r of
        (None, r1) \<Rightarrow> Inr (SUCCESS, d)
      | (Some opcode, r1) \<Rightarrow>
          (case ln_step p dl opcode rs d r1 of
             Inl e \<Rightarrow> Inl e
           | Inr (Stop st d') \<Rightarrow> Inr (st, d')
           | Inr (Go rs' d' r2) \<Rightarrow> ln_run_loop p dl rs' d' r2))"
  by auto
termination
proof (relation "measure (\<lambda>(p, dl, rs, d, r). get_remains r)", simp)
  fix p :: lineno_program_t and dl :: "'d delegate_t" and rs d r x r1 opcode y st rs' d' r2
  assume "\<not> \<not> rs_running rs" "(x, r1) = read_u8 r" "x = Some opcode" "ln_step p dl opcode rs d r1 = Inr st"
    "st = Go rs' d' r2"
  then have "get_remains r1 < get_remains r" "get_remains r2 \<le> get_remains r1"
    using read_u8_remains [of r opcode r1] ln_step_remains [of p dl opcode rs d r1 rs' d' r2] by simp_all
  then show "((p, dl, rs', d', r2), (p, dl, rs, d, r)) \<in> measure (\<lambda>(p, dl, rs, d, r). get_remains r)" by simp
qed

declare ln_run_loop.simps [simp del]

definition lineno_run :: "lineno_program_t \<Rightarrow> 'd delegate_t \<Rightarrow> 'd \<Rightarrow> np_error + status_t \<times> 'd" where
  "lineno_run p dl d =
     ln_run_loop p dl (reset_registers p run_state_init) d (snd (seek (unat (lp_header_length p)) (lp_reader p)))"


section \<open>Ranges and the search for a line\<close>

text \<open>
  The facade \<^verbatim>\<open>range_t\<close>: a range runs from the start registers to the current registers of
  the run state.
\<close>

definition range_contains :: "addr_t \<Rightarrow> u32 \<Rightarrow> run_state_t \<Rightarrow> bool" where
  "range_contains a op_index rs =
     (let s = rs_start rs; e = rs_registers rs
      in if a < rg_address s \<or> a = rg_address s \<and> op_index < rg_op_index s then False
         else if a \<ge> rg_address e \<or> a = rg_address e \<and> op_index \<ge> rg_op_index e then False
         else True)"

definition get_file_entry :: "lineno_program_t \<Rightarrow> u32 \<Rightarrow> run_state_t \<Rightarrow> file_table_entry_t option" where
  "get_file_entry p i rs =
     (if i = 0 then None
      else let i1 = unat (i - 1)
           in if i1 < length (lp_files p) then Some (lp_files p ! i1)
              else let i2 = i1 - length (lp_files p)
                   in if i2 < length (rs_additional_files rs) then Some (rs_additional_files rs ! i2) else None)"

text \<open>
  A file without an entry has the empty name; a directory index beyond the table is read
  out of range and a missing compilation directory is a null string.
\<close>

definition get_absolute_filename :: "string \<Rightarrow> lineno_program_t \<Rightarrow> u32 \<Rightarrow> run_state_t \<Rightarrow> np_error + string" where
  "get_absolute_filename cwd p i rs =
     (case get_file_entry p i rs of
        None \<Rightarrow> Inr []
      | Some e \<Rightarrow>
          let di = unat (fte_directory_index e)
          in bindE (if di \<noteq> 0
                    then (if di - 1 < length (lp_include_directories p)
                          then Inr (lp_include_directories p ! (di - 1)) else Inl Out_Of_Range)
                    else (case lp_compilation_directory p of None \<Rightarrow> Inl Null_Deref | Some cd \<Rightarrow> Inr cd)) (\<lambda>d.
             bindE (make_absolute_to_dir cwd (fte_filename e) d) (\<lambda>f2.
             case lp_compilation_directory p of
               None \<Rightarrow> Inl Null_Deref
             | Some cd \<Rightarrow> make_absolute_to_dir cwd f2 cd)))"

text \<open>The delegate of \<^verbatim>\<open>get_source_line\<close>: its state is what it found.\<close>

type_synonym source_line = "string \<times> u32 \<times> u32"

definition source_line_of :: "string \<Rightarrow> lineno_program_t \<Rightarrow> run_state_t \<Rightarrow> np_error + source_line" where
  "source_line_of cwd p rs =
     bindE (get_absolute_filename cwd p (rg_file (rs_start rs)) rs) (\<lambda>f.
       Inr (f, rg_line (rs_start rs), rg_column (rs_start rs)))"

definition receive_range :: "string \<Rightarrow> lineno_program_t \<Rightarrow> addr_t \<Rightarrow> source_line option delegate_t" where
  "receive_range cwd p seeking rs found =
     (if range_contains seeking 0 rs
      then bindE (source_line_of cwd p rs) (\<lambda>sl. Inr (False, Some sl))
      else Inr (True, found))"

definition get_source_line :: "string \<Rightarrow> lineno_program_t \<Rightarrow> addr_t \<Rightarrow> np_error + source_line option" where
  "get_source_line cwd p addr =
     bindE (lineno_run p (receive_range cwd p addr) None) (\<lambda>(status, found).
       Inr (if status = ERR_HALTED_BY_DELEGATE then found else None))"

section \<open>The search finds the first range that holds the address\<close>

text \<open>The delegate that never stops the program and keeps every range.\<close>

definition collect_ranges :: "run_state_t list delegate_t" where
  "collect_ranges rs rss = Inr (True, rss @ [rs])"

text \<open>
  A run with a delegate that looks for the first range with some property follows the run
  that collects all ranges, up to that range.
\<close>

definition seek_delegate :: "(run_state_t \<Rightarrow> bool) \<Rightarrow> (run_state_t \<Rightarrow> np_error + 'b) \<Rightarrow> 'b option delegate_t" where
  "seek_delegate P f rs found = (if P rs then bindE (f rs) (\<lambda>x. Inr (False, Some x)) else Inr (True, found))"

lemma receive_range_seek: "receive_range cwd p a = seek_delegate (range_contains a 0) (source_line_of cwd p)"
  by (simp add: fun_eq_iff receive_range_def seek_delegate_def)

text \<open>What a round of the searching run does, given the round of the collecting run.\<close>

definition seek_round ::
  "(run_state_t \<Rightarrow> bool) \<Rightarrow> (run_state_t \<Rightarrow> np_error + 'b) \<Rightarrow> run_state_t list \<Rightarrow>
   np_error + run_state_t list ln_result \<Rightarrow> np_error + 'b option ln_result \<Rightarrow> bool" where
  "seek_round P f acc c s =
     (case c of
        Inl e \<Rightarrow> s = Inl e
      | Inr (Stop st acc') \<Rightarrow> acc' = acc \<and> s = Inr (Stop st None)
      | Inr (Go rs' acc' r') \<Rightarrow>
          acc' = acc \<and> s = Inr (Go rs' None r')
          \<or> (\<exists>g. acc' = acc @ [g] \<and>
               (if P g
                then (case f g of
                        Inl e \<Rightarrow> s = Inl e
                      | Inr x \<Rightarrow> (\<exists>rs2 r2. s = Inr (Go rs2 (Some x) r2) \<and> \<not> rs_running rs2))
                else s = Inr (Go rs' None r'))))"

lemma ln_copy_collect:
  "ln_copy collect_ranges rs acc = Inr (copy_registers rs, if rs_have_start rs then acc @ [rs] else acc)"
  by (simp add: ln_copy_def collect_ranges_def)

lemma ln_copy_seek:
  "ln_copy (seek_delegate P f) rs None =
     (if rs_have_start rs \<and> P rs
      then bindE (f rs) (\<lambda>x. Inr (rs\<lparr>rs_running := False\<rparr>, Some x)) else Inr (copy_registers rs, None))"
  by (cases "f rs") (simp_all add: ln_copy_def seek_delegate_def)

lemma seek_round_fetch:
  assumes "\<And>x r1. seek_round P f acc (k x r1) (k' x r1)"
  shows "seek_round P f acc (fetch m err acc r k) (fetch m err None r k')"
proof (cases "fst (m r)")
  case None
  then show ?thesis by (cases "m r") (simp add: fetch_def seek_round_def)
next
  case (Some x)
  then show ?thesis using assms [of x "snd (m r)"] by (cases "m r") (simp add: fetch_def)
qed

lemma seek_round_bindE:
  assumes "\<And>x. seek_round P f acc (k x) (k' x)"
  shows "seek_round P f acc (bindE m k) (bindE m k')"
proof (cases m)
  case (Inl e)
  then show ?thesis by (simp add: seek_round_def)
qed (simp add: assms)

lemma seek_round_copy:
  assumes "\<And>rs d. c (rs, d) = Inr (Go (h rs) d r)" "\<And>rs d. s (rs, d) = Inr (Go (h rs) d r)"
    and "\<And>rs. \<not> rs_running rs \<Longrightarrow> \<not> rs_running (h rs)"
  shows "seek_round P f acc (bindE (ln_copy collect_ranges rs acc) c)
    (bindE (ln_copy (seek_delegate P f) rs None) s)"
  using assms by (cases "f rs") (auto simp: ln_copy_collect ln_copy_seek seek_round_def)

lemma seek_round_Go: "seek_round P f acc (Inr (Go rs acc r)) (Inr (Go rs None r))"
  and seek_round_Stop: "seek_round P f acc (Inr (Stop st acc)) (Inr (Stop st None))"
  by (simp_all add: seek_round_def)

lemmas seek_round_intros =
  seek_round_fetch seek_round_Go seek_round_Stop seek_round_copy [where h = id] seek_round_bindE

lemma ln_step_seek:
  "seek_round P f acc (ln_step p collect_ranges op rs acc r) (ln_step p (seek_delegate P f) op rs None r)"
proof -
  have ext: "seek_round P f acc (exec_extended p collect_ranges op rs acc r)
      (exec_extended p (seek_delegate P f) op rs None r)" for op r
    unfolding exec_extended_def
    by (auto intro!: seek_round_fetch seek_round_Go seek_round_Stop
        seek_round_copy [where h = "reset_registers p"] simp: reset_registers_def)
  have std: "seek_round P f acc (exec_standard p collect_ranges op rs acc r)
      (exec_standard p (seek_delegate P f) op rs None r)"
    unfolding exec_standard_def by (auto intro!: seek_round_intros)
  have spec: "seek_round P f acc (exec_special p collect_ranges op rs acc r)
      (exec_special p (seek_delegate P f) op rs None r)"
    unfolding exec_special_def by (auto intro!: seek_round_intros)
  show ?thesis
    unfolding ln_step_def using std spec by (auto intro!: seek_round_fetch ext)
qed

lemma run_loop_halted: "\<not> rs_running rs \<Longrightarrow> ln_run_loop p dl rs d r = Inr (ERR_HALTED_BY_DELEGATE, d)"
  by (subst ln_run_loop.simps) simp

text \<open>The outcome of a search over the ranges that a whole run would report.\<close>

definition seek_outcome ::
  "(run_state_t \<Rightarrow> bool) \<Rightarrow> (run_state_t \<Rightarrow> np_error + 'b) \<Rightarrow> status_t \<Rightarrow> run_state_t list \<Rightarrow>
   np_error + status_t \<times> 'b option" where
  "seek_outcome P f st ranges =
     (case List.find P ranges of
        None \<Rightarrow> Inr (st, None)
      | Some g \<Rightarrow> bindE (f g) (\<lambda>x. Inr (ERR_HALTED_BY_DELEGATE, Some x)))"

lemma run_loop_seek:
  assumes "ln_run_loop p collect_ranges rs acc r = Inr (st, acc')"
  shows "\<exists>new. acc' = acc @ new \<and> ln_run_loop p (seek_delegate P f) rs None r = seek_outcome P f st new"
  using assms
proof (induction p "collect_ranges" rs acc r rule: ln_run_loop.induct)
  case (1 p rs acc r)
  show ?case
  proof (cases "rs_running rs")
    case False
    with "1.prems" show ?thesis by (simp add: run_loop_halted seek_outcome_def)
  next
    case run: True
    obtain x r1 where u8: "read_u8 r = (x, r1)" by fastforce
    show ?thesis
    proof (cases x)
      case None
      with run u8 "1.prems" show ?thesis
        by (auto simp: seek_outcome_def ln_run_loop.simps [of _ _ _ _ r])
    next
      case (Some opcode)
      let ?c = "ln_step p collect_ranges opcode rs acc r1"
      let ?s = "ln_step p (seek_delegate P f) opcode rs None r1"
      have sr: "seek_round P f acc ?c ?s" by (rule ln_step_seek)
      have c: "(case ?c of Inl e \<Rightarrow> Inl e | Inr (Stop st d') \<Rightarrow> Inr (st, d')
           | Inr (Go rs' d' r2) \<Rightarrow> ln_run_loop p collect_ranges rs' d' r2) = Inr (st, acc')"
        using "1.prems" run u8 Some by (simp add: ln_run_loop.simps [of _ _ _ _ r])
      have s: "ln_run_loop p (seek_delegate P f) rs None r = (case ?s of Inl e \<Rightarrow> Inl e
           | Inr (Stop st d') \<Rightarrow> Inr (st, d')
           | Inr (Go rs' d' r2) \<Rightarrow> ln_run_loop p (seek_delegate P f) rs' d' r2)"
        using run u8 Some by (simp add: ln_run_loop.simps [of _ _ _ _ r])
      show ?thesis
      proof (cases ?c)
        case (Inl e)
        with c show ?thesis by simp
      next
        case (Inr res)
        show ?thesis
        proof (cases res)
          case (Stop st1 d1)
          with Inr c sr s show ?thesis by (auto simp: seek_round_def seek_outcome_def)
        next
          case (Go rs' d' r2)
          with Inr c have rest: "ln_run_loop p collect_ranges rs' d' r2 = Inr (st, acc')" by simp
          with "1.hyps" run u8 Some Inr Go obtain new
            where new: "acc' = d' @ new" "ln_run_loop p (seek_delegate P f) rs' None r2 = seek_outcome P f st new"
            by force
          from sr Inr Go consider "d' = acc" "?s = Inr (Go rs' None r2)"
            | g where "d' = acc @ [g]" "\<not> P g" "?s = Inr (Go rs' None r2)"
            | g e where "d' = acc @ [g]" "P g" "f g = Inl e" "?s = Inl e"
            | g x rs2 r3 where "d' = acc @ [g]" "P g" "f g = Inr x" "?s = Inr (Go rs2 (Some x) r3)" "\<not> rs_running rs2"
            by (auto simp: seek_round_def split: if_splits sum.splits)
          then show ?thesis
            using new s by cases (auto simp: seek_outcome_def run_loop_halted)
        qed
      qed
    qed
  qed
qed

text \<open>
  C25. If the line number program runs to an end, then looking up an address gives the file, line
  and column of the first range, among all the ranges the program reports, that contains the
  address, and nothing if no range contains it.
\<close>

theorem source_line_first_range:
  assumes "lineno_run p collect_ranges [] = Inr (st, ranges)"
  shows "get_source_line cwd p a =
    (case List.find (range_contains a 0) ranges of
       None \<Rightarrow> Inr None
     | Some g \<Rightarrow> bindE (source_line_of cwd p g) (\<lambda>sl. Inr (Some sl)))"
proof -
  have "lineno_run p (receive_range cwd p a) None =
      seek_outcome (range_contains a 0) (source_line_of cwd p) st ranges"
    using run_loop_seek [of p _ "[]" _ st ranges "range_contains a 0" "source_line_of cwd p"] assms
    by (auto simp: lineno_run_def receive_range_seek)
  then show ?thesis
    by (auto simp: get_source_line_def seek_outcome_def bindE_assoc split: option.splits)
qed


section \<open>Running an encoded program\<close>

text \<open>
  The instructions of the standard, with the encodings of their LEB128 operands; \<open>nb\<close> is the
  encoded length that precedes an extended opcode.
\<close>

datatype ln_instr =
    I_Copy
  | I_Advance_Pc "u8 list"
  | I_Advance_Line "u8 list"
  | I_Set_File "u8 list"
  | I_Set_Column "u8 list"
  | I_Negate_Stmt
  | I_Set_Basic_Block
  | I_Const_Add_Pc
  | I_Fixed_Advance_Pc u16
  | I_Set_Prologue_End
  | I_Set_Epilogue_Begin
  | I_Set_Isa "u8 list"
  | I_End_Sequence "u8 list"
  | I_Set_Address "u8 list" addr_t
  | I_Define_File "u8 list" string "u8 list" "u8 list" "u8 list"
  | I_Set_Discriminator "u8 list" "u8 list"
  | I_Special u8

fun ln_encode :: "ln_instr \<Rightarrow> u8 list" where
  "ln_encode I_Copy = [DW_LNS_copy]"
| "ln_encode (I_Advance_Pc bs) = DW_LNS_advance_pc # bs"
| "ln_encode (I_Advance_Line bs) = DW_LNS_advance_line # bs"
| "ln_encode (I_Set_File bs) = DW_LNS_set_file # bs"
| "ln_encode (I_Set_Column bs) = DW_LNS_set_column # bs"
| "ln_encode I_Negate_Stmt = [DW_LNS_negate_stmt]"
| "ln_encode I_Set_Basic_Block = [DW_LNS_set_basic_block]"
| "ln_encode I_Const_Add_Pc = [DW_LNS_const_add_pc]"
| "ln_encode (I_Fixed_Advance_Pc h) = DW_LNS_fixed_advance_pc # bytes_of_u16 h"
| "ln_encode I_Set_Prologue_End = [DW_LNS_set_prologue_end]"
| "ln_encode I_Set_Epilogue_Begin = [DW_LNS_set_epilogue_begin]"
| "ln_encode (I_Set_Isa bs) = DW_LNS_set_isa # bs"
| "ln_encode (I_End_Sequence nb) = 0 # nb @ [DW_LNE_end_sequence]"
| "ln_encode (I_Set_Address nb a) = 0 # nb @ DW_LNE_set_address # bytes_of_u64 a"
| "ln_encode (I_Define_File nb f bs1 bs2 bs3) =
     0 # nb @ DW_LNE_define_file # bytes_of_string f @ 0 # bs1 @ bs2 @ bs3"
| "ln_encode (I_Set_Discriminator nb bs) = 0 # nb @ DW_LNE_set_discriminator # bs"
| "ln_encode (I_Special opcode) = [opcode]"

text \<open>
  Operands in range. The code leaves the operation index alone on \<^verbatim>\<open>DW_LNS_fixed_advance_pc\<close>, which
  the standard sets to zero (DWARF 4, 6.2.5.2), so that instruction is
  well-formed only in programs with one operation per instruction, where the index is always zero.
\<close>

definition uleb_operand :: "u8 list \<Rightarrow> bool" where
  "uleb_operand bs \<longleftrightarrow> leb_enc bs \<and> length bs \<le> 5"

fun ln_wf :: "lineno_program_t \<Rightarrow> ln_instr \<Rightarrow> bool" where
  "ln_wf p (I_Advance_Pc bs) = (uleb_operand bs \<and> uleb_val bs < 2 ^ 23)"
| "ln_wf p (I_Advance_Line bs) = (leb_enc bs \<and> length bs \<le> 4)"
| "ln_wf p (I_Set_File bs) = uleb_operand bs"
| "ln_wf p (I_Set_Column bs) = uleb_operand bs"
| "ln_wf p (I_Set_Isa bs) = uleb_operand bs"
| "ln_wf p (I_End_Sequence nb) = uleb_operand nb"
| "ln_wf p (I_Set_Address nb a) = uleb_operand nb"
| "ln_wf p (I_Define_File nb f bs1 bs2 bs3) =
     (uleb_operand nb \<and> c_string f \<and> uleb_operand bs1 \<and> uleb_operand bs2 \<and> uleb_operand bs3)"
| "ln_wf p (I_Set_Discriminator nb bs) = (uleb_operand nb \<and> uleb_operand bs)"
| "ln_wf p (I_Fixed_Advance_Pc h) = (lp_maximum_operations p = 1)"
| "ln_wf p (I_Special opcode) = (lp_opcode_base p \<le> opcode)"
| "ln_wf p _ = True"

definition program_wf :: "lineno_program_t \<Rightarrow> bool" where
  "program_wf p \<longleftrightarrow> lp_maximum_operations p \<noteq> 0 \<and> lp_line_range p \<noteq> 0 \<and> 13 \<le> lp_opcode_base p"

text \<open>
  The reference: the registers of the standard's state machine, with advances computed in
  unbounded arithmetic, and the matrix of rows it appends to.
\<close>

definition spec_advance :: "lineno_program_t \<Rightarrow> nat \<Rightarrow> registers_t \<Rightarrow> registers_t" where
  "spec_advance p n g =
     (let k = unat (rg_op_index g) + n; maxo = unat (lp_maximum_operations p)
      in g\<lparr>rg_address := rg_address g + of_nat (unat (lp_minimum_instruction_length p) * (k div maxo)),
           rg_op_index := of_nat (k mod maxo)\<rparr>)"

text \<open>The table of the standard for the start of a sequence (DWARF 4, 6.2.2).\<close>

definition initial_registers :: "lineno_program_t \<Rightarrow> registers_t" where
  "initial_registers p =
     \<lparr>rg_address = 0, rg_file = 1, rg_line = 1, rg_column = 0, rg_is_stmt = lp_default_is_stmt p,
      rg_basic_block = False, rg_end_sequence = False, rg_prologue_end = False, rg_epilogue_begin = False,
      rg_isa = 0, rg_op_index = 0, rg_discriminator = 0\<rparr>"

definition after_row :: "registers_t \<Rightarrow> registers_t" where
  "after_row g = g\<lparr>rg_basic_block := False, rg_prologue_end := False, rg_epilogue_begin := False, rg_discriminator := 0\<rparr>"

fun spec_registers :: "lineno_program_t \<Rightarrow> ln_instr \<Rightarrow> registers_t \<Rightarrow> registers_t" where
  "spec_registers p (I_Advance_Pc bs) g = spec_advance p (uleb_val bs) g"
| "spec_registers p (I_Advance_Line bs) g = g\<lparr>rg_line := rg_line g + word_of_int (sleb_val bs)\<rparr>"
| "spec_registers p (I_Set_File bs) g = g\<lparr>rg_file := of_nat (uleb_val bs)\<rparr>"
| "spec_registers p (I_Set_Column bs) g = g\<lparr>rg_column := of_nat (uleb_val bs)\<rparr>"
| "spec_registers p I_Negate_Stmt g = g\<lparr>rg_is_stmt := \<not> rg_is_stmt g\<rparr>"
| "spec_registers p I_Set_Basic_Block g = g\<lparr>rg_basic_block := True\<rparr>"
| "spec_registers p I_Const_Add_Pc g =
     spec_advance p (unat (255 - lp_opcode_base p) div unat (lp_line_range p)) g"
| "spec_registers p (I_Fixed_Advance_Pc h) g = g\<lparr>rg_address := rg_address g + of_nat (unat h), rg_op_index := 0\<rparr>"
| "spec_registers p I_Set_Prologue_End g = g\<lparr>rg_prologue_end := True\<rparr>"
| "spec_registers p I_Set_Epilogue_Begin g = g\<lparr>rg_epilogue_begin := True\<rparr>"
| "spec_registers p (I_Set_Isa bs) g = g\<lparr>rg_isa := of_nat (uleb_val bs)\<rparr>"
| "spec_registers p (I_End_Sequence nb) g = g\<lparr>rg_end_sequence := True\<rparr>"
| "spec_registers p (I_Set_Address nb a) g = g\<lparr>rg_address := a, rg_op_index := 0\<rparr>"
| "spec_registers p (I_Set_Discriminator nb bs) g = g\<lparr>rg_discriminator := of_nat (uleb_val bs)\<rparr>"
| "spec_registers p (I_Special opcode) g =
     (let adj = unat (opcode - lp_opcode_base p)
      in spec_advance p (adj div unat (lp_line_range p))
           (g\<lparr>rg_line := rg_line g + word_of_int (sint (lp_line_base p) + int (adj mod unat (lp_line_range p)))\<rparr>))"
| "spec_registers p _ g = g"

fun appends_row :: "ln_instr \<Rightarrow> bool" where
  "appends_row I_Copy = True"
| "appends_row (I_End_Sequence nb) = True"
| "appends_row (I_Special opcode) = True"
| "appends_row _ = False"

text \<open>The rows of the matrix, from the given registers on.\<close>

fun matrix :: "lineno_program_t \<Rightarrow> ln_instr list \<Rightarrow> registers_t \<Rightarrow> registers_t list" where
  "matrix p [] g = []"
| "matrix p (i # is) g =
     (let g1 = spec_registers p i g
      in if appends_row i
         then g1 # matrix p is (if rg_end_sequence g1 then initial_registers p else after_row g1)
         else matrix p is g1)"

text \<open>Each row that does not end a sequence starts a range up to the next row.\<close>

fun row_ranges :: "registers_t list \<Rightarrow> (registers_t \<times> registers_t) list" where
  "row_ranges (g # h # gs) = (if rg_end_sequence g then row_ranges (h # gs) else (g, h) # row_ranges (h # gs))"
| "row_ranges _ = []"


subsection \<open>One instruction\<close>

text \<open>Where the reader stands after an operand.\<close>

definition fetched :: "'a rd \<Rightarrow> 'a \<Rightarrow> reader_t \<Rightarrow> u8 list \<Rightarrow> bool" where
  "fetched m x r rest \<longleftrightarrow> (\<exists>r'. m r = (Some x, r') \<and> rd_rest r' = rest)"

lemma rd_rest_advance: "rd_rest (r\<lparr>rd_pos := rd_pos r + n\<rparr>) = drop n (rd_rest r)"
  by (simp add: rd_rest_def add.commute)

lemma fetched_bind:
  "fetched m x r rest1 \<Longrightarrow> (\<And>r1. rd_rest r1 = rest1 \<Longrightarrow> fetched (f x) y r1 rest2) \<Longrightarrow> fetched (rd_bind m f) y r rest2"
  by (force simp: fetched_def rd_bind_def)

lemma fetched_u8: "rd_rest r = b # rest \<Longrightarrow> fetched read_u8 b r rest"
proof -
  assume a: "rd_rest r = b # rest"
  then have "rd_pos r < length (rd_data r)" by (cases "rd_pos r < length (rd_data r)") (auto simp: rd_rest_def)
  with a show ?thesis
    using rd_at_rest [of r 0] rd_rest_advance [of r 1] by (simp add: fetched_def read_u8_def)
qed

lemma fetched_uleb: "uleb_operand bs \<Longrightarrow> rd_rest r = bs @ rest \<Longrightarrow> fetched read_uleb128 (of_nat (uleb_val bs)) r rest"
  using leb_loop_val [of bs 0 0 rest 0]
  by (simp add: fetched_def uleb_operand_def read_uleb128_def rd_rest_advance)

lemma fetched_sleb:
  "leb_enc bs \<Longrightarrow> length bs \<le> 4 \<Longrightarrow> rd_rest r = bs @ rest \<Longrightarrow> fetched read_sleb128 (word_of_int (sleb_val bs)) r rest"
  using leb_loop_val [of bs 0 0 rest 0] sign_extend_or [OF uleb_val_bound, of bs] and_40_iff [of "last bs"]
  by (simp add: fetched_def read_sleb128_def sleb_val_def rd_rest_advance)

lemma fetched_u16: "rd_rest r = bytes_of_u16 v @ rest \<Longrightarrow> fetched read_u16 v r rest"
  using read_u16_back [of r v rest] rd_rest_advance [of r 2] by (simp add: fetched_def bytes_of_u16_def)

lemma fetched_addr: "rd_rest r = bytes_of_u64 v @ rest \<Longrightarrow> fetched read_addr v r rest"
  using read_u64_back [of r v rest] rd_rest_advance [of r 8] by (simp add: fetched_def read_addr_def bytes_of_u64_def)

lemma fetched_string: "c_string f \<Longrightarrow> rd_rest r = bytes_of_string f @ 0 # rest \<Longrightarrow> fetched read_string f r rest"
  using read_string_back [of f r rest] rd_rest_advance [of r "Suc (length f)"]
  by (simp add: fetched_def bytes_of_string_def)

lemma fetched_file:
  assumes "rd_rest r = bs1 @ bs2 @ bs3 @ rest" "uleb_operand bs1" "uleb_operand bs2" "uleb_operand bs3"
  shows "fetched (read_file_rest f) \<lparr>fte_filename = f, fte_directory_index = of_nat (uleb_val bs1),
    fte_mtime = of_nat (uleb_val bs2), fte_length = of_nat (uleb_val bs3)\<rparr> r rest"
  unfolding read_file_rest_def
  by (rule fetched_bind [OF fetched_uleb [OF assms(2,1)]], rule fetched_bind [OF fetched_uleb [OF assms(3)]],
      assumption, rule fetched_bind [OF fetched_uleb [OF assms(4)]], assumption)
     (simp add: fetched_def rd_return_def)

lemma fetch_fetched:
  "fetched m x r rest \<Longrightarrow> \<exists>r'. rd_rest r' = rest \<and> (\<forall>k. fetch m e d r k = k x r')"
  by (force simp: fetched_def fetch_def)

lemma ucast_of_nat_u32: "k < 2 ^ 32 \<Longrightarrow> (ucast (of_nat k :: u32) :: u64) = of_nat k"
  by (simp add: unsigned_of_nat take_bit_nat_eq_self)

lemma advance_pc_spec:
  assumes "lp_maximum_operations p \<noteq> 0" "n < 2 ^ 23"
    and op: "unat (rg_op_index (rs_registers rs)) < unat (lp_maximum_operations p)"
  shows "advance_pc p (of_nat n) rs = Inr (upd_registers (spec_advance p n) rs)"
proof -
  let ?k = "unat (rg_op_index (rs_registers rs)) + n" and ?m = "unat (lp_maximum_operations p)"
  let ?l = "unat (lp_minimum_instruction_length p)"
  have b: "?m < 256" "?l < 256"
    by (rule order.strict_trans2 [OF unsigned_less], simp)+
  have m: "0 < ?m" using assms(1) by (simp add: unat_gt_0)
  have k: "?k < 2 ^ 24" using op b(1) assms(2) by simp
  have wm: "(ucast (lp_maximum_operations p) :: u32) = of_nat ?m" by simp
  have wl: "(ucast (lp_minimum_instruction_length p) :: u32) = of_nat ?l" by simp
  have wk: "rg_op_index (rs_registers rs) + of_nat n = of_nat ?k" by simp
  have uk: "unat (of_nat ?k :: u32) = ?k" using k by (intro unat_of_nat_u32) simp
  have um: "unat (of_nat ?m :: u32) = ?m" using b(1) by (intro unat_of_nat_u32) simp
  have dv: "(of_nat ?k :: u32) div of_nat ?m = of_nat (?k div ?m)"
    using uk um by (simp only: word_arith_nat_div)
  have md: "(of_nat ?k :: u32) mod of_nat ?m = of_nat (?k mod ?m)"
    using uk um by (simp only: word_arith_nat_mod)
  have "?k div ?m \<le> ?k" by simp
  then have "?l * (?k div ?m) \<le> 255 * ?k" using b(2) by (intro mult_le_mono) simp_all
  then have q: "?l * (?k div ?m) < 2 ^ 32" using k by simp
  then have "(ucast (of_nat (?l * (?k div ?m)) :: u32) :: u64) = of_nat (?l * (?k div ?m))"
    by (rule ucast_of_nat_u32)
  with dv have adr: "(ucast ((of_nat ?k :: u32) div of_nat ?m * of_nat ?l) :: u64) = of_nat (?l * (?k div ?m))"
    by (simp only: of_nat_mult mult.commute)
  show ?thesis
    unfolding advance_pc_def Let_def wm wl wk adr md
    using assms(1) by (simp add: upd_registers_def spec_advance_def Let_def)
qed

text \<open>What an instruction does to the run state, and the range it reports.\<close>

fun spec_files :: "ln_instr \<Rightarrow> run_state_t \<Rightarrow> run_state_t" where
  "spec_files (I_Define_File nb f bs1 bs2 bs3) rs =
     rs\<lparr>rs_additional_files := rs_additional_files rs @
       [\<lparr>fte_filename = f, fte_directory_index = of_nat (uleb_val bs1),
         fte_mtime = of_nat (uleb_val bs2), fte_length = of_nat (uleb_val bs3)\<rparr>]\<rparr>"
| "spec_files i rs = rs"

definition spec_step :: "lineno_program_t \<Rightarrow> ln_instr \<Rightarrow> run_state_t \<Rightarrow> run_state_t" where
  "spec_step p i rs =
     (let rs1 = upd_registers (spec_registers p i) rs
      in if appends_row i
         then (if rg_end_sequence (rs_registers rs1) then reset_registers p (copy_registers rs1)
               else copy_registers rs1)
         else spec_files i rs1)"

definition spec_reported :: "lineno_program_t \<Rightarrow> ln_instr \<Rightarrow> run_state_t \<Rightarrow> run_state_t list" where
  "spec_reported p i rs =
     (if appends_row i \<and> rs_have_start rs then [upd_registers (spec_registers p i) rs] else [])"

definition regs_ok :: "lineno_program_t \<Rightarrow> registers_t \<Rightarrow> bool" where
  "regs_ok p g \<longleftrightarrow> \<not> rg_end_sequence g \<and> unat (rg_op_index g) < unat (lp_maximum_operations p)"

lemma upd_registers_id: "(\<And>g. f g = g) \<Longrightarrow> upd_registers f rs = rs"
  by (simp add: upd_registers_def)

lemma exec_standard_uleb:
  assumes i: "i \<in> {I_Advance_Pc bs, I_Set_File bs, I_Set_Column bs, I_Set_Isa bs}" "ln_wf p i"
    and p: "program_wf p" "regs_ok p (rs_registers rs)" and r: "rd_rest r = bs @ rest"
  shows "\<exists>r'. rd_rest r' = rest \<and> exec_standard p dl (hd (ln_encode i)) rs d r = Inr (Go (spec_step p i rs) d r')"
proof -
  have "uleb_operand bs" using i by auto
  from fetch_fetched [OF fetched_uleb [OF this r], of ERR_OPERAND_FETCH d] obtain r' where r':
    "rd_rest r' = rest" "\<forall>k. fetch read_uleb128 ERR_OPERAND_FETCH d r k = k (of_nat (uleb_val bs)) r'" by blast
  have "uleb_val bs < 2 ^ 23 \<Longrightarrow> advance_pc p (of_nat (uleb_val bs)) rs = Inr (upd_registers (spec_advance p (uleb_val bs)) rs)"
    using p by (intro advance_pc_spec) (auto simp: program_wf_def regs_ok_def)
  then have "exec_standard p dl (hd (ln_encode i)) rs d r = Inr (Go (spec_step p i rs) d r')"
    using i by (elim insertE emptyE) (simp_all add: exec_standard_def r'(2) spec_step_def upd_registers_def)
  with r'(1) show ?thesis by blast
qed

lemma exec_standard_others:
  assumes i: "i \<in> {I_Copy, I_Negate_Stmt, I_Set_Basic_Block, I_Const_Add_Pc, I_Set_Prologue_End, I_Set_Epilogue_Begin}"
    and p: "program_wf p" "regs_ok p (rs_registers rs)"
  shows "exec_standard p collect_ranges (hd (ln_encode i)) rs d r = Inr (Go (spec_step p i rs) (d @ spec_reported p i rs) r)"
proof -
  let ?n = "unat (255 - lp_opcode_base p) div unat (lp_line_range p)"
  have "?n \<le> unat (255 - lp_opcode_base p)" by simp
  also have "\<dots> < 256" by (rule order.strict_trans2 [OF unsigned_less]) simp
  finally have n: "?n < 256" .
  have w: "(ucast ((255 - lp_opcode_base p) div lp_line_range p) :: u32) = of_nat ?n"
    by (metis of_nat_unat unat_div_distrib)
  have "special_opcode_operation_advance p 255 = Inr (of_nat ?n)"
    using p unfolding special_opcode_operation_advance_def w by (simp add: program_wf_def)
  moreover have "advance_pc p (of_nat ?n) rs = Inr (upd_registers (spec_advance p ?n) rs)"
    using p n by (intro advance_pc_spec) (auto simp: program_wf_def regs_ok_def)
  ultimately show ?thesis
    using i p(2)
    by (elim insertE emptyE)
       (simp_all add: exec_standard_def spec_step_def spec_reported_def upd_registers_def ln_copy_collect regs_ok_def)
qed

lemma exec_standard_line:
  assumes "leb_enc bs" "length bs \<le> 4" "rd_rest r = bs @ rest"
  shows "\<exists>r'. rd_rest r' = rest \<and>
    exec_standard p dl DW_LNS_advance_line rs d r = Inr (Go (spec_step p (I_Advance_Line bs) rs) d r')"
proof -
  from fetch_fetched [OF fetched_sleb [OF assms], of ERR_OPERAND_FETCH d] obtain r' where r': "rd_rest r' = rest"
    "\<forall>k. fetch read_sleb128 ERR_OPERAND_FETCH d r k = k (word_of_int (sleb_val bs)) r'" by blast
  then show ?thesis
    by (intro exI [of _ r']) (simp add: exec_standard_def spec_step_def advance_line_def upd_registers_def)
qed

text \<open>
  What the code does on a fixed advance: the address moves, the operation index stays. The registers
  are the standard's when the index is zero, and differ from them otherwise.
\<close>

lemma exec_standard_fixed_code:
  assumes "rd_rest r = bytes_of_u16 h @ rest"
  shows "\<exists>r'. rd_rest r' = rest \<and> exec_standard p dl DW_LNS_fixed_advance_pc rs d r =
    Inr (Go (upd_registers (\<lambda>g. g\<lparr>rg_address := rg_address g + of_nat (unat h)\<rparr>) rs) d r')"
proof -
  from fetch_fetched [OF fetched_u16 [OF assms], of ERR_OPERAND_FETCH d] obtain r' where r': "rd_rest r' = rest"
    "\<forall>k. fetch read_u16 ERR_OPERAND_FETCH d r k = k h r'" by blast
  then show ?thesis
    by (intro exI [of _ r']) (simp add: exec_standard_def upd_registers_def)
qed

lemma fixed_advance_standard:
  "g\<lparr>rg_address := rg_address g + of_nat (unat h)\<rparr> = spec_registers p (I_Fixed_Advance_Pc h) g \<longleftrightarrow> rg_op_index g = 0"
  by (cases g) simp

lemma regs_ok_op_index: "regs_ok p g \<Longrightarrow> lp_maximum_operations p = 1 \<Longrightarrow> rg_op_index g = 0"
  by (simp add: regs_ok_def unat_eq_0)

lemma exec_standard_fixed:
  assumes "rd_rest r = bytes_of_u16 h @ rest" "regs_ok p (rs_registers rs)" "lp_maximum_operations p = 1"
  shows "\<exists>r'. rd_rest r' = rest \<and>
    exec_standard p dl DW_LNS_fixed_advance_pc rs d r = Inr (Go (spec_step p (I_Fixed_Advance_Pc h) rs) d r')"
proof -
  have "upd_registers (\<lambda>g. g\<lparr>rg_address := rg_address g + of_nat (unat h)\<rparr>) rs = spec_step p (I_Fixed_Advance_Pc h) rs"
    using fixed_advance_standard [of "rs_registers rs" h p] regs_ok_op_index [OF assms(2,3)]
    by (simp add: upd_registers_def spec_step_def)
  with exec_standard_fixed_code [OF assms(1), of p dl rs d] show ?thesis by simp
qed

lemma special_line_value:
  "(scast b + ucast (a mod l) :: u32) = word_of_int (sint (b::u8) + int (unat (a::u8) mod unat l))"
proof -
  have "(ucast (a mod l) :: u32) = of_nat (unat a mod unat l)"
    by (metis of_nat_unat unat_mod_distrib)
  then show ?thesis by simp
qed

lemma exec_special_encoded:
  assumes p: "program_wf p" "regs_ok p (rs_registers rs)"
  shows "exec_special p collect_ranges opcode rs d r =
    Inr (Go (spec_step p (I_Special opcode) rs) (d @ spec_reported p (I_Special opcode) rs) r)"
proof -
  let ?a = "opcode - lp_opcode_base p"
  let ?n = "unat ?a div unat (lp_line_range p)"
  let ?rs = "advance_line (word_of_int (sint (lp_line_base p) + int (unat ?a mod unat (lp_line_range p)))) rs"
  have "?n \<le> unat ?a" by simp
  also have "\<dots> < 256" by (rule order.strict_trans2 [OF unsigned_less]) simp
  finally have n: "?n < 256" .
  have w: "(ucast (?a div lp_line_range p) :: u32) = of_nat ?n"
    by (metis of_nat_unat unat_div_distrib)
  have "advance_pc p (of_nat ?n) ?rs = Inr (upd_registers (spec_advance p ?n) ?rs)"
    using p n by (intro advance_pc_spec) (auto simp: program_wf_def regs_ok_def advance_line_def upd_registers_def)
  then show ?thesis
    using p
    by (simp add: exec_special_def special_opcode_line_advance_def special_opcode_operation_advance_def
        program_wf_def special_line_value w ln_copy_collect spec_step_def spec_reported_def upd_registers_def
        advance_line_def regs_ok_def spec_advance_def Let_def)
qed

lemma ln_step_extended:
  assumes "uleb_operand nb" "rd_rest r = nb @ opcode # rest"
  shows "\<exists>r'. rd_rest r' = rest \<and> ln_step p dl 0 rs d r = exec_extended p dl opcode rs d r'"
proof -
  from fetch_fetched [OF fetched_uleb [OF assms], of ERR_OPCODE_FETCH d] obtain r1 where r1:
    "rd_rest r1 = opcode # rest" "\<forall>k. fetch read_uleb128 ERR_OPCODE_FETCH d r k = k (of_nat (uleb_val nb)) r1" by blast
  from fetch_fetched [OF fetched_u8 [OF r1(1)], of ERR_OPCODE_FETCH d] obtain r2 where
    "rd_rest r2 = rest" "\<forall>k. fetch read_u8 ERR_OPCODE_FETCH d r1 k = k opcode r2" by blast
  with r1(2) show ?thesis by (intro exI [of _ r2]) (simp add: ln_step_def)
qed

lemma exec_extended_end:
  "exec_extended p collect_ranges DW_LNE_end_sequence rs d r =
    Inr (Go (spec_step p (I_End_Sequence nb) rs) (d @ spec_reported p (I_End_Sequence nb) rs) r)"
  by (simp add: exec_extended_def ln_copy_collect spec_step_def spec_reported_def upd_registers_def)

lemma exec_extended_operand:
  assumes f: "fetched m x r rest"
    and k: "\<And>r'. exec_extended p dl opcode rs d r = fetch m e d r k \<and> k x r' = Inr (Go rs' d r')"
  shows "\<exists>r'. rd_rest r' = rest \<and> exec_extended p dl opcode rs d r = Inr (Go rs' d r')"
  using fetch_fetched [OF f, of e d] k by metis

lemma exec_extended_address:
  assumes "rd_rest r = bytes_of_u64 a @ rest"
  shows "\<exists>r'. rd_rest r' = rest \<and>
    exec_extended p dl DW_LNE_set_address rs d r = Inr (Go (spec_step p (I_Set_Address nb a) rs) d r')"
  by (rule exec_extended_operand [OF fetched_addr [OF assms], where e = ERR_OPERAND_FETCH])
     (auto simp: exec_extended_def spec_step_def upd_registers_def)

lemma exec_extended_discriminator:
  assumes "uleb_operand bs" "rd_rest r = bs @ rest"
  shows "\<exists>r'. rd_rest r' = rest \<and>
    exec_extended p dl DW_LNE_set_discriminator rs d r = Inr (Go (spec_step p (I_Set_Discriminator nb bs) rs) d r')"
  by (rule exec_extended_operand [OF fetched_uleb [OF assms], where e = ERR_OPCODE_FETCH])
     (auto simp: exec_extended_def spec_step_def upd_registers_def)

lemma exec_extended_file:
  assumes "ln_wf p (I_Define_File nb f bs1 bs2 bs3)" "rd_rest r = bytes_of_string f @ 0 # bs1 @ bs2 @ bs3 @ rest"
  shows "\<exists>r'. rd_rest r' = rest \<and> exec_extended p dl DW_LNE_define_file rs d r =
    Inr (Go (spec_step p (I_Define_File nb f bs1 bs2 bs3) rs) d r')"
proof -
  let ?e = "\<lparr>fte_filename = f, fte_directory_index = of_nat (uleb_val bs1),
    fte_mtime = of_nat (uleb_val bs2), fte_length = of_nat (uleb_val bs3)\<rparr>"
  have "fetched (rd_bind read_string read_file_rest) ?e r rest"
    using assms by (intro fetched_bind [OF fetched_string]) (auto intro: fetched_file)
  then show ?thesis
    by (rule exec_extended_operand [where e = ERR_OPERAND_FETCH])
       (auto simp: exec_extended_def spec_step_def upd_registers_def)
qed

lemma ln_step_extended_encoded:
  assumes "ln_wf p i" "rd_rest r = tl (ln_encode i) @ rest" "hd (ln_encode i) = 0" "\<forall>op. i \<noteq> I_Special op"
  shows "\<exists>r'. rd_rest r' = rest \<and> ln_step p collect_ranges 0 rs d r =
    Inr (Go (spec_step p i rs) (d @ spec_reported p i rs) r')"
proof -
  have ext: "\<exists>r1. rd_rest r1 = ops \<and> ln_step p collect_ranges 0 rs d r = exec_extended p collect_ranges opcode rs d r1"
    if "uleb_operand nb" "rd_rest r = nb @ opcode # ops" for nb opcode ops
    using that by (rule ln_step_extended)
  show ?thesis
  proof (cases i)
    case (I_End_Sequence nb)
    with assms ext [of nb DW_LNE_end_sequence rest] exec_extended_end [of p rs d _ nb] show ?thesis by auto
  next
    case (I_Set_Address nb a)
    with assms ext [of nb DW_LNE_set_address "bytes_of_u64 a @ rest"]
      exec_extended_address [of _ a rest p collect_ranges rs d nb]
    show ?thesis by (auto simp: spec_reported_def)
  next
    case (I_Define_File nb f bs1 bs2 bs3)
    with assms ext [of nb DW_LNE_define_file "bytes_of_string f @ 0 # bs1 @ bs2 @ bs3 @ rest"]
      exec_extended_file [of p nb f bs1 bs2 bs3 _ rest collect_ranges rs d]
    show ?thesis by (auto simp: spec_reported_def)
  next
    case (I_Set_Discriminator nb bs)
    with assms ext [of nb DW_LNE_set_discriminator "bs @ rest"]
      exec_extended_discriminator [of bs _ rest p collect_ranges rs d nb]
    show ?thesis by (auto simp: spec_reported_def)
  qed (use assms in auto)
qed

lemma ln_step_standard_encoded:
  assumes "program_wf p" "regs_ok p (rs_registers rs)" "ln_wf p i" "rd_rest r = tl (ln_encode i) @ rest"
    and "hd (ln_encode i) \<noteq> 0" "\<forall>op. i \<noteq> I_Special op"
  shows "\<exists>r'. rd_rest r' = rest \<and> exec_standard p collect_ranges (hd (ln_encode i)) rs d r =
    Inr (Go (spec_step p i rs) (d @ spec_reported p i rs) r')"
proof -
  have uleb: ?thesis if "i \<in> {I_Advance_Pc bs, I_Set_File bs, I_Set_Column bs, I_Set_Isa bs}" for bs
    using exec_standard_uleb [OF that assms(3,1,2), of r rest collect_ranges d] that assms(4)
    by (auto simp: spec_reported_def)
  have other: ?thesis
    if "i \<in> {I_Copy, I_Negate_Stmt, I_Set_Basic_Block, I_Const_Add_Pc, I_Set_Prologue_End, I_Set_Epilogue_Begin}"
    using exec_standard_others [OF that assms(1,2), of d r] that assms(4) by auto
  show ?thesis
  proof (cases i)
    case (I_Advance_Line bs)
    with assms exec_standard_line [of bs r rest p collect_ranges rs d] show ?thesis by (auto simp: spec_reported_def)
  next
    case (I_Fixed_Advance_Pc h)
    with assms exec_standard_fixed [of r h rest p rs collect_ranges d] show ?thesis by (auto simp: spec_reported_def)
  qed (use assms uleb other in auto)
qed

lemma ln_step_encoded:
  assumes "program_wf p" "regs_ok p (rs_registers rs)" "ln_wf p i" "rd_rest r = tl (ln_encode i) @ rest"
  shows "\<exists>r'. rd_rest r' = rest \<and> ln_step p collect_ranges (hd (ln_encode i)) rs d r =
    Inr (Go (spec_step p i rs) (d @ spec_reported p i rs) r')"
proof (cases "\<exists>op. i = I_Special op")
  case True
  then obtain op where i: "i = I_Special op" by blast
  moreover from assms(1,3) i have "op \<noteq> 0" "\<not> op < lp_opcode_base p"
    by (auto simp: program_wf_def word_le_nat_alt word_less_nat_alt)
  ultimately show ?thesis
    using assms exec_special_encoded [OF assms(1,2), of op d r] by (auto simp: ln_step_def)
next
  case False
  show ?thesis
  proof (cases "hd (ln_encode i) = 0")
    case True
    with False assms ln_step_extended_encoded [of p i r rest rs d] show ?thesis by simp
  next
    case nz: False
    then have "hd (ln_encode i) \<le> 12" using False by (cases i) simp_all
    then have "hd (ln_encode i) < lp_opcode_base p"
      using assms(1) by (simp add: program_wf_def word_le_nat_alt word_less_nat_alt)
    with nz False assms ln_step_standard_encoded [OF assms] show ?thesis by (simp add: ln_step_def)
  qed
qed

subsection \<open>Whole programs\<close>

lemma row_ranges_end: "rg_end_sequence g \<Longrightarrow> row_ranges (g # gs) = row_ranges gs"
  by (cases gs) simp_all

lemma spec_advance_ok:
  assumes "lp_maximum_operations p \<noteq> 0"
  shows "unat (rg_op_index (spec_advance p n g)) < unat (lp_maximum_operations p)"
    "rg_end_sequence (spec_advance p n g) = rg_end_sequence g"
proof -
  let ?k = "(unat (rg_op_index g) + n) mod unat (lp_maximum_operations p)"
  have m: "0 < unat (lp_maximum_operations p)" using assms by (simp add: unat_gt_0)
  then have k: "?k < unat (lp_maximum_operations p)" by simp
  also have "\<dots> < 256" by (rule order.strict_trans2 [OF unsigned_less]) simp
  finally have "unat (of_nat ?k :: u32) = ?k" by (intro unat_of_nat_u32) simp
  with k show "unat (rg_op_index (spec_advance p n g)) < unat (lp_maximum_operations p)"
    by (simp add: spec_advance_def Let_def)
  show "rg_end_sequence (spec_advance p n g) = rg_end_sequence g" by (simp add: spec_advance_def Let_def)
qed

lemma spec_registers_op_index:
  assumes "program_wf p" "regs_ok p g"
  shows "unat (rg_op_index (spec_registers p i g)) < unat (lp_maximum_operations p)"
proof -
  have m: "lp_maximum_operations p \<noteq> 0" "0 < unat (lp_maximum_operations p)"
    using assms(1) by (auto simp: program_wf_def unat_gt_0)
  show ?thesis
    using assms(2) m spec_advance_ok(1) [OF m(1)] by (cases i) (simp_all add: regs_ok_def Let_def)
qed

lemma spec_registers_end_sequence:
  assumes "program_wf p" "regs_ok p g"
  shows "rg_end_sequence (spec_registers p i g) \<longleftrightarrow> (\<exists>nb. i = I_End_Sequence nb)"
  using assms spec_advance_ok(2) [of p] by (cases i) (simp_all add: regs_ok_def program_wf_def Let_def)

lemma initial_registers_ok: "program_wf p \<Longrightarrow> regs_ok p (initial_registers p)"
  by (simp add: program_wf_def regs_ok_def initial_registers_def unat_gt_0)

lemma spec_step_state:
  assumes "program_wf p" "regs_ok p (rs_registers rs)"
  shows "rs_running (spec_step p i rs) = rs_running rs"
    and "regs_ok p (rs_registers (spec_step p i rs))"
    and "\<not> appends_row i \<Longrightarrow> rs_registers (spec_step p i rs) = spec_registers p i (rs_registers rs)
           \<and> rs_start (spec_step p i rs) = rs_start rs \<and> rs_have_start (spec_step p i rs) = rs_have_start rs"
    and "appends_row i \<Longrightarrow> rs_have_start (spec_step p i rs) = (\<not> rg_end_sequence (spec_registers p i (rs_registers rs)))
           \<and> rs_registers (spec_step p i rs) =
               (if rg_end_sequence (spec_registers p i (rs_registers rs)) then initial_registers p
                else after_row (spec_registers p i (rs_registers rs)))"
    and "appends_row i \<Longrightarrow> rs_have_start (spec_step p i rs) \<Longrightarrow>
           rs_start (spec_step p i rs) = spec_registers p i (rs_registers rs)"
proof -
  have f: "rs_registers (spec_files i rs') = rs_registers rs'" "rs_start (spec_files i rs') = rs_start rs'"
    "rs_have_start (spec_files i rs') = rs_have_start rs'" "rs_running (spec_files i rs') = rs_running rs'" for rs'
    by (cases i; simp)+
  note defs = spec_step_def Let_def upd_registers_def copy_registers_def reset_registers_def f
  show "rs_running (spec_step p i rs) = rs_running rs" by (simp add: defs)
  show nr: "\<not> appends_row i \<Longrightarrow> rs_registers (spec_step p i rs) = spec_registers p i (rs_registers rs)
      \<and> rs_start (spec_step p i rs) = rs_start rs \<and> rs_have_start (spec_step p i rs) = rs_have_start rs"
    by (simp add: defs)
  show ar: "appends_row i \<Longrightarrow> rs_have_start (spec_step p i rs) = (\<not> rg_end_sequence (spec_registers p i (rs_registers rs)))
      \<and> rs_registers (spec_step p i rs) =
          (if rg_end_sequence (spec_registers p i (rs_registers rs)) then initial_registers p
           else after_row (spec_registers p i (rs_registers rs)))"
    by (simp add: defs initial_registers_def after_row_def run_state_init_def)
  show "appends_row i \<Longrightarrow> rs_have_start (spec_step p i rs) \<Longrightarrow>
      rs_start (spec_step p i rs) = spec_registers p i (rs_registers rs)"
    by (simp add: defs split: if_splits)
  show "regs_ok p (rs_registers (spec_step p i rs))"
    using nr ar initial_registers_ok [OF assms(1)] spec_registers_op_index [OF assms, of i]
      spec_registers_end_sequence [OF assms, of i]
    by (cases "appends_row i") (auto simp: regs_ok_def after_row_def)
qed

lemma run_loop_encoded:
  assumes "program_wf p" "\<forall>i\<in>set is. ln_wf p i" "rd_rest r = concat (map ln_encode is)"
    "regs_ok p (rs_registers rs)" "rs_running rs" "rs_have_start rs \<longrightarrow> \<not> rg_end_sequence (rs_start rs)"
  shows "\<exists>new. ln_run_loop p collect_ranges rs acc r = Inr (SUCCESS, acc @ new) \<and>
    map (\<lambda>g. (rs_start g, rs_registers g)) new =
      row_ranges ((if rs_have_start rs then [rs_start rs] else []) @ matrix p is (rs_registers rs))"
  using assms(2-)
proof (induction "is" arbitrary: rs acc r)
  case Nil
  then have "rd_rest r = []" by simp
  then have "read_u8 r = (None, r)" by (simp add: read_u8_def rd_rest_def)
  with Nil.prems show ?case by (simp add: ln_run_loop.simps [of _ _ _ _ r])
next
  case (Cons i "is")
  let ?rs = "spec_step p i rs" and ?new = "spec_reported p i rs"
  have "ln_encode i \<noteq> []" by (cases i) simp_all
  then obtain op bs where enc: "ln_encode i = op # bs" by (cases "ln_encode i") auto
  with Cons.prems(2) have "rd_rest r = op # bs @ concat (map ln_encode is)" by simp
  from fetched_u8 [OF this] obtain r1 where r1: "read_u8 r = (Some op, r1)"
    "rd_rest r1 = tl (ln_encode i) @ concat (map ln_encode is)" by (auto simp: fetched_def enc)
  obtain r2 where r2: "rd_rest r2 = concat (map ln_encode is)"
    "ln_step p collect_ranges op rs acc r1 = Inr (Go ?rs (acc @ ?new) r2)"
    using ln_step_encoded [OF assms(1) Cons.prems(3) _ r1(2), of acc] Cons.prems(1) enc by auto
  note st = spec_step_state [OF assms(1) Cons.prems(3), of i]
  have inv: "rs_have_start ?rs \<longrightarrow> \<not> rg_end_sequence (rs_start ?rs)"
    using st(3-5) Cons.prems(5) by (cases "appends_row i") auto
  have "ln_run_loop p collect_ranges rs acc r = ln_run_loop p collect_ranges ?rs (acc @ ?new) r2"
    using Cons.prems(4) r1(1) r2(2) by (simp add: ln_run_loop.simps [of _ _ _ _ r])
  moreover obtain rest where rest: "ln_run_loop p collect_ranges ?rs (acc @ ?new) r2 = Inr (SUCCESS, (acc @ ?new) @ rest)"
    "map (\<lambda>g. (rs_start g, rs_registers g)) rest =
       row_ranges ((if rs_have_start ?rs then [rs_start ?rs] else []) @ matrix p is (rs_registers ?rs))"
    using Cons.IH [OF _ r2(1) st(2) _ inv, of "acc @ ?new"] Cons.prems(1,4) st(1) by auto
  moreover have "map (\<lambda>g. (rs_start g, rs_registers g)) (?new @ rest) =
      row_ranges ((if rs_have_start rs then [rs_start rs] else []) @ matrix p (i # is) (rs_registers rs))"
    using rest(2) st(3-5) Cons.prems(5)
    by (cases "appends_row i")
       (auto simp: spec_reported_def upd_registers_def row_ranges_end Let_def)
  ultimately show ?case by (intro exI [of _ "?new @ rest"]) simp
qed

lemma run_encoded:
  assumes "program_wf p" "\<forall>i\<in>set prog. ln_wf p i"
    "rd_rest (snd (seek (unat (lp_header_length p)) (lp_reader p))) = concat (map ln_encode prog)"
  shows "\<exists>ranges. lineno_run p collect_ranges [] = Inr (SUCCESS, ranges) \<and>
    map (\<lambda>g. (rs_start g, rs_registers g)) ranges = row_ranges (matrix p prog (initial_registers p))"
proof -
  let ?rs = "reset_registers p run_state_init"
  have i: "rs_registers ?rs = initial_registers p" by (simp add: reset_registers_def initial_registers_def)
  then have "regs_ok p (rs_registers ?rs)" using initial_registers_ok [OF assms(1)] by simp
  moreover have "rs_running ?rs" "\<not> rs_have_start ?rs" by (simp_all add: reset_registers_def run_state_init_def)
  ultimately show ?thesis
    using run_loop_encoded [OF assms, of ?rs "[]"] by (simp add: lineno_run_def i)
qed


text \<open>
  C24. Running a well-formed encoded line number program reports exactly the ranges of the line
  matrix that the standard's state machine builds from the instructions: from every row that
  does not end a sequence to the row after it, in order; the program runs to its end, and the
  32-bit arithmetic of the advances is exact. The instruction \<^verbatim>\<open>DW_LNS_fixed_advance_pc\<close>
  is covered in programs with one operation per instruction only: with more, the code does not set
  the operation index to zero as the standard says.
\<close>

theorem lineno_run_matrix:
  assumes "program_wf p" "\<forall>i\<in>set prog. ln_wf p i"
    "rd_rest (snd (seek (unat (lp_header_length p)) (lp_reader p))) = concat (map ln_encode prog)"
  shows "\<exists>ranges. lineno_run p collect_ranges [] = Inr (SUCCESS, ranges) \<and>
    map (\<lambda>g. (rs_start g, rs_registers g)) ranges = row_ranges (matrix p prog (initial_registers p))"
  using assms by (rule run_encoded)

text \<open>A program of three rows for one file, after an empty header.\<close>

definition demo_instrs :: "ln_instr list" where
  "demo_instrs = [I_Set_Address [9] 0x1000, I_Copy, I_Advance_Pc [4], I_Advance_Line [2], I_Copy,
     I_Advance_Pc [3], I_End_Sequence [1]]"

definition demo_program :: lineno_program_t where
  "demo_program =
     \<lparr>lp_compilation_directory = Some ''/src'', lp_reader = mk_reader (concat (map ln_encode demo_instrs)) False,
      lp_header_length = 0, lp_version = 3, lp_minimum_instruction_length = 1, lp_maximum_operations = 1,
      lp_default_is_stmt = True, lp_line_base = 0xfb, lp_line_range = 14, lp_opcode_base = 13,
      lp_include_directories = [],
      lp_files = [\<lparr>fte_filename = ''a.c'', fte_directory_index = 0, fte_mtime = 0, fte_length = 0\<rparr>]\<rparr>"

lemma demo_program_wf:
  "program_wf demo_program" "\<forall>i\<in>set demo_instrs. ln_wf demo_program i"
  "rd_rest (snd (seek (unat (lp_header_length demo_program)) (lp_reader demo_program))) = concat (map ln_encode demo_instrs)"
  by (simp_all add: demo_program_def demo_instrs_def program_wf_def uleb_operand_def leb_enc_and seek_def
      mk_reader_def rd_rest_def)

definition demo_row :: "addr_t \<Rightarrow> u32 \<Rightarrow> bool \<Rightarrow> registers_t" where
  "demo_row a l e = \<lparr>rg_address = a, rg_file = 1, rg_line = l, rg_column = 0, rg_is_stmt = True, rg_basic_block = False,
     rg_end_sequence = e, rg_prologue_end = False, rg_epilogue_begin = False, rg_isa = 0, rg_op_index = 0,
     rg_discriminator = 0\<rparr>"

lemma demo_rows:
  "row_ranges (matrix demo_program demo_instrs (initial_registers demo_program))
   = [(demo_row 0x1000 1 False, demo_row 0x1004 3 False), (demo_row 0x1004 3 False, demo_row 0x1007 3 True)]"
  by (simp add: demo_program_def demo_instrs_def initial_registers_def
      spec_advance_def after_row_def sleb_val_and demo_row_def Let_def)

theorem lineno_run_matrix_witness:
  "\<exists>ranges. lineno_run demo_program collect_ranges [] = Inr (SUCCESS, ranges) \<and>
     map (\<lambda>g. (rs_start g, rs_registers g)) ranges =
       [(demo_row 0x1000 1 False, demo_row 0x1004 3 False), (demo_row 0x1004 3 False, demo_row 0x1007 3 True)]"
  using lineno_run_matrix [OF demo_program_wf] unfolding demo_rows .

lemma two_ranges:
  "map (\<lambda>g. (rs_start g, rs_registers g)) ranges = [(a, b), (c, d)] \<Longrightarrow>
     \<exists>g h. ranges = [g, h] \<and> rs_start g = a \<and> rs_registers g = b \<and> rs_start h = c \<and> rs_registers h = d"
  by (auto simp: map_eq_Cons_conv)

theorem source_line_first_range_witness:
  "get_source_line ''/tmp'' demo_program 0x1005 = Inr (Some (''/src/a.c'', 3, 0))"
proof -
  obtain ranges where r: "lineno_run demo_program collect_ranges [] = Inr (SUCCESS, ranges)"
    "map (\<lambda>g. (rs_start g, rs_registers g)) ranges =
       [(demo_row 0x1000 1 False, demo_row 0x1004 3 False), (demo_row 0x1004 3 False, demo_row 0x1007 3 True)]"
    using run_encoded [OF demo_program_wf] unfolding demo_rows by (elim exE conjE)
  from two_ranges [OF r(2)] obtain g h where g: "ranges = [g, h]" "rs_start g = demo_row 0x1000 1 False"
    "rs_registers g = demo_row 0x1004 3 False" "rs_start h = demo_row 0x1004 3 False"
    "rs_registers h = demo_row 0x1007 3 True" by (elim exE conjE)
  have f: "make_absolute_to_dir ''/tmp'' ''a.c'' ''/src'' = Inr ''/src/a.c''"
    "make_absolute_to_dir ''/tmp'' ''/src/a.c'' ''/src'' = Inr ''/src/a.c''"
    by code_simp+
  have "List.find (range_contains 0x1005 0) ranges = Some h"
    using g by (simp add: range_contains_def Let_def demo_row_def)
  then show ?thesis
    using source_line_first_range [OF r(1), of "''/tmp''" "0x1005"] g f
    by (simp add: source_line_of_def get_absolute_filename_def get_file_entry_def demo_program_def demo_row_def)
qed

text \<open>
  A standard opcode that the switch does not know is ignored together with the operand count
  the header gives for it: its operands are executed as the opcodes that follow.
\<close>

lemma unknown_opcode_operands_executed:
  assumes "12 < opcode" "opcode < lp_opcode_base p" "rs_running rs" "rd_rest r = opcode # rest"
  shows "\<exists>r'. rd_rest r' = rest \<and> ln_run_loop p dl rs d r = ln_run_loop p dl rs d r'"
proof -
  have "opcode \<notin> {0, 1, 2, 3, 4, 5, 6, 7, 8, 9, 10, 11, 12}" using assms(1) by auto
  then have "ln_step p dl opcode rs d r' = Inr (Go rs d r')" for r'
    using assms(2) by (simp add: ln_step_def exec_standard_def)
  moreover from fetched_u8 [OF assms(4)] obtain r' where "read_u8 r = (Some opcode, r')" "rd_rest r' = rest"
    by (auto simp: fetched_def)
  ultimately show ?thesis
    using assms(3) by (intro exI [of _ r']) (simp add: ln_run_loop.simps [of _ _ _ _ r])
qed

end
