(* ===== verification/NP_Dwarf.thy ===== *)
theory NP_Dwarf
  imports NP_Lineno NP_Enumerations
begin

text \<open>
  The data of \<^verbatim>\<open>np/spiegel/dwarf\<close>: references (\<^verbatim>\<open>reference.hxx\<close>), attribute values
  (\<^verbatim>\<open>value.hxx\<close>), abbreviations (\<^verbatim>\<open>abbrev.cxx\<close>), entries (\<^verbatim>\<open>entry.hxx\<close>) and compile units
  (\<^verbatim>\<open>compile_unit.cxx\<close>). A pointer to a compile unit or a link object is its index in the
  state's vector; a section of a link object is the bytes mapped for it.
\<close>

section \<open>Constants\<close>

abbreviation (input) DW_FORM_addr :: u32 where "DW_FORM_addr \<equiv> 0x01"
abbreviation (input) DW_FORM_block2 :: u32 where "DW_FORM_block2 \<equiv> 0x03"
abbreviation (input) DW_FORM_block4 :: u32 where "DW_FORM_block4 \<equiv> 0x04"
abbreviation (input) DW_FORM_data2 :: u32 where "DW_FORM_data2 \<equiv> 0x05"
abbreviation (input) DW_FORM_data4 :: u32 where "DW_FORM_data4 \<equiv> 0x06"
abbreviation (input) DW_FORM_data8 :: u32 where "DW_FORM_data8 \<equiv> 0x07"
abbreviation (input) DW_FORM_string :: u32 where "DW_FORM_string \<equiv> 0x08"
abbreviation (input) DW_FORM_block :: u32 where "DW_FORM_block \<equiv> 0x09"
abbreviation (input) DW_FORM_block1 :: u32 where "DW_FORM_block1 \<equiv> 0x0a"
abbreviation (input) DW_FORM_data1 :: u32 where "DW_FORM_data1 \<equiv> 0x0b"
abbreviation (input) DW_FORM_flag :: u32 where "DW_FORM_flag \<equiv> 0x0c"
abbreviation (input) DW_FORM_sdata :: u32 where "DW_FORM_sdata \<equiv> 0x0d"
abbreviation (input) DW_FORM_strp :: u32 where "DW_FORM_strp \<equiv> 0x0e"
abbreviation (input) DW_FORM_udata :: u32 where "DW_FORM_udata \<equiv> 0x0f"
abbreviation (input) DW_FORM_ref_addr :: u32 where "DW_FORM_ref_addr \<equiv> 0x10"
abbreviation (input) DW_FORM_ref1 :: u32 where "DW_FORM_ref1 \<equiv> 0x11"
abbreviation (input) DW_FORM_ref2 :: u32 where "DW_FORM_ref2 \<equiv> 0x12"
abbreviation (input) DW_FORM_ref4 :: u32 where "DW_FORM_ref4 \<equiv> 0x13"
abbreviation (input) DW_FORM_ref8 :: u32 where "DW_FORM_ref8 \<equiv> 0x14"
abbreviation (input) DW_FORM_sec_offset :: u32 where "DW_FORM_sec_offset \<equiv> 0x17"
abbreviation (input) DW_FORM_exprloc :: u32 where "DW_FORM_exprloc \<equiv> 0x18"
abbreviation (input) DW_FORM_flag_present :: u32 where "DW_FORM_flag_present \<equiv> 0x19"
abbreviation (input) DW_FORM_ref_sig8 :: u32 where "DW_FORM_ref_sig8 \<equiv> 0x20"

abbreviation (input) DW_AT_sibling :: u32 where "DW_AT_sibling \<equiv> 0x01"
abbreviation (input) DW_AT_name :: u32 where "DW_AT_name \<equiv> 0x03"
abbreviation (input) DW_AT_low_pc :: u32 where "DW_AT_low_pc \<equiv> 0x11"
abbreviation (input) DW_AT_high_pc :: u32 where "DW_AT_high_pc \<equiv> 0x12"
abbreviation (input) DW_AT_language :: u32 where "DW_AT_language \<equiv> 0x13"
abbreviation (input) DW_AT_comp_dir :: u32 where "DW_AT_comp_dir \<equiv> 0x1b"
abbreviation (input) DW_AT_specification :: u32 where "DW_AT_specification \<equiv> 0x47"
abbreviation (input) DW_AT_ranges :: u32 where "DW_AT_ranges \<equiv> 0x55"

abbreviation (input) DW_TAG_class_type :: u32 where "DW_TAG_class_type \<equiv> 0x02"
abbreviation (input) DW_TAG_compile_unit :: u32 where "DW_TAG_compile_unit \<equiv> 0x11"
abbreviation (input) DW_TAG_structure_type :: u32 where "DW_TAG_structure_type \<equiv> 0x13"
abbreviation (input) DW_TAG_union_type :: u32 where "DW_TAG_union_type \<equiv> 0x17"
abbreviation (input) DW_TAG_subprogram :: u32 where "DW_TAG_subprogram \<equiv> 0x2e"
abbreviation (input) DW_TAG_namespace_type :: u32 where "DW_TAG_namespace_type \<equiv> 0x39"

abbreviation (input) DW_sec_info :: nat where "DW_sec_info \<equiv> 2"
abbreviation (input) DW_sec_abbrev :: nat where "DW_sec_abbrev \<equiv> 3"
abbreviation (input) DW_sec_line :: nat where "DW_sec_line \<equiv> 4"
abbreviation (input) DW_sec_str :: nat where "DW_sec_str \<equiv> 6"
abbreviation (input) DW_sec_ranges :: nat where "DW_sec_ranges \<equiv> 8"

section \<open>References and values\<close>

datatype resolver = Res_Unit nat | Res_Link_Object nat

record reference_t =
  rf_resolver :: "resolver option"
  rf_offset :: u64

definition reference_make :: "resolver \<Rightarrow> u64 \<Rightarrow> reference_t" where
  "reference_make res off = \<lparr>rf_resolver = Some res, rf_offset = off\<rparr>"

definition reference_null :: reference_t where
  "reference_null = \<lparr>rf_resolver = None, rf_offset = 0\<rparr>"

datatype value_t =
    T_UNDEF
  | T_STRING string
  | T_SINT32 u32
  | T_UINT32 u32
  | T_SINT64 u64
  | T_UINT64 u64
  | T_BYTES "u8 list"
  | T_REF reference_t

text \<open>\<^verbatim>\<open>make_addr\<close> and \<^verbatim>\<open>make_offset\<close> on a platform with 8-byte addresses.\<close>

definition make_addr :: "addr_t \<Rightarrow> value_t" where
  "make_addr v = T_UINT64 v"

definition make_offset :: "offset_t \<Rightarrow> value_t" where
  "make_offset v = T_UINT64 v"

text \<open>Printing; \<open>descr\<close> describes a resolver.\<close>

definition reference_as_string :: "(resolver \<Rightarrow> string) \<Rightarrow> reference_t \<Rightarrow> string" where
  "reference_as_string descr rf =
     (case rf_resolver rf of
        None \<Rightarrow> ''(ref){0,0}''
      | Some res \<Rightarrow>
          ''(ref){'' @ descr res @ snprintf 32 ('',0x'' @ print_base lower_digits 16 (unat (rf_offset rf)) @ ''}''))"

definition signed_string :: "int \<Rightarrow> string" where
  "signed_string i = (if i < 0 then ''-'' @ print_base lower_digits 10 (nat (- i)) else print_base lower_digits 10 (nat i))"

fun bytes_string :: "string \<Rightarrow> u8 list \<Rightarrow> string" where
  "bytes_string sep [] = []"
| "bytes_string sep (b # bs) =
     sep @ ''0x'' @ pad_zero 2 (print_base lower_digits 16 (unat b)) @ bytes_string '' '' bs"

fun value_to_string :: "(resolver \<Rightarrow> string) \<Rightarrow> value_t \<Rightarrow> string" where
  "value_to_string descr T_UNDEF = ''<undef>''"
| "value_to_string descr (T_STRING s) = [CHR 0x22] @ s @ [CHR 0x22]"
| "value_to_string descr (T_SINT32 v) = snprintf 64 (signed_string (sint v))"
| "value_to_string descr (T_UINT32 v) = snprintf 64 (''0x'' @ print_base lower_digits 16 (unat v))"
| "value_to_string descr (T_SINT64 v) = snprintf 64 (signed_string (sint v))"
| "value_to_string descr (T_UINT64 v) = snprintf 64 (''0x'' @ print_base lower_digits 16 (unat v))"
| "value_to_string descr (T_BYTES bs) = bytes_string [] bs"
| "value_to_string descr (T_REF rf) = reference_as_string descr rf"

section \<open>Abbreviations\<close>

type_synonym attr_spec_t = "u32 \<times> u32"

record abbrev_t =
  ab_code :: u32
  ab_tag :: u32
  ab_children :: u8
  ab_attr_specs :: "attr_spec_t list"

text \<open>The laws of a reader operation, as one relation between the readers before and after.\<close>

definition rd_moved :: "reader_t \<Rightarrow> reader_t \<Rightarrow> bool" where
  "rd_moved r r' \<longleftrightarrow> rd_data r' = rd_data r \<and> rd_is64 r' = rd_is64 r \<and> (rd_ok r \<longrightarrow> rd_ok r') \<and> rd_pos r \<le> rd_pos r'"

lemma rd_moved_refl: "rd_moved r r"
  by (simp add: rd_moved_def)

lemma rd_moved_trans: "rd_moved r r' \<Longrightarrow> rd_moved r' r'' \<Longrightarrow> rd_moved r r''"
  by (auto simp: rd_moved_def)

lemma rd_moved_remains: "rd_moved r r' \<Longrightarrow> get_remains r' \<le> get_remains r"
  by (auto simp: rd_moved_def get_remains_def)

lemma reader_op_moved: "reader_op m \<Longrightarrow> m r = (x, r') \<Longrightarrow> rd_moved r r'"
  by (simp add: rd_moved_def reader_op.op_data reader_op.op_is64 reader_op.op_ok reader_op.op_forward)

lemma reader_op_movedI: "(\<And>r x r'. m r = (x, r') \<Longrightarrow> rd_moved r r') \<Longrightarrow> reader_op m"
  by unfold_locales (auto simp: rd_moved_def)

lemma read_uleb128_remains: "read_uleb128 r = (Some v, r') \<Longrightarrow> get_remains r' < get_remains r"
  by (auto simp: read_uleb128_def get_remains_def rd_rest_def dest!: leb_loop_count split: option.splits)

function read_attr_specs :: "attr_spec_t list rd" where
  "read_attr_specs r =
     (case read_uleb128 r of
        (None, r1) \<Rightarrow> (None, r1)
      | (Some nm, r1) \<Rightarrow>
          (case read_uleb128 r1 of
             (None, r2) \<Rightarrow> (None, r2)
           | (Some form, r2) \<Rightarrow>
               if nm = 0 \<and> form = 0 then (Some [], r2)
               else (case read_attr_specs r2 of
                       (None, r3) \<Rightarrow> (None, r3)
                     | (Some specs, r3) \<Rightarrow> (Some ((nm, form) # specs), r3))))"
  by auto
termination
  by (relation "measure get_remains") (auto dest!: sym [of "(_, _)"] read_uleb128_remains)

declare read_attr_specs.simps [simp del]

definition abbrev_read :: "u32 \<Rightarrow> abbrev_t rd" where
  "abbrev_read code =
     rd_bind read_uleb128 (\<lambda>tag.
     rd_bind read_u8 (\<lambda>children.
     rd_bind read_attr_specs (\<lambda>specs.
     rd_return \<lparr>ab_code = code, ab_tag = tag, ab_children = children, ab_attr_specs = specs\<rparr>)))"

section \<open>Entries\<close>

record entry_t =
  en_offset :: u32
  en_level :: u32
  en_abbrev :: "abbrev_t option"
  en_latest :: u32
  en_generation :: "nat \<Rightarrow> u32"
  en_values :: "nat \<Rightarrow> value_t"

definition entry_init :: entry_t where
  "entry_init = \<lparr>en_offset = 0, en_level = 0, en_abbrev = None, en_latest = 0,
     en_generation = (\<lambda>i. 0), en_values = (\<lambda>i. T_UNDEF)\<rparr>"

definition entry_setup :: "u32 \<Rightarrow> u32 \<Rightarrow> abbrev_t \<Rightarrow> entry_t \<Rightarrow> entry_t" where
  "entry_setup off lev a e = e\<lparr>en_offset := off, en_level := lev, en_abbrev := Some a, en_latest := en_latest e + 1\<rparr>"

definition partial_setup :: "u32 \<Rightarrow> u32 \<Rightarrow> abbrev_t option \<Rightarrow> entry_t \<Rightarrow> entry_t" where
  "partial_setup off lev a e = e\<lparr>en_offset := off, en_level := lev, en_abbrev := a\<rparr>"

text \<open>The parameter of \<^verbatim>\<open>name_to_index\<close> is a signed integer.\<close>

definition name_to_index :: "u32 \<Rightarrow> int" where
  "name_to_index name =
     (let n = sint name
      in if n < 0x6f then n else if 0x2000 \<le> n \<and> n < 0x2008 then 0x6f + n - 0x2000 else - 1)"

definition add_attribute :: "u32 \<Rightarrow> value_t \<Rightarrow> entry_t \<Rightarrow> entry_t" where
  "add_attribute name v e =
     (let i = name_to_index name
      in if i < 0 then e
         else e\<lparr>en_values := (en_values e)(nat i := v),
                en_generation := (en_generation e)(nat i := en_latest e)\<rparr>)"

definition get_attribute :: "u32 \<Rightarrow> entry_t \<Rightarrow> value_t option" where
  "get_attribute name e =
     (let i = name_to_index name
      in if i \<ge> 0 \<and> en_generation e (nat i) = en_latest e then Some (en_values e (nat i)) else None)"

definition get_string_attribute :: "u32 \<Rightarrow> entry_t \<Rightarrow> string option" where
  "get_string_attribute name e = (case get_attribute name e of Some (T_STRING s) \<Rightarrow> Some s | _ \<Rightarrow> None)"

definition get_uint32_attribute :: "u32 \<Rightarrow> entry_t \<Rightarrow> u32" where
  "get_uint32_attribute name e = (case get_attribute name e of Some (T_UINT32 v) \<Rightarrow> v | _ \<Rightarrow> 0)"

definition get_uint64_attribute :: "u32 \<Rightarrow> entry_t \<Rightarrow> u64" where
  "get_uint64_attribute name e =
     (case get_attribute name e of Some (T_UINT32 v) \<Rightarrow> ucast v | Some (T_UINT64 v) \<Rightarrow> v | _ \<Rightarrow> 0)"

definition get_address_attribute :: "u32 \<Rightarrow> entry_t \<Rightarrow> addr_t" where
  "get_address_attribute name e =
     (case get_attribute name e of Some (T_UINT32 v) \<Rightarrow> ucast v | Some (T_UINT64 v) \<Rightarrow> v | _ \<Rightarrow> 0)"

definition get_reference_attribute :: "u32 \<Rightarrow> entry_t \<Rightarrow> reference_t" where
  "get_reference_attribute name e = (case get_attribute name e of Some (T_REF rf) \<Rightarrow> rf | _ \<Rightarrow> reference_null)"

definition get_attribute_form :: "u32 \<Rightarrow> entry_t \<Rightarrow> np_error + u32" where
  "get_attribute_form name e =
     (case en_abbrev e of
        None \<Rightarrow> Inl Null_Deref
      | Some a \<Rightarrow> Inr (case map_of (ab_attr_specs a) name of None \<Rightarrow> 0 | Some form \<Rightarrow> form))"

definition get_tag :: "entry_t \<Rightarrow> np_error + u32" where
  "get_tag e = (case en_abbrev e of None \<Rightarrow> Inl Null_Deref | Some a \<Rightarrow> Inr (ab_tag a))"

definition has_children :: "entry_t \<Rightarrow> np_error + bool" where
  "has_children e = (case en_abbrev e of None \<Rightarrow> Inl Null_Deref | Some a \<Rightarrow> Inr (ab_children a \<noteq> 0))"

fun attrs_string :: "(resolver \<Rightarrow> string) \<Rightarrow> entry_t \<Rightarrow> string \<Rightarrow> attr_spec_t list \<Rightarrow> string" where
  "attrs_string descr e sep [] = []"
| "attrs_string descr e sep ((nm, form) # specs) =
     sep @ to_name attrnames (sint nm) @ ''='' @
     (case get_attribute nm e of Some v \<Rightarrow> value_to_string descr v | None \<Rightarrow> ''<missing>'') @
     attrs_string descr e '', '' specs"

definition entry_to_string :: "(resolver \<Rightarrow> string) \<Rightarrow> entry_t \<Rightarrow> string" where
  "entry_to_string descr e =
     (case en_abbrev e of
        None \<Rightarrow> []
      | Some a \<Rightarrow>
          snprintf 1024 (''Entry offset=0x'' @ print_base lower_digits 16 (unat (en_offset e)) @ '' level='' @
            print_base lower_digits 10 (unat (en_level e)) @ '' tag='' @ to_name tagnames (sint (ab_tag a)) @ '' {'') @
          attrs_string descr e [] (ab_attr_specs a) @ ''}'')"

section \<open>Compile units\<close>

record compile_unit_t =
  cu_index :: nat
  cu_link_object :: nat
  cu_version :: u16
  cu_is64 :: bool
  cu_reader :: reader_t
  cu_offset :: offset_t
  cu_abbrevs_offset :: u32
  cu_abbrevs :: "abbrev_t option list"
  cu_filename :: "string option"
  cu_compilation_directory :: "string option"
  cu_low_pc :: u64
  cu_high_pc :: u64
  cu_language :: u32
  cu_lineno_program :: "lineno_program_t option"

definition header_length :: nat where
  "header_length = 11"

definition compile_unit_new :: "nat \<Rightarrow> nat \<Rightarrow> compile_unit_t" where
  "compile_unit_new idx lo =
     \<lparr>cu_index = idx, cu_link_object = lo, cu_version = 0, cu_is64 = False, cu_reader = mk_reader [] False,
      cu_offset = 0, cu_abbrevs_offset = 0, cu_abbrevs = [], cu_filename = None,
      cu_compilation_directory = None, cu_low_pc = 0, cu_high_pc = 0, cu_language = 0,
      cu_lineno_program = None\<rparr>"

text \<open>
  \<^verbatim>\<open>read_header\<close>: the unit, or nothing at the end of the section, and the section's reader.
  The length read is compared, adjusted and subtracted in 64 bits.
\<close>

definition read_header :: "compile_unit_t \<Rightarrow> reader_t \<Rightarrow> np_error + compile_unit_t option \<times> reader_t" where
  "read_header cu r0 =
     (case read_initial_length r0 of
        (None, r1) \<Rightarrow> Inr (None, r1)
      | (Some (len, is64), r1) \<Rightarrow>
          if unat len > get_remains r1 then Inl (Fatal_Exit ''Bad DWARF compile unit length'')
          else case read_u16 r1 of
            (None, r2) \<Rightarrow> Inr (None, r2)
          | (Some version, r2) \<Rightarrow>
              if version < 2 \<or> version > 4 then Inl (Fatal_Exit ''Bad DWARF version'')
              else if len < ucast (word_of_int (int header_length - (if is64 then 14 else 6)) :: u32)
              then Inl (Fatal_Exit ''Bad DWARF compile unit length'')
              else case rd_bind read_u32 (\<lambda>ao. rd_bind read_u8 (\<lambda>asz. rd_return (ao, asz))) r2 of
                (None, r3) \<Rightarrow> Inr (None, r3)
              | (Some (ao, addrsize), r3) \<Rightarrow>
                  if addrsize \<noteq> 8 then Inl (Fatal_Exit ''Bad DWARF addrsize'')
                  else let len' = len + (if is64 then 12 else 4);
                           reader = initial_subset (unat len') (set_is64 is64 r0);
                           r4 = snd (skip (unat (len' - of_nat header_length)) r3)
                       in Inr (Some (cu\<lparr>cu_version := version, cu_is64 := is64, cu_reader := reader,
                                        cu_offset := of_nat (get_offset r0), cu_abbrevs_offset := ao\<rparr>), r4))"

text \<open>
  Storing an abbreviation under its code; the new size of the vector is computed in 32 bits.
\<close>

definition put_abbrev :: "abbrev_t \<Rightarrow> abbrev_t option list \<Rightarrow> np_error + abbrev_t option list" where
  "put_abbrev a as =
     (let c = unat (ab_code a);
          n = unat (ab_code a + 1);
          as' = (if c \<ge> length as then take n as @ replicate (n - length as) None else as)
      in if c < length as' then Inr (as'[c := Some a]) else Inl Out_Of_Range)"

lemma read_attr_specs_moved:
  "read_attr_specs r = (x, r') \<Longrightarrow> rd_moved r r'"
proof (induction r arbitrary: x r' rule: read_attr_specs.induct)
  case (1 r)
  obtain y r1 where u1: "read_uleb128 r = (y, r1)" by fastforce
  obtain z r2 where u2: "read_uleb128 r1 = (z, r2)" by fastforce
  obtain w r3 where u3: "read_attr_specs r2 = (w, r3)" by fastforce
  have m: "rd_moved r r1" "rd_moved r1 r2"
    using reader_op_moved [OF read_uleb128_op.reader_op_axioms] u1 u2 by blast+
  show ?case
  proof (cases "\<exists>nm form. y = Some nm \<and> z = Some form \<and> \<not> (nm = 0 \<and> form = 0)")
    case True
    then obtain nm form where t: "y = Some nm" "z = Some form" "\<not> (nm = 0 \<and> form = 0)" by blast
    have "rd_moved r2 r3" using "1.IH" [OF u1 [symmetric] t(1) u2 [symmetric] t(2,3) u3] .
    moreover have "r' = r3"
      using "1.prems" u1 u2 u3 t by (subst (asm) read_attr_specs.simps) (auto split: option.splits)
    ultimately show ?thesis using m by (blast intro: rd_moved_trans)
  next
    case False
    then have "r' = r1 \<or> r' = r2"
      using "1.prems" u1 u2 by (subst (asm) read_attr_specs.simps) (auto split: option.splits if_splits)
    then show ?thesis using m by (blast intro: rd_moved_trans)
  qed
qed

lemma read_attr_specs_op: "reader_op read_attr_specs"
  using read_attr_specs_moved by (rule reader_op_movedI)

lemma abbrev_read_op: "reader_op (abbrev_read code)"
  unfolding abbrev_read_def
  by (intro reader_op_bind reader_op_return read_uleb128_op.reader_op_axioms read_u8_op.reader_op_axioms
      read_attr_specs_op)

text \<open>The loop of \<^verbatim>\<open>read_abbrevs\<close>: it ends at code 0, at the end of the data or at a bad entry.\<close>

function abbrevs_loop :: "abbrev_t option list \<Rightarrow> reader_t \<Rightarrow> np_error + abbrev_t option list \<times> reader_t" where
  "abbrevs_loop as r =
     (case read_uleb128 r of
        (None, r1) \<Rightarrow> Inr (as, r1)
      | (Some code, r1) \<Rightarrow>
          if code = 0 then Inr (as, r1)
          else (case abbrev_read code r1 of
                  (None, r2) \<Rightarrow> Inr (as, r2)
                | (Some a, r2) \<Rightarrow> bindE (put_abbrev a as) (\<lambda>as'. abbrevs_loop as' r2)))"
  by auto
termination
proof (relation "measure (\<lambda>(as, r). get_remains r)", simp)
  fix as :: "abbrev_t option list" and r x r1 code y r2 a as'
  assume "(x, r1) = read_uleb128 r" "x = Some code" "(y, r2) = abbrev_read code r1" "y = Some a"
  then have "get_remains r1 < get_remains r" "get_remains r2 \<le> get_remains r1"
    using read_uleb128_remains [of r code r1] reader_op.op_remains [OF abbrev_read_op, of code r1 y r2] by simp_all
  then show "((as', r2), (as, r)) \<in> measure (\<lambda>(as, r). get_remains r)" by simp
qed

declare abbrevs_loop.simps [simp del]

definition read_abbrevs :: "compile_unit_t \<Rightarrow> reader_t \<Rightarrow> np_error + compile_unit_t \<times> reader_t" where
  "read_abbrevs cu r =
     bindE (abbrevs_loop (cu_abbrevs cu) (snd (seek (unat (cu_abbrevs_offset cu)) r))) (\<lambda>(as, r').
       Inr (cu\<lparr>cu_abbrevs := as\<rparr>, r'))"

definition get_abbrev :: "compile_unit_t \<Rightarrow> u32 \<Rightarrow> abbrev_t option" where
  "get_abbrev cu code = (if unat code \<ge> length (cu_abbrevs cu) then None else cu_abbrevs cu ! unat code)"

definition get_contents :: "compile_unit_t \<Rightarrow> reader_t" where
  "get_contents cu = snd (skip header_length (cu_reader cu))"

definition get_end_offset :: "compile_unit_t \<Rightarrow> offset_t" where
  "get_end_offset cu = cu_offset cu + of_nat (get_length (cu_reader cu))"

definition cu_make_reference :: "compile_unit_t \<Rightarrow> u32 \<Rightarrow> reference_t" where
  "cu_make_reference cu off = reference_make (Res_Unit (cu_index cu)) (ucast off)"

definition make_root_reference :: "compile_unit_t \<Rightarrow> reference_t" where
  "make_root_reference cu = reference_make (Res_Unit (cu_index cu)) (of_nat header_length)"

definition read_lineno_program :: "compile_unit_t \<Rightarrow> reader_t \<Rightarrow> np_error + compile_unit_t option \<times> reader_t" where
  "read_lineno_program cu r =
     bindE (lineno_read_header (cu_compilation_directory cu) r) (\<lambda>(lp, r').
       Inr (case lp of None \<Rightarrow> None | Some p \<Rightarrow> Some (cu\<lparr>cu_lineno_program := Some p\<rparr>), r'))"

text \<open>\<^verbatim>\<open>section_t::offset_as_string\<close>.\<close>

definition offset_as_string :: "u8 list \<Rightarrow> u64 \<Rightarrow> string option" where
  "offset_as_string sec off =
     (if unat off \<ge> length sec then None
      else map_option (\<lambda>n. string_of_bytes (take n (drop (unat off) sec))) (memchr0 (drop (unat off) sec)))"

section \<open>Unit headers\<close>

lemma fetched_iff: "fetched m x r rest \<Longrightarrow> m r = (Some x, snd (m r)) \<and> rd_rest (snd (m r)) = rest"
  by (auto simp: fetched_def)

lemma fetched_u32: "rd_rest r = bytes_of_u32 v @ rest \<Longrightarrow> fetched read_u32 v r rest"
  using read_u32_back [of r v rest] rd_rest_advance [of r 4] by (simp add: fetched_def bytes_of_u32_def)

lemma fetched_return: "rd_rest r = rest \<Longrightarrow> fetched (rd_return x) x r rest"
  by (simp add: fetched_def rd_return_def)

lemma fetched_moved: "fetched m x r rest \<Longrightarrow> reader_op m \<Longrightarrow> \<exists>r'. m r = (Some x, r') \<and> rd_rest r' = rest \<and> rd_moved r r'"
  using reader_op_moved by (fastforce simp: fetched_def)

lemma bytes_lengths [simp]:
  "length (bytes_of_u16 h) = 2" "length (bytes_of_u32 w) = 4" "length (bytes_of_u64 x) = 8"
  by (simp_all add: bytes_of_u16_def bytes_of_u32_def bytes_of_u64_def)

lemma unat_ucast_u32: "unat (ucast (w :: u32) :: u64) = unat w"
proof -
  have "unat w < 2 ^ 32" by (rule order.strict_trans2 [OF unsigned_less]) simp
  then show ?thesis by (simp add: unsigned_ucast_eq take_bit_nat_eq_self)
qed

lemma fetched_initial_length_32:
  assumes "rd_rest r = bytes_of_u32 len @ rest" "len < 0xfffffff0"
  shows "fetched read_initial_length (ucast len, False) r rest"
proof -
  obtain r1 where "read_u32 r = (Some len, r1)" "rd_rest r1 = rest"
    using fetched_u32 [OF assms(1)] by (auto simp: fetched_def)
  moreover have "(ucast len :: u64) \<noteq> 0xffffffff" "\<not> (0xfffffff0 :: u64) \<le> ucast len"
    using assms(2) unat_ucast_u32 [of len] by (auto simp: word_less_nat_alt word_le_nat_alt)
  ultimately show ?thesis
    by (simp add: fetched_def read_initial_length_def read_u32_64_def)
qed

text \<open>The bytes of a 32-bit unit header.\<close>

definition unit_header :: "u32 \<Rightarrow> u16 \<Rightarrow> u32 \<Rightarrow> u8 list" where
  "unit_header len version ao = bytes_of_u32 len @ bytes_of_u16 version @ bytes_of_u32 ao @ [8]"

lemma rd_rest_pos:
  assumes "rd_moved r r'" "rd_rest r = bs @ rest" "rd_rest r' = rest" "rest \<noteq> [] \<or> rd_ok r"
  shows "rd_ok r \<Longrightarrow> rd_pos r' = rd_pos r + length bs"
proof -
  assume "rd_ok r"
  with assms(1) have "rd_ok r'" "rd_data r' = rd_data r" by (simp_all add: rd_moved_def)
  moreover have "length (rd_rest r) = length bs + length (rd_rest r')" using assms(2,3) by simp
  ultimately show ?thesis using \<open>rd_ok r\<close> by (simp add: length_rd_rest rd_ok_def)
qed

lemma skip_rest: "rd_rest r = bs @ rest \<Longrightarrow> rd_ok r \<Longrightarrow> skip (length bs) r = (Some (), snd (skip (length bs) r)) \<and> rd_rest (snd (skip (length bs) r)) = rest"
  using length_rd_rest [of r] rd_rest_advance [of r "length bs"] by (simp add: skip_def rd_ok_def)

lemma read_header_frames:
  assumes r0: "rd_rest r0 = unit_header len version ao @ body @ rest" "rd_ok r0"
    and len: "unat len = 7 + length body" "len < 0xfffffff0" and v: "2 \<le> version" "version \<le> 4"
  shows "\<exists>cu' r'. read_header cu r0 = Inr (Some cu', r') \<and> rd_rest r' = rest \<and> rd_ok r'
    \<and> rd_data (cu_reader cu') = unit_header len version ao @ body \<and> rd_rest (get_contents cu') = body
    \<and> cu_version cu' = version \<and> cu_abbrevs_offset cu' = ao \<and> cu_index cu' = cu_index cu
    \<and> cu_offset cu' = of_nat (get_offset r0) \<and> \<not> rd_is64 (cu_reader cu')"
proof -
  let ?h = "bytes_of_u16 version @ bytes_of_u32 ao @ [8]"
  have "rd_rest r0 = bytes_of_u32 len @ ?h @ body @ rest" using r0(1) by (simp add: unit_header_def)
  from fetched_moved [OF fetched_initial_length_32 [OF this len(2)] read_initial_length_op.reader_op_axioms]
  obtain r1 where r1: "read_initial_length r0 = (Some (ucast len, False), r1)" "rd_rest r1 = ?h @ body @ rest"
    "rd_moved r0 r1" by blast
  have "rd_rest r1 = bytes_of_u16 version @ bytes_of_u32 ao @ [8] @ body @ rest" using r1(2) by simp
  from fetched_moved [OF fetched_u16 [OF this] read_u16_op.reader_op_axioms]
  obtain r2 where r2: "read_u16 r1 = (Some version, r2)" "rd_rest r2 = bytes_of_u32 ao @ [8] @ body @ rest" "rd_moved r1 r2"
    by blast
  have f: "fetched (rd_bind read_u32 (\<lambda>ao. rd_bind read_u8 (\<lambda>asz. rd_return (ao, asz)))) (ao, 8) r2 (body @ rest)"
    using r2(2) by (intro fetched_bind [OF fetched_u32] fetched_bind [OF fetched_u8]) (auto intro: fetched_return)
  have "reader_op (rd_bind read_u32 (\<lambda>ao. rd_bind read_u8 (\<lambda>asz. rd_return (ao, asz))))"
    by (intro reader_op_bind reader_op_return read_u32_op.reader_op_axioms read_u8_op.reader_op_axioms)
  from fetched_moved [OF f this] obtain r3 where r3: "rd_bind read_u32 (\<lambda>ao. rd_bind read_u8 (\<lambda>asz. rd_return (ao, asz))) r2 = (Some (ao, 8), r3)"
    "rd_rest r3 = body @ rest" "rd_moved r2 r3" by blast
  have ok: "rd_ok r1" "rd_ok r3" using r0(2) r1(3) r2(3) r3(3) by (auto simp: rd_moved_def)
  have ulen: "unat (ucast len :: u64) = 7 + length body" using len(1) by (simp add: unat_ucast_u32)
  have rem: "get_remains r1 = 7 + length body + length rest" "get_remains r0 = 11 + length body + length rest"
    using arg_cong [OF r1(2), of length] arg_cong [OF r0(1), of length] by (simp_all add: rd_rest_length unit_header_def)
  have "unat (ucast len :: u64) + 4 < 2 ^ 64"
    using len(2) by (simp add: unat_ucast_u32 word_less_nat_alt)
  then have l4: "unat (ucast len + 4 :: u64) = 11 + length body" "unat (ucast len + 4 - of_nat header_length :: u64) = length body"
    using ulen by (simp_all add: unat_word_ariths header_length_def unat_sub_if' word_le_nat_alt)
  let ?cr = "initial_subset (11 + length body) (set_is64 False r0)"
  have cr: "?cr = mk_reader (unit_header len version ao @ body) False"
    using r0(1) rem(2)
    by (simp add: initial_subset_def set_is64_def get_remains_def rd_rest_def unit_header_def)
  let ?r4 = "snd (skip (length body) r3)"
  let ?cu = "cu\<lparr>cu_version := version, cu_is64 := False, cu_reader := ?cr,
    cu_offset := of_nat (get_offset r0), cu_abbrevs_offset := ao\<rparr>"
  have vr: "\<not> (version < 2 \<or> version > 4)" using v by auto
  have l5: "\<not> (ucast len :: u64) < 5" using ulen by (simp add: word_less_nat_alt)
  have "read_header cu r0 = Inr (Some ?cu, ?r4)"
    unfolding read_header_def
    using r1(1) r2(1) r3(1) rem(1) ulen vr l5 l4 by (simp add: header_length_def Let_def)
  moreover have "rd_rest ?r4 = rest" "rd_ok ?r4"
    using skip_rest [OF r3(2) ok(2)] skip_op.op_ok [of "length body" r3 _ ?r4] ok(2) by (metis prod.collapse)+
  moreover have "rd_rest (get_contents ?cu) = body"
    by (simp add: get_contents_def cr mk_reader_def skip_def header_length_def unit_header_def rd_rest_def)
  ultimately show ?thesis by (intro exI [of _ ?cu] exI [of _ ?r4]) (simp add: cr mk_reader_def)
qed

text \<open>
  The header of a 32-bit unit of a supported version delimits the unit: its own reader
  covers the header and the body and nothing else, its contents are the body, and the
  section's reader continues at the unit that follows.
\<close>

theorem unit_header_delimits:
  assumes "rd_rest r0 = unit_header len version ao @ body @ rest" "rd_ok r0"
    and "unat len = 7 + length body" "len < 0xfffffff0" "2 \<le> version" "version \<le> 4"
  shows "\<exists>cu' r'. read_header cu r0 = Inr (Some cu', r') \<and> rd_rest r' = rest \<and> rd_ok r'
    \<and> rd_data (cu_reader cu') = unit_header len version ao @ body \<and> rd_rest (get_contents cu') = body
    \<and> cu_version cu' = version \<and> cu_abbrevs_offset cu' = ao \<and> cu_index cu' = cu_index cu
    \<and> cu_offset cu' = of_nat (get_offset r0) \<and> \<not> rd_is64 (cu_reader cu')"
  using assms by (rule read_header_frames)

theorem unit_header_delimits_witness:
  "\<exists>cu' r'. read_header (compile_unit_new 0 0) (mk_reader (unit_header 9 4 0 @ [0x11, 0x22] @ [7]) False) = Inr (Some cu', r')
     \<and> rd_rest r' = [7] \<and> rd_rest (get_contents cu') = [0x11, 0x22]"
proof -
  have "rd_rest (mk_reader (unit_header 9 4 0 @ [0x11, 0x22] @ [7]) False) = unit_header 9 4 0 @ [0x11, 0x22] @ [7]"
    "rd_ok (mk_reader (unit_header 9 4 0 @ [0x11, 0x22] @ [7]) False)"
    by (simp_all add: mk_reader_def rd_rest_def rd_ok_def)
  from unit_header_delimits [OF this, of "compile_unit_new 0 0"] show ?thesis by auto
qed

text \<open>
  Units in the 64-bit format are refused: the minimum length they are compared with is
  eleven minus fourteen, converted to an unsigned number, so every such unit below four
  gigabytes ends the program with an error about its length.
\<close>

theorem units_64_refused:
  assumes "rd_rest r0 = bytes_of_u32 0xffffffff @ bytes_of_u64 len @ bytes_of_u16 version @ rest"
    "unat len \<le> 2 + length rest" "len < 0xfffffffd" "2 \<le> version" "version \<le> 4"
  shows "read_header cu r0 = Inl (Fatal_Exit ''Bad DWARF compile unit length'')"
proof -
  obtain r1 where r1: "read_u32 r0 = (Some 0xffffffff, r1)" "rd_rest r1 = bytes_of_u64 len @ bytes_of_u16 version @ rest"
    using fetched_u32 [OF assms(1)] by (auto simp: fetched_def)
  obtain r2 where r2: "read_u64 r1 = (Some len, r2)" "rd_rest r2 = bytes_of_u16 version @ rest"
    using fetched_addr [OF r1(2)] by (auto simp: fetched_def read_addr_def)
  obtain r3 where r3: "read_u16 r2 = (Some version, r3)"
    using fetched_u16 [OF r2(2)] by (auto simp: fetched_def)
  have il: "read_initial_length r0 = (Some (len, True), r2)"
    using r1(1) r2(1) by (simp add: read_initial_length_def read_u32_64_def)
  have "get_remains r2 = 2 + length rest" using r2(2) by (simp add: rd_rest_length [symmetric])
  then have "\<not> get_remains r2 < unat len" using assms(2) by simp
  moreover have "\<not> (version < 2 \<or> 4 < version)" using assms(4,5) by auto
  ultimately show ?thesis
    unfolding read_header_def using il r3 assms(3) by (simp add: header_length_def)
qed

theorem units_64_refused_witness:
  "read_header (compile_unit_new 0 0)
     (mk_reader (bytes_of_u32 0xffffffff @ bytes_of_u64 2 @ bytes_of_u16 3 @ []) False)
   = Inl (Fatal_Exit ''Bad DWARF compile unit length'')"
  by (rule units_64_refused [where len = 2 and version = 3 and rest = "[]"]) (simp_all add: mk_reader_def rd_rest_def)

section \<open>Abbreviation tables\<close>

text \<open>The shortest unsigned LEB128 encoding of a number.\<close>

fun uleb_enc :: "nat \<Rightarrow> u8 list" where
  "uleb_enc n = (if n < 128 then [of_nat n] else of_nat (128 + n mod 128) # uleb_enc (n div 128))"

declare uleb_enc.simps [simp del]

lemma uleb_enc_len: "n < 2 ^ (7 * k) \<Longrightarrow> 0 < k \<Longrightarrow> length (uleb_enc n) \<le> k"
proof (induction n arbitrary: k rule: uleb_enc.induct)
  case (1 n)
  show ?case
  proof (cases "n < 128")
    case True
    with "1.prems" show ?thesis by (subst uleb_enc.simps) simp
  next
    case False
    obtain m where k: "k = Suc m" using "1.prems" by (cases k) auto
    with False "1.prems" have "0 < m" by (cases m) auto
    moreover have "n div 128 < 2 ^ (7 * m)" using "1.prems"(1) k by (simp add: power_add less_mult_imp_div_less mult.commute)
    ultimately have "length (uleb_enc (n div 128)) \<le> m" using "1.IH" [OF False] by blast
    with False k show ?thesis by (subst uleb_enc.simps) simp
  qed
qed

lemma unat_of_nat_u8: "k < 256 \<Longrightarrow> unat (of_nat k :: u8) = k"
  by (simp add: unsigned_of_nat take_bit_nat_eq_self)

lemma bit7_iff: "k < 256 \<Longrightarrow> bit (of_nat k :: u8) 7 \<longleftrightarrow> 128 \<le> k"
proof -
  assume k: "k < 256"
  have "bit (of_nat k :: u8) 7 \<longleftrightarrow> bit k 7" by (simp add: bit_of_nat_iff)
  also have "\<dots> \<longleftrightarrow> odd (k div 128)" by (simp add: bit_iff_odd)
  also have "\<dots> \<longleftrightarrow> 128 \<le> k" using k by (cases "128 \<le> k") (auto simp: div_nat_eqI [of 1] odd_iff_mod_2_eq_one)
  finally show ?thesis .
qed

lemma uleb_enc_val: "uleb_val (uleb_enc n) = n"
proof (induction n rule: uleb_enc.induct)
  case (1 n)
  show ?case
  proof (cases "n < 128")
    case False
    then show ?thesis using "1.IH" unat_of_nat_u8 [of "128 + n mod 128"] by (subst uleb_enc.simps) simp
  qed (subst uleb_enc.simps, simp add: unat_of_nat_u8)
qed

lemma uleb_enc_enc: "leb_enc (uleb_enc n)"
proof (induction n rule: uleb_enc.induct)
  case (1 n)
  show ?case
  proof (cases "n < 128")
    case True
    then show ?thesis using bit7_iff [of n] by (subst uleb_enc.simps) (simp add: leb_enc_def)
  next
    case False
    then show ?thesis
      using "1.IH" bit7_iff [of "128 + n mod 128"] by (subst uleb_enc.simps) (auto simp: leb_enc_def)
  qed
qed

lemma uleb_enc_operand: "uleb_operand (uleb_enc (unat (w :: u32)))"
proof -
  have "unat w < 2 ^ 32" by (rule order.strict_trans2 [OF unsigned_less]) simp
  then show ?thesis using uleb_enc_len [of "unat w" 5] uleb_enc_enc [of "unat w"] by (simp add: uleb_operand_def)
qed

lemma fetched_uleb_enc: "rd_rest r = uleb_enc (unat w) @ rest \<Longrightarrow> fetched read_uleb128 w r rest"
  using fetched_uleb [OF uleb_enc_operand, of r w rest] by (simp add: uleb_enc_val)

definition specs_enc :: "attr_spec_t list \<Rightarrow> u8 list" where
  "specs_enc specs = concat (map (\<lambda>(nm, form). uleb_enc (unat nm) @ uleb_enc (unat form)) specs) @ [0, 0]"

definition abbrev_enc :: "abbrev_t \<Rightarrow> u8 list" where
  "abbrev_enc a = uleb_enc (unat (ab_code a)) @ uleb_enc (unat (ab_tag a)) @ [ab_children a] @ specs_enc (ab_attr_specs a)"

definition abbrev_wf :: "abbrev_t \<Rightarrow> bool" where
  "abbrev_wf a \<longleftrightarrow> ab_code a \<noteq> 0 \<and> ab_code a + 1 \<noteq> 0 \<and> (0, 0) \<notin> set (ab_attr_specs a)"

lemma uleb_enc_zero: "uleb_enc 0 = [0]"
  by (simp add: uleb_enc.simps)

lemma fetched_attr_specs:
  "(0, 0) \<notin> set specs \<Longrightarrow> rd_rest r = specs_enc specs @ rest \<Longrightarrow> fetched read_attr_specs specs r rest"
proof (induction specs arbitrary: r)
  case Nil
  have "rd_rest r = uleb_enc (unat (0 :: u32)) @ 0 # rest" using Nil.prems by (simp add: specs_enc_def uleb_enc_zero)
  from fetched_uleb_enc [OF this] obtain r1 where r1: "read_uleb128 r = (Some 0, r1)" "rd_rest r1 = 0 # rest"
    by (auto simp: fetched_def)
  have "rd_rest r1 = uleb_enc (unat (0 :: u32)) @ rest" using r1(2) by (simp add: uleb_enc_zero)
  from fetched_uleb_enc [OF this] obtain r2 where r2: "read_uleb128 r1 = (Some 0, r2)" "rd_rest r2 = rest"
    by (auto simp: fetched_def)
  from r1 r2 show ?case by (simp add: fetched_def read_attr_specs.simps [of r])
next
  case (Cons sp specs)
  obtain nm form where sp: "sp = (nm, form)" by (cases sp)
  have "rd_rest r = uleb_enc (unat nm) @ uleb_enc (unat form) @ specs_enc specs @ rest"
    using Cons.prems(2) by (simp add: specs_enc_def sp)
  from fetched_uleb_enc [OF this] obtain r1 where r1: "read_uleb128 r = (Some nm, r1)"
    "rd_rest r1 = uleb_enc (unat form) @ specs_enc specs @ rest" by (auto simp: fetched_def)
  from fetched_uleb_enc [OF r1(2)] obtain r2 where r2: "read_uleb128 r1 = (Some form, r2)"
    "rd_rest r2 = specs_enc specs @ rest" by (auto simp: fetched_def)
  from Cons.IH [OF _ r2(2)] Cons.prems(1) obtain r3 where "read_attr_specs r2 = (Some specs, r3)" "rd_rest r3 = rest"
    by (auto simp: fetched_def)
  with r1(1) r2(1) sp Cons.prems(1) show ?case
    by (auto simp: fetched_def read_attr_specs.simps [of r])
qed

lemma fetched_abbrev:
  assumes "abbrev_wf a" "rd_rest r = uleb_enc (unat (ab_tag a)) @ [ab_children a] @ specs_enc (ab_attr_specs a) @ rest"
  shows "fetched (abbrev_read (ab_code a)) a r rest"
proof -
  have "fetched (rd_bind read_attr_specs (\<lambda>specs. rd_return \<lparr>ab_code = ab_code a, ab_tag = ab_tag a,
      ab_children = ab_children a, ab_attr_specs = specs\<rparr>)) a r1 rest"
    if "rd_rest r1 = specs_enc (ab_attr_specs a) @ rest" for r1
    using assms(1) that by (intro fetched_bind [OF fetched_attr_specs]) (auto simp: abbrev_wf_def fetched_def rd_return_def)
  then show ?thesis
    unfolding abbrev_read_def using assms(2)
    by (intro fetched_bind [OF fetched_uleb_enc] fetched_bind [OF fetched_u8]) auto
qed

text \<open>What a vector of abbreviations holds for a code.\<close>

definition abbrev_lookup :: "abbrev_t option list \<Rightarrow> nat \<Rightarrow> abbrev_t option" where
  "abbrev_lookup as c = (if c < length as then as ! c else None)"

lemma put_abbrev_lookup:
  assumes "ab_code a + 1 \<noteq> 0"
  shows "\<exists>as'. put_abbrev a as = Inr as' \<and> abbrev_lookup as' = (abbrev_lookup as)(unat (ab_code a) \<mapsto> a)"
proof -
  have n: "unat (ab_code a + 1) = Suc (unat (ab_code a))" using assms by (simp add: unat_eq_zero add.commute unatSuc)
  show ?thesis
    unfolding put_abbrev_def Let_def n
    by (auto simp: abbrev_lookup_def fun_eq_iff nth_append nth_list_update not_less)
qed

lemma abbrevs_loop_enc:
  assumes "\<forall>a\<in>set abvs. abbrev_wf a" "rd_rest r = concat (map abbrev_enc abvs) @ 0 # rest"
  shows "\<exists>as' r'. abbrevs_loop as r = Inr (as', r') \<and> rd_rest r' = rest \<and>
    abbrev_lookup as' = fold (\<lambda>a m. m(unat (ab_code a) \<mapsto> a)) abvs (abbrev_lookup as)"
  using assms
proof (induction abvs arbitrary: as r)
  case Nil
  have "rd_rest r = uleb_enc (unat (0 :: u32)) @ rest" using Nil.prems by (simp add: uleb_enc_zero)
  from fetched_uleb_enc [OF this] show ?case by (auto simp: fetched_def abbrevs_loop.simps [of as r])
next
  case (Cons a abvs)
  have wf: "abbrev_wf a" using Cons.prems(1) by simp
  have "rd_rest r = uleb_enc (unat (ab_code a)) @ uleb_enc (unat (ab_tag a)) @ [ab_children a] @
      specs_enc (ab_attr_specs a) @ concat (map abbrev_enc abvs) @ 0 # rest"
    using Cons.prems(2) by (simp add: abbrev_enc_def [of a])
  from fetched_uleb_enc [OF this] obtain r1 where r1: "read_uleb128 r = (Some (ab_code a), r1)"
    "rd_rest r1 = uleb_enc (unat (ab_tag a)) @ [ab_children a] @ specs_enc (ab_attr_specs a) @
       concat (map abbrev_enc abvs) @ 0 # rest" by (auto simp: fetched_def)
  from fetched_abbrev [OF wf r1(2)] obtain r2 where r2: "abbrev_read (ab_code a) r1 = (Some a, r2)"
    "rd_rest r2 = concat (map abbrev_enc abvs) @ 0 # rest" by (auto simp: fetched_def)
  obtain as1 where as1: "put_abbrev a as = Inr as1" "abbrev_lookup as1 = (abbrev_lookup as)(unat (ab_code a) \<mapsto> a)"
    using put_abbrev_lookup [of a as] wf by (auto simp: abbrev_wf_def)
  have "abbrevs_loop as r = abbrevs_loop as1 r2"
    using r1(1) r2(1) as1(1) wf by (simp add: abbrevs_loop.simps [of as r] abbrev_wf_def)
  with Cons.IH [OF _ r2(2), of as1] Cons.prems(1) as1(2) show ?case by simp
qed

lemma fold_put_notin:
  "c \<notin> (\<lambda>a. unat (ab_code a)) ` set abvs \<Longrightarrow> fold (\<lambda>a m. m(unat (ab_code a) \<mapsto> a)) abvs m c = m c"
  by (induction abvs arbitrary: m) auto

lemma fold_put_in:
  "distinct (map ab_code abvs) \<Longrightarrow> a \<in> set abvs \<Longrightarrow> fold (\<lambda>a m. m(unat (ab_code a) \<mapsto> a)) abvs m (unat (ab_code a)) = Some a"
proof (induction abvs arbitrary: m)
  case (Cons b abvs)
  show ?case
  proof (cases "a = b")
    case True
    then have "unat (ab_code a) \<notin> (\<lambda>a. unat (ab_code a)) ` set abvs"
      using Cons.prems(1) by (auto simp: image_iff unsigned_word_eqI)
    from fold_put_notin [OF this, of "m(unat (ab_code a) \<mapsto> a)"] True show ?thesis by (simp only: fold.simps o_apply) simp
  next
    case False
    with Cons show ?thesis by auto
  qed
qed simp

text \<open>
  C36. The abbreviations of a unit are read back from their table: every abbreviation encoded
  there is found under its code, and no other code has one.
\<close>

theorem read_abbrevs_table:
  assumes "\<forall>a\<in>set abvs. abbrev_wf a" "distinct (map ab_code abvs)" "cu_abbrevs cu = []"
    and "unat (cu_abbrevs_offset cu) \<le> length (rd_data r)"
      "drop (unat (cu_abbrevs_offset cu)) (rd_data r) = concat (map abbrev_enc abvs) @ 0 # rest"
  shows "\<exists>cu' r'. read_abbrevs cu r = Inr (cu', r') \<and> (\<forall>a\<in>set abvs. get_abbrev cu' (ab_code a) = Some a)
    \<and> (\<forall>code. code \<notin> ab_code ` set abvs \<longrightarrow> get_abbrev cu' code = None)"
proof -
  let ?r = "snd (seek (unat (cu_abbrevs_offset cu)) r)"
  have "rd_rest ?r = concat (map abbrev_enc abvs) @ 0 # rest" using assms(4,5) by (simp add: seek_def rd_rest_def)
  from abbrevs_loop_enc [OF assms(1) this, of "[]"] obtain as' r' where
    l: "abbrevs_loop [] ?r = Inr (as', r')" "abbrev_lookup as' = fold (\<lambda>a m. m(unat (ab_code a) \<mapsto> a)) abvs (abbrev_lookup [])"
    by blast
  let ?cu = "cu\<lparr>cu_abbrevs := as'\<rparr>"
  have g: "get_abbrev ?cu code = abbrev_lookup as' (unat code)" for code
    by (simp add: get_abbrev_def abbrev_lookup_def)
  have "read_abbrevs cu r = Inr (?cu, r')" using l(1) assms(3) by (simp add: read_abbrevs_def)
  moreover have "\<forall>a\<in>set abvs. get_abbrev ?cu (ab_code a) = Some a"
    using fold_put_in [OF assms(2)] by (simp add: g l(2))
  moreover have "\<forall>code. code \<notin> ab_code ` set abvs \<longrightarrow> get_abbrev ?cu code = None"
  proof (intro allI impI)
    fix code assume "code \<notin> ab_code ` set abvs"
    then have "unat code \<notin> (\<lambda>a. unat (ab_code a)) ` set abvs" by (auto simp: image_iff unsigned_word_eqI)
    from fold_put_notin [OF this] show "get_abbrev ?cu code = None"
      unfolding g l(2) by (simp add: abbrev_lookup_def)
  qed
  ultimately show ?thesis by blast
qed

definition demo_abbrev :: abbrev_t where
  "demo_abbrev = \<lparr>ab_code = 1, ab_tag = DW_TAG_subprogram, ab_children = 0,
     ab_attr_specs = [(DW_AT_name, DW_FORM_string), (DW_AT_low_pc, DW_FORM_addr)]\<rparr>"

theorem read_abbrevs_table_witness:
  "\<exists>cu' r'. read_abbrevs (compile_unit_new 0 0) (mk_reader (abbrev_enc demo_abbrev @ [0]) False) = Inr (cu', r')
     \<and> get_abbrev cu' 1 = Some demo_abbrev \<and> get_abbrev cu' 2 = None"
proof -
  have "\<exists>cu' r'. read_abbrevs (compile_unit_new 0 0) (mk_reader (abbrev_enc demo_abbrev @ [0]) False) = Inr (cu', r')
      \<and> (\<forall>a\<in>set [demo_abbrev]. get_abbrev cu' (ab_code a) = Some a)
      \<and> (\<forall>code. code \<notin> ab_code ` set [demo_abbrev] \<longrightarrow> get_abbrev cu' code = None)"
    by (rule read_abbrevs_table [where rest = "[]"])
       (simp_all add: abbrev_wf_def demo_abbrev_def compile_unit_new_def mk_reader_def)
  then show ?thesis by (auto simp: demo_abbrev_def)
qed

end
