(* ===== verification/NP_Walker.thy ===== *)
theory NP_Walker
  imports NP_Dwarf
begin

text \<open>
  \<^verbatim>\<open>np/spiegel/dwarf/walker.cxx\<close>: walking over the entries of a compile unit, forwards in
  preorder, to the next sibling, to the first child, to a reference and up to the parent. The
  state the walker looks things up in is the vector of compile units and the sections of the
  link objects. The loops end because every entry read takes at least one byte.
\<close>

section \<open>State\<close>

record dwarf_t =
  dw_units :: "compile_unit_t list"
  dw_contents :: "nat \<Rightarrow> nat \<Rightarrow> u8 list"

record walker_t =
  wk_unit :: compile_unit_t
  wk_reader :: reader_t
  wk_entry :: entry_t
  wk_level :: u32
  wk_filter_tag :: u32

datatype re_result = RE_EOF | RE_EOL | RE_OK | RE_FILTERED

definition walker_new :: "compile_unit_t \<Rightarrow> walker_t" where
  "walker_new cu = \<lparr>wk_unit = cu, wk_reader = get_contents cu, wk_entry = entry_init, wk_level = 0, wk_filter_tag = 0\<rparr>"

text \<open>The copy constructor keeps the position and the level of the entry, not its attributes.\<close>

definition walker_copy :: "walker_t \<Rightarrow> walker_t" where
  "walker_copy w = w\<lparr>wk_entry := partial_setup (en_offset (wk_entry w)) (en_level (wk_entry w)) None entry_init\<rparr>"

definition set_filter_tag :: "u32 \<Rightarrow> walker_t \<Rightarrow> walker_t" where
  "set_filter_tag tag w = w\<lparr>wk_filter_tag := tag\<rparr>"

definition get_reference :: "walker_t \<Rightarrow> reference_t" where
  "get_reference w = cu_make_reference (wk_unit w) (en_offset (wk_entry w))"

text \<open>
  Resolving a reference: a unit resolves its own offsets; a link object asks the state for the
  unit that covers the offset.
\<close>

definition resolve_link_object_reference :: "dwarf_t \<Rightarrow> nat \<Rightarrow> u64 \<Rightarrow> (compile_unit_t \<times> u64) option" where
  "resolve_link_object_reference dw lo off =
     map_option (\<lambda>cu. (cu, off - cu_offset cu))
       (List.find (\<lambda>cu. lo = cu_link_object cu \<and> cu_offset cu \<le> off \<and> off < get_end_offset cu) (dw_units dw))"

definition resolve :: "dwarf_t \<Rightarrow> reference_t \<Rightarrow> (compile_unit_t \<times> u64) option" where
  "resolve dw rf =
     (case rf_resolver rf of
        None \<Rightarrow> None
      | Some (Res_Unit i) \<Rightarrow> if i < length (dw_units dw) then Some (dw_units dw ! i, rf_offset rf) else None
      | Some (Res_Link_Object lo) \<Rightarrow> resolve_link_object_reference dw lo (rf_offset rf))"

definition wk_seek :: "dwarf_t \<Rightarrow> reference_t \<Rightarrow> walker_t \<Rightarrow> np_error + walker_t" where
  "wk_seek dw rf w =
     (case resolve dw rf of
        None \<Rightarrow> Inl Assert_Failed
      | Some (cu, off) \<Rightarrow>
          Inr (w\<lparr>wk_unit := cu, wk_reader := snd (seek (unat off) (get_contents cu)), wk_level := 0\<rparr>))"

definition walker_at :: "dwarf_t \<Rightarrow> reference_t \<Rightarrow> np_error + walker_t" where
  "walker_at dw rf = wk_seek dw rf (walker_new (compile_unit_new 0 0))"

section \<open>Attributes\<close>

definition attr_of :: "('a \<Rightarrow> value_t) \<Rightarrow> 'a rd \<Rightarrow> reader_t \<Rightarrow> np_error + value_t option \<times> reader_t" where
  "attr_of f m r = (case m r of (x, r') \<Rightarrow> Inr (map_option f x, r'))"

definition read_strp :: "dwarf_t \<Rightarrow> compile_unit_t \<Rightarrow> string rd" where
  "read_strp dw cu =
     rd_bind (if cu_version cu = 2 then rd_bind read_u32 (\<lambda>o32. rd_return (ucast o32)) else read_offset)
       (\<lambda>off r. (offset_as_string (dw_contents dw (cu_link_object cu) DW_sec_str) off, r))"

definition read_attr :: "dwarf_t \<Rightarrow> compile_unit_t \<Rightarrow> u32 \<Rightarrow> reader_t \<Rightarrow> np_error + value_t option \<times> reader_t" where
  "read_attr dw cu form r =
     (if form = DW_FORM_data1 then attr_of (\<lambda>v. T_UINT32 (ucast v)) read_u8 r
      else if form = DW_FORM_data2 then attr_of (\<lambda>v. T_UINT32 (ucast v)) read_u16 r
      else if form = DW_FORM_data4 then attr_of T_UINT32 read_u32 r
      else if form = DW_FORM_data8 \<or> form = DW_FORM_ref_sig8 then attr_of T_UINT64 read_u64 r
      else if form = DW_FORM_udata then attr_of T_UINT32 read_uleb128 r
      else if form = DW_FORM_sdata then attr_of T_SINT32 read_sleb128 r
      else if form = DW_FORM_addr then attr_of make_addr read_addr r
      else if form = DW_FORM_flag then attr_of (\<lambda>v. T_UINT32 (ucast v)) read_u8 r
      else if form = DW_FORM_ref1 then attr_of (\<lambda>off. T_REF (cu_make_reference cu (ucast off))) read_u8 r
      else if form = DW_FORM_ref2 then attr_of (\<lambda>off. T_REF (cu_make_reference cu (ucast off))) read_u16 r
      else if form = DW_FORM_ref4 then attr_of (\<lambda>off. T_REF (cu_make_reference cu off)) read_u32 r
      else if form = DW_FORM_ref8 then attr_of (\<lambda>off. T_REF (cu_make_reference cu (ucast off))) read_u64 r
      else if form = DW_FORM_ref_addr
      then attr_of (\<lambda>off. T_REF (reference_make (Res_Link_Object (cu_link_object cu)) off)) read_offset r
      else if form = DW_FORM_string then attr_of T_STRING read_string r
      else if form = DW_FORM_strp then attr_of T_STRING (read_strp dw cu) r
      else if form = DW_FORM_block1 then attr_of T_BYTES (rd_bind read_u8 (\<lambda>len. read_bytes (unat len))) r
      else if form = DW_FORM_block2 then attr_of T_BYTES (rd_bind read_u16 (\<lambda>len. read_bytes (unat len))) r
      else if form = DW_FORM_block4 then attr_of T_BYTES (rd_bind read_u32 (\<lambda>len. read_bytes (unat len))) r
      else if form = DW_FORM_block \<or> form = DW_FORM_exprloc
      then attr_of T_BYTES (rd_bind read_uleb128 (\<lambda>len. read_bytes (unat len))) r
      else if form = DW_FORM_sec_offset then attr_of make_offset read_offset r
      else if form = DW_FORM_flag_present then Inr (Some (T_UINT32 1), r)
      else Inl (Fatal_Exit (''Can't handle '' @ to_name formvals (sint form))))"

fun read_attributes ::
  "dwarf_t \<Rightarrow> compile_unit_t \<Rightarrow> attr_spec_t list \<Rightarrow> entry_t \<Rightarrow> reader_t \<Rightarrow> np_error + bool \<times> entry_t \<times> reader_t" where
  "read_attributes dw cu [] e r = Inr (True, e, r)"
| "read_attributes dw cu ((nm, form) # specs) e r =
     bindE (read_attr dw cu form r) (\<lambda>(v, r').
       case v of None \<Rightarrow> Inr (False, e, r') | Some x \<Rightarrow> read_attributes dw cu specs (add_attribute nm x e) r')"

definition skipped :: "unit rd \<Rightarrow> reader_t \<Rightarrow> np_error + bool \<times> reader_t" where
  "skipped m r = (case m r of (x, r') \<Rightarrow> Inr (x \<noteq> None, r'))"

text \<open>Two forms are skipped without looking at the result.\<close>

definition skip_attr :: "compile_unit_t \<Rightarrow> u32 \<Rightarrow> reader_t \<Rightarrow> np_error + bool \<times> reader_t" where
  "skip_attr cu form r =
     (if form = DW_FORM_data1 then skipped skip_u8 r
      else if form = DW_FORM_data2 then skipped skip_u16 r
      else if form = DW_FORM_data4 then skipped skip_u32 r
      else if form = DW_FORM_data8 then skipped skip_u64 r
      else if form = DW_FORM_udata then skipped skip_uleb128 r
      else if form = DW_FORM_sdata then skipped skip_sleb128 r
      else if form = DW_FORM_addr then skipped skip_addr r
      else if form = DW_FORM_flag then skipped skip_u8 r
      else if form = DW_FORM_ref1 then skipped skip_u8 r
      else if form = DW_FORM_ref2 then skipped skip_u16 r
      else if form = DW_FORM_ref4 then skipped skip_u32 r
      else if form = DW_FORM_ref8 then skipped skip_u64 r
      else if form = DW_FORM_ref_addr then skipped skip_offset r
      else if form = DW_FORM_string then skipped skip_string r
      else if form = DW_FORM_strp then skipped (if cu_version cu = 2 then skip_u32 else skip_offset) r
      else if form = DW_FORM_block1 then skipped (rd_bind read_u8 (\<lambda>len. skip_bytes (unat len))) r
      else if form = DW_FORM_block2 then skipped (rd_bind read_u16 (\<lambda>len. skip_bytes (unat len))) r
      else if form = DW_FORM_block4 then skipped (rd_bind read_u32 (\<lambda>len. skip_bytes (unat len))) r
      else if form = DW_FORM_block \<or> form = DW_FORM_exprloc
      then skipped (rd_bind read_uleb128 (\<lambda>len. skip_bytes (unat len))) r
      else if form = DW_FORM_sec_offset then Inr (True, snd (skip_offset r))
      else if form = DW_FORM_flag_present then Inr (True, r)
      else if form = DW_FORM_ref_sig8 then Inr (True, snd (skip_u64 r))
      else Inl (Fatal_Exit (''Can't handle '' @ to_name formvals (sint form))))"

fun skip_attributes :: "compile_unit_t \<Rightarrow> attr_spec_t list \<Rightarrow> reader_t \<Rightarrow> np_error + bool \<times> reader_t" where
  "skip_attributes cu [] r = Inr (True, r)"
| "skip_attributes cu ((nm, form) # specs) r =
     bindE (skip_attr cu form r) (\<lambda>(ok, r'). if ok then skip_attributes cu specs r' else Inr (False, r'))"

section \<open>Reading an entry\<close>

definition read_entry :: "dwarf_t \<Rightarrow> walker_t \<Rightarrow> np_error + re_result \<times> walker_t" where
  "read_entry dw w =
     (let off = of_nat (get_offset (wk_reader w))
      in case read_uleb128 (wk_reader w) of
        (None, r1) \<Rightarrow> Inr (RE_EOF, w\<lparr>wk_reader := r1\<rparr>)
      | (Some acode, r1) \<Rightarrow>
          if acode = 0 then
            (if wk_level w = 0 then Inr (RE_EOF, w\<lparr>wk_reader := r1\<rparr>)
             else Inr (RE_EOL, w\<lparr>wk_reader := r1, wk_level := wk_level w - 1\<rparr>))
          else case get_abbrev (wk_unit w) acode of
            None \<Rightarrow> Inl (Fatal_Exit ''no abbrev'')
          | Some a \<Rightarrow>
              let level' = (if ab_children a \<noteq> 0 then wk_level w + 1 else wk_level w)
              in if wk_filter_tag w \<noteq> 0 \<and> ab_tag a \<noteq> wk_filter_tag w
                 then bindE (skip_attributes (wk_unit w) (ab_attr_specs a) r1) (\<lambda>(ok, r2).
                   Inr (if ok then RE_FILTERED else RE_EOF,
                     w\<lparr>wk_reader := r2, wk_entry := partial_setup off (wk_level w) (Some a) (wk_entry w),
                       wk_level := level'\<rparr>))
                 else bindE (read_attributes dw (wk_unit w) (ab_attr_specs a)
                       (entry_setup off (wk_level w) a (wk_entry w)) r1) (\<lambda>(ok, e, r2).
                   Inr (if ok then RE_OK else RE_EOF, w\<lparr>wk_reader := r2, wk_entry := e, wk_level := level'\<rparr>)))"

lemma attr_of_moved: "reader_op m \<Longrightarrow> attr_of f m r = Inr (v, r') \<Longrightarrow> rd_moved r r'"
  by (auto simp: attr_of_def split: prod.splits dest: reader_op_moved)

lemma read_strp_op: "reader_op (read_strp dw cu)"
proof -
  have "reader_op (\<lambda>r. (x, r))" for x :: "string option"
    by (rule reader_op_movedI) (auto simp: rd_moved_refl)
  moreover have "reader_op (if cu_version cu = 2 then rd_bind read_u32 (\<lambda>o32. rd_return (ucast o32)) else read_offset)"
    by (auto intro: reader_op_bind reader_op_return read_u32_op.reader_op_axioms read_offset_op.reader_op_axioms)
  ultimately show ?thesis unfolding read_strp_def by (intro reader_op_bind)
qed

lemmas attr_ops = fetch_ops read_u32_op.reader_op_axioms read_u64_op.reader_op_axioms
  read_offset_op.reader_op_axioms read_string_op.reader_op_axioms read_strp_op
  reader_op_bind [OF read_u8_op.reader_op_axioms read_bytes_op.reader_op_axioms]
  reader_op_bind [OF read_u16_op.reader_op_axioms read_bytes_op.reader_op_axioms]
  reader_op_bind [OF read_u32_op.reader_op_axioms read_bytes_op.reader_op_axioms]
  reader_op_bind [OF read_uleb128_op.reader_op_axioms read_bytes_op.reader_op_axioms]

lemma read_attr_moved: "read_attr dw cu form r = Inr (v, r') \<Longrightarrow> rd_moved r r'"
  unfolding read_attr_def
  by (auto split: if_splits intro: rd_moved_refl elim!: attr_of_moved [rotated] intro!: attr_ops)

lemma read_attributes_moved: "read_attributes dw cu specs e r = Inr (ok, e', r') \<Longrightarrow> rd_moved r r'"
proof (induction specs arbitrary: e r)
  case (Cons sp specs)
  obtain nm form where sp: "sp = (nm, form)" by (cases sp)
  with Cons.prems obtain v r1 where v: "read_attr dw cu form r = Inr (v, r1)"
    "(case v of None \<Rightarrow> Inr (False, e, r1) | Some x \<Rightarrow> read_attributes dw cu specs (add_attribute nm x e) r1) = Inr (ok, e', r')"
    by (auto simp: bindE_Inr_iff)
  from read_attr_moved [OF v(1)] v(2) Cons.IH show ?case
    by (auto split: option.splits intro: rd_moved_trans)
qed (simp add: rd_moved_refl)

text \<open>An attribute that can be read is skipped to the same place.\<close>

lemma skip_offset_forget: "rd_forget read_offset r = (Some (), r') \<Longrightarrow> skip_offset r = (Some (), r')"
  by (simp add: skip_offset_eq)

lemma attr_of_skipped:
  "attr_of f m r = Inr (Some v, r') \<Longrightarrow> skipped (rd_forget m) r = Inr (True, r')"
  by (auto simp: attr_of_def skipped_def rd_forget_def split: prod.splits)

lemma attr_of_forget:
  "attr_of f m r = Inr (Some v, r') \<Longrightarrow> rd_forget m r = (Some (), r')"
  by (auto simp: attr_of_def rd_forget_def split: prod.splits)

lemma read_bytes_skip: "read_bytes n r = (Some bs, r') \<Longrightarrow> skip_bytes n r = (Some (), r')"
  by (auto simp: read_bytes_def skip_bytes_def skip_def Let_def split: if_splits)

lemma attr_of_block_skipped:
  assumes "attr_of f (rd_bind m (\<lambda>len. read_bytes (g len))) r = Inr (Some v, r')"
  shows "skipped (rd_bind m (\<lambda>len. skip_bytes (g len))) r = Inr (True, r')"
  using assms
  by (auto simp: attr_of_def skipped_def rd_bind_def dest: read_bytes_skip split: prod.splits option.splits)

lemma attr_of_strp_skipped:
  assumes "attr_of f (read_strp dw cu) r = Inr (Some v, r')"
  shows "skipped (if cu_version cu = 2 then skip_u32 else skip_offset) r = Inr (True, r')"
  using assms unfolding skip_fixed_eq(3) skip_offset_eq read_strp_def
  by (auto simp: attr_of_def skipped_def rd_forget_def rd_bind_def rd_return_def split: prod.splits option.splits if_splits)

lemma skip_attr_read:
  assumes "read_attr dw cu form r = Inr (Some v, r')"
  shows "skip_attr cu form r = Inr (True, r')"
proof -
  note eqs = skip_fixed_eq skip_offset_eq skip_uleb128_eq skip_sleb128_eq skip_string_eq
  show ?thesis
    using assms unfolding read_attr_def skip_attr_def eqs
    by (auto split: if_splits dest: attr_of_skipped attr_of_block_skipped attr_of_strp_skipped [unfolded eqs] attr_of_forget)
qed

lemma skip_attributes_read:
  "read_attributes dw cu specs e r = Inr (True, e', r') \<Longrightarrow> skip_attributes cu specs r = Inr (True, r')"
proof (induction specs arbitrary: e r)
  case (Cons sp specs)
  obtain nm form where sp: "sp = (nm, form)" by (cases sp)
  with Cons.prems obtain x r1 where x: "read_attr dw cu form r = Inr (Some x, r1)"
    "read_attributes dw cu specs (add_attribute nm x e) r1 = Inr (True, e', r')"
    by (auto simp: bindE_Inr_iff split: option.splits)
  with sp Cons.IH [OF x(2)] skip_attr_read [OF x(1)] show ?case by simp
qed simp

lemma skipped_moved: "reader_op m \<Longrightarrow> skipped m r = Inr (ok, r') \<Longrightarrow> rd_moved r r'"
  by (auto simp: skipped_def split: prod.splits dest: reader_op_moved)

lemma reader_op_forget: "reader_op m \<Longrightarrow> reader_op (rd_forget m)"
  by (rule reader_op_movedI) (auto simp: rd_forget_def split: prod.splits dest: reader_op_moved)

lemma skip_bytes_op: "reader_op (skip_bytes n)"
  unfolding skip_bytes_def by (rule skip_op.reader_op_axioms)

lemma snd_moved: "reader_op m \<Longrightarrow> rd_moved r (snd (m r))"
  by (metis prod.collapse reader_op_moved)

lemmas skip_ops = attr_ops [THEN reader_op_forget] read_s8_op.reader_op_axioms [THEN reader_op_forget]
  reader_op_bind [OF read_u8_op.reader_op_axioms skip_bytes_op]
  reader_op_bind [OF read_u16_op.reader_op_axioms skip_bytes_op]
  reader_op_bind [OF read_u32_op.reader_op_axioms skip_bytes_op]
  reader_op_bind [OF read_uleb128_op.reader_op_axioms skip_bytes_op]

lemma skip_attr_moved: "skip_attr cu form r = Inr (ok, r') \<Longrightarrow> rd_moved r r'"
  unfolding skip_attr_def skip_fixed_eq skip_offset_eq skip_uleb128_eq skip_sleb128_eq skip_string_eq
  by (auto split: if_splits intro: rd_moved_refl snd_moved skip_ops elim!: skipped_moved [rotated] intro!: skip_ops)

lemma skip_attributes_moved: "skip_attributes cu specs r = Inr (ok, r') \<Longrightarrow> rd_moved r r'"
proof (induction specs arbitrary: r)
  case (Cons sp specs)
  obtain nm form where sp: "sp = (nm, form)" by (cases sp)
  with Cons.prems obtain b r1 where b: "skip_attr cu form r = Inr (b, r1)"
    "(if b then skip_attributes cu specs r1 else Inr (False, r1)) = Inr (ok, r')"
    by (auto simp: bindE_Inr_iff)
  from skip_attr_moved [OF b(1)] b(2) Cons.IH show ?case
    by (auto split: if_splits intro: rd_moved_trans)
qed (simp add: rd_moved_refl)

lemma read_entry_remains:
  assumes "read_entry dw w = Inr (res, w')" "res \<noteq> RE_EOF"
  shows "get_remains (wk_reader w') < get_remains (wk_reader w)"
proof -
  obtain x r1 where u: "read_uleb128 (wk_reader w) = (x, r1)" by fastforce
  with assms obtain acode where x: "x = Some acode"
    by (cases x) (auto simp: read_entry_def Let_def)
  have lt: "get_remains r1 < get_remains (wk_reader w)" using read_uleb128_remains u x by blast
  have "rd_moved r1 (wk_reader w')"
    using assms u x
    by (auto simp: read_entry_def Let_def bindE_Inr_iff split: if_splits option.splits
        intro: rd_moved_refl dest: skip_attributes_moved read_attributes_moved)
  with lt rd_moved_remains show ?thesis by fastforce
qed

section \<open>Moving\<close>

function move_preorder :: "dwarf_t \<Rightarrow> walker_t \<Rightarrow> np_error + bool \<times> walker_t" where
  "move_preorder dw w =
     (case read_entry dw w of
        Inl e \<Rightarrow> Inl e
      | Inr (res, w') \<Rightarrow>
          if res = RE_EOF then Inr (False, w') else if res = RE_OK then Inr (True, w') else move_preorder dw w')"
  by auto
termination
  by (relation "measure (\<lambda>(dw, w). get_remains (wk_reader w))") (auto dest: read_entry_remains)

declare move_preorder.simps [simp del]

definition move_to :: "dwarf_t \<Rightarrow> reference_t \<Rightarrow> walker_t \<Rightarrow> np_error + bool \<times> walker_t" where
  "move_to dw rf w =
     bindE (wk_seek dw rf w) (\<lambda>w1. bindE (read_entry dw w1) (\<lambda>(res, w2). Inr (res = RE_OK, w2)))"

text \<open>The loop of \<^verbatim>\<open>move_next\<close>.\<close>

function next_loop :: "dwarf_t \<Rightarrow> u32 \<Rightarrow> walker_t \<Rightarrow> np_error + bool \<times> walker_t" where
  "next_loop dw target w =
     (if wk_level w < target
      then Inr (False, if target \<noteq> 0
                 then w\<lparr>wk_entry := partial_setup (en_offset (wk_entry w)) (target - 1) None (wk_entry w)\<rparr> else w)
      else case read_entry dw w of
        Inl e \<Rightarrow> Inl e
      | Inr (res, w') \<Rightarrow>
          if res = RE_EOF then Inr (False, w')
          else if res = RE_OK \<and> en_level (wk_entry w') = target then Inr (True, w')
          else next_loop dw target w')"
  by auto
termination
  by (relation "measure (\<lambda>(dw, target, w). get_remains (wk_reader w))") (auto dest: read_entry_remains)

declare next_loop.simps [simp del]

definition move_next :: "dwarf_t \<Rightarrow> walker_t \<Rightarrow> np_error + bool \<times> walker_t" where
  "move_next dw w =
     (case get_attribute DW_AT_sibling (wk_entry w) of
        Some (T_REF rf) \<Rightarrow> move_to dw rf w
      | _ \<Rightarrow> next_loop dw (en_level (wk_entry w)) w)"

definition move_down :: "dwarf_t \<Rightarrow> walker_t \<Rightarrow> np_error + bool \<times> walker_t" where
  "move_down dw w =
     bindE (has_children (wk_entry w)) (\<lambda>hc.
       if \<not> hc then Inr (False, w) else bindE (read_entry dw w) (\<lambda>(res, w'). Inr (res = RE_OK, w')))"

text \<open>The loop of \<^verbatim>\<open>get_path\<close>; removing from an empty path is undefined.\<close>

function path_loop :: "dwarf_t \<Rightarrow> reference_t \<Rightarrow> walker_t \<Rightarrow> reference_t list \<Rightarrow> np_error + reference_t list" where
  "path_loop dw target w path =
     (case read_entry dw w of
        Inl e \<Rightarrow> Inl e
      | Inr (res, w') \<Rightarrow>
          if res = RE_EOF then Inr path
          else if res = RE_EOL
          then (if path = [] then Inl Out_Of_Range else path_loop dw target w' (butlast path))
          else if target = get_reference w' then Inr (path @ [get_reference w'])
          else (case has_children (wk_entry w') of
                  Inl e \<Rightarrow> Inl e
                | Inr hc \<Rightarrow> path_loop dw target w' (if hc then path @ [get_reference w'] else path)))"
  by auto
termination
  by (relation "measure (\<lambda>(dw, target, w, path). get_remains (wk_reader w))") (auto dest: read_entry_remains)

declare path_loop.simps [simp del]

definition get_path :: "dwarf_t \<Rightarrow> walker_t \<Rightarrow> np_error + reference_t list" where
  "get_path dw w = path_loop dw (get_reference w) (walker_new (wk_unit w)) []"

definition move_up :: "dwarf_t \<Rightarrow> walker_t \<Rightarrow> np_error + bool \<times> walker_t" where
  "move_up dw w =
     bindE (get_path dw w) (\<lambda>path.
       if length path > 1 then move_to dw (path ! (length path - 2)) w else Inr (False, w))"

text \<open>The attributes of a unit's own entry, read while the unit is being set up.\<close>

definition cu_read_attributes :: "dwarf_t \<Rightarrow> compile_unit_t \<Rightarrow> np_error + compile_unit_t option" where
  "cu_read_attributes dw cu =
     bindE (walker_at (dw\<lparr>dw_units := dw_units dw @ [cu]\<rparr>) (make_root_reference cu)) (\<lambda>w.
     bindE (move_next (dw\<lparr>dw_units := dw_units dw @ [cu]\<rparr>) w) (\<lambda>(ok, w').
       let e = wk_entry w'
       in Inr (if \<not> ok then None
               else Some (cu\<lparr>cu_filename := get_string_attribute DW_AT_name e,
                             cu_compilation_directory := get_string_attribute DW_AT_comp_dir e,
                             cu_low_pc := get_uint64_attribute DW_AT_low_pc e,
                             cu_high_pc := get_uint64_attribute DW_AT_high_pc e,
                             cu_language := get_uint32_attribute DW_AT_language e\<rparr>))))"

section \<open>Attributes of an entry\<close>

lemma name_to_index_inj:
  "name_to_index a = name_to_index b \<Longrightarrow> 0 \<le> name_to_index a \<Longrightarrow> a = b"
  by (auto simp: name_to_index_def Let_def signed_word_eqI split: if_splits)

text \<open>The attributes of an entry whose older values are all out of date.\<close>

definition add_all :: "(u32 \<times> value_t) list \<Rightarrow> entry_t \<Rightarrow> entry_t" where
  "add_all nvs e = fold (\<lambda>(nm, v). add_attribute nm v) nvs e"

lemma add_attribute_fields [simp]:
  "en_offset (add_attribute nm v e) = en_offset e" "en_level (add_attribute nm v e) = en_level e"
  "en_abbrev (add_attribute nm v e) = en_abbrev e" "en_latest (add_attribute nm v e) = en_latest e"
  by (simp_all add: add_attribute_def Let_def)

lemma add_all_fields [simp]:
  "en_offset (add_all nvs e) = en_offset e" "en_level (add_all nvs e) = en_level e"
  "en_abbrev (add_all nvs e) = en_abbrev e" "en_latest (add_all nvs e) = en_latest e"
  by (induction nvs arbitrary: e) (auto simp: add_all_def split_beta)

lemma add_attribute_generation:
  "(\<forall>i. en_generation e i \<le> en_latest e) \<Longrightarrow> (\<forall>i. en_generation (add_attribute nm v e) i \<le> en_latest e)"
  by (simp add: add_attribute_def Let_def)

lemma add_all_generation:
  "(\<forall>i. en_generation e i \<le> en_latest e) \<Longrightarrow> (\<forall>i. en_generation (add_all nvs e) i \<le> en_latest e)"
proof (induction nvs arbitrary: e)
  case (Cons nv nvs)
  then show ?case
    using add_attribute_generation [of e "fst nv" "snd nv"] Cons.IH [of "add_attribute (fst nv) (snd nv) e"]
    by (simp add: add_all_def split_beta)
qed (simp add: add_all_def)

lemma get_add_attribute:
  "get_attribute nm (add_attribute n v e) =
     (if nm = n \<and> 0 \<le> name_to_index nm then Some v else get_attribute nm e)"
proof (cases "nm = n")
  case False
  then have "name_to_index n < 0 \<or> name_to_index nm < 0 \<or> nat (name_to_index nm) \<noteq> nat (name_to_index n)"
    using name_to_index_inj [of nm n] by (auto simp: nat_eq_iff)
  with False show ?thesis by (auto simp: get_attribute_def add_attribute_def Let_def)
qed (simp add: get_attribute_def add_attribute_def Let_def)

lemma get_add_all:
  assumes "\<forall>i. en_generation e i \<noteq> en_latest e"
  shows "get_attribute nm (add_all nvs e) = (if 0 \<le> name_to_index nm then map_of (rev nvs) nm else None)"
proof (induction nvs rule: rev_induct)
  case Nil
  then show ?case using assms by (simp add: add_all_def get_attribute_def Let_def)
next
  case (snoc nv nvs)
  have "add_all (nvs @ [nv]) e = add_attribute (fst nv) (snd nv) (add_all nvs e)"
    by (simp add: add_all_def split_beta)
  then show ?case using snoc by (cases nv) (auto simp: get_add_attribute)
qed

section \<open>Encoded entries\<close>

text \<open>
  How the standard encodes an attribute of each form, for a unit: the bytes and the value they
  stand for. The length of a block is stored before it.
\<close>

inductive attr_encodes :: "dwarf_t \<Rightarrow> compile_unit_t \<Rightarrow> u32 \<Rightarrow> u8 list \<Rightarrow> value_t \<Rightarrow> bool" for dw cu where
  enc_data1: "attr_encodes dw cu DW_FORM_data1 [b] (T_UINT32 (ucast b))"
| enc_data2: "attr_encodes dw cu DW_FORM_data2 (bytes_of_u16 h) (T_UINT32 (ucast h))"
| enc_data4: "attr_encodes dw cu DW_FORM_data4 (bytes_of_u32 v) (T_UINT32 v)"
| enc_data8: "attr_encodes dw cu DW_FORM_data8 (bytes_of_u64 x) (T_UINT64 x)"
| enc_udata: "attr_encodes dw cu DW_FORM_udata (uleb_enc (unat v)) (T_UINT32 v)"
| enc_addr: "attr_encodes dw cu DW_FORM_addr (bytes_of_u64 x) (T_UINT64 x)"
| enc_flag: "attr_encodes dw cu DW_FORM_flag [b] (T_UINT32 (ucast b))"
| enc_ref1: "attr_encodes dw cu DW_FORM_ref1 [b] (T_REF (cu_make_reference cu (ucast b)))"
| enc_ref2: "attr_encodes dw cu DW_FORM_ref2 (bytes_of_u16 h) (T_REF (cu_make_reference cu (ucast h)))"
| enc_ref4: "attr_encodes dw cu DW_FORM_ref4 (bytes_of_u32 v) (T_REF (cu_make_reference cu v))"
| enc_ref8: "attr_encodes dw cu DW_FORM_ref8 (bytes_of_u64 (ucast v)) (T_REF (cu_make_reference cu v))"
| enc_string: "c_string s \<Longrightarrow> attr_encodes dw cu DW_FORM_string (bytes_of_string s @ [0]) (T_STRING s)"
| enc_strp: "offset_as_string (dw_contents dw (cu_link_object cu) DW_sec_str) (ucast v) = Some s \<Longrightarrow>
    \<not> rd_is64 (cu_reader cu) \<Longrightarrow> attr_encodes dw cu DW_FORM_strp (bytes_of_u32 v) (T_STRING s)"
| enc_block1: "length bs < 256 \<Longrightarrow> attr_encodes dw cu DW_FORM_block1 (of_nat (length bs) # bs) (T_BYTES bs)"
| enc_exprloc: "length bs < 2 ^ 32 \<Longrightarrow> attr_encodes dw cu DW_FORM_exprloc (uleb_enc (length bs) @ bs) (T_BYTES bs)"
| enc_sec_offset: "\<not> rd_is64 (cu_reader cu) \<Longrightarrow> attr_encodes dw cu DW_FORM_sec_offset (bytes_of_u32 v) (T_UINT64 (ucast v))"
| enc_flag_present: "attr_encodes dw cu DW_FORM_flag_present [] (T_UINT32 1)"
| enc_ref_sig8: "attr_encodes dw cu DW_FORM_ref_sig8 (bytes_of_u64 x) (T_UINT64 x)"

lemma attr_of_fetched: "fetched m x r rest \<Longrightarrow> \<exists>r'. attr_of f m r = Inr (Some (f x), r') \<and> rd_rest r' = rest"
  by (auto simp: fetched_def attr_of_def)

lemma fetched_u64: "rd_rest r = bytes_of_u64 v @ rest \<Longrightarrow> fetched read_u64 v r rest"
  using fetched_addr by (simp add: read_addr_def)

lemma fetched_offset_32:
  assumes "rd_rest r = bytes_of_u32 v @ rest" "\<not> rd_is64 r"
  shows "fetched read_offset (ucast v) r rest"
  using fetched_u32 [OF assms(1)] assms(2) by (auto simp: fetched_def read_offset_def read_u32_64_def)

lemma fetched_bytes:
  assumes "rd_rest r = bs @ rest" "rest \<noteq> []"
  shows "fetched (read_bytes (length bs)) bs r rest"
proof -
  have "rd_pos r + length bs < length (rd_data r)"
    using arg_cong [OF assms(1), of length] assms(2) by (cases rest) (auto simp: length_rd_rest)
  with assms(1) show ?thesis
    using rd_rest_advance [of r "length bs"] by (simp add: fetched_def read_bytes_def Let_def)
qed

lemma fetched_strp:
  assumes "rd_rest r = bytes_of_u32 v @ rest" "\<not> rd_is64 r"
    "offset_as_string (dw_contents dw (cu_link_object cu) DW_sec_str) (ucast v) = Some s"
  shows "fetched (read_strp dw cu) s r rest"
proof -
  have "fetched (rd_bind read_u32 (\<lambda>o32. rd_return (ucast o32))) (ucast v :: u64) r rest"
    by (rule fetched_bind [OF fetched_u32 [OF assms(1)]]) (simp add: fetched_def rd_return_def)
  then have "fetched (if cu_version cu = 2 then rd_bind read_u32 (\<lambda>o32. rd_return (ucast o32)) else read_offset)
      (ucast v) r rest" using fetched_offset_32 [OF assms(1,2)] by simp
  then show ?thesis
    unfolding read_strp_def by (rule fetched_bind) (simp add: fetched_def assms(3))
qed

lemma fetched_block1:
  assumes "rd_rest r = of_nat (length bs) # bs @ rest" "length bs < 256" "rest \<noteq> []"
  shows "fetched (rd_bind read_u8 (\<lambda>len. read_bytes (unat len))) bs r rest"
  using fetched_bytes [OF _ assms(3)] unat_of_nat_u8 [OF assms(2)]
  by (intro fetched_bind [OF fetched_u8 [OF assms(1)]]) simp

lemma fetched_exprloc:
  assumes "rd_rest r = uleb_enc (length bs) @ bs @ rest" "length bs < 2 ^ 32" "rest \<noteq> []"
  shows "fetched (rd_bind read_uleb128 (\<lambda>len. read_bytes (unat len))) bs r rest"
proof -
  note u = unat_of_nat_u32 [OF assms(2)]
  have "rd_rest r = uleb_enc (unat (of_nat (length bs) :: u32)) @ bs @ rest" using assms(1) u by simp
  note len = fetched_uleb_enc [OF this]
  show ?thesis
    by (rule fetched_bind [OF len]) (simp only: u fetched_bytes [OF _ assms(3)])
qed

lemma read_attr_encoded:
  assumes "attr_encodes dw cu form bs v" "rd_rest r = bs @ rest" "rest \<noteq> []" "rd_is64 r = rd_is64 (cu_reader cu)"
  shows "\<exists>r'. read_attr dw cu form r = Inr (Some v, r') \<and> rd_rest r' = rest"
  using assms(1)
proof cases
  case (enc_data1 b)
  with assms attr_of_fetched [OF fetched_u8, of r b rest] show ?thesis by (simp add: read_attr_def)
next
  case (enc_data2 h)
  with assms attr_of_fetched [OF fetched_u16, of r h rest] show ?thesis by (simp add: read_attr_def)
next
  case (enc_data4 v)
  with assms attr_of_fetched [OF fetched_u32, of r v rest] show ?thesis by (simp add: read_attr_def)
next
  case (enc_data8 x)
  with assms attr_of_fetched [OF fetched_u64, of r x rest] show ?thesis by (simp add: read_attr_def)
next
  case (enc_udata v)
  with assms attr_of_fetched [OF fetched_uleb_enc, of r v rest] show ?thesis by (simp add: read_attr_def)
next
  case (enc_addr x)
  with assms attr_of_fetched [OF fetched_addr, of r x rest make_addr] show ?thesis by (simp add: read_attr_def make_addr_def)
next
  case (enc_flag b)
  with assms attr_of_fetched [OF fetched_u8, of r b rest] show ?thesis by (simp add: read_attr_def)
next
  case (enc_ref1 b)
  with assms attr_of_fetched [OF fetched_u8, of r b rest] show ?thesis by (simp add: read_attr_def)
next
  case (enc_ref2 h)
  with assms attr_of_fetched [OF fetched_u16, of r h rest] show ?thesis by (simp add: read_attr_def)
next
  case (enc_ref4 v)
  with assms attr_of_fetched [OF fetched_u32, of r v rest "\<lambda>off. T_REF (cu_make_reference cu off)"]
  show ?thesis by (simp add: read_attr_def)
next
  case (enc_ref8 v)
  with assms attr_of_fetched [OF fetched_u64, of r "ucast v" rest "\<lambda>off. T_REF (cu_make_reference cu (ucast off))"]
  show ?thesis by (simp add: read_attr_def ucast_u64_u32)
next
  case (enc_string s)
  with assms attr_of_fetched [OF fetched_string, of s r rest T_STRING] show ?thesis by (simp add: read_attr_def)
next
  case (enc_strp v s)
  with assms attr_of_fetched [OF fetched_strp, of r v rest dw cu s T_STRING] show ?thesis by (simp add: read_attr_def)
next
  case (enc_block1 bs)
  with assms attr_of_fetched [OF fetched_block1, of r bs rest T_BYTES] show ?thesis by (simp add: read_attr_def)
next
  case (enc_exprloc bs)
  with assms attr_of_fetched [OF fetched_exprloc, of r bs rest T_BYTES] show ?thesis by (simp add: read_attr_def)
next
  case (enc_sec_offset v)
  with assms attr_of_fetched [OF fetched_offset_32, of r v rest make_offset]
  show ?thesis by (simp add: read_attr_def make_offset_def)
next
  case enc_flag_present
  with assms show ?thesis by (simp add: read_attr_def)
next
  case (enc_ref_sig8 x)
  with assms attr_of_fetched [OF fetched_u64, of r x rest] show ?thesis by (simp add: read_attr_def)
qed

lemma read_attributes_encoded:
  assumes "list_all2 (\<lambda>(nm, form) (bs, v). attr_encodes dw cu form bs v) specs attrs"
    "rd_rest r = concat (map fst attrs) @ rest" "rest \<noteq> []" "rd_is64 r = rd_is64 (cu_reader cu)"
  shows "\<exists>r'. read_attributes dw cu specs e r = Inr (True, add_all (zip (map fst specs) (map snd attrs)) e, r')
    \<and> rd_rest r' = rest"
  using assms
proof (induction specs attrs arbitrary: e r rule: list_all2_induct)
  case Nil
  then show ?case by (simp add: add_all_def)
next
  case (Cons sp specs at attrs)
  obtain nm form bs v where sp: "sp = (nm, form)" "at = (bs, v)" by (cases sp, cases at)
  have "rd_rest r = bs @ concat (map fst attrs) @ rest" "concat (map fst attrs) @ rest \<noteq> []"
    using Cons.prems sp by simp_all
  moreover have "attr_encodes dw cu form bs v" using Cons.hyps(1) sp by simp
  ultimately obtain r1 where r1: "read_attr dw cu form r = Inr (Some v, r1)" "rd_rest r1 = concat (map fst attrs) @ rest"
    using read_attr_encoded Cons.prems(3) by blast
  have "rd_is64 r1 = rd_is64 (cu_reader cu)"
    using read_attr_moved [OF r1(1)] Cons.prems(3) by (simp add: rd_moved_def)
  from Cons.IH [OF r1(2) Cons.prems(2) this, of "add_attribute nm v e"] r1(1) sp
  show ?case by (simp add: add_all_def)
qed

section \<open>Trees of entries\<close>

text \<open>
  An entry with its attributes as encoded bytes and values, and its children: the empty choice
  for an abbreviation without the children flag.
\<close>

datatype die = Die (die_code: u32) (die_attrs: "(u8 list \<times> value_t) list") (die_kids: "die list option")

fun die_bytes :: "die \<Rightarrow> u8 list" and forest_bytes :: "die list \<Rightarrow> u8 list" where
  "die_bytes (Die code attrs None) = uleb_enc (unat code) @ concat (map fst attrs)"
| "die_bytes (Die code attrs (Some kids)) = uleb_enc (unat code) @ concat (map fst attrs) @ forest_bytes kids @ [0]"
| "forest_bytes [] = []"
| "forest_bytes (d # ds) = die_bytes d @ forest_bytes ds"

definition head_wf :: "dwarf_t \<Rightarrow> compile_unit_t \<Rightarrow> u32 \<Rightarrow> (u8 list \<times> value_t) list \<Rightarrow> bool \<Rightarrow> bool" where
  "head_wf dw cu code attrs flag \<longleftrightarrow> code \<noteq> 0 \<and>
     (case get_abbrev cu code of None \<Rightarrow> False
      | Some a \<Rightarrow> (ab_children a \<noteq> 0) = flag \<and>
          list_all2 (\<lambda>(nm, form) (bs, v). attr_encodes dw cu form bs v) (ab_attr_specs a) attrs)"

fun die_wf :: "dwarf_t \<Rightarrow> compile_unit_t \<Rightarrow> die \<Rightarrow> bool" and forest_wf :: "dwarf_t \<Rightarrow> compile_unit_t \<Rightarrow> die list \<Rightarrow> bool" where
  "die_wf dw cu (Die code attrs None) = head_wf dw cu code attrs False"
| "die_wf dw cu (Die code attrs (Some kids)) = (head_wf dw cu code attrs True \<and> forest_wf dw cu kids)"
| "forest_wf dw cu [] = True"
| "forest_wf dw cu (d # ds) = (die_wf dw cu d \<and> forest_wf dw cu ds)"

text \<open>What a client sees of an entry, and what it should see of each entry of a tree, in preorder.\<close>

type_synonym view = "u32 \<times> u32 \<times> abbrev_t option \<times> (u32 \<Rightarrow> value_t option)"

definition entry_view :: "entry_t \<Rightarrow> view" where
  "entry_view e = (en_offset e, en_level e, en_abbrev e, \<lambda>nm. get_attribute nm e)"

definition head_view :: "compile_unit_t \<Rightarrow> nat \<Rightarrow> nat \<Rightarrow> u32 \<Rightarrow> (u8 list \<times> value_t) list \<Rightarrow> view" where
  "head_view cu off lev code attrs =
     (of_nat off, of_nat lev, get_abbrev cu code,
      \<lambda>nm. if name_to_index nm < 0 then None
           else map_of (rev (zip (case get_abbrev cu code of None \<Rightarrow> [] | Some a \<Rightarrow> map fst (ab_attr_specs a)) (map snd attrs))) nm)"

fun die_views :: "compile_unit_t \<Rightarrow> nat \<Rightarrow> nat \<Rightarrow> die \<Rightarrow> view list"
  and forest_views :: "compile_unit_t \<Rightarrow> nat \<Rightarrow> nat \<Rightarrow> die list \<Rightarrow> view list" where
  "die_views cu off lev (Die code attrs None) = [head_view cu off lev code attrs]"
| "die_views cu off lev (Die code attrs (Some kids)) = head_view cu off lev code attrs #
     forest_views cu (off + length (uleb_enc (unat code) @ concat (map fst attrs))) (Suc lev) kids"
| "forest_views cu off lev [] = []"
| "forest_views cu off lev (d # ds) = die_views cu off lev d @ forest_views cu (off + length (die_bytes d)) lev ds"

definition view_matches :: "u32 \<Rightarrow> view \<Rightarrow> bool" where
  "view_matches t v \<longleftrightarrow> t = 0 \<or> (case v of (_, _, Some a, _) \<Rightarrow> ab_tag a = t | _ \<Rightarrow> False)"

text \<open>
  A walker between two entries of a unit: the bytes it has still to read, and its depth. Neither
  the depth nor the count of entries read wraps, because each takes a byte.
\<close>

definition wk_at :: "compile_unit_t \<Rightarrow> u8 list \<Rightarrow> nat \<Rightarrow> u8 list \<Rightarrow> walker_t \<Rightarrow> bool" where
  "wk_at cu bs lev rest w \<longleftrightarrow>
     wk_unit w = cu \<and> rd_data (wk_reader w) = bs \<and> rd_ok (wk_reader w) \<and> rd_rest (wk_reader w) = rest \<and>
     rd_is64 (wk_reader w) = rd_is64 (cu_reader cu) \<and> wk_level w = of_nat lev \<and> lev + length rest < 2 ^ 32 \<and>
     unat (en_latest (wk_entry w)) + length rest < 2 ^ 32 \<and>
     (\<forall>i. en_generation (wk_entry w) i \<le> en_latest (wk_entry w))"

lemma wk_at_pos: "wk_at cu bs lev rest w \<Longrightarrow> get_offset (wk_reader w) = length bs - length rest"
  by (auto simp: wk_at_def get_offset_def rd_ok_def rd_rest_def)

lemma uleb_enc_nonempty: "uleb_enc n \<noteq> []"
  by (simp add: uleb_enc.simps [of n])

lemma latest_bump:
  assumes "unat (en_latest e) + 1 < 2 ^ 32" "\<forall>i. en_generation e i \<le> en_latest e"
  shows "unat (en_latest (entry_setup off lev a e)) = unat (en_latest e) + 1"
    "\<forall>i. en_generation (entry_setup off lev a e) i < en_latest (entry_setup off lev a e)"
proof -
  show n: "unat (en_latest (entry_setup off lev a e)) = unat (en_latest e) + 1"
    using assms(1) by (simp add: entry_setup_def unat_word_ariths)
  show "\<forall>i. en_generation (entry_setup off lev a e) i < en_latest (entry_setup off lev a e)"
    using assms(2) n by (auto simp: word_less_nat_alt word_le_nat_alt entry_setup_def le_imp_less_Suc)
qed


text \<open>One round of the walker over the head of an entry, over the mark that ends a list, and at the end.\<close>

lemma fetched_is64: "fetched m x r rest \<Longrightarrow> reader_op m \<Longrightarrow> rd_ok r \<Longrightarrow>
    \<exists>r'. m r = (Some x, r') \<and> rd_rest r' = rest \<and> rd_data r' = rd_data r \<and> rd_is64 r' = rd_is64 r \<and> rd_ok r'"
  using fetched_moved by (fastforce simp: rd_moved_def rd_ok_def)

lemma read_entry_head:
  assumes at: "wk_at cu bs lev (uleb_enc (unat code) @ concat (map fst attrs) @ rest) w"
    and wf: "head_wf dw cu code attrs flag" and rest: "rest \<noteq> []"
  defines "v \<equiv> head_view cu (get_offset (wk_reader w)) lev code attrs"
  shows "\<exists>w'. read_entry dw w = Inr (if view_matches (wk_filter_tag w) v then RE_OK else RE_FILTERED, w')
    \<and> wk_at cu bs (if flag then Suc lev else lev) rest w' \<and> wk_filter_tag w' = wk_filter_tag w
    \<and> (view_matches (wk_filter_tag w) v \<longrightarrow> entry_view (wk_entry w') = v)
    \<and> en_offset (wk_entry w') = of_nat (get_offset (wk_reader w)) \<and> en_abbrev (wk_entry w') = get_abbrev cu code"
proof -
  let ?r = "wk_reader w" and ?e = "wk_entry w"
  obtain a where a: "get_abbrev cu code = Some a" "(ab_children a \<noteq> 0) = flag" "code \<noteq> 0"
    "list_all2 (\<lambda>(nm, form) (bs, v). attr_encodes dw cu form bs v) (ab_attr_specs a) attrs"
    using wf by (auto simp: head_wf_def split: option.splits)
  note at' = at [unfolded wk_at_def]
  obtain r1 where r1: "read_uleb128 ?r = (Some code, r1)" "rd_rest r1 = concat (map fst attrs) @ rest"
    "rd_data r1 = bs" "rd_is64 r1 = rd_is64 (cu_reader cu)" "rd_ok r1"
    using fetched_is64 [OF fetched_uleb_enc read_uleb128_op.reader_op_axioms, of ?r code] at' by fastforce
  define e1 where "e1 = entry_setup (of_nat (get_offset ?r)) (wk_level w) a ?e"
  define e2 where "e2 = add_all (zip (map fst (ab_attr_specs a)) (map snd attrs)) e1"
  obtain r2 where ra: "read_attributes dw cu (ab_attr_specs a) e1 r1 = Inr (True, e2, r2)" and r2: "rd_rest r2 = rest"
    using read_attributes_encoded [OF a(4) r1(2) rest r1(4)] unfolding e2_def by blast
  have sk: "skip_attributes cu (ab_attr_specs a) r1 = Inr (True, r2)" by (rule skip_attributes_read [OF ra])
  have mv: "rd_data r2 = bs" "rd_is64 r2 = rd_is64 (cu_reader cu)" "rd_ok r2"
    using read_attributes_moved [OF ra] r1 by (auto simp: rd_moved_def rd_ok_def)
  have len: "Suc (length rest) \<le> length (uleb_enc (unat code) @ concat (map fst attrs) @ rest)"
    using uleb_enc_nonempty [of "unat code"] by (cases "uleb_enc (unat code)") auto
  have lat: "unat (en_latest ?e) + 1 < 2 ^ 32" "unat (en_latest ?e) + 1 + length rest < 2 ^ 32"
    "Suc lev + length rest < 2 ^ 32" using at' len by auto
  note bump = latest_bump [OF lat(1), of "of_nat (get_offset ?r)" "wk_level w" a, folded e1_def]
  have gen: "\<forall>i. en_generation e1 i < en_latest e1" "unat (en_latest e1) = unat (en_latest ?e) + 1"
    using bump at' by blast+
  have gen2: "\<forall>i. en_generation e2 i \<le> en_latest e2"
    using add_all_generation [of e1] gen(1) by (simp add: e2_def less_imp_le)
  have view: "entry_view e2 = v"
  proof -
    have "\<forall>i. en_generation e1 i \<noteq> en_latest e1" using gen(1) by (simp add: less_le)
    then show ?thesis
      using at' a(1) by (auto simp: entry_view_def v_def head_view_def e2_def get_add_all fun_eq_iff not_less)
        (simp_all add: e1_def entry_setup_def)
  qed
  define l' where "l' = (if ab_children a \<noteq> 0 then wk_level w + 1 else wk_level w)"
  have l': "l' = of_nat (if flag then Suc lev else lev)" using at' a(2) by (auto simp: l'_def)
  show ?thesis
  proof (cases "view_matches (wk_filter_tag w) v")
    case True
    then have nf: "\<not> (wk_filter_tag w \<noteq> 0 \<and> ab_tag a \<noteq> wk_filter_tag w)"
      using a(1) by (auto simp: view_matches_def v_def head_view_def)
    let ?w = "w\<lparr>wk_reader := r2, wk_entry := e2, wk_level := l'\<rparr>"
    have "read_entry dw w = Inr (RE_OK, ?w)"
      using r1(1) a(1,3) nf ra at' by (auto simp: read_entry_def Let_def e1_def l'_def)
    moreover have "wk_at cu bs (if flag then Suc lev else lev) rest ?w"
      using at' mv r2 l' gen(2) gen2 lat by (simp add: wk_at_def e2_def)
    ultimately show ?thesis
      using True view a(1) by (intro exI [of _ ?w]) (simp add: e2_def e1_def entry_setup_def)
  next
    case False
    then have f: "wk_filter_tag w \<noteq> 0 \<and> ab_tag a \<noteq> wk_filter_tag w"
      using a(1) by (auto simp: view_matches_def v_def head_view_def)
    let ?w = "w\<lparr>wk_reader := r2, wk_entry := partial_setup (of_nat (get_offset ?r)) (wk_level w) (Some a) ?e, wk_level := l'\<rparr>"
    have "read_entry dw w = Inr (RE_FILTERED, ?w)"
      using r1(1) a(1,3) f sk at' by (simp add: read_entry_def Let_def l'_def)
    moreover have "wk_at cu bs (if flag then Suc lev else lev) rest ?w"
      using at' mv r2 l' lat by (simp add: wk_at_def partial_setup_def)
    ultimately show ?thesis
      using False a(1) by (intro exI [of _ ?w]) (simp add: partial_setup_def)
  qed
qed

lemma read_uleb128_zero: "rd_rest r = 0 # rest \<Longrightarrow> fetched read_uleb128 0 r rest"
  using fetched_uleb_enc [of r 0 rest] by (simp add: uleb_enc_zero)

lemma read_entry_end:
  assumes at: "wk_at cu bs (Suc lev) (0 # rest) w"
  shows "\<exists>w'. read_entry dw w = Inr (RE_EOL, w') \<and> wk_at cu bs lev rest w'
    \<and> wk_filter_tag w' = wk_filter_tag w \<and> wk_entry w' = wk_entry w"
proof -
  note at' = at [unfolded wk_at_def]
  obtain r1 where r1: "read_uleb128 (wk_reader w) = (Some 0, r1)" "rd_rest r1 = rest"
    "rd_data r1 = bs" "rd_is64 r1 = rd_is64 (cu_reader cu)" "rd_ok r1"
    using fetched_is64 [OF read_uleb128_zero read_uleb128_op.reader_op_axioms, of "wk_reader w" rest] at' by fastforce
  have "unat (of_nat (Suc lev) :: u32) = Suc lev" using at' by (intro unat_of_nat_u32) simp
  then have "wk_level w \<noteq> 0" using at' by (metis nat.distinct(1) unat_0)
  moreover have "wk_level w - 1 = of_nat lev" using at' by simp
  ultimately show ?thesis
    using r1 at' by (intro exI [of _ "w\<lparr>wk_reader := r1, wk_level := wk_level w - 1\<rparr>"])
      (auto simp: read_entry_def Let_def wk_at_def)
qed

lemma read_entry_eof:
  assumes "wk_at cu bs lev [] w"
  shows "\<exists>w'. read_entry dw w = Inr (RE_EOF, w')"
proof -
  have "fst (read_uleb128 (wk_reader w)) = None"
    using assms by (simp add: wk_at_def read_uleb128_def)
  then show ?thesis by (cases "read_uleb128 (wk_reader w)") (simp add: read_entry_def Let_def)
qed

section \<open>Rounds over a tree\<close>

text \<open>A run of rounds: the state before, the outcome and the state after of each.\<close>

type_synonym round = "walker_t \<times> re_result \<times> walker_t"

inductive rounds :: "dwarf_t \<Rightarrow> walker_t \<Rightarrow> round list \<Rightarrow> walker_t \<Rightarrow> bool" for dw where
  rounds_none: "rounds dw w [] w"
| rounds_more: "read_entry dw w = Inr (res, w1) \<Longrightarrow> res \<noteq> RE_EOF \<Longrightarrow> rounds dw w1 tr w2 \<Longrightarrow>
    rounds dw w ((w, res, w1) # tr) w2"

inductive_cases rounds_ConsE: "rounds dw w (x # tr) w2"

lemma rounds_one: "read_entry dw w = Inr (res, w1) \<Longrightarrow> res \<noteq> RE_EOF \<Longrightarrow> rounds dw w [(w, res, w1)] w1"
  by (intro rounds_more rounds_none)

lemma rounds_append: "rounds dw w tr w1 \<Longrightarrow> rounds dw w1 tr' w2 \<Longrightarrow> rounds dw w (tr @ tr') w2"
  by (induction rule: rounds.induct) (auto intro: rounds_more)

definition round_views :: "round list \<Rightarrow> view list" where
  "round_views tr = concat (map (\<lambda>(_, res, w'). if res = RE_OK then [entry_view (wk_entry w')] else []) tr)"

lemma round_views_append [simp]: "round_views (tr @ tr') = round_views tr @ round_views tr'"
  by (simp add: round_views_def)

text \<open>A stretch of rounds at some depth or below: it shows the given entries and ends where it should.\<close>

definition passes :: "dwarf_t \<Rightarrow> compile_unit_t \<Rightarrow> u8 list \<Rightarrow> nat \<Rightarrow> u8 list \<Rightarrow> view list \<Rightarrow> walker_t \<Rightarrow> walker_t \<Rightarrow> bool" where
  "passes dw cu bs lev rest vs w w' \<longleftrightarrow> wk_at cu bs lev rest w' \<and> wk_filter_tag w' = wk_filter_tag w \<and>
     (\<exists>tr. rounds dw w tr w' \<and> round_views tr = filter (view_matches (wk_filter_tag w)) vs \<and>
        (\<forall>(w1, res, w2)\<in>set tr. of_nat lev \<le> wk_level w1 \<and> (res = RE_OK \<longrightarrow> of_nat lev \<le> en_level (wk_entry w2))))"

lemma passes_none: "wk_at cu bs lev rest w \<Longrightarrow> passes dw cu bs lev rest [] w w"
  by (auto simp: passes_def round_views_def intro!: exI [of _ "[]"] rounds_none)

lemma passes_append:
  "passes dw cu bs lev rest vs w w1 \<Longrightarrow> passes dw cu bs lev rest' vs' w1 w2 \<Longrightarrow> passes dw cu bs lev rest' (vs @ vs') w w2"
  unfolding passes_def
  by (elim conjE exE, intro conjI, simp, simp, rule exI, rule conjI, erule (1) rounds_append) auto

lemma of_nat_le_u32: "m \<le> n \<Longrightarrow> n < 2 ^ 32 \<Longrightarrow> (of_nat m :: u32) \<le> of_nat n"
  by (simp add: word_le_nat_alt unat_of_nat_u32)

lemma passes_deeper:
  assumes "passes dw cu bs (Suc lev) (0 # rest) vs w w1"
  shows "\<exists>w2. passes dw cu bs lev rest vs w w2"
proof -
  from assms have at: "wk_at cu bs (Suc lev) (0 # rest) w1" by (simp add: passes_def)
  obtain w2 where w2: "read_entry dw w1 = Inr (RE_EOL, w2)" "wk_at cu bs lev rest w2" "wk_filter_tag w2 = wk_filter_tag w1"
    using read_entry_end [OF at] by blast
  obtain tr where tr: "rounds dw w tr w1" "round_views tr = filter (view_matches (wk_filter_tag w)) vs"
    "\<forall>(w1, res, w2)\<in>set tr. of_nat (Suc lev) \<le> wk_level w1 \<and> (res = RE_OK \<longrightarrow> of_nat (Suc lev) \<le> en_level (wk_entry w2))"
    using assms by (auto simp: passes_def)
  have le: "(of_nat lev :: u32) \<le> of_nat (Suc lev)" using at by (intro of_nat_le_u32) (auto simp: wk_at_def)
  have "rounds dw w (tr @ [(w1, RE_EOL, w2)]) w2" using rounds_append [OF tr(1) rounds_one [OF w2(1)]] by simp
  moreover have "round_views (tr @ [(w1, RE_EOL, w2)]) = filter (view_matches (wk_filter_tag w)) vs"
    using tr(2) by (simp add: round_views_def)
  moreover have "\<forall>(w1, res, w2)\<in>set (tr @ [(w1, RE_EOL, w2)]).
      of_nat lev \<le> wk_level w1 \<and> (res = RE_OK \<longrightarrow> of_nat lev \<le> en_level (wk_entry w2))"
    using tr(3) le at by (fastforce simp: wk_at_def intro: order_trans)
  ultimately show ?thesis
    using w2 assms unfolding passes_def by metis
qed

lemma passes_head:
  assumes at: "wk_at cu bs lev (uleb_enc (unat code) @ concat (map fst attrs) @ rest) w"
    and wf: "head_wf dw cu code attrs flag" and rest: "rest \<noteq> []"
    and off: "off + length (uleb_enc (unat code) @ concat (map fst attrs) @ rest) = length bs"
  shows "\<exists>w' res. read_entry dw w = Inr (res, w') \<and> res \<noteq> RE_EOF \<and> wk_filter_tag w' = wk_filter_tag w
    \<and> wk_at cu bs (if flag then Suc lev else lev) rest w'
    \<and> round_views [(w, res, w')] = filter (view_matches (wk_filter_tag w)) [head_view cu off lev code attrs]
    \<and> (res = RE_OK \<longrightarrow> en_level (wk_entry w') = of_nat lev)"
proof -
  have p: "get_offset (wk_reader w) = off" using wk_at_pos [OF at] off by simp
  from read_entry_head [OF at wf rest, unfolded p] obtain w' where
    w': "read_entry dw w = Inr (if view_matches (wk_filter_tag w) (head_view cu off lev code attrs) then RE_OK else RE_FILTERED, w')"
      "wk_at cu bs (if flag then Suc lev else lev) rest w'" "wk_filter_tag w' = wk_filter_tag w"
      "view_matches (wk_filter_tag w) (head_view cu off lev code attrs) \<longrightarrow> entry_view (wk_entry w') = head_view cu off lev code attrs"
    by blast
  have "entry_view (wk_entry w') = head_view cu off lev code attrs \<Longrightarrow> en_level (wk_entry w') = of_nat lev"
    by (simp add: entry_view_def head_view_def)
  with w' show ?thesis by (cases "view_matches (wk_filter_tag w) (head_view cu off lev code attrs)") (auto simp: round_views_def)
qed

lemma passes_kids:
  assumes head: "read_entry dw w = Inr (res, w1)" "res \<noteq> RE_EOF" "wk_filter_tag w1 = wk_filter_tag w"
      "round_views [(w, res, w1)] = filter (view_matches (wk_filter_tag w)) vs"
      "res = RE_OK \<longrightarrow> en_level (wk_entry w1) = of_nat lev" "wk_level w = of_nat lev"
    and kids: "passes dw cu bs lev rest vs' w1 w2"
  shows "passes dw cu bs lev rest (vs @ vs') w w2"
proof -
  from kids head(3) obtain tr where tr: "rounds dw w1 tr w2" "round_views tr = filter (view_matches (wk_filter_tag w)) vs'"
    "\<forall>(w1, res, w2)\<in>set tr. of_nat lev \<le> wk_level w1 \<and> (res = RE_OK \<longrightarrow> of_nat lev \<le> en_level (wk_entry w2))"
    by (auto simp: passes_def)
  have "rounds dw w ((w, res, w1) # tr) w2" by (rule rounds_more [OF head(1,2) tr(1)])
  moreover have "round_views ((w, res, w1) # tr) = filter (view_matches (wk_filter_tag w)) (vs @ vs')"
    using head(4) tr(2) by (simp add: round_views_def)
  moreover have "\<forall>(w1, res, w2)\<in>set ((w, res, w1) # tr).
      of_nat lev \<le> wk_level w1 \<and> (res = RE_OK \<longrightarrow> of_nat lev \<le> en_level (wk_entry w2))"
    using tr(3) head(5,6) by simp
  ultimately show ?thesis using kids head(3) unfolding passes_def by metis
qed

lemma passes_tree:
  shows "die_wf dw cu d \<Longrightarrow> wk_at cu bs lev (die_bytes d @ rest) w \<Longrightarrow> rest \<noteq> [] \<Longrightarrow>
      off + length (die_bytes d @ rest) = length bs \<Longrightarrow> \<exists>w'. passes dw cu bs lev rest (die_views cu off lev d) w w'"
    and "forest_wf dw cu ds \<Longrightarrow> wk_at cu bs lev (forest_bytes ds @ rest) w \<Longrightarrow> rest \<noteq> [] \<Longrightarrow>
      off + length (forest_bytes ds @ rest) = length bs \<Longrightarrow> \<exists>w'. passes dw cu bs lev rest (forest_views cu off lev ds) w w'"
proof (induction cu off lev d and cu off lev ds arbitrary: w rest and w rest rule: die_views_forest_views.induct)
  case (1 cu off lev code attrs)
  have "head_wf dw cu code attrs False" "wk_at cu bs lev (uleb_enc (unat code) @ concat (map fst attrs) @ rest) w"
    "off + length (uleb_enc (unat code) @ concat (map fst attrs) @ rest) = length bs"
    using "1.prems" by simp_all
  from passes_head [OF this(2) this(1) "1.prems"(3) this(3)] show ?case
    using passes_kids [OF _ _ _ _ _ _ passes_none, of dw w _ _ "die_views cu off lev (Die code attrs None)"] "1.prems"(2)
    by (fastforce simp: wk_at_def)
next
  case (2 cu off lev code attrs kids)
  let ?h = "uleb_enc (unat code) @ concat (map fst attrs)"
  have h: "head_wf dw cu code attrs True" "forest_wf dw cu kids"
    "wk_at cu bs lev (uleb_enc (unat code) @ concat (map fst attrs) @ forest_bytes kids @ 0 # rest) w"
    "off + length (uleb_enc (unat code) @ concat (map fst attrs) @ forest_bytes kids @ 0 # rest) = length bs"
    using "2.prems" by simp_all
  obtain w1 res where w1: "read_entry dw w = Inr (res, w1)" "res \<noteq> RE_EOF" "wk_filter_tag w1 = wk_filter_tag w"
    "wk_at cu bs (Suc lev) (forest_bytes kids @ 0 # rest) w1"
    "round_views [(w, res, w1)] = filter (view_matches (wk_filter_tag w)) [head_view cu off lev code attrs]"
    "res = RE_OK \<longrightarrow> en_level (wk_entry w1) = of_nat lev"
    using passes_head [OF h(3,1) _ h(4)] by auto
  obtain w2 where "passes dw cu bs (Suc lev) (0 # rest) (forest_views cu (off + length ?h) (Suc lev) kids) w1 w2"
    using "2.IH" [OF h(2) w1(4)] h(4) by auto
  then obtain w3 where w3: "passes dw cu bs lev rest (forest_views cu (off + length ?h) (Suc lev) kids) w1 w3"
    using passes_deeper by blast
  have "wk_level w = of_nat lev" using h(3) by (simp add: wk_at_def)
  from passes_kids [OF w1(1,2,3,5,6) this w3] show ?case by (auto simp del: length_append)
next
  case (3 cu off lev)
  then show ?case using passes_none by fastforce
next
  case (4 cu off lev d ds)
  have d: "die_wf dw cu d" "forest_wf dw cu ds" "wk_at cu bs lev (die_bytes d @ forest_bytes ds @ rest) w"
    "off + length (die_bytes d @ forest_bytes ds @ rest) = length bs"
    "off + length (die_bytes d) + length (forest_bytes ds @ rest) = length bs" "forest_bytes ds @ rest \<noteq> []"
    using "4.prems" by simp_all
  from "4.IH"(1) [OF d(1,3,6,4)] obtain w1 where
    w1: "passes dw cu bs lev (forest_bytes ds @ rest) (die_views cu off lev d) w w1" by blast
  then have "wk_at cu bs lev (forest_bytes ds @ rest) w1" by (simp add: passes_def)
  from "4.IH"(2) [OF d(2) this "4.prems"(3) d(5)] passes_append [OF w1] show ?case by auto
qed

section \<open>Walking in preorder\<close>

text \<open>The loop every client runs: all entries that \<^verbatim>\<open>move_preorder\<close> stops at.\<close>

lemma move_preorder_remains:
  "move_preorder dw w = Inr (True, w') \<Longrightarrow> get_remains (wk_reader w') < get_remains (wk_reader w)"
proof (induction dw w rule: move_preorder.induct)
  case (1 dw w)
  obtain res w1 where r: "read_entry dw w = Inr (res, w1)" "res \<noteq> RE_EOF"
    using "1.prems" by (auto simp: move_preorder.simps [of dw w] split: sum.splits if_splits)
  note less = read_entry_remains [OF r]
  show ?case
  proof (cases "res = RE_OK")
    case True
    with "1.prems" r less show ?thesis by (simp add: move_preorder.simps [of dw w])
  next
    case False
    then have "move_preorder dw w1 = Inr (True, w')" using "1.prems" r by (simp add: move_preorder.simps [of dw w])
    from "1.IH" [OF r(1) refl r(2) False this] less show ?thesis by simp
  qed
qed

function walk_entries :: "dwarf_t \<Rightarrow> walker_t \<Rightarrow> np_error + entry_t list" where
  "walk_entries dw w =
     (case move_preorder dw w of
        Inl e \<Rightarrow> Inl e
      | Inr (ok, w') \<Rightarrow> if ok then bindE (walk_entries dw w') (\<lambda>es. Inr (wk_entry w' # es)) else Inr [])"
  by auto
termination
  by (relation "measure (\<lambda>(dw, w). get_remains (wk_reader w))") (auto dest: move_preorder_remains)

declare walk_entries.simps [simp del]

lemma walk_entries_round:
  assumes "read_entry dw w = Inr (res, w')" "res \<noteq> RE_EOF"
  shows "walk_entries dw w =
    (if res = RE_OK then bindE (walk_entries dw w') (\<lambda>es. Inr (wk_entry w' # es)) else walk_entries dw w')"
  using assms by (simp add: walk_entries.simps [of dw w] move_preorder.simps [of dw w] walk_entries.simps [of dw w'])

lemma walk_entries_rounds:
  "rounds dw w tr w' \<Longrightarrow> walk_entries dw w' = Inr es' \<Longrightarrow>
     \<exists>es. walk_entries dw w = Inr es \<and> map entry_view es = round_views tr @ map entry_view es'"
  by (induction rule: rounds.induct) (auto simp: walk_entries_round round_views_def)

text \<open>A unit that encodes a tree, ready to be walked.\<close>

definition unit_encodes :: "dwarf_t \<Rightarrow> compile_unit_t \<Rightarrow> die \<Rightarrow> bool" where
  "unit_encodes dw cu d \<longleftrightarrow>
     die_wf dw cu d \<and> die_kids d \<noteq> None \<and> rd_pos (cu_reader cu) = 0 \<and> header_length \<le> length (rd_data (cu_reader cu)) \<and>
     length (rd_data (cu_reader cu)) < 2 ^ 32 \<and> drop header_length (rd_data (cu_reader cu)) = die_bytes d"

lemma unit_encodes_at:
  assumes "unit_encodes dw cu d"
  shows "wk_at cu (rd_data (cu_reader cu)) 0 (die_bytes d) (set_filter_tag t (walker_new cu))"
    "header_length + length (die_bytes d) = length (rd_data (cu_reader cu))"
proof -
  show len: "header_length + length (die_bytes d) = length (rd_data (cu_reader cu))"
    using assms length_drop [of header_length "rd_data (cu_reader cu)"] by (simp add: unit_encodes_def)
  show "wk_at cu (rd_data (cu_reader cu)) 0 (die_bytes d) (set_filter_tag t (walker_new cu))"
    using assms len
    by (simp add: wk_at_def unit_encodes_def set_filter_tag_def walker_new_def get_contents_def skip_def rd_ok_def
        rd_rest_def entry_init_def)
qed

lemma unit_rounds:
  fixes t :: u32
  assumes "unit_encodes dw cu d"
  defines "w \<equiv> set_filter_tag t (walker_new cu)"
  shows "\<exists>tr w'. rounds dw w tr w' \<and> wk_at cu (rd_data (cu_reader cu)) 0 [] w'
    \<and> round_views tr = filter (view_matches t) (die_views cu header_length 0 d)"
proof -
  let ?bs = "rd_data (cu_reader cu)"
  obtain code attrs kids where d: "d = Die code attrs (Some kids)"
    using assms(1) by (cases d) (auto simp: unit_encodes_def)
  have wf: "head_wf dw cu code attrs True" "forest_wf dw cu kids" using assms(1) by (simp_all add: unit_encodes_def d)
  note u = unit_encodes_at(1) [OF assms(1), of t, folded w_def] unit_encodes_at(2) [OF assms(1)]
  have at: "wk_at cu ?bs 0 (uleb_enc (unat code) @ concat (map fst attrs) @ forest_bytes kids @ [0]) w"
    and len: "header_length + length (uleb_enc (unat code) @ concat (map fst attrs) @ forest_bytes kids @ [0]) = length ?bs"
    using u by (simp_all add: d)
  have t: "wk_filter_tag w = t" by (simp add: w_def set_filter_tag_def)
  obtain w1 res where w1: "read_entry dw w = Inr (res, w1)" "res \<noteq> RE_EOF" "wk_filter_tag w1 = t"
    "wk_at cu ?bs (Suc 0) (forest_bytes kids @ [0]) w1"
    "round_views [(w, res, w1)] = filter (view_matches t) [head_view cu header_length 0 code attrs]"
    using passes_head [OF at wf(1) _ len] t by auto
  let ?vs = "forest_views cu (header_length + length (uleb_enc (unat code) @ concat (map fst attrs))) (Suc 0) kids"
  obtain w2 where "passes dw cu ?bs (Suc 0) [0] ?vs w1 w2"
    using passes_tree(2) [OF wf(2) w1(4), of "header_length + length (uleb_enc (unat code) @ concat (map fst attrs))"] len
    by auto
  then obtain w3 where "passes dw cu ?bs 0 [] ?vs w1 w3" using passes_deeper by blast
  then obtain tr where tr: "rounds dw w1 tr w3" "round_views tr = filter (view_matches t) ?vs" "wk_at cu ?bs 0 [] w3"
    using w1(3) by (auto simp: passes_def)
  have "rounds dw w ((w, res, w1) # tr) w3" by (rule rounds_more [OF w1(1,2) tr(1)])
  moreover have "round_views ((w, res, w1) # tr) = filter (view_matches t) (die_views cu header_length 0 d)"
    using w1(5) tr(2) by (simp add: round_views_def d)
  ultimately show ?thesis using tr(3) by blast
qed

lemma walk_entries_done: "wk_at cu bs lev [] w \<Longrightarrow> walk_entries dw w = Inr []"
  using read_entry_eof [of cu bs lev w dw] by (auto simp: walk_entries.simps [of dw w] move_preorder.simps [of dw w])

text \<open>
  C21. A walk over a unit whose contents encode a tree of entries stops at exactly the entries
  of the tree that have the wanted tag (every entry when there is no filter), in preorder, and
  shows each with its offset, its depth, its abbreviation and the values of its attributes.
\<close>

theorem walk_preorder:
  assumes "unit_encodes dw cu d"
  shows "\<exists>es. walk_entries dw (set_filter_tag t (walker_new cu)) = Inr es
    \<and> map entry_view es = filter (view_matches t) (die_views cu header_length 0 d)"
proof -
  obtain tr w' where tr: "rounds dw (set_filter_tag t (walker_new cu)) tr w'" "wk_at cu (rd_data (cu_reader cu)) 0 [] w'"
    "round_views tr = filter (view_matches t) (die_views cu header_length 0 d)"
    using unit_rounds [OF assms] by blast
  from walk_entries_rounds [OF tr(1) walk_entries_done [OF tr(2)]] tr(3) show ?thesis by simp
qed

text \<open>A unit with two functions, the first with a local type.\<close>

definition demo_unit_die :: die where
  "demo_unit_die =
     Die 1 [(bytes_of_string ''m.c'' @ [0], T_STRING ''m.c'')]
       (Some [Die 2 [(bytes_of_string ''f'' @ [0], T_STRING ''f'')] (Some [Die 3 [([7], T_UINT32 (ucast (7 :: u8)))] None]),
              Die 2 [(bytes_of_string ''g'' @ [0], T_STRING ''g'')] (Some [])])"

definition demo_unit :: compile_unit_t where
  "demo_unit = (compile_unit_new 0 0)\<lparr>cu_version := 4,
     cu_reader := mk_reader (replicate header_length 0 @ die_bytes demo_unit_die) False,
     cu_abbrevs := [None,
       Some \<lparr>ab_code = 1, ab_tag = DW_TAG_compile_unit, ab_children = 1, ab_attr_specs = [(DW_AT_name, DW_FORM_string)]\<rparr>,
       Some \<lparr>ab_code = 2, ab_tag = DW_TAG_subprogram, ab_children = 1, ab_attr_specs = [(DW_AT_name, DW_FORM_string)]\<rparr>,
       Some \<lparr>ab_code = 3, ab_tag = DW_TAG_structure_type, ab_children = 0, ab_attr_specs = [(DW_AT_language, DW_FORM_data1)]\<rparr>]\<rparr>"

lemma demo_unit_encodes: "unit_encodes dw demo_unit demo_unit_die"
proof -
  have "c_string ''m.c''" "c_string ''f''" "c_string ''g''" by code_simp+
  note str = this [THEN enc_string, of dw demo_unit]
  note dat = enc_data1 [of dw demo_unit 7]
  have "die_wf dw demo_unit demo_unit_die"
    using str dat by (simp add: demo_unit_die_def head_wf_def get_abbrev_def) (simp add: demo_unit_def)
  moreover have "length (die_bytes demo_unit_die) < 100"
    by (simp add: demo_unit_die_def uleb_enc.simps bytes_of_string_def)
  ultimately show ?thesis
    by (simp add: unit_encodes_def) (simp add: demo_unit_def mk_reader_def header_length_def demo_unit_die_def)
qed

theorem walk_preorder_witness:
  "\<exists>es. walk_entries \<lparr>dw_units = [demo_unit], dw_contents = \<lambda>_ _. []\<rparr>
      (set_filter_tag DW_TAG_subprogram (walker_new demo_unit)) = Inr es
    \<and> map entry_view es = filter (view_matches DW_TAG_subprogram) (die_views demo_unit header_length 0 demo_unit_die)"
  by (rule walk_preorder [OF demo_unit_encodes])

section \<open>The next sibling\<close>

lemma next_loop_round:
  assumes "read_entry dw w = Inr (res, w')" "res \<noteq> RE_EOF" "target \<le> wk_level w"
  shows "next_loop dw target w =
    (if res = RE_OK \<and> en_level (wk_entry w') = target then Inr (True, w') else next_loop dw target w')"
  using assms by (simp add: next_loop.simps [of dw target w] not_less [symmetric])

lemma next_loop_rounds:
  "rounds dw w tr w' \<Longrightarrow>
     (\<forall>(w1, res, w2)\<in>set tr. target \<le> wk_level w1 \<and> (res = RE_OK \<longrightarrow> en_level (wk_entry w2) \<noteq> target)) \<Longrightarrow>
     next_loop dw target w = next_loop dw target w'"
  by (induction rule: rounds.induct) (auto simp: next_loop_round)

text \<open>From inside the children of an entry, the loop passes over all of them and the mark that ends them.\<close>

lemma next_loop_over_kids:
  assumes at: "wk_at cu bs (Suc lev) (forest_bytes kids @ 0 # rest) w" and wf: "forest_wf dw cu kids"
    and off: "off + length (forest_bytes kids @ 0 # rest) = length bs"
  shows "\<exists>w'. next_loop dw (of_nat lev) w = next_loop dw (of_nat lev) w' \<and> wk_at cu bs lev rest w'
    \<and> wk_filter_tag w' = wk_filter_tag w"
proof -
  obtain w1 where c: "passes dw cu bs (Suc lev) (0 # rest) (forest_views cu off (Suc lev) kids) w w1"
    using passes_tree(2) [OF wf at _ off] by auto
  obtain tr where tr: "rounds dw w tr w1" "\<forall>(w1, res, w2)\<in>set tr. of_nat (Suc lev) \<le> wk_level w1 \<and>
      (res = RE_OK \<longrightarrow> of_nat (Suc lev) \<le> en_level (wk_entry w2))" and at1: "wk_at cu bs (Suc lev) (0 # rest) w1"
    and t: "wk_filter_tag w1 = wk_filter_tag w"
    using c by (auto simp: passes_def)
  have lt: "(of_nat lev :: u32) < of_nat (Suc lev)"
    using at1 by (simp add: wk_at_def word_less_nat_alt unat_of_nat_u32 del: of_nat_Suc)
  have "next_loop dw (of_nat lev) w = next_loop dw (of_nat lev) w1"
    using tr(2) lt by (intro next_loop_rounds [OF tr(1)]) fastforce
  moreover obtain w2 where w2: "read_entry dw w1 = Inr (RE_EOL, w2)" "wk_at cu bs lev rest w2"
    "wk_filter_tag w2 = wk_filter_tag w1" using read_entry_end [OF at1] by blast
  moreover have "next_loop dw (of_nat lev) w1 = next_loop dw (of_nat lev) w2"
    using next_loop_round [OF w2(1)] at1 lt by (simp add: wk_at_def)
  ultimately show ?thesis using t by auto
qed

text \<open>
  A walker without a filter that has just read an entry with children: it stands before them,
  and the bytes after them are those of the siblings that follow.
\<close>

definition at_parent :: "compile_unit_t \<Rightarrow> u8 list \<Rightarrow> nat \<Rightarrow> die list \<Rightarrow> u8 list \<Rightarrow> walker_t \<Rightarrow> bool" where
  "at_parent cu bs lev kids rest w \<longleftrightarrow> wk_at cu bs (Suc lev) (forest_bytes kids @ 0 # rest) w \<and>
     en_level (wk_entry w) = of_nat lev \<and> get_attribute DW_AT_sibling (wk_entry w) = None \<and> wk_filter_tag w = 0 \<and>
     length (forest_bytes kids @ 0 # rest) \<le> length bs"

lemma move_next_loop:
  assumes "at_parent cu bs lev kids rest w" "forest_wf dw cu kids"
  shows "\<exists>w'. move_next dw w = next_loop dw (of_nat lev) w' \<and> wk_at cu bs lev rest w' \<and> wk_filter_tag w' = 0"
  using next_loop_over_kids [of cu bs lev kids rest w dw "length bs - length (forest_bytes kids @ 0 # rest)"] assms
  by (auto simp: at_parent_def move_next_def)

text \<open>
  From an entry with children and no sibling reference, \<^verbatim>\<open>move_next\<close> passes over all
  descendants and stops at the entry's next sibling, whatever the shape of the tree below.
\<close>

theorem move_next_sibling:
  assumes "at_parent cu bs lev kids (die_bytes d @ rest) w" "forest_wf dw cu kids" "die_wf dw cu d" "rest \<noteq> []"
  shows "\<exists>w'. move_next dw w = Inr (True, w')
    \<and> entry_view (wk_entry w') = hd (die_views cu (length bs - length (die_bytes d @ rest)) lev d)"
proof -
  obtain w1 where w1: "move_next dw w = next_loop dw (of_nat lev) w1" "wk_at cu bs lev (die_bytes d @ rest) w1" "wk_filter_tag w1 = 0"
    using move_next_loop [OF assms(1,2)] by blast
  obtain code attrs kd where d: "d = Die code attrs kd" by (cases d)
  have wf: "head_wf dw cu code attrs (kd \<noteq> None)" using assms(3) d by (cases kd) simp_all
  let ?off = "length bs - length (die_bytes d @ rest)"
  let ?rest = "case kd of None \<Rightarrow> rest | Some ks \<Rightarrow> forest_bytes ks @ 0 # rest"
  have eq: "die_bytes d @ rest = uleb_enc (unat code) @ concat (map fst attrs) @ ?rest" using d by (cases kd) simp_all
  have hd: "hd (die_views cu off lev d) = head_view cu off lev code attrs" for off using d by (cases kd) simp_all
  have m: "view_matches 0 v" for v by (simp add: view_matches_def)
  have ne: "?rest \<noteq> []" using assms(4) by (cases kd) simp_all
  from read_entry_head [OF w1(2) [unfolded eq] wf ne] m w1(3) wk_at_pos [OF w1(2)] obtain w' where
    w': "read_entry dw w1 = Inr (RE_OK, w')" "entry_view (wk_entry w') = head_view cu ?off lev code attrs" by auto
  have "wk_level w1 = of_nat lev" "en_level (wk_entry w') = of_nat lev"
    using w1(2) w'(2) by (simp_all add: wk_at_def entry_view_def head_view_def)
  then show ?thesis using next_loop_round [OF w'(1), of "of_nat lev"] w'(2) w1(1) hd by simp
qed

definition demo_at_f :: walker_t where
  "demo_at_f = \<lparr>wk_unit = demo_unit, wk_reader = (cu_reader demo_unit)\<lparr>rd_pos := 19\<rparr>,
     wk_entry = entry_setup 16 1 (the (get_abbrev demo_unit 2)) entry_init, wk_level = 2, wk_filter_tag = 0\<rparr>"

lemma demo_unit_bytes:
  "rd_data (cu_reader demo_unit) = replicate 11 0 @ die_bytes demo_unit_die" "\<not> rd_is64 (cu_reader demo_unit)"
  "die_bytes demo_unit_die = [1, 109, 46, 99, 0, 2, 102, 0, 3, 7, 0, 2, 103, 0, 0, 0]"
  by (simp_all add: demo_unit_def mk_reader_def header_length_def demo_unit_die_def uleb_enc.simps bytes_of_string_def
      byte_of_char_def)

theorem move_next_sibling_witness:
  "\<exists>w'. move_next \<lparr>dw_units = [demo_unit], dw_contents = \<lambda>_ _. []\<rparr> demo_at_f = Inr (True, w')
    \<and> en_offset (wk_entry w') = 22 \<and> en_level (wk_entry w') = 1
    \<and> get_attribute DW_AT_name (wk_entry w') = Some (T_STRING ''g'')"
proof -
  let ?dw = "\<lparr>dw_units = [demo_unit], dw_contents = \<lambda>_ _. []\<rparr>" and ?bs = "rd_data (cu_reader demo_unit)"
  let ?kids = "[Die 3 [([7], T_UINT32 (ucast (7 :: u8)))] None]"
    and ?g = "Die 2 [(bytes_of_string ''g'' @ [0], T_STRING ''g'')] (Some [])"
  have g: "die_bytes ?g = [2, 103, 0, 0]" "forest_bytes ?kids = [3, 7]"
    by (simp_all add: uleb_enc.simps bytes_of_string_def byte_of_char_def)
  have p: "at_parent demo_unit ?bs 1 ?kids (die_bytes ?g @ [0]) demo_at_f"
    unfolding at_parent_def wk_at_def demo_unit_bytes g
    by (simp add: demo_at_f_def demo_unit_bytes rd_ok_def rd_rest_def entry_setup_def entry_init_def get_attribute_def
        name_to_index_def)
  have wf: "forest_wf ?dw demo_unit ?kids" "die_wf ?dw demo_unit ?g"
    using demo_unit_encodes [of ?dw] by (auto simp: unit_encodes_def demo_unit_die_def)
  from move_next_sibling [OF p wf] obtain w' where w': "move_next ?dw demo_at_f = Inr (True, w')"
    "entry_view (wk_entry w') = hd (die_views demo_unit (length ?bs - length (die_bytes ?g @ [0])) 1 ?g)" by auto
  have "entry_view (wk_entry w') = head_view demo_unit 22 1 2 [(bytes_of_string ''g'' @ [0], T_STRING ''g'')]"
    using w'(2) unfolding demo_unit_bytes g by simp
  then have "en_offset (wk_entry w') = 22" "en_level (wk_entry w') = 1"
    "get_attribute DW_AT_name (wk_entry w') = Some (T_STRING ''g'')"
    by (simp_all add: entry_view_def head_view_def fun_eq_iff name_to_index_def get_abbrev_def demo_unit_def)
  with w'(1) show ?thesis by blast
qed

section \<open>The path to an entry\<close>

text \<open>The offsets of an entry's ancestors, from the root, and its own.\<close>

fun die_path :: "nat \<Rightarrow> nat \<Rightarrow> die \<Rightarrow> nat list option" and forest_path :: "nat \<Rightarrow> nat \<Rightarrow> die list \<Rightarrow> nat list option" where
  "die_path t off (Die code attrs None) = (if off = t then Some [off] else None)"
| "die_path t off (Die code attrs (Some kids)) =
     (if off = t then Some [off]
      else map_option (\<lambda>p. off # p) (forest_path t (off + length (uleb_enc (unat code) @ concat (map fst attrs))) kids))"
| "forest_path t off [] = None"
| "forest_path t off (d # ds) =
     (case die_path t off d of Some p \<Rightarrow> Some p | None \<Rightarrow> forest_path t (off + length (die_bytes d)) ds)"

abbreviation unit_ref :: "compile_unit_t \<Rightarrow> nat \<Rightarrow> reference_t" where
  "unit_ref cu off \<equiv> cu_make_reference cu (of_nat off)"

lemma unit_ref_inj: "m < 2 ^ 32 \<Longrightarrow> n < 2 ^ 32 \<Longrightarrow> unit_ref cu m = unit_ref cu n \<longleftrightarrow> m = n"
proof -
  assume lt: "m < 2 ^ 32" "n < 2 ^ 32"
  have "unit_ref cu m = unit_ref cu n \<Longrightarrow> (of_nat m :: u32) = of_nat n"
    by (metis cu_make_reference_def reference_make_def reference_t.ext_inject ucast_u64_u32)
  then show ?thesis using lt by (metis unat_of_nat_u32)
qed

text \<open>A round of the loop over the head of an entry.\<close>

lemma path_loop_head:
  assumes at: "wk_at cu bs lev (uleb_enc (unat code) @ concat (map fst attrs) @ rest) w" "wk_filter_tag w = 0"
    and wf: "head_wf dw cu code attrs flag" and rest: "rest \<noteq> []" and t: "t < 2 ^ 32" "length bs < 2 ^ 32"
    and off: "off + length (uleb_enc (unat code) @ concat (map fst attrs) @ rest) = length bs"
  shows "\<exists>w'. wk_at cu bs (if flag then Suc lev else lev) rest w' \<and> wk_filter_tag w' = 0 \<and>
    path_loop dw (unit_ref cu t) w path =
      (if off = t then Inr (path @ [unit_ref cu t])
       else path_loop dw (unit_ref cu t) w' (if flag then path @ [unit_ref cu off] else path))"
proof -
  have p: "get_offset (wk_reader w) = off" using wk_at_pos [OF at(1)] off by simp
  have m: "view_matches 0 v" for v by (simp add: view_matches_def)
  from read_entry_head [OF at(1) wf rest, unfolded p] m at(2) obtain w' where
    w': "read_entry dw w = Inr (RE_OK, w')" "wk_at cu bs (if flag then Suc lev else lev) rest w'" "wk_filter_tag w' = 0"
      "en_offset (wk_entry w') = of_nat off" "en_abbrev (wk_entry w') = get_abbrev cu code" by auto
  have ref: "get_reference w' = unit_ref cu off" using w'(2,4) by (simp add: get_reference_def wk_at_def)
  have "unit_ref cu t = unit_ref cu off \<longleftrightarrow> off = t" using unit_ref_inj [OF t(1), of off cu] off t(2) by auto
  moreover have "has_children (wk_entry w') = Inr flag"
    using w'(5) wf by (auto simp: has_children_def head_wf_def split: option.splits)
  ultimately have "path_loop dw (unit_ref cu t) w path =
      (if off = t then Inr (path @ [unit_ref cu t])
       else path_loop dw (unit_ref cu t) w' (if flag then path @ [unit_ref cu off] else path))"
    using w'(1) ref by (simp add: path_loop.simps [of dw _ w])
  with w'(2,3) show ?thesis by blast
qed

definition path_result :: "dwarf_t \<Rightarrow> compile_unit_t \<Rightarrow> u8 list \<Rightarrow> nat \<Rightarrow> u8 list \<Rightarrow> nat \<Rightarrow> walker_t \<Rightarrow> reference_t list \<Rightarrow> nat list option \<Rightarrow> bool" where
  "path_result dw cu bs lev rest t w path found \<longleftrightarrow>
     (case found of
        Some p \<Rightarrow> path_loop dw (unit_ref cu t) w path = Inr (path @ map (unit_ref cu) p)
      | None \<Rightarrow> \<exists>w'. wk_at cu bs lev rest w' \<and> wk_filter_tag w' = 0 \<and>
          path_loop dw (unit_ref cu t) w path = path_loop dw (unit_ref cu t) w' path)"

lemma path_loop_end:
  assumes "wk_at cu bs (Suc lev) (0 # rest) w" "wk_filter_tag w = 0"
  shows "\<exists>w'. wk_at cu bs lev rest w' \<and> wk_filter_tag w' = 0 \<and> path_loop dw tgt w (path @ [x]) = path_loop dw tgt w' path"
  using read_entry_end [OF assms(1), of dw] assms(2) by (auto simp: path_loop.simps [of dw _ w])

lemma path_result_kids:
  assumes head: "path_loop dw (unit_ref cu t) w path = path_loop dw (unit_ref cu t) w1 (path @ [unit_ref cu off])"
    and kids: "path_result dw cu bs (Suc lev) (0 # rest) t w1 (path @ [unit_ref cu off]) found"
  shows "path_result dw cu bs lev rest t w path (map_option (\<lambda>p. off # p) found)"
proof (cases found)
  case None
  then obtain w2 where w2: "wk_at cu bs (Suc lev) (0 # rest) w2" "wk_filter_tag w2 = 0"
    "path_loop dw (unit_ref cu t) w1 (path @ [unit_ref cu off]) = path_loop dw (unit_ref cu t) w2 (path @ [unit_ref cu off])"
    using kids by (auto simp: path_result_def)
  from path_loop_end [OF w2(1,2)] head w2(3) None show ?thesis by (fastforce simp: path_result_def)
next
  case (Some p)
  with kids head show ?thesis by (simp add: path_result_def)
qed

lemma path_tree:
  assumes bs: "length bs < 2 ^ 32"
  shows "t < 2 ^ 32 \<Longrightarrow> die_wf dw cu d \<Longrightarrow> wk_at cu bs lev (die_bytes d @ rest) w \<Longrightarrow> wk_filter_tag w = 0 \<Longrightarrow> rest \<noteq> [] \<Longrightarrow>
      off + length (die_bytes d @ rest) = length bs \<Longrightarrow> path_result dw cu bs lev rest t w path (die_path t off d)"
    and "t < 2 ^ 32 \<Longrightarrow> forest_wf dw cu ds \<Longrightarrow> wk_at cu bs lev (forest_bytes ds @ rest) w \<Longrightarrow> wk_filter_tag w = 0 \<Longrightarrow> rest \<noteq> [] \<Longrightarrow>
      off + length (forest_bytes ds @ rest) = length bs \<Longrightarrow> path_result dw cu bs lev rest t w path (forest_path t off ds)"
proof (induction t off d and t off ds arbitrary: lev w rest path and lev w rest path rule: die_path_forest_path.induct)
  case (1 t off code attrs)
  have "wk_at cu bs lev (uleb_enc (unat code) @ concat (map fst attrs) @ rest) w" "head_wf dw cu code attrs False"
    "off + length (uleb_enc (unat code) @ concat (map fst attrs) @ rest) = length bs" using "1.prems" by simp_all
  from path_loop_head [OF this(1) "1.prems"(4) this(2) "1.prems"(5,1) bs this(3), of path] show ?case
    by (auto simp: path_result_def)
next
  case (2 t off code attrs kids)
  have h: "wk_at cu bs lev (uleb_enc (unat code) @ concat (map fst attrs) @ forest_bytes kids @ 0 # rest) w"
    "head_wf dw cu code attrs True" "forest_wf dw cu kids"
    "off + length (uleb_enc (unat code) @ concat (map fst attrs) @ forest_bytes kids @ 0 # rest) = length bs"
    using "2.prems" by simp_all
  obtain w1 where w1: "wk_at cu bs (Suc lev) (forest_bytes kids @ 0 # rest) w1" "wk_filter_tag w1 = 0"
    "path_loop dw (unit_ref cu t) w path = (if off = t then Inr (path @ [unit_ref cu t])
       else path_loop dw (unit_ref cu t) w1 (path @ [unit_ref cu off]))"
    using path_loop_head [OF h(1) "2.prems"(4) h(2) _ "2.prems"(1) bs h(4), of path] by auto
  show ?case
  proof (cases "off = t")
    case True
    with w1(3) show ?thesis by (simp add: path_result_def)
  next
    case False
    from "2.IH" [OF False "2.prems"(1) h(3) w1(1,2)] h(4)
    have "path_result dw cu bs (Suc lev) (0 # rest) t w1 (path @ [unit_ref cu off])
        (forest_path t (off + length (uleb_enc (unat code) @ concat (map fst attrs))) kids)" by simp
    from path_result_kids [OF _ this] w1(3) False show ?thesis by simp
  qed
next
  case (3 t off)
  then show ?case by (auto simp: path_result_def)
next
  case (4 t off d ds)
  have d: "die_wf dw cu d" "forest_wf dw cu ds" "wk_at cu bs lev (die_bytes d @ forest_bytes ds @ rest) w"
    "off + length (die_bytes d @ forest_bytes ds @ rest) = length bs"
    "off + length (die_bytes d) + length (forest_bytes ds @ rest) = length bs" "forest_bytes ds @ rest \<noteq> []"
    using "4.prems" by simp_all
  note r = "4.IH"(1) [OF "4.prems"(1) d(1,3) "4.prems"(4) d(6,4), of path]
  show ?case
  proof (cases "die_path t off d")
    case None
    with r obtain w1 where w1: "wk_at cu bs lev (forest_bytes ds @ rest) w1" "wk_filter_tag w1 = 0"
      "path_loop dw (unit_ref cu t) w path = path_loop dw (unit_ref cu t) w1 path" by (auto simp: path_result_def)
    from "4.IH"(2) [OF None "4.prems"(1) d(2) w1(1,2) "4.prems"(5) d(5), of path] None w1(3) show ?thesis
      by (simp add: path_result_def split: option.splits)
  next
    case (Some p)
    with r show ?thesis by (simp add: path_result_def)
  qed
qed

text \<open>
  C22. The path of an entry of a unit is the references of its ancestors from the root down,
  and its own: the entry's parent is the one before the last, which is where \<^verbatim>\<open>move_up\<close> goes.
\<close>

theorem get_path_ancestors:
  assumes "unit_encodes dw cu d" "die_path t header_length d = Some p" "t < 2 ^ 32"
    "wk_unit w = cu" "en_offset (wk_entry w) = of_nat t"
  shows "get_path dw w = Inr (map (cu_make_reference cu \<circ> of_nat) p) \<and>
    move_up dw w = (if length p > 1 then move_to dw (cu_make_reference cu (of_nat (p ! (length p - 2)))) w else Inr (False, w))"
proof -
  let ?bs = "rd_data (cu_reader cu)" and ?w = "walker_new cu"
  obtain code attrs kids where d: "d = Die code attrs (Some kids)"
    using assms(1) by (cases d) (auto simp: unit_encodes_def)
  have wf: "head_wf dw cu code attrs True" "forest_wf dw cu kids" and bs: "length ?bs < 2 ^ 32"
    using assms(1) by (simp_all add: unit_encodes_def d)
  have sf: "set_filter_tag 0 ?w = ?w" "wk_filter_tag ?w = 0" by (simp_all add: set_filter_tag_def walker_new_def)
  note u = unit_encodes_at(1) [OF assms(1), of 0] unit_encodes_at(2) [OF assms(1)]
  have at: "wk_at cu ?bs 0 (uleb_enc (unat code) @ concat (map fst attrs) @ forest_bytes kids @ [0]) ?w"
    and len: "header_length + length (uleb_enc (unat code) @ concat (map fst attrs) @ forest_bytes kids @ [0]) = length ?bs"
    using u sf by (simp_all add: d)
  obtain w1 where w1: "wk_at cu ?bs (Suc 0) (forest_bytes kids @ [0]) w1" "wk_filter_tag w1 = 0"
    "path_loop dw (unit_ref cu t) ?w [] = (if header_length = t then Inr ([] @ [unit_ref cu t])
       else path_loop dw (unit_ref cu t) w1 ([] @ [unit_ref cu header_length]))"
    using path_loop_head [OF at sf(2) wf(1) _ assms(3) bs len, of "[]"] by auto
  let ?off = "header_length + length (uleb_enc (unat code) @ concat (map fst attrs))"
  have kids: "path_result dw cu ?bs (Suc 0) [0] t w1 ([] @ [unit_ref cu header_length]) (forest_path t ?off kids)"
    using len by (intro path_tree(2) [OF bs assms(3) wf(2) w1(1,2)]) simp_all
  have "path_loop dw (unit_ref cu t) ?w [] = Inr (map (unit_ref cu) p)"
  proof (cases "header_length = t")
    case True
    with assms(2) w1(3) show ?thesis by (auto simp: d)
  next
    case False
    with assms(2) obtain q where q: "forest_path t ?off kids = Some q" "p = header_length # q" by (auto simp: d)
    with kids w1(3) False show ?thesis by (simp add: path_result_def)
  qed
  then have "get_path dw w = Inr (map (cu_make_reference cu \<circ> of_nat) p)"
    using assms(4,5) by (simp add: get_path_def get_reference_def comp_def)
  then show ?thesis by (simp add: move_up_def)
qed

theorem get_path_ancestors_witness:
  "get_path \<lparr>dw_units = [demo_unit], dw_contents = \<lambda>_ _. []\<rparr>
     ((walker_new demo_unit)\<lparr>wk_entry := partial_setup 19 2 None entry_init\<rparr>)
   = Inr [cu_make_reference demo_unit 11, cu_make_reference demo_unit 16, cu_make_reference demo_unit 19]"
proof -
  have "die_path 19 header_length demo_unit_die = Some [11, 16, 19]"
    by (simp add: header_length_def demo_unit_die_def uleb_enc.simps bytes_of_string_def)
  from get_path_ancestors [OF demo_unit_encodes this,
      where w = "(walker_new demo_unit)\<lparr>wk_entry := partial_setup 19 2 None entry_init\<rparr>"]
  show ?thesis by (simp add: walker_new_def partial_setup_def)
qed

end
