(* ===== verification/NP_Link.thy ===== *)
theory NP_Link
  imports NP_Common NP_Dwarf
begin

text \<open>
  \<^verbatim>\<open>np/spiegel/mapping.{hxx,cxx}\<close> and \<^verbatim>\<open>np/spiegel/dwarf/link_object.{hxx,cxx}\<close>: the stretches
  of a file that are mapped into memory, and how a link object finds its DWARF sections, in
  what the system has mapped already or in mappings of its own. The object file library, opening
  the file and \<^verbatim>\<open>mmap\<close> are arguments; a pointer is a 64-bit address.
\<close>

section \<open>Mappings\<close>

record mapping_t =
  mp_offset :: u64
  mp_size :: u64
  mp_map :: u64

definition mapping_make :: "u64 \<Rightarrow> u64 \<Rightarrow> mapping_t" where
  "mapping_make off sz = \<lparr>mp_offset = off, mp_size = sz, mp_map = 0\<rparr>"

definition set_range :: "u64 \<Rightarrow> u64 \<Rightarrow> mapping_t \<Rightarrow> mapping_t" where
  "set_range off sz m = m\<lparr>mp_offset := off, mp_size := sz\<rparr>"

definition is_mapped :: "mapping_t \<Rightarrow> bool" where
  "is_mapped m \<longleftrightarrow> mp_map m \<noteq> 0"

definition get_end :: "mapping_t \<Rightarrow> u64" where
  "get_end m = mp_offset m + mp_size m"

definition set_end :: "u64 \<Rightarrow> mapping_t \<Rightarrow> mapping_t" where
  "set_end e m = m\<lparr>mp_size := e - mp_offset m\<rparr>"

definition contains_mapping :: "mapping_t \<Rightarrow> mapping_t \<Rightarrow> bool" where
  "contains_mapping self m \<longleftrightarrow> mp_offset self \<le> mp_offset m \<and> get_end self \<ge> get_end m"

definition contains_addr :: "mapping_t \<Rightarrow> u64 \<Rightarrow> bool" where
  "contains_addr self p \<longleftrightarrow> mp_map self \<le> p \<and> mp_map self + mp_size self \<ge> p"

definition map_from :: "mapping_t \<Rightarrow> mapping_t \<Rightarrow> mapping_t" where
  "map_from m self = self\<lparr>mp_map := mp_map m + mp_offset self - mp_offset m\<rparr>"

definition expand_to_pages :: "u64 \<Rightarrow> mapping_t \<Rightarrow> mapping_t" where
  "expand_to_pages ps m =
     (let e = page_round_up ps (mp_offset m + mp_size m);
          m' = m\<lparr>mp_offset := page_round_down ps (mp_offset m)\<rparr>
      in m'\<lparr>mp_size := e - mp_offset m'\<rparr>)"

definition compare_by_offset :: "mapping_t \<Rightarrow> mapping_t \<Rightarrow> int" where
  "compare_by_offset m1 m2 = u64cmp (mp_offset m1) (mp_offset m2)"

text \<open>The system call gets the size and the offset; a failure keeps the expanded range.\<close>

definition mapping_mmap :: "u64 \<Rightarrow> (u64 \<Rightarrow> u64 \<Rightarrow> u64 option) \<Rightarrow> mapping_t \<Rightarrow> bool \<times> mapping_t" where
  "mapping_mmap ps sys_mmap m =
     (let m' = expand_to_pages ps m
      in case sys_mmap (mp_size m') (mp_offset m') of
           None \<Rightarrow> (False, m')
         | Some a \<Rightarrow> (True, m'\<lparr>mp_map := a\<rparr>))"

definition mapping_munmap :: "mapping_t \<Rightarrow> mapping_t" where
  "mapping_munmap m = (if mp_map m \<noteq> 0 then m\<lparr>mp_map := 0\<rparr> else m)"

section \<open>Link objects\<close>

abbreviation (input) DW_sec_num :: nat where "DW_sec_num \<equiv> 9"

record link_object_t =
  lk_filename :: string
  lk_slide :: u64
  lk_sections :: "mapping_t list"
  lk_mappings :: "mapping_t list"
  lk_system_mappings :: "mapping_t list"
  lk_plts :: "mapping_t list"

definition link_object_new :: "string \<Rightarrow> link_object_t" where
  "link_object_new n = \<lparr>lk_filename = n, lk_slide = 0, lk_sections = replicate DW_sec_num (mapping_make 0 0),
     lk_mappings = [], lk_system_mappings = [], lk_plts = []\<rparr>"

definition live_address :: "link_object_t \<Rightarrow> addr_t \<Rightarrow> addr_t" where
  "live_address l a = (if a \<noteq> 0 then a + lk_slide l else a)"

definition lo_recorded_address :: "link_object_t \<Rightarrow> addr_t \<Rightarrow> addr_t" where
  "lo_recorded_address l a = (if a \<noteq> 0 then a - lk_slide l else a)"

definition has_sections :: "link_object_t \<Rightarrow> bool" where
  "has_sections l \<longleftrightarrow> mp_size (lk_sections l ! DW_sec_info) > 0"

definition describe_resolver :: "link_object_t \<Rightarrow> string" where
  "describe_resolver l = ''link_object('' @ lk_filename l @ '')''"

definition is_in_plt :: "link_object_t \<Rightarrow> addr_t \<Rightarrow> bool" where
  "is_in_plt l a \<longleftrightarrow> (\<exists>m\<in>set (lk_plts l). contains_addr m a)"

definition map_from_system :: "mapping_t list \<Rightarrow> mapping_t \<Rightarrow> mapping_t option" where
  "map_from_system sms m = map_option (\<lambda>sm. map_from sm m) (List.find (\<lambda>sm. contains_mapping sm m) sms)"

text \<open>A section as the object file library describes it: its name, position in the file and size.\<close>

type_synonym asection = "string \<times> u64 \<times> u64"

datatype bfd_result = Bfd_Open_Failed | Bfd_Not_Object | Bfd_Object "asection list"

definition is_plt_section :: "string \<Rightarrow> bool" where
  "is_plt_section s \<longleftrightarrow> s = ''.plt''"

text \<open>
  One section of the object: a procedure linkage table is kept if the system has it mapped; a
  DWARF section sets its slot; the rest is passed over. The count is of DWARF sections. On this
  platform debugging information is never in a separate file.
\<close>

definition scan_section :: "asection \<Rightarrow> link_object_t \<times> nat \<Rightarrow> link_object_t \<times> nat" where
  "scan_section sec st =
     (case (sec, st) of ((name, pos, sz), (l, ndwarf)) \<Rightarrow>
        if is_plt_section name then
          (case map_from_system (lk_system_mappings l) (mapping_make pos sz) of
             None \<Rightarrow> (l, ndwarf)
           | Some m \<Rightarrow> (l\<lparr>lk_plts := lk_plts l @ [m]\<rparr>, ndwarf))
        else
          let idx = to_index secnames name
          in if idx = - 1 then (l, ndwarf)
             else let s = set_range pos sz (lk_sections l ! nat idx);
                      s' = (case map_from_system (lk_system_mappings l) s of None \<Rightarrow> s | Some m \<Rightarrow> m)
                  in (l\<lparr>lk_sections := (lk_sections l)[nat idx := s']\<rparr>, Suc ndwarf))"

definition scan_sections :: "asection list \<Rightarrow> link_object_t \<Rightarrow> link_object_t \<times> nat" where
  "scan_sections secs l = fold scan_section secs (l, 0)"

text \<open>
  The slots that still need a mapping, by their position in the file (the order \<^verbatim>\<open>qsort\<close> gives
  to slots at the same position is open; here they keep theirs).
\<close>

definition tsec :: "mapping_t list \<Rightarrow> nat list" where
  "tsec secs = sort_key (\<lambda>i. mp_offset (secs ! i))
     (filter (\<lambda>i. \<not> is_mapped (secs ! i) \<and> mp_size (secs ! i) \<noteq> 0) [0..<length secs])"

definition coalesce_step :: "u64 \<Rightarrow> mapping_t \<Rightarrow> mapping_t list \<Rightarrow> mapping_t list" where
  "coalesce_step ps s ms =
     (if ms \<noteq> [] \<and> page_round_up ps (get_end (last ms)) \<ge> mp_offset s
      then butlast ms @ [set_end (get_end s) (last ms)]
      else ms @ [s])"

definition coalesce :: "u64 \<Rightarrow> mapping_t list \<Rightarrow> mapping_t list \<Rightarrow> mapping_t list" where
  "coalesce ps secs ms = fold (coalesce_step ps) secs ms"

fun mmap_all :: "u64 \<Rightarrow> (u64 \<Rightarrow> u64 \<Rightarrow> u64 option) \<Rightarrow> mapping_t list \<Rightarrow> bool \<times> mapping_t list" where
  "mmap_all ps sys_mmap [] = (True, [])"
| "mmap_all ps sys_mmap (m # ms) =
     (case mapping_mmap ps sys_mmap m of
        (False, m') \<Rightarrow> (False, m' # ms)
      | (True, m') \<Rightarrow> (case mmap_all ps sys_mmap ms of (ok, ms') \<Rightarrow> (ok, m' # ms')))"

fun setup_maps :: "mapping_t list \<Rightarrow> nat list \<Rightarrow> mapping_t list \<Rightarrow> np_error + mapping_t list" where
  "setup_maps ms [] secs = Inr secs"
| "setup_maps ms (i # is) secs =
     (let s = (case List.find (\<lambda>m. contains_mapping m (secs ! i)) ms of
                 None \<Rightarrow> secs ! i
               | Some m \<Rightarrow> map_from m (secs ! i))
      in if is_mapped s then setup_maps ms is (secs[i := s]) else Inl Assert_Failed)"

definition unmap_sections :: "link_object_t \<Rightarrow> link_object_t" where
  "unmap_sections l = l\<lparr>lk_mappings := map mapping_munmap (lk_mappings l)\<rparr>"

definition map_own :: "u64 \<Rightarrow> bool \<Rightarrow> (u64 \<Rightarrow> u64 \<Rightarrow> u64 option) \<Rightarrow> link_object_t \<Rightarrow> np_error + bool \<times> link_object_t" where
  "map_own ps can_open sys_mmap l =
     (let ts = tsec (lk_sections l);
          ms = coalesce ps (map (\<lambda>i. lk_sections l ! i) ts) (lk_mappings l)
      in if ts = [] then Inr (True, l)
         else if \<not> can_open then Inr (False, unmap_sections (l\<lparr>lk_mappings := ms\<rparr>))
         else case mmap_all ps sys_mmap ms of
             (False, ms') \<Rightarrow> Inr (False, unmap_sections (l\<lparr>lk_mappings := ms'\<rparr>))
           | (True, ms') \<Rightarrow>
               bindE (setup_maps ms' ts (lk_sections l)) (\<lambda>secs.
                 Inr (True, l\<lparr>lk_mappings := ms', lk_sections := secs\<rparr>)))"

definition map_sections ::
  "u64 \<Rightarrow> (string \<Rightarrow> bfd_result) \<Rightarrow> (string \<Rightarrow> bool) \<Rightarrow> (u64 \<Rightarrow> u64 \<Rightarrow> u64 option) \<Rightarrow> link_object_t \<Rightarrow> np_error + bool \<times> link_object_t" where
  "map_sections ps bfd can_open sys_mmap l =
     (case bfd (lk_filename l) of
        Bfd_Open_Failed \<Rightarrow> Inr (False, l)
      | Bfd_Not_Object \<Rightarrow> Inr (False, unmap_sections l)
      | Bfd_Object secs \<Rightarrow>
          (case scan_sections secs l of (l', ndwarf) \<Rightarrow>
             if ndwarf = 0 then Inr (True, l') else map_own ps (can_open (lk_filename l)) sys_mmap l'))"

section \<open>Coalescing\<close>

text \<open>Sections in file order, none reaching past the end of the address space or into the next.\<close>

definition section_ok :: "u64 \<Rightarrow> mapping_t \<Rightarrow> bool" where
  "section_ok ps s \<longleftrightarrow> unat (mp_offset s) + unat (mp_size s) + unat ps < 2 ^ 64"

definition in_order :: "mapping_t \<Rightarrow> mapping_t \<Rightarrow> bool" where
  "in_order a b \<longleftrightarrow> mp_offset a \<le> mp_offset b \<and> get_end a \<le> get_end b"

lemma unat_get_end: "section_ok ps s \<Longrightarrow> unat (get_end s) = unat (mp_offset s) + unat (mp_size s)"
  by (simp add: section_ok_def get_end_def unat_word_ariths)

lemma get_end_set_end [simp]: "get_end (set_end e m) = e" "mp_offset (set_end e m) = mp_offset m"
  by (simp_all add: get_end_def set_end_def)

lemma contains_mapping_refl [simp]: "contains_mapping m m"
  by (simp add: contains_mapping_def)

lemma contains_mapping_trans: "contains_mapping a b \<Longrightarrow> contains_mapping b c \<Longrightarrow> contains_mapping a c"
  by (auto simp: contains_mapping_def)

lemma coalesce_step_keeps:
  assumes "m \<in> set ms" "ms \<noteq> [] \<Longrightarrow> in_order (last ms) s"
  shows "\<exists>m'\<in>set (coalesce_step ps s ms). contains_mapping m' m"
  using assms
  by (cases ms rule: rev_cases) (auto simp: coalesce_step_def in_order_def contains_mapping_def intro!: bexI [of _ m])

lemma coalesce_step_last:
  assumes "ms \<noteq> [] \<Longrightarrow> in_order (last ms) s"
  shows "contains_mapping (last (coalesce_step ps s ms)) s" "get_end (last (coalesce_step ps s ms)) = get_end s"
    "coalesce_step ps s ms \<noteq> []"
  using assms by (auto simp: coalesce_step_def in_order_def contains_mapping_def)

lemma coalesce_step_order:
  assumes "ms \<noteq> [] \<Longrightarrow> in_order (last ms) s" "in_order s t"
  shows "in_order (last (coalesce_step ps s ms)) t"
  using assms coalesce_step_last(1,2) [OF assms(1), of ps] by (auto simp: in_order_def contains_mapping_def)

lemma coalesce_contains:
  assumes "sorted_wrt in_order secs" "ms \<noteq> [] \<Longrightarrow> \<forall>s\<in>set secs. in_order (last ms) s" "s \<in> set secs \<union> set ms"
  shows "\<exists>m\<in>set (coalesce ps secs ms). contains_mapping m s"
  using assms
proof (induction secs arbitrary: ms s)
  case Nil
  then show ?case by (auto simp: coalesce_def intro!: bexI [of _ s])
next
  case (Cons t secs)
  let ?ms = "coalesce_step ps t ms"
  have o: "ms \<noteq> [] \<Longrightarrow> in_order (last ms) t" using Cons.prems(2) by simp
  have o': "\<forall>s\<in>set secs. in_order (last ?ms) s" using Cons.prems(1) coalesce_step_order [OF o] by simp
  have "\<exists>m\<in>set ?ms. contains_mapping m s" if "s \<notin> set secs"
    using that Cons.prems(3) coalesce_step_keeps [OF _ o, where m = s] coalesce_step_last(1,3) [OF o, of ps]
    by (metis Un_iff last_in_set set_ConsD)
  then have "\<exists>m\<in>set secs \<union> set ?ms. contains_mapping m s" by (metis Un_iff contains_mapping_refl)
  then obtain m where m: "m \<in> set secs \<union> set ?ms" "contains_mapping m s" by blast
  from Cons.IH [OF _ _ m(1)] Cons.prems(1) o' obtain m' where "m' \<in> set (coalesce ps secs ?ms)" "contains_mapping m' m" by auto
  with m(2) show ?case unfolding coalesce_def by (auto intro: contains_mapping_trans)
qed

text \<open>Every coalesced mapping ends where one of the sections in it does.\<close>

lemma coalesce_from:
  assumes "sorted_wrt in_order secs" "ms \<noteq> [] \<Longrightarrow> \<forall>s\<in>set secs. in_order (last ms) s" "m \<in> set (coalesce ps secs ms)"
  shows "\<exists>s\<in>set secs \<union> set ms. contains_mapping m s \<and> get_end m = get_end s"
  using assms
proof (induction secs arbitrary: ms)
  case Nil
  then show ?case by (auto simp: coalesce_def intro!: bexI [of _ m])
next
  case (Cons t secs)
  let ?ms = "coalesce_step ps t ms"
  have o: "ms \<noteq> [] \<Longrightarrow> in_order (last ms) t" using Cons.prems(2) by simp
  have o': "\<forall>s\<in>set secs. in_order (last ?ms) s" using Cons.prems(1) coalesce_step_order [OF o] by simp
  obtain s where s: "s \<in> set secs \<union> set ?ms" "contains_mapping m s" "get_end m = get_end s"
    using Cons.IH [of ?ms] Cons.prems(1,3) o' by (auto simp: coalesce_def)
  have "s \<in> set secs \<union> set ms \<or> s = last ?ms"
    using s(1) by (auto simp: coalesce_step_def dest: in_set_butlastD split: if_splits)
  then show ?case
  proof
    assume "s = last ?ms"
    with coalesce_step_last(1,2) [OF o, of ps] s(2,3) show ?thesis
      by (intro bexI [of _ t]) (auto intro: contains_mapping_trans)
  qed (use s(2,3) in auto)
qed

section \<open>Mapping the sections\<close>

lemma expand_contains:
  assumes "0 < ps" "section_ok ps m"
  shows "contains_mapping (expand_to_pages ps m) m" "mp_offset (expand_to_pages ps m) \<le> get_end (expand_to_pages ps m)"
proof -
  note b = page_round_bounds [OF assms(1)]
  have le: "unat (get_end m) + unat ps \<le> 2 ^ 64" "unat (mp_offset m) + unat ps \<le> 2 ^ 64"
    using unat_get_end [OF assms(2)] assms(2) by (simp_all add: section_ok_def)
  have e: "get_end (expand_to_pages ps m) = page_round_up ps (get_end m)"
    "mp_offset (expand_to_pages ps m) = page_round_down ps (mp_offset m)"
    by (simp_all add: expand_to_pages_def Let_def get_end_def)
  show c: "contains_mapping (expand_to_pages ps m) m" using b [OF le(1)] b [OF le(2)] by (simp add: contains_mapping_def e)
  have "mp_offset m \<le> get_end m" using unat_get_end [OF assms(2)] by (simp add: word_le_nat_alt)
  with c show "mp_offset (expand_to_pages ps m) \<le> get_end (expand_to_pages ps m)"
    by (auto simp: contains_mapping_def)
qed

lemma mmap_all_mapped:
  assumes "mmap_all ps sys_mmap ms = (True, ms')"
  shows "\<forall>m\<in>set ms. \<exists>a. sys_mmap (mp_size (expand_to_pages ps m)) (mp_offset (expand_to_pages ps m)) = Some a
      \<and> (expand_to_pages ps m)\<lparr>mp_map := a\<rparr> \<in> set ms'"
    and "\<forall>m'\<in>set ms'. \<exists>m\<in>set ms. \<exists>a. m' = (expand_to_pages ps m)\<lparr>mp_map := a\<rparr>
      \<and> sys_mmap (mp_size m') (mp_offset m') = Some a"
  using assms
  by (induction ms arbitrary: ms') (auto simp: mapping_mmap_def Let_def split: prod.splits option.splits bool.splits)

lemma mmap_all_ok:
  "(\<And>m. m \<in> set ms \<Longrightarrow> sys_mmap (mp_size (expand_to_pages ps m)) (mp_offset (expand_to_pages ps m)) \<noteq> None) \<Longrightarrow>
    fst (mmap_all ps sys_mmap ms)"
proof (induction ms)
  case (Cons m ms)
  obtain a where "sys_mmap (mp_size (expand_to_pages ps m)) (mp_offset (expand_to_pages ps m)) = Some a"
    using Cons.prems by fastforce
  with Cons show ?case by (simp add: mapping_mmap_def Let_def split_beta)
qed simp

text \<open>
  What the system promises of a mapping: it is not at address zero, does not run past the end of
  the address space, and the memory there holds the bytes of the file.
\<close>

definition mmap_contract :: "(u64 \<Rightarrow> u64 \<Rightarrow> u64 option) \<Rightarrow> (u64 \<Rightarrow> u8) \<Rightarrow> (nat \<Rightarrow> u8) \<Rightarrow> bool" where
  "mmap_contract sys_mmap mem file \<longleftrightarrow>
     (\<forall>sz off a. sys_mmap sz off = Some a \<longrightarrow> a \<noteq> 0 \<and> unat a + unat sz < 2 ^ 64 \<and>
        (\<forall>k<unat sz. mem (a + of_nat k) = file (unat off + k)))"

text \<open>
  What it serves: the file's pages up to a limit. A request succeeds that is not empty, starts on a
  page and ends within the limit.
\<close>

definition mmap_serves :: "u64 \<Rightarrow> (u64 \<Rightarrow> u64 \<Rightarrow> u64 option) \<Rightarrow> nat \<Rightarrow> bool" where
  "mmap_serves ps sys_mmap limit \<longleftrightarrow>
     (\<forall>sz off. sz \<noteq> 0 \<and> unat ps dvd unat off \<and> unat off + unat sz \<le> limit \<longrightarrow> sys_mmap sz off \<noteq> None)"

definition holds_file :: "(u64 \<Rightarrow> u8) \<Rightarrow> (nat \<Rightarrow> u8) \<Rightarrow> mapping_t \<Rightarrow> bool" where
  "holds_file mem file s \<longleftrightarrow> is_mapped s \<and> (\<forall>k<unat (mp_size s). mem (mp_map s + of_nat k) = file (unat (mp_offset s) + k))"

lemma map_from_holds:
  assumes c: "mmap_contract sys_mmap mem file" "sys_mmap (mp_size m) (mp_offset m) = Some (mp_map m)"
    and m: "mp_offset m \<le> get_end m" "contains_mapping m s" and s: "section_ok ps s"
  shows "holds_file mem file (map_from m s)"
proof -
  define d where "d = mp_offset s - mp_offset m"
  have a: "mp_map m \<noteq> 0" "unat (mp_map m) + unat (mp_size m) < 2 ^ 64"
    "\<And>k. k < unat (mp_size m) \<Longrightarrow> mem (mp_map m + of_nat k) = file (unat (mp_offset m) + k)"
    using c by (auto simp: mmap_contract_def)
  have ms: "mp_size m = get_end m - mp_offset m" by (simp add: get_end_def)
  have sz: "unat (mp_size m) = unat (get_end m) - unat (mp_offset m)" unfolding ms by (rule unat_sub [OF m(1)])
  have le: "unat (mp_offset m) \<le> unat (mp_offset s)" "unat (mp_offset s) + unat (mp_size s) \<le> unat (get_end m)"
    using m(2) unat_get_end [OF s] by (simp_all add: contains_mapping_def word_le_nat_alt)
  have d: "unat d = unat (mp_offset s) - unat (mp_offset m)"
    using m(2) by (simp add: d_def contains_mapping_def unat_sub)
  have mp: "mp_map (map_from m s) = mp_map m + d" by (simp add: map_from_def d_def)
  have un: "unat (mp_map m + d) = unat (mp_map m) + unat d"
    using a(2) sz d le by (subst unat_word_ariths) simp
  have "mp_map m + d \<noteq> 0" using un a(1) by (metis add_is_0 unat_0 unat_eq_zero)
  moreover have "mem (mp_map m + d + of_nat k) = file (unat (mp_offset s) + k)" if "k < unat (mp_size s)" for k
  proof -
    have "mp_map m + d + of_nat k = mp_map m + of_nat (unat d + k)" by simp
    moreover have "unat d + k < unat (mp_size m)" "unat (mp_offset m) + (unat d + k) = unat (mp_offset s) + k"
      using sz d le that by linarith+
    ultimately show ?thesis using a(3) [of "unat d + k"] by (simp only:)
  qed
  ultimately show ?thesis by (simp add: holds_file_def is_mapped_def mp) (simp add: map_from_def)
qed

lemma setup_maps_found:
  assumes "distinct is" "\<forall>i\<in>set is. i < length secs"
    and "\<And>i m. i \<in> set is \<Longrightarrow> m \<in> set ms \<Longrightarrow> contains_mapping m (secs ! i) \<Longrightarrow> P (secs ! i) (map_from m (secs ! i))"
    and "\<And>i. i \<in> set is \<Longrightarrow> \<exists>m\<in>set ms. contains_mapping m (secs ! i)"
    and "\<And>s s'. P s s' \<Longrightarrow> is_mapped s'"
  shows "\<exists>secs'. setup_maps ms is secs = Inr secs' \<and> length secs' = length secs \<and>
    (\<forall>i<length secs. if i \<in> set is then P (secs ! i) (secs' ! i) else secs' ! i = secs ! i)"
  using assms
proof (induction "is" arbitrary: secs)
  case (Cons i "is")
  obtain m where m: "List.find (\<lambda>m. contains_mapping m (secs ! i)) ms = Some m" "m \<in> set ms" "contains_mapping m (secs ! i)"
    using Cons.prems(4) [of i] by (cases "List.find (\<lambda>m. contains_mapping m (secs ! i)) ms") (auto simp: find_None_iff find_Some_iff)
  let ?s = "map_from m (secs ! i)"
  have p: "P (secs ! i) ?s" using Cons.prems(3) m by simp
  have nth: "secs[i := ?s] ! j = secs ! j" if "j \<in> set is" for j
    using that Cons.prems(1) by (metis distinct.simps(2) nth_list_update_neq)
  obtain secs' where s: "setup_maps ms is (secs[i := ?s]) = Inr secs'" "length secs' = length secs"
    "\<forall>j<length secs. if j \<in> set is then P (secs ! j) (secs' ! j) else secs' ! j = secs[i := ?s] ! j"
    using Cons.IH [of "secs[i := ?s]"] Cons.prems nth by (fastforce split: if_splits)
  have "setup_maps ms (i # is) secs = Inr secs'" using m(1) Cons.prems(5) [OF p] s(1) by (simp add: Let_def)
  moreover have "\<forall>j<length secs. if j \<in> set (i # is) then P (secs ! j) (secs' ! j) else secs' ! j = secs ! j"
    using s(3) p Cons.prems(1,2) by auto
  ultimately show ?case using s(2) by blast
qed simp

text \<open>The sections of a file do not overlap and end well before the end of the address space.\<close>

definition sections_apart :: "u64 \<Rightarrow> mapping_t list \<Rightarrow> bool" where
  "sections_apart ps secs \<longleftrightarrow> (\<forall>s\<in>set secs. section_ok ps s) \<and>
     sorted_wrt (\<lambda>a b. mp_size a = 0 \<or> mp_size b = 0 \<or> get_end a \<le> mp_offset b \<or> get_end b \<le> mp_offset a) secs"

lemma sections_apart_nth:
  assumes "sections_apart ps secs" "i < length secs" "j < length secs" "i \<noteq> j" "mp_size (secs ! i) \<noteq> 0" "mp_size (secs ! j) \<noteq> 0"
  shows "get_end (secs ! i) \<le> mp_offset (secs ! j) \<or> get_end (secs ! j) \<le> mp_offset (secs ! i)"
  using assms by (cases i j rule: linorder_cases) (auto simp: sections_apart_def sorted_wrt_iff_nth_less)

lemma tsec_sorted:
  assumes "sections_apart ps secs"
  shows "sorted_wrt in_order (map (\<lambda>i. secs ! i) (tsec secs))" "distinct (tsec secs)"
    "set (tsec secs) = {i. i < length secs \<and> \<not> is_mapped (secs ! i) \<and> mp_size (secs ! i) \<noteq> 0}"
proof -
  show set: "set (tsec secs) = {i. i < length secs \<and> \<not> is_mapped (secs ! i) \<and> mp_size (secs ! i) \<noteq> 0}"
    and d: "distinct (tsec secs)" by (auto simp: tsec_def)
  have srt: "sorted (map (\<lambda>i. mp_offset (secs ! i)) (tsec secs))" by (simp add: tsec_def)
  show "sorted_wrt in_order (map (\<lambda>i. secs ! i) (tsec secs))"
  proof (intro sorted_wrt_iff_nth_less [THEN iffD2] allI impI)
    fix i j assume ij: "i < j" "j < length (map ((!) secs) (tsec secs))"
    let ?a = "tsec secs ! i" and ?b = "tsec secs ! j"
    have m: "?a \<in> set (tsec secs)" "?b \<in> set (tsec secs)" "?a \<noteq> ?b" using ij d by (auto simp: nth_eq_iff_index_eq)
    have le: "mp_offset (secs ! ?a) \<le> mp_offset (secs ! ?b)" using srt ij by (simp add: sorted_iff_nth_mono)
    have ok: "section_ok ps (secs ! ?a)" "section_ok ps (secs ! ?b)" using assms m by (auto simp: sections_apart_def set)
    have ap: "get_end (secs ! ?a) \<le> mp_offset (secs ! ?b) \<or> get_end (secs ! ?b) \<le> mp_offset (secs ! ?a)"
      using m by (intro sections_apart_nth [OF assms]) (auto simp: set)
    have ne: "0 < unat (mp_size (secs ! ?b))" using m(2) by (simp add: set unat_gt_0)
    note e = unat_get_end [OF ok(1)] unat_get_end [OF ok(2)]
    have "get_end (secs ! ?a) \<le> get_end (secs ! ?b)"
      using ap le e ne by (auto simp: word_le_nat_alt)
    then show "in_order (map ((!) secs) (tsec secs) ! i) (map ((!) secs) (tsec secs) ! j)"
      using le ij by (simp add: in_order_def)
  qed
qed

lemma coalesce_ok:
  "\<forall>s\<in>set secs \<union> set ms. section_ok ps s \<Longrightarrow> sorted_wrt in_order secs \<Longrightarrow>
     (ms \<noteq> [] \<Longrightarrow> \<forall>s\<in>set secs. in_order (last ms) s) \<Longrightarrow> \<forall>m\<in>set (coalesce ps secs ms). section_ok ps m"
proof (induction secs arbitrary: ms)
  case (Cons t secs)
  let ?ms = "coalesce_step ps t ms"
  have o: "ms \<noteq> [] \<Longrightarrow> in_order (last ms) t" using Cons.prems(3) by simp
  have "section_ok ps (set_end (get_end t) (last ms))" if "ms \<noteq> []"
  proof -
    have t: "section_ok ps t" and l: "mp_offset (last ms) \<le> mp_offset t" using Cons.prems(1) o that by (auto simp: in_order_def)
    have "mp_offset (last ms) \<le> get_end t" using l unat_get_end [OF t] by (auto simp: word_le_nat_alt)
    then have "unat (get_end t - mp_offset (last ms)) = unat (get_end t) - unat (mp_offset (last ms))"
      "unat (mp_offset (last ms)) \<le> unat (get_end t)" by (auto simp: unat_sub word_le_nat_alt)
    then show ?thesis using t unat_get_end [OF t] by (simp add: section_ok_def set_end_def)
  qed
  then have "\<forall>s\<in>set secs \<union> set ?ms. section_ok ps s"
    using Cons.prems(1) by (auto simp: coalesce_step_def dest: in_set_butlastD)
  moreover have "\<forall>s\<in>set secs. in_order (last ?ms) s" using Cons.prems(2) coalesce_step_order [OF o] by simp
  ultimately show ?case using Cons.IH [of ?ms] Cons.prems(2) by (simp add: coalesce_def)
qed (simp add: coalesce_def)

text \<open>A mapping of the own ones asks for whole pages, and not beyond the page its last section ends in.\<close>

lemma expand_request:
  assumes ps: "0 < ps" and m: "section_ok ps m" and s: "contains_mapping m s" "get_end m = get_end s" "section_ok ps s" "mp_size s \<noteq> 0"
  defines "m' \<equiv> expand_to_pages ps m"
  shows "mp_size m' \<noteq> 0" "unat ps dvd unat (mp_offset m')"
    "unat (mp_offset m') + unat (mp_size m') = unat (page_round_up ps (get_end s))"
proof -
  have e: "get_end m' = page_round_up ps (get_end s)" "mp_offset m' = page_round_down ps (mp_offset m)"
    unfolding s(2) [symmetric] by (simp_all add: m'_def expand_to_pages_def Let_def get_end_def)
  show "unat ps dvd unat (mp_offset m')" by (simp add: e unat_page_round_down)
  have c: "contains_mapping m' s"
    using contains_mapping_trans [OF expand_contains(1) [OF ps m] s(1)] by (simp add: m'_def)
  have sz: "mp_size m' = get_end m' - mp_offset m'" by (simp add: get_end_def)
  have le: "mp_offset m' \<le> get_end m'" using expand_contains(2) [OF ps m] by (simp add: m'_def)
  have "unat (mp_size m') = unat (get_end m') - unat (mp_offset m')" unfolding sz by (rule unat_sub [OF le])
  then show "unat (mp_offset m') + unat (mp_size m') = unat (page_round_up ps (get_end s))"
    using le by (simp add: e(1) word_le_nat_alt)
  have "unat (mp_offset s) < unat (get_end s)" using unat_get_end [OF s(3)] s(4) by (simp add: unat_gt_0)
  then show "mp_size m' \<noteq> 0" using c sz by (auto simp: contains_mapping_def word_le_nat_alt)
qed

lemma mmap_coalesced_ok:
  assumes ps: "0 < ps" and secs: "sorted_wrt in_order secs" "\<And>s. s \<in> set secs \<Longrightarrow> section_ok ps s \<and> mp_size s \<noteq> 0"
    and srv: "mmap_serves ps sys_mmap limit" "\<And>s. s \<in> set secs \<Longrightarrow> unat (page_round_up ps (get_end s)) \<le> limit"
  shows "fst (mmap_all ps sys_mmap (coalesce ps secs []))"
proof (rule mmap_all_ok)
  fix m assume m: "m \<in> set (coalesce ps secs [])"
  obtain s where s: "s \<in> set secs" "contains_mapping m s" "get_end m = get_end s"
    using coalesce_from [OF secs(1) _ m] by auto
  have "section_ok ps m" using coalesce_ok [OF _ secs(1), of "[]" ps] secs(2) m by auto
  from expand_request [OF ps this s(2,3)] secs(2) s(1) srv
  show "sys_mmap (mp_size (expand_to_pages ps m)) (mp_offset (expand_to_pages ps m)) \<noteq> None"
    by (simp add: mmap_serves_def)
qed

text \<open>Once the mappings are there, every section to be mapped finds its bytes in one of them.\<close>

definition found_from :: "(u64 \<Rightarrow> u8) \<Rightarrow> (nat \<Rightarrow> u8) \<Rightarrow> mapping_t \<Rightarrow> mapping_t \<Rightarrow> bool" where
  "found_from mem file s s' \<longleftrightarrow> mp_offset s' = mp_offset s \<and> mp_size s' = mp_size s \<and> holds_file mem file s'"

lemma setup_maps_own:
  assumes "sections_apart ps secs" "0 < ps" "mmap_contract sys_mmap mem file"
    and "mmap_all ps sys_mmap (coalesce ps (map ((!) secs) (tsec secs)) []) = (True, ms')"
  shows "\<exists>secs'. setup_maps ms' (tsec secs) secs = Inr secs' \<and> length secs' = length secs \<and>
    (\<forall>i<length secs. if i \<in> set (tsec secs) then found_from mem file (secs ! i) (secs' ! i) else secs' ! i = secs ! i)"
proof -
  let ?ts = "tsec secs" and ?ms = "coalesce ps (map ((!) secs) (tsec secs)) []"
  note ts = tsec_sorted [OF assms(1)] and mm = mmap_all_mapped [OF assms(4)]
  have ok: "\<forall>s\<in>set (map ((!) secs) ?ts) \<union> set []. section_ok ps s"
    using assms(1) by (auto simp: sections_apart_def ts(3))
  have mok: "\<forall>m\<in>set ?ms. section_ok ps m" by (rule coalesce_ok [OF ok ts(1)]) simp
  show ?thesis
  proof (rule setup_maps_found)
    fix i m assume i: "i \<in> set ?ts" and m: "m \<in> set ms'" "contains_mapping m (secs ! i)"
    from mm(2) m(1) obtain m0 a where m0: "m0 \<in> set ?ms" "m = (expand_to_pages ps m0)\<lparr>mp_map := a\<rparr>"
      "sys_mmap (mp_size m) (mp_offset m) = Some a" by blast
    have "mp_offset m \<le> get_end m" using expand_contains(2) [OF assms(2)] mok m0(1,2) by (simp add: get_end_def)
    moreover have "section_ok ps (secs ! i)" using ok i by simp
    moreover have "sys_mmap (mp_size m) (mp_offset m) = Some (mp_map m)" using m0(2,3) by simp
    ultimately have "holds_file mem file (map_from m (secs ! i))" using map_from_holds assms(3) m(2) by blast
    then show "found_from mem file (secs ! i) (map_from m (secs ! i))" by (simp add: found_from_def map_from_def)
  next
    fix i assume "i \<in> set ?ts"
    then obtain m where m: "m \<in> set ?ms" "contains_mapping m (secs ! i)"
      using coalesce_contains [OF ts(1), of "[]" "secs ! i" ps] by auto
    obtain a where a: "(expand_to_pages ps m)\<lparr>mp_map := a\<rparr> \<in> set ms'" using mm(1) m(1) by blast
    have "contains_mapping ((expand_to_pages ps m)\<lparr>mp_map := a\<rparr>) (secs ! i)"
      using contains_mapping_trans [OF expand_contains(1) [OF assms(2)] m(2)] mok m(1)
      by (simp add: contains_mapping_def get_end_def)
    with a show "\<exists>m\<in>set ms'. contains_mapping m (secs ! i)" by blast
  qed (use ts in \<open>auto simp: found_from_def holds_file_def\<close>)
qed

text \<open>
  C26. Once the sections of a file are mapped, whatever the system had not mapped of them lies at an
  address where the memory holds the section's bytes, and the other sections are as they were. The
  assertion that every section found a mapping never fails. When the file opens and the system serves
  requests for the pages the sections lie in, the mapping does succeed; with a section to map
  and no file it does not.
\<close>

theorem map_own_sections:
  assumes "sections_apart ps (lk_sections l)" "0 < ps" "lk_mappings l = []" "mmap_contract sys_mmap mem file"
  shows "\<exists>ok l'. map_own ps can_open sys_mmap l = Inr (ok, l')
    \<and> (can_open \<and> mmap_serves ps sys_mmap limit \<and>
         (\<forall>s\<in>set (lk_sections l). \<not> is_mapped s \<and> mp_size s \<noteq> 0 \<longrightarrow> unat (page_round_up ps (get_end s)) \<le> limit) \<longrightarrow> ok)
    \<and> (ok \<longrightarrow> can_open \<or> (\<forall>s\<in>set (lk_sections l). is_mapped s \<or> mp_size s = 0))
    \<and> (ok \<longrightarrow> (\<forall>i<length (lk_sections l). let s = lk_sections l ! i; s' = lk_sections l' ! i in
         if is_mapped s \<or> mp_size s = 0 then s' = s
         else mp_offset s' = mp_offset s \<and> mp_size s' = mp_size s \<and> holds_file mem file s'))"
proof -
  let ?secs = "lk_sections l"
  let ?ts = "tsec ?secs"
  let ?ms = "coalesce ps (map (\<lambda>i. ?secs ! i) ?ts) []"
  note ts = tsec_sorted [OF assms(1)]
  have ok: "\<forall>s\<in>set (map (\<lambda>i. ?secs ! i) ?ts) \<union> set []. section_ok ps s"
    using assms(1) by (auto simp: sections_apart_def ts(3))
  have srv: "fst (mmap_all ps sys_mmap ?ms)" if "mmap_serves ps sys_mmap limit"
    "\<forall>s\<in>set ?secs. \<not> is_mapped s \<and> mp_size s \<noteq> 0 \<longrightarrow> unat (page_round_up ps (get_end s)) \<le> limit"
    by (rule mmap_coalesced_ok [OF assms(2) ts(1) _ that(1)]) (use ok that(2) in \<open>auto simp: ts(3)\<close>)
  have none: "?ts = [] \<longleftrightarrow> (\<forall>s\<in>set ?secs. is_mapped s \<or> mp_size s = 0)"
    using ts(3) by (auto simp: all_set_conv_all_nth simp flip: set_empty)
  show ?thesis
  proof (cases "?ts = [] \<or> \<not> can_open \<or> \<not> fst (mmap_all ps sys_mmap ?ms)")
    case True
    then consider "?ts = []" | "?ts \<noteq> []" "\<not> can_open" | "?ts \<noteq> []" "can_open" "\<not> fst (mmap_all ps sys_mmap ?ms)" by blast
    then show ?thesis
    proof cases
      case 1
      then show ?thesis using none by (intro exI [of _ True] exI [of _ l]) (simp add: map_own_def Let_def)
    next
      case 2
      then obtain l' where "map_own ps can_open sys_mmap l = Inr (False, l')" by (simp add: map_own_def Let_def)
      with 2 show ?thesis by blast
    next
      case 3
      then obtain l' where "map_own ps can_open sys_mmap l = Inr (False, l')"
        by (cases "mmap_all ps sys_mmap ?ms") (auto simp: map_own_def Let_def assms(3))
      with 3 srv show ?thesis by blast
    qed
  next
    case False
    then obtain ms' where ms': "mmap_all ps sys_mmap ?ms = (True, ms')" by (metis (full_types) prod.collapse)
    note setup_maps_own [OF assms(1,2,4) ms']
    then obtain secs' where s: "setup_maps ms' ?ts ?secs = Inr secs'"
      "\<forall>i<length ?secs. if i \<in> set ?ts then found_from mem file (?secs ! i) (secs' ! i) else secs' ! i = ?secs ! i" by blast
    have "map_own ps can_open sys_mmap l = Inr (True, l\<lparr>lk_mappings := ms', lk_sections := secs'\<rparr>)"
      using False ms' s(1) by (simp add: map_own_def Let_def assms(3))
    moreover have "let s = ?secs ! i; s' = secs' ! i in if is_mapped s \<or> mp_size s = 0 then s' = s
         else mp_offset s' = mp_offset s \<and> mp_size s' = mp_size s \<and> holds_file mem file s'" if "i < length ?secs" for i
      using s(2) [rule_format, OF that] that unfolding ts(3) by (auto simp: Let_def found_from_def split: if_splits)
    ultimately show ?thesis using False by (intro exI [of _ True]) simp
  qed
qed

definition demo_link_object :: link_object_t where
  "demo_link_object = (link_object_new ''x.so'')
     \<lparr>lk_sections := (replicate DW_sec_num (mapping_make 0 0))[DW_sec_info := mapping_make 0x1010 0x20, DW_sec_str := mapping_make 0x1030 0x10]\<rparr>"

definition demo_mmap :: "u64 \<Rightarrow> u64 \<Rightarrow> u64 option" where
  "demo_mmap sz off = (if off \<le> 0x10000 \<and> sz \<le> 0x10000 then Some (0x100000 + off) else None)"

lemma demo_mmap_contract: "mmap_contract demo_mmap (\<lambda>a. of_nat (unat a - 0x100000)) of_nat"
  unfolding mmap_contract_def
proof (intro allI impI)
  fix sz off a assume m: "demo_mmap sz off = Some a"
  then have le: "unat off \<le> 0x10000" "unat sz \<le> 0x10000" and a: "a = 0x100000 + off"
    by (auto simp: demo_mmap_def word_le_nat_alt split: if_splits)
  have ua: "unat a = 0x100000 + unat off" unfolding a by (subst unat_word_ariths) (use le in simp)
  have "unat (a + of_nat k) = unat a + k" if "k < unat sz" for k
    using that le ua by (simp add: unat_word_ariths unat_of_nat take_bit_eq_mod)
  with ua le show "a \<noteq> 0 \<and> unat a + unat sz < 2 ^ 64 \<and>
      (\<forall>k<unat sz. (of_nat (unat (a + of_nat k) - 0x100000) :: u8) = of_nat (unat off + k))"
    by auto
qed

lemma demo_mmap_serves: "mmap_serves 4096 demo_mmap 0x10000"
  by (auto simp: mmap_serves_def demo_mmap_def word_le_nat_alt)

theorem map_own_sections_witness:
  "\<exists>l'. map_own 4096 True demo_mmap demo_link_object = Inr (True, l')
    \<and> holds_file (\<lambda>a. of_nat (unat a - 0x100000)) of_nat (lk_sections l' ! DW_sec_str)"
proof -
  let ?l = demo_link_object
  have secs: "lk_sections ?l = [mapping_make 0 0, mapping_make 0 0, mapping_make 0x1010 0x20, mapping_make 0 0, mapping_make 0 0,
      mapping_make 0 0, mapping_make 0x1030 0x10, mapping_make 0 0, mapping_make 0 0]"
    by (simp add: demo_link_object_def numeral_eq_Suc)
  have ap: "sections_apart 4096 (lk_sections ?l)"
    unfolding secs by (simp add: sections_apart_def section_ok_def mapping_make_def get_end_def)
  have own: "lk_mappings ?l = []" by (simp add: demo_link_object_def link_object_new_def)
  have fit: "\<forall>s\<in>set (lk_sections ?l). \<not> is_mapped s \<and> mp_size s \<noteq> 0 \<longrightarrow> unat (page_round_up 4096 (get_end s)) \<le> 0x10000"
    unfolding secs by (simp add: mapping_make_def get_end_def page_round_up_def)
  have "\<not> is_mapped (lk_sections ?l ! DW_sec_str) \<and> mp_size (lk_sections ?l ! DW_sec_str) \<noteq> 0" "DW_sec_str < length (lk_sections ?l)"
    by (simp_all add: secs is_mapped_def mapping_make_def)
  with map_own_sections [OF ap _ own demo_mmap_contract, of True "0x10000"] demo_mmap_serves fit show ?thesis
    by (fastforce simp: Let_def)
qed

end
