(* ===== verification/NP_State.thy ===== *)
theory NP_State
  imports NP_Walker NP_Link NP_Rangetree
begin

text \<open>
  \<^verbatim>\<open>np/spiegel/dwarf/state.cxx\<close>: the link objects of the program, the compile units read from
  them, and the two indexes of addresses. The platform's list of loaded objects, the object file
  library, memory and \<^verbatim>\<open>mmap\<close> are arguments. Loops that follow references of the debugging
  information, which may be circular, are partial functions: a run that does not end has the
  value \<^const>\<open>None\<close>.
\<close>

section \<open>State\<close>

record state_t =
  st_link_objects :: "link_object_t list"
  st_units :: "compile_unit_t list"
  st_address_index :: "(addr_t, reference_t) rangetree"
  st_link_object_index :: "(addr_t, nat) rangetree"

definition state_new :: state_t where
  "state_new = \<lparr>st_link_objects = [], st_units = [], st_address_index = rt_empty, st_link_object_index = rt_empty\<rparr>"

text \<open>What \<^verbatim>\<open>get_contents\<close> of a section reads, and the part of the state the walkers use.\<close>

definition section_contents :: "(u64 \<Rightarrow> u8) \<Rightarrow> mapping_t \<Rightarrow> u8 list" where
  "section_contents mem s = map (\<lambda>k. mem (mp_map s + of_nat k)) [0..<unat (mp_size s)]"

definition state_dwarf :: "(u64 \<Rightarrow> u8) \<Rightarrow> state_t \<Rightarrow> dwarf_t" where
  "state_dwarf mem st =
     \<lparr>dw_units = st_units st,
      dw_contents = (\<lambda>l sec. if l < length (st_link_objects st) \<and> sec < DW_sec_num
                              then section_contents mem (lk_sections (st_link_objects st ! l) ! sec) else [])\<rparr>"

section \<open>Reading the units\<close>

lemma read_header_remains:
  assumes "read_header cu r = Inr (Some cu', r')"
  shows "get_remains r' < get_remains r"
proof -
  obtain len is64 r1 where r1: "read_initial_length r = (Some (len, is64), r1)"
    using assms by (auto simp: read_header_def split: prod.splits option.splits)
  obtain version r2 where r2: "read_u16 r1 = (Some version, r2)"
    using assms r1 by (auto simp: read_header_def split: prod.splits option.splits if_splits)
  let ?m = "rd_bind read_u32 (\<lambda>ao. rd_bind read_u8 (\<lambda>asz. rd_return (ao, asz)))"
  obtain x r3 where r3: "?m r2 = (Some x, r3)"
    using assms r1 r2 by (auto simp: read_header_def Let_def split: prod.splits option.splits if_splits)
  obtain n where r': "r' = snd (skip n r3)"
    using assms r1 r2 r3 by (auto simp: read_header_def Let_def split: prod.splits option.splits if_splits)
  have op: "reader_op ?m"
    by (intro reader_op_bind reader_op_return read_u32_op.reader_op_axioms read_u8_op.reader_op_axioms)
  have "get_remains r1 \<le> get_remains r" using reader_op.op_remains [OF read_initial_length_op.reader_op_axioms r1] .
  moreover have "get_remains r2 < get_remains r1"
    using r2 by (auto simp: read_u16_def get_remains_def split: if_splits)
  moreover have "get_remains r3 \<le> get_remains r2" using reader_op.op_remains [OF op r3] .
  moreover have "get_remains r' \<le> get_remains r3"
    unfolding r' using rd_moved_remains [OF snd_moved [OF skip_op.reader_op_axioms]] .
  ultimately show ?thesis by simp
qed

text \<open>
  The loop over the units of a link object: a unit whose own entry or line number program
  cannot be read ends it.
\<close>

function units_loop ::
  "dwarf_t \<Rightarrow> nat \<Rightarrow> reader_t \<Rightarrow> reader_t \<Rightarrow> reader_t \<Rightarrow> np_error + compile_unit_t list" where
  "units_loop dw l infor abbrevr liner =
     (case read_header (compile_unit_new (length (dw_units dw)) l) infor of
        Inl e \<Rightarrow> Inl e
      | Inr (None, infor') \<Rightarrow> Inr (dw_units dw)
      | Inr (Some cu, infor') \<Rightarrow>
          bindE (read_abbrevs cu abbrevr) (\<lambda>(cu1, abbrevr').
          bindE (cu_read_attributes dw cu1) (\<lambda>cu2.
          case cu2 of None \<Rightarrow> Inr (dw_units dw) | Some cu2 \<Rightarrow>
          bindE (read_lineno_program cu2 liner) (\<lambda>(cu3, liner').
          case cu3 of None \<Rightarrow> Inr (dw_units dw) | Some cu3 \<Rightarrow>
            units_loop (dw\<lparr>dw_units := dw_units dw @ [cu3]\<rparr>) l infor' abbrevr' liner'))))"
  by auto
termination
  by (relation "measure (\<lambda>(dw, l, infor, abbrevr, liner). get_remains infor)") (auto dest: read_header_remains)

declare units_loop.simps [simp del]

definition read_compile_units :: "(u64 \<Rightarrow> u8) \<Rightarrow> nat \<Rightarrow> state_t \<Rightarrow> np_error + bool \<times> state_t" where
  "read_compile_units mem l st =
     (let dw = state_dwarf mem st;
          rd = (\<lambda>sec. mk_reader (dw_contents dw l sec) False)
      in bindE (units_loop dw l (rd DW_sec_info) (rd DW_sec_abbrev) (rd DW_sec_line)) (\<lambda>us.
           Inr (True, st\<lparr>st_units := us\<rparr>)))"

section \<open>Link objects\<close>

definition ignored_prefixes :: "string list" where
  "ignored_prefixes =
     [''/bin/'', ''/lib/'', ''/lib64/'', ''/usr/bin/'', ''/usr/lib/'', ''/usr/lib64/'', ''/opt/'',
      ''linux-gate.so'', ''linux-vdso.so'']"

definition filename_is_ignored :: "string \<Rightarrow> string option" where
  "filename_is_ignored f = List.find (\<lambda>p. take (length p) f = p) ignored_prefixes"

definition get_link_object :: "string option \<Rightarrow> state_t \<Rightarrow> nat option" where
  "get_link_object f st =
     (case f of None \<Rightarrow> None
      | Some s \<Rightarrow> List.find (\<lambda>i. lk_filename (st_link_objects st ! i) = s) [0..<length (st_link_objects st)])"

definition make_link_object :: "string \<Rightarrow> state_t \<Rightarrow> nat \<times> state_t" where
  "make_link_object f st =
     (length (st_link_objects st), st\<lparr>st_link_objects := st_link_objects st @ [link_object_new f]\<rparr>)"

record platform_t =
  pf_page_size :: u64
  pf_bfd :: "string \<Rightarrow> bfd_result"
  pf_can_open :: "string \<Rightarrow> bool"
  pf_mmap :: "u64 \<Rightarrow> u64 \<Rightarrow> u64 option"
  pf_mem :: "u64 \<Rightarrow> u8"

record linkobj_t =
  lj_name :: "string option"
  lj_slide :: u64
  lj_mappings :: "mapping_t list"

text \<open>Valgrind's own objects: the part after the last slash starts with \<^verbatim>\<open>vgpreload_\<close>.\<close>

definition is_vgpreload :: "string \<Rightarrow> bool" where
  "is_vgpreload f \<longleftrightarrow> CHR ''/'' \<in> set f \<and> take 10 (rev (takeWhile (\<lambda>c. c \<noteq> CHR ''/'') (rev f))) = ''vgpreload_''"

fun read_objects_loop :: "platform_t \<Rightarrow> nat list \<Rightarrow> state_t \<Rightarrow> np_error + bool \<times> state_t" where
  "read_objects_loop pf [] st = Inr (True, st)"
| "read_objects_loop pf (i # is) st =
     (if is_vgpreload (lk_filename (st_link_objects st ! i)) then read_objects_loop pf is st
      else bindE (map_sections (pf_page_size pf) (pf_bfd pf) (pf_can_open pf) (pf_mmap pf) (st_link_objects st ! i)) (\<lambda>(ok, l).
        let st1 = st\<lparr>st_link_objects := (st_link_objects st)[i := l]\<rparr>
        in if \<not> ok then Inr (False, st1)
           else if has_sections l
           then bindE (read_compile_units (pf_mem pf) i st1) (\<lambda>(ok2, st2).
             if ok2 then read_objects_loop pf is st2 else Inr (False, st2))
           else read_objects_loop pf is st1))"

definition read_link_objects :: "platform_t \<Rightarrow> state_t \<Rightarrow> np_error + bool \<times> state_t" where
  "read_link_objects pf st = read_objects_loop pf [0..<length (st_link_objects st)] st"

section \<open>The index of function addresses\<close>

text \<open>
  The loop over an address range list: each range with the base that was in force. It is
  shared by the two functions that read such a list.
\<close>

lemma read_addr_remains: "read_addr r = (Some a, r') \<Longrightarrow> get_remains r' < get_remains r"
  by (auto simp: read_addr_def read_u64_def get_remains_def split: if_splits)

function read_ranges :: "addr_t \<Rightarrow> reader_t \<Rightarrow> (addr_t \<times> addr_t \<times> addr_t) list" where
  "read_ranges base r =
     (case read_addr r of
        (None, r1) \<Rightarrow> []
      | (Some start, r1) \<Rightarrow>
          (case read_addr r1 of
             (None, r2) \<Rightarrow> []
           | (Some endd, r2) \<Rightarrow>
               if start = 0 \<and> endd = 0 then []
               else if start = 0xffffffffffffffff then read_ranges endd r2
               else (base, start + base, endd + base) # read_ranges base r2))"
  by auto
termination
  by (relation "measure (\<lambda>(base, r). get_remains r)") (auto dest!: read_addr_remains [OF sym])

declare read_ranges.simps [simp del]

definition ranges_at :: "dwarf_t \<Rightarrow> compile_unit_t \<Rightarrow> u64 \<Rightarrow> (addr_t \<times> addr_t \<times> addr_t) list" where
  "ranges_at dw cu off =
     read_ranges 0 (snd (skip (unat off) (mk_reader (dw_contents dw (cu_link_object cu) DW_sec_ranges) False)))"

definition insert_ranges ::
  "dwarf_t \<Rightarrow> walker_t \<Rightarrow> reference_t \<Rightarrow> (addr_t, reference_t) rangetree \<Rightarrow> np_error + (addr_t, reference_t) rangetree" where
  "insert_ranges dw w funcref t =
     (let e = wk_entry w;
          has_lo = get_attribute DW_AT_low_pc e \<noteq> None;
          lo = get_uint64_attribute DW_AT_low_pc e;
          has_hi = get_attribute DW_AT_high_pc e \<noteq> None;
          hi = get_uint64_attribute DW_AT_high_pc e;
          ranges = get_uint64_attribute DW_AT_ranges e
      in if has_lo \<and> has_hi then
           (if cu_version (wk_unit w) = 4
            then bindE (get_attribute_form DW_AT_high_pc e) (\<lambda>form.
                   Inr (rt_insert lo (if form \<noteq> DW_FORM_addr then hi + lo else hi) funcref t))
            else Inr (rt_insert lo hi funcref t))
         else if ranges \<noteq> 0
         then Inr (fold (\<lambda>(base, start, endd). rt_insert start endd funcref) (ranges_at dw (wk_unit w) ranges) t)
         else if has_lo then Inr (rt_insert_point lo funcref t)
         else Inr t)"

function index_loop ::
  "dwarf_t \<Rightarrow> walker_t \<Rightarrow> (addr_t, reference_t) rangetree \<Rightarrow> np_error + (addr_t, reference_t) rangetree" where
  "index_loop dw w t =
     (case move_preorder dw w of
        Inl e \<Rightarrow> Inl e
      | Inr (ok, w') \<Rightarrow>
          if \<not> ok then Inr t
          else bindE (get_tag (wk_entry w')) (\<lambda>tag.
            if tag \<noteq> DW_TAG_subprogram then Inl Assert_Failed
            else bindE (insert_ranges dw w' (get_reference w') t) (\<lambda>t'. index_loop dw w' t')))"
  by auto
termination
  by (relation "measure (\<lambda>(dw, w, t). get_remains (wk_reader w))") (auto dest: move_preorder_remains)

declare index_loop.simps [simp del]

fun prepare_loop ::
  "dwarf_t \<Rightarrow> compile_unit_t list \<Rightarrow> (addr_t, reference_t) rangetree \<Rightarrow> np_error + (addr_t, reference_t) rangetree" where
  "prepare_loop dw [] t = Inr t"
| "prepare_loop dw (cu # cus) t =
     bindE (index_loop dw (set_filter_tag DW_TAG_subprogram (walker_new cu)) t) (prepare_loop dw cus)"

definition prepare_address_index :: "(u64 \<Rightarrow> u8) \<Rightarrow> state_t \<Rightarrow> np_error + state_t" where
  "prepare_address_index mem st =
     bindE (prepare_loop (state_dwarf mem st) (st_units st) (st_address_index st)) (\<lambda>t. Inr (st\<lparr>st_address_index := t\<rparr>))"

definition finish_adding :: "platform_t \<Rightarrow> state_t \<Rightarrow> np_error + bool \<times> state_t" where
  "finish_adding pf st =
     bindE (read_link_objects pf st) (\<lambda>(ok, st1).
       if ok then bindE (prepare_address_index (pf_mem pf) st1) (\<lambda>st2. Inr (True, st2)) else Inr (False, st1))"

definition add_executable :: "platform_t \<Rightarrow> string \<Rightarrow> state_t \<Rightarrow> np_error + bool \<times> state_t" where
  "add_executable pf filename st =
     finish_adding pf (case get_link_object (Some filename) st of Some _ \<Rightarrow> st | None \<Rightarrow> snd (make_link_object filename st))"

definition add_linkobj :: "string \<Rightarrow> linkobj_t \<Rightarrow> state_t \<Rightarrow> state_t" where
  "add_linkobj exe i st =
     (let filename = (case lj_name i of None \<Rightarrow> exe | Some n \<Rightarrow> n)
      in if filename_is_ignored filename \<noteq> None then st
         else if get_link_object (Some filename) st \<noteq> None then st
         else case make_link_object filename st of (k, st1) \<Rightarrow>
           st1\<lparr>st_link_objects := (st_link_objects st1)[k := (st_link_objects st1 ! k)\<lparr>lk_system_mappings := lj_mappings i, lk_slide := lj_slide i\<rparr>],
               st_link_object_index := fold (\<lambda>sm. rt_insert (mp_map sm) (mp_map sm + mp_size sm) k) (lj_mappings i) (st_link_object_index st1)\<rparr>)"

definition add_self :: "platform_t \<Rightarrow> string \<Rightarrow> linkobj_t list \<Rightarrow> state_t \<Rightarrow> np_error + bool \<times> state_t" where
  "add_self pf exe los st = finish_adding pf (fold (add_linkobj exe) los st)"

section \<open>Looking addresses up\<close>

definition is_within :: "dwarf_t \<Rightarrow> addr_t \<Rightarrow> walker_t \<Rightarrow> u32 option" where
  "is_within dw addr w =
     (let e = wk_entry w;
          has_lo = get_attribute DW_AT_low_pc e \<noteq> None;
          lo = get_uint64_attribute DW_AT_low_pc e;
          has_hi = get_attribute DW_AT_high_pc e \<noteq> None;
          hi = get_uint64_attribute DW_AT_high_pc e;
          ranges = get_uint64_attribute DW_AT_ranges e
      in if has_lo \<and> has_hi then (if addr \<ge> lo \<and> addr \<le> hi then Some (ucast (addr - lo)) else None)
         else case (if ranges \<noteq> 0
                    then List.find (\<lambda>(base, start, endd). addr \<ge> start \<and> addr < endd) (ranges_at dw (wk_unit w) ranges)
                    else None) of
             Some (base, start, endd) \<Rightarrow> Some (ucast (addr - base))
           | None \<Rightarrow> if has_lo \<and> addr = lo then Some 0 else None)"

definition instrumentable_address :: "(addr_t \<Rightarrow> addr_t) \<Rightarrow> addr_t \<Rightarrow> state_t \<Rightarrow> addr_t" where
  "instrumentable_address follow_plt addr st =
     (if \<exists>l\<in>set (st_link_objects st). is_in_plt l addr then follow_plt addr else addr)"

definition recorded_address :: "addr_t \<Rightarrow> state_t \<Rightarrow> addr_t" where
  "recorded_address addr st =
     (case rt_find addr (st_link_object_index st) of
        Some (_, l) \<Rightarrow> lo_recorded_address (st_link_objects st ! l) addr
      | None \<Rightarrow> addr)"

record description_t =
  de_found :: bool
  de_cu :: reference_t
  de_func :: reference_t
  de_offset :: u32

definition describe_nothing :: description_t where
  "describe_nothing = \<lparr>de_found = False, de_cu = reference_null, de_func = reference_null, de_offset = 0\<rparr>"

text \<open>
  Without an index the units are walked. One round looks at an entry that may hold the address;
  whatever it moved to, the loop then goes to the next sibling of that.
\<close>

definition scan_step :: "dwarf_t \<Rightarrow> addr_t \<Rightarrow> walker_t \<Rightarrow> description_t \<Rightarrow> np_error + walker_t \<times> description_t" where
  "scan_step dw addr w de =
     (case is_within dw addr w of
        None \<Rightarrow> Inr (w, de)
      | Some off \<Rightarrow>
          let de' = de\<lparr>de_offset := off\<rparr>
          in bindE (get_tag (wk_entry w)) (\<lambda>tag.
             if tag = DW_TAG_compile_unit
             then bindE (move_down dw w) (\<lambda>(_, w'). Inr (w', de'\<lparr>de_cu := get_reference w\<rparr>))
             else if tag = DW_TAG_subprogram
             then bindE (if get_attribute DW_AT_specification (wk_entry w) \<noteq> None
                         then bindE (move_to dw (get_reference_attribute DW_AT_specification (wk_entry w)) w) (\<lambda>(_, w'). Inr w')
                         else Inr w) (\<lambda>w'. Inr (w', de'\<lparr>de_func := get_reference w', de_found := True\<rparr>))
             else if tag = DW_TAG_class_type \<or> tag = DW_TAG_structure_type \<or> tag = DW_TAG_union_type \<or> tag = DW_TAG_namespace_type
             then bindE (move_down dw w) (\<lambda>(_, w'). Inr (w', de'))
             else Inr (w, de')))"

partial_function (option) scan_loop ::
  "dwarf_t \<Rightarrow> addr_t \<Rightarrow> walker_t \<Rightarrow> description_t \<Rightarrow> (np_error + description_t) option" where
  "scan_loop dw addr w de =
     (case bindE (scan_step dw addr w de) (\<lambda>(w1, de1).
             if de_found de1 then Inr (False, w1, de1)
             else bindE (move_next dw w1) (\<lambda>(ok, w2). Inr (ok, w2, de1))) of
        Inl e \<Rightarrow> Some (Inl e)
      | Inr (ok, w2, de1) \<Rightarrow> if ok then scan_loop dw addr w2 de1 else Some (Inr de1))"

fun scan_units :: "dwarf_t \<Rightarrow> addr_t \<Rightarrow> compile_unit_t list \<Rightarrow> description_t \<Rightarrow> (np_error + description_t) option" where
  "scan_units dw addr [] de = Some (Inr de)"
| "scan_units dw addr (cu # cus) de =
     (case bindE (walker_at dw (make_root_reference cu)) (move_next dw) of
        Inl e \<Rightarrow> Some (Inl e)
      | Inr (ok, w) \<Rightarrow>
          if \<not> ok then scan_units dw addr cus de
          else (case scan_loop dw addr w de of
                  None \<Rightarrow> None
                | Some (Inl e) \<Rightarrow> Some (Inl e)
                | Some (Inr de') \<Rightarrow> if de_found de' then Some (Inr de') else scan_units dw addr cus de'))"

definition describe_address :: "(u64 \<Rightarrow> u8) \<Rightarrow> addr_t \<Rightarrow> state_t \<Rightarrow> (np_error + description_t) option" where
  "describe_address mem addr st =
     (if rt_size (st_address_index st) \<noteq> 0
      then Some (Inr (case rt_find addr (st_address_index st) of
                        None \<Rightarrow> describe_nothing
                      | Some (r, ref) \<Rightarrow> describe_nothing\<lparr>de_found := True, de_func := ref, de_offset := ucast (addr - lo r)\<rparr>))
      else scan_units (state_dwarf mem st) addr (st_units st) describe_nothing)"

section \<open>Names\<close>

text \<open>Moving to the entry that a specification refers to; an entry that cannot be read is a null pointer.\<close>

definition to_specification :: "dwarf_t \<Rightarrow> walker_t \<Rightarrow> np_error + walker_t" where
  "to_specification dw w =
     (if get_attribute DW_AT_specification (wk_entry w) = None then Inr w
      else bindE (move_to dw (get_reference_attribute DW_AT_specification (wk_entry w)) w) (\<lambda>(ok, w').
             if ok then Inr w' else Inl Null_Deref))"

definition entry_at :: "dwarf_t \<Rightarrow> reference_t \<Rightarrow> np_error + walker_t" where
  "entry_at dw ref =
     bindE (walker_at dw ref) (\<lambda>w. bindE (move_next dw w) (\<lambda>(ok, w'). if ok then Inr w' else Inl Null_Deref))"

text \<open>One round of \<^verbatim>\<open>get_full_name\<close>: the longer name and, if the walk goes on, the parent.\<close>

definition name_round :: "dwarf_t \<Rightarrow> walker_t \<Rightarrow> string \<Rightarrow> np_error + walker_t option \<times> string" where
  "name_round dw w full =
     bindE (to_specification dw w) (\<lambda>w1.
     bindE (get_tag (wk_entry w1)) (\<lambda>tag.
       if tag = DW_TAG_compile_unit then Inr (None, full)
       else let full1 = (case get_string_attribute DW_AT_name (wk_entry w1) of
                           None \<Rightarrow> full
                         | Some name \<Rightarrow> name @ (if full \<noteq> [] then ''::'' @ full else full))
            in bindE (move_up dw w1) (\<lambda>(ok, w2). Inr (if ok then Some w2 else None, full1))))"

partial_function (option) name_loop :: "dwarf_t \<Rightarrow> walker_t \<Rightarrow> string \<Rightarrow> (np_error + string) option" where
  "name_loop dw w full =
     (case name_round dw w full of
        Inl e \<Rightarrow> Some (Inl e)
      | Inr (None, full1) \<Rightarrow> Some (Inr full1)
      | Inr (Some w2, full1) \<Rightarrow> name_loop dw w2 full1)"

definition get_full_name :: "dwarf_t \<Rightarrow> reference_t \<Rightarrow> (np_error + string) option" where
  "get_full_name dw ref = (case entry_at dw ref of Inl e \<Rightarrow> Some (Inl e) | Inr w \<Rightarrow> name_loop dw w [])"

definition get_partial_name :: "dwarf_t \<Rightarrow> reference_t \<Rightarrow> np_error + string option" where
  "get_partial_name dw ref =
     bindE (entry_at dw ref) (\<lambda>w. bindE (to_specification dw w) (\<lambda>w1. Inr (get_string_attribute DW_AT_name (wk_entry w1))))"

section \<open>The index and the tree of entries\<close>

definition view_uint64 :: "u32 \<Rightarrow> view \<Rightarrow> u64" where
  "view_uint64 nm v = (case snd (snd (snd v)) nm of Some (T_UINT32 x) \<Rightarrow> ucast x | Some (T_UINT64 x) \<Rightarrow> x | _ \<Rightarrow> 0)"

text \<open>
  The address ranges of a function as the standard defines them: from its low to its high
  address, the latter relative if version four gives it as a constant; or a list of ranges; or a
  single address.
\<close>

definition view_ranges :: "dwarf_t \<Rightarrow> compile_unit_t \<Rightarrow> view \<Rightarrow> addr_t range list" where
  "view_ranges dw cu v =
     (case v of (off, lev, a, attr) \<Rightarrow>
        let l = view_uint64 DW_AT_low_pc v; h = view_uint64 DW_AT_high_pc v; rs = view_uint64 DW_AT_ranges v;
            form = (case a of None \<Rightarrow> None | Some ab \<Rightarrow> map_of (ab_attr_specs ab) DW_AT_high_pc)
        in if attr DW_AT_low_pc \<noteq> None \<and> attr DW_AT_high_pc \<noteq> None
           then [mk_range l (if cu_version cu = 4 \<and> form \<noteq> Some DW_FORM_addr then h + l else h)]
           else if rs \<noteq> 0 then map (\<lambda>(base, s, e). mk_range s e) (ranges_at dw cu rs)
           else if attr DW_AT_low_pc \<noteq> None then [mk_range l l]
           else [])"

lemma view_uint64_entry: "view_uint64 nm (entry_view e) = get_uint64_attribute nm e"
  by (simp add: view_uint64_def entry_view_def get_uint64_attribute_def)

lemma insert_ranges_view:
  assumes "en_abbrev (wk_entry w) \<noteq> None"
  shows "insert_ranges dw w ref t =
    Inr (fold (\<lambda>r. rt_put r ref) (view_ranges dw (wk_unit w) (entry_view (wk_entry w))) t)"
proof -
  obtain a where a: "en_abbrev (wk_entry w) = Some a" using assms by blast
  have f: "(\<lambda>(base, start, endd). rt_insert start endd ref) = (\<lambda>x. rt_put (case x of (base, s, e) \<Rightarrow> mk_range s e) ref)"
    by (auto simp: fun_eq_iff rt_insert_def)
  have m: "fold (\<lambda>x. rt_put (g x) ref) xs t = fold (\<lambda>r. rt_put r ref) (map g xs) t" for g :: "addr_t \<times> addr_t \<times> addr_t \<Rightarrow> addr_t range" and xs
    by (simp add: fold_map comp_def)
  show ?thesis
    using a unfolding insert_ranges_def view_ranges_def Let_def view_uint64_entry f m
    by (auto simp: entry_view_def view_uint64_entry [unfolded entry_view_def] get_attribute_form_def rt_insert_def rt_insert_point_def split: option.splits)
qed

lemma read_entry_unit: "read_entry dw w = Inr (res, w') \<Longrightarrow> wk_unit w' = wk_unit w"
  by (auto simp: read_entry_def Let_def bindE_Inr_iff split: prod.splits option.splits if_splits)

lemma move_preorder_unit: "move_preorder dw w = Inr (ok, w') \<Longrightarrow> wk_unit w' = wk_unit w"
proof (induction dw w rule: move_preorder.induct)
  case (1 dw w)
  obtain res w1 where r: "read_entry dw w = Inr (res, w1)"
    using "1.prems" by (auto simp: move_preorder.simps [of dw w] split: sum.splits)
  show ?case
    using "1.prems" "1.IH" [OF r refl] r read_entry_unit [OF r]
    by (auto simp: move_preorder.simps [of dw w] split: if_splits)
qed

text \<open>The ranges and references that a list of entries puts into the index.\<close>

definition views_table :: "dwarf_t \<Rightarrow> compile_unit_t \<Rightarrow> view list \<Rightarrow> (addr_t range \<times> reference_t) list" where
  "views_table dw cu vs =
     concat (map (\<lambda>v. map (\<lambda>r. (r, cu_make_reference cu (fst v))) (view_ranges dw cu v)) vs)"

lemma fold_put_map: "fold (\<lambda>(r, v). rt_put r v) (map (\<lambda>r. (r, ref)) rs) t = fold (\<lambda>r. rt_put r ref) rs t"
  by (simp add: fold_map comp_def)

lemma index_loop_entries:
  assumes "walk_entries dw w = Inr es" "\<forall>e\<in>set es. \<exists>a. en_abbrev e = Some a \<and> ab_tag a = DW_TAG_subprogram"
  shows "index_loop dw w t = Inr (fold (\<lambda>(r, v). rt_put r v) (views_table dw (wk_unit w) (map entry_view es)) t)"
  using assms
proof (induction dw w arbitrary: es t rule: walk_entries.induct)
  case (1 dw w)
  obtain ok w1 where m: "move_preorder dw w = Inr (ok, w1)"
    using "1.prems"(1) by (auto simp: walk_entries.simps [of dw w] split: sum.splits)
  show ?case
  proof (cases ok)
    case False
    then show ?thesis
      using "1.prems"(1) m by (simp add: walk_entries.simps [of dw w] index_loop.simps [of dw w] views_table_def)
  next
    case True
    then obtain es1 where es: "walk_entries dw w1 = Inr es1" "es = wk_entry w1 # es1"
      using "1.prems"(1) m by (auto simp: walk_entries.simps [of dw w] bindE_Inr_iff)
    then obtain a where a: "en_abbrev (wk_entry w1) = Some a" "ab_tag a = DW_TAG_subprogram" using "1.prems"(2) by auto
    have u: "wk_unit w1 = wk_unit w" by (rule move_preorder_unit [OF m])
    have ih: "index_loop dw w1 t' = Inr (fold (\<lambda>(r, v). rt_put r v) (views_table dw (wk_unit w1) (map entry_view es1)) t')" for t'
      using "1.IH" [OF m refl True es(1)] "1.prems"(2) es(2) by simp
    have ref: "get_reference w1 = cu_make_reference (wk_unit w) (fst (entry_view (wk_entry w1)))"
      using u by (simp add: get_reference_def entry_view_def)
    have t: "get_tag (wk_entry w1) = Inr DW_TAG_subprogram" using a by (simp add: get_tag_def)
    have "index_loop dw w t = bindE (insert_ranges dw w1 (get_reference w1) t) (index_loop dw w1)"
      using m True t by (simp add: index_loop.simps [of dw w])
    also have "\<dots> = Inr (fold (\<lambda>(r, v). rt_put r v) (views_table dw (wk_unit w) (map entry_view es1))
        (fold (\<lambda>r. rt_put r (get_reference w1)) (view_ranges dw (wk_unit w) (entry_view (wk_entry w1))) t))"
      using insert_ranges_view [of w1 dw "get_reference w1" t] a(1) ih u by simp
    also have "\<dots> = Inr (fold (\<lambda>(r, v). rt_put r v) (views_table dw (wk_unit w) (map entry_view es)) t)"
      by (simp add: views_table_def es(2) ref fold_put_map)
    finally show ?thesis .
  qed
qed

text \<open>The functions of a unit: every entry of its tree that is a function, with its ranges.\<close>

definition unit_functions :: "dwarf_t \<Rightarrow> compile_unit_t \<Rightarrow> die \<Rightarrow> (addr_t range \<times> reference_t) list" where
  "unit_functions dw cu d =
     views_table dw cu (filter (view_matches DW_TAG_subprogram) (die_views cu header_length 0 d))"

lemma walk_functions:
  assumes "unit_encodes dw cu d"
  shows "\<exists>es. walk_entries dw (set_filter_tag DW_TAG_subprogram (walker_new cu)) = Inr es
    \<and> map entry_view es = filter (view_matches DW_TAG_subprogram) (die_views cu header_length 0 d)"
proof -
  obtain tr w' where tr: "rounds dw (set_filter_tag DW_TAG_subprogram (walker_new cu)) tr w'"
    "wk_at cu (rd_data (cu_reader cu)) 0 [] w'"
    "round_views tr = filter (view_matches DW_TAG_subprogram) (die_views cu header_length 0 d)"
    using unit_rounds [OF assms] by blast
  from walk_entries_rounds [OF tr(1) walk_entries_done [OF tr(2)]] tr(3) show ?thesis by simp
qed

lemma index_loop_unit:
  assumes "unit_encodes dw cu d"
  shows "index_loop dw (set_filter_tag DW_TAG_subprogram (walker_new cu)) t =
    Inr (fold (\<lambda>(r, v). rt_put r v) (unit_functions dw cu d) t)"
proof -
  obtain es where es: "walk_entries dw (set_filter_tag DW_TAG_subprogram (walker_new cu)) = Inr es"
    "map entry_view es = filter (view_matches DW_TAG_subprogram) (die_views cu header_length 0 d)"
    using walk_functions [OF assms] by blast
  have "\<exists>a. en_abbrev e = Some a \<and> ab_tag a = DW_TAG_subprogram" if "e \<in> set es" for e
  proof -
    have "entry_view e \<in> set (filter (view_matches DW_TAG_subprogram) (die_views cu header_length 0 d))"
      using that es(2) by (metis image_eqI list.set_map)
    then show ?thesis by (auto simp: view_matches_def entry_view_def split: option.splits)
  qed
  from index_loop_entries [OF es(1)] this es(2) show ?thesis
    by (simp add: unit_functions_def set_filter_tag_def walker_new_def)
qed

lemma prepare_loop_units:
  "list_all2 (unit_encodes dw) cus ds \<Longrightarrow>
     prepare_loop dw cus t = Inr (fold (\<lambda>(r, v). rt_put r v) (concat (map2 (unit_functions dw) cus ds)) t)"
  by (induction cus ds arbitrary: t rule: list_all2_induct) (simp_all add: index_loop_unit)

text \<open>
  C15. With the index prepared from units that encode trees of entries, whose functions have
  address ranges apart from each other, an address is described by exactly the function one of
  whose ranges covers it, with the offset from the start of that range; every other address is
  reported as unknown.
\<close>

theorem describe_address_function:
  assumes "list_all2 (unit_encodes (state_dwarf mem st)) (st_units st) ds" "st_address_index st = rt_empty"
  defines "table \<equiv> concat (map2 (unit_functions (state_dwarf mem st)) (st_units st) ds)"
  assumes "table \<noteq> []" "list_all (\<lambda>e. range_ok (fst e)) table" "sorted_wrt (\<lambda>e f. apart (fst e) (fst f)) table"
  shows "\<exists>st'. prepare_address_index mem st = Inr st' \<and>
    (\<forall>addr r ref. (r, ref) \<in> set table \<and> NP_Rangetree.covers r addr \<longrightarrow>
       describe_address mem addr st' =
         Some (Inr \<lparr>de_found = True, de_cu = reference_null, de_func = ref, de_offset = ucast (addr - lo r)\<rparr>)) \<and>
    (\<forall>addr. (\<forall>e\<in>set table. \<not> NP_Rangetree.covers (fst e) addr) \<longrightarrow> describe_address mem addr st' = Some (Inr describe_nothing))"
proof -
  let ?t = "fold (\<lambda>(r, v). rt_put r v) table rt_empty"
  let ?st = "st\<lparr>st_address_index := ?t\<rparr>"
  have p: "prepare_address_index mem st = Inr ?st"
    using prepare_loop_units [OF assms(1)] assms(2) by (simp add: prepare_address_index_def table_def)
  note find = rt.build_find [OF assms(5,6)]
  have "set ?t = set table"
    using rt.build_entries [OF rt.inv_empty assms(5) _ assms(6)] by (simp add: rt_empty_def)
  then have sz: "rt_size ?t \<noteq> 0" using assms(4) by (auto simp: rt_size_def)
  have some: "rt_find addr ?t = Some (r, ref)" if "(r, ref) \<in> set table \<and> NP_Rangetree.covers r addr" for addr r ref
    using that find by blast
  have none: "rt_find addr ?t = None" if "\<forall>e\<in>set table. \<not> NP_Rangetree.covers (fst e) addr" for addr
    using that find by (cases "rt_find addr ?t") force+
  show ?thesis
    using p sz none some by (intro exI [of _ ?st]) (simp add: describe_address_def describe_nothing_def)
qed

text \<open>A unit with one function of 32 bytes, its high address relative to the low one.\<close>

definition demo_fn_die :: die where
  "demo_fn_die =
     Die 1 [(bytes_of_string ''m.c'' @ [0], T_STRING ''m.c'')]
       (Some [Die 2 [(bytes_of_u64 0x1000, T_UINT64 0x1000), (bytes_of_u32 0x20, T_UINT32 0x20)] None])"

definition demo_fn_unit :: compile_unit_t where
  "demo_fn_unit = (compile_unit_new 0 0)\<lparr>cu_version := 4,
     cu_reader := mk_reader (replicate header_length 0 @ die_bytes demo_fn_die) False,
     cu_abbrevs := [None,
       Some \<lparr>ab_code = 1, ab_tag = DW_TAG_compile_unit, ab_children = 1, ab_attr_specs = [(DW_AT_name, DW_FORM_string)]\<rparr>,
       Some \<lparr>ab_code = 2, ab_tag = DW_TAG_subprogram, ab_children = 0,
             ab_attr_specs = [(DW_AT_low_pc, DW_FORM_addr), (DW_AT_high_pc, DW_FORM_data4)]\<rparr>]\<rparr>"

definition demo_fn_state :: state_t where
  "demo_fn_state = state_new\<lparr>st_units := [demo_fn_unit]\<rparr>"

lemma demo_fn_encodes: "unit_encodes dw demo_fn_unit demo_fn_die"
proof -
  have "c_string ''m.c''" by code_simp
  then have enc: "attr_encodes dw demo_fn_unit DW_FORM_string (bytes_of_string ''m.c'' @ [0]) (T_STRING ''m.c'')"
    "attr_encodes dw demo_fn_unit DW_FORM_addr (bytes_of_u64 0x1000) (T_UINT64 0x1000)"
    "attr_encodes dw demo_fn_unit DW_FORM_data4 (bytes_of_u32 0x20) (T_UINT32 0x20)"
    by (blast intro: attr_encodes.intros)+
  have "die_wf dw demo_fn_unit demo_fn_die"
    using enc by (simp add: demo_fn_die_def head_wf_def get_abbrev_def) (simp add: demo_fn_unit_def)
  moreover have "length (die_bytes demo_fn_die) < 100"
    by (simp add: demo_fn_die_def uleb_enc.simps bytes_of_string_def bytes_of_u64_def bytes_of_u32_def)
  ultimately show ?thesis
    by (simp add: unit_encodes_def) (simp add: demo_fn_unit_def mk_reader_def header_length_def demo_fn_die_def)
qed

lemma demo_fn_functions: "unit_functions dw demo_fn_unit demo_fn_die = [(mk_range 0x1000 0x1020, cu_make_reference demo_fn_unit 16)]"
  by (simp add: unit_functions_def views_table_def demo_fn_die_def demo_fn_unit_def head_view_def get_abbrev_def view_matches_def
      view_ranges_def view_uint64_def name_to_index_def header_length_def uleb_enc.simps bytes_of_string_def cu_make_reference_def)

theorem describe_address_function_witness:
  "\<exists>st'. prepare_address_index (\<lambda>_. 0) demo_fn_state = Inr st' \<and>
    describe_address (\<lambda>_. 0) 0x1004 st' =
      Some (Inr \<lparr>de_found = True, de_cu = reference_null, de_func = cu_make_reference demo_fn_unit 16, de_offset = 4\<rparr>) \<and>
    describe_address (\<lambda>_. 0) 0x2000 st' = Some (Inr describe_nothing)"
proof -
  let ?mem = "\<lambda>_ :: u64. 0 :: u8"
  let ?dw = "state_dwarf ?mem demo_fn_state"
  have u: "st_units demo_fn_state = [demo_fn_unit]" "st_address_index demo_fn_state = rt_empty"
    by (simp_all add: demo_fn_state_def state_new_def)
  have enc: "list_all2 (unit_encodes ?dw) (st_units demo_fn_state) [demo_fn_die]" by (simp add: u demo_fn_encodes)
  have tb: "concat (map2 (unit_functions ?dw) (st_units demo_fn_state) [demo_fn_die]) = [(mk_range 0x1000 0x1020, cu_make_reference demo_fn_unit 16)]"
    by (simp add: u demo_fn_functions)
  have "NP_Rangetree.covers (mk_range 0x1000 (0x1020 :: u64)) 0x1004" "\<not> NP_Rangetree.covers (mk_range 0x1000 (0x1020 :: u64)) 0x2000"
    "range_ok (mk_range 0x1000 (0x1020 :: u64))"
    by (simp_all add: NP_Rangetree.covers_def mk_range_def range_ok_def)
  note c = this
  have "[(mk_range 0x1000 (0x1020 :: u64), cu_make_reference demo_fn_unit 16)] \<noteq> []"
    "list_all (\<lambda>e. range_ok (fst e)) [(mk_range 0x1000 (0x1020 :: u64), cu_make_reference demo_fn_unit 16)]"
    "sorted_wrt (\<lambda>e f. apart (fst e) (fst f)) [(mk_range 0x1000 (0x1020 :: u64), cu_make_reference demo_fn_unit 16)]"
    using c(3) by simp_all
  from describe_address_function [OF enc u(2), unfolded tb, OF this] obtain st' where
    p: "prepare_address_index ?mem demo_fn_state = Inr st'"
    and f: "\<forall>addr r ref. (r, ref) \<in> set [(mk_range 0x1000 0x1020, cu_make_reference demo_fn_unit 16)] \<and> NP_Rangetree.covers r addr \<longrightarrow>
       describe_address ?mem addr st' =
         Some (Inr \<lparr>de_found = True, de_cu = reference_null, de_func = ref, de_offset = ucast (addr - lo r)\<rparr>)"
    and n: "\<forall>addr. (\<forall>e\<in>set [(mk_range 0x1000 0x1020, cu_make_reference demo_fn_unit 16)]. \<not> NP_Rangetree.covers (fst e) addr) \<longrightarrow>
       describe_address ?mem addr st' = Some (Inr describe_nothing)" by (elim exE conjE)
  have "describe_address ?mem 0x1004 st' =
      Some (Inr \<lparr>de_found = True, de_cu = reference_null, de_func = cu_make_reference demo_fn_unit 16, de_offset = 4\<rparr>)"
    using f c(1) by (simp add: mk_range_def)
  moreover have "describe_address ?mem 0x2000 st' = Some (Inr describe_nothing)"
    using n c(2) by simp
  ultimately show ?thesis using p by blast
qed

end
