(* ===== verification/NP_Intercept_x86.thy ===== *)
theory NP_Intercept_x86
  imports NP_Intercept
begin

text \<open>
  \<^verbatim>\<open>np/spiegel/platform/linux_x86.cxx\<close>: breakpoints, the signal handler and the trampoline for 32-bit
  processes. Addresses are words of 32 bits, extended with zeros where memory and the registry
  of \<^verbatim>\<open>NP_Intercept\<close> are asked. All arguments of a call are on the stack.
\<close>

section \<open>Breakpoints\<close>

text \<open>These are the same functions as for 64-bit processes, at narrower addresses.\<close>

definition x86_install_intercept :: "kernel \<Rightarrow> u32 \<Rightarrow> intstate_t \<Rightarrow> machine \<Rightarrow> int \<times> intstate_t \<times> machine" where
  "x86_install_intercept k addr st m = install_intercept k (ucast addr) st m"

definition x86_uninstall_intercept :: "kernel \<Rightarrow> u32 \<Rightarrow> intstate_t \<Rightarrow> machine \<Rightarrow> int \<times> machine" where
  "x86_uninstall_intercept k addr st m = uninstall_intercept k (ucast addr) st m"

definition x86_is_intercept_installed :: "u32 \<Rightarrow> machine \<Rightarrow> bool" where
  "x86_is_intercept_installed addr m \<longleftrightarrow> is_intercept_installed (ucast addr) m"

section \<open>The signal handler\<close>

record x86_uctx =
  ux_eip :: u32
  ux_esp :: u32
  ux_ebp :: u32

definition x86_handle_signal :: "siginfo \<Rightarrow> x86_uctx \<Rightarrow> ireg \<Rightarrow> sigaction_t" where
  "x86_handle_signal si uc s =
     (let m = r_mach s;
          eip = (if m_using_int3 m then ux_eip uc - 1 else ux_eip uc)
      in if m_using_int3 m
         then (if \<not> si_trap si then Sig_Ignore
               else if \<not> si_kernel si \<and> \<not> si_brkpt si then Sig_Default
               else if m_mem m (ucast eip) \<noteq> INSN_INT3 then Sig_Default
               else if si_pid si \<noteq> 0 then Sig_Ignore
               else case get_intstate (ucast eip) s of None \<Rightarrow> Sig_Default | Some st \<Rightarrow> Sig_Tramp st)
         else (if \<not> si_segv si then Sig_Ignore
               else if \<not> si_kernel si then Sig_Default
               else if m_mem m (ucast eip) \<noteq> INSN_HLT then Sig_Default
               else if si_pid si \<noteq> 0 then Sig_Ignore
               else case get_intstate (ucast eip) s of None \<Rightarrow> Sig_Default | Some st \<Rightarrow> Sig_Tramp st))"

section \<open>The trampoline\<close>

text \<open>
  The frame is the 36 words of \<^verbatim>\<open>frame.stack\<close> as bytes; its address, that of the label \<^verbatim>\<open>after\<close> and the
  trampoline's own frame pointer are given.
\<close>

record x86_tramp =
  tx_frame :: u32
  tx_after :: u32
  tx_ebp :: u32
  tx_stack :: "u8 list"

definition put_word32 :: "nat \<Rightarrow> u32 \<Rightarrow> u8 list \<Rightarrow> u8 list" where
  "put_word32 i w fr = take (4 * i) fr @ bytes_of_u32 w @ drop (4 * i + 4) fr"

definition get_word32 :: "nat \<Rightarrow> u8 list \<Rightarrow> u32" where
  "get_word32 i fr = word_of_bytes (take 4 (drop (4 * i) fr))"

text \<open>The arguments of a call, from word \<open>n\<close> of the frame on; there is no value behind the frame.\<close>

definition x86_get_arg :: "nat \<Rightarrow> u8 list \<Rightarrow> nat \<Rightarrow> u32 option" where
  "x86_get_arg n fr i = (if 4 * (n + i) + 4 \<le> length fr then Some (get_word32 (n + i) fr) else None)"

definition x86_set_arg :: "nat \<Rightarrow> nat \<Rightarrow> u32 \<Rightarrow> u8 list \<Rightarrow> u8 list option" where
  "x86_set_arg n i v fr = (if 4 * (n + i) + 4 \<le> length fr then Some (put_word32 (n + i) v fr) else None)"

text \<open>The words pushed so far, the frame, the address to continue at and the text, by type of intercept.\<close>

definition x86_tramp_frame :: "kernel \<Rightarrow> x86_tramp \<Rightarrow> intstate_t \<Rightarrow> u32 \<Rightarrow> x86_uctx \<Rightarrow> machine \<Rightarrow> nat \<times> u8 list \<times> u32 \<times> machine" where
  "x86_tramp_frame k t st addr uc m =
     (let (nstack, fr, eip, m1) =
        (case is_type st of
           PUSHBP \<Rightarrow> (1, put_word32 0 (ux_ebp uc) (tx_stack t), addr + 1, m)
         | OTHER \<Rightarrow> (0, tx_stack t, addr, snd (text_write k (ucast addr) [is_orig st] m))
         | UNKNOWN \<Rightarrow> (0, tx_stack t, addr + 1, m))
      in (Suc nstack, put_word32 nstack (tx_after t) fr, eip, m1))"

text \<open>Copying the caller's stack behind the words pushed.\<close>

definition x86_tramp_args :: "nat \<Rightarrow> x86_uctx \<Rightarrow> machine \<Rightarrow> u8 list \<Rightarrow> u8 list" where
  "x86_tramp_args nstack uc m fr =
     (let src = ux_esp uc + 4;
          parent_size = ux_ebp uc - src;
          room = 144 - 4 * nstack;
          n = (if parent_size < of_nat room then unat parent_size else room)
      in take (4 * nstack) fr @ map (\<lambda>j. m_mem m (ucast (src + of_nat j))) [0..<n] @ drop (4 * nstack + n) fr)"

datatype x86_tramp_out = X86_Return u32 | X86_Call u32 u32 "u8 list"

definition x86_tramp_before :: "kernel \<Rightarrow> x86_tramp \<Rightarrow> intstate_t \<Rightarrow> x86_uctx \<Rightarrow> ireg \<Rightarrow> x86_tramp_out \<times> call_t \<times> ireg" where
  "x86_tramp_before k t st uc0 s =
     (let m = r_mach s;
          addr = ux_eip uc0 - (if m_using_int3 m then 1 else 0);
          uc = uc0\<lparr>ux_ebp := tx_ebp t\<rparr>;
          (nstack, fr0, eip, m1) = x86_tramp_frame k t st addr uc m;
          fr = x86_tramp_args nstack uc m1 fr0;
          esp = tx_frame t;
          c = dispatch_before (ucast addr) s call_init
      in if call_skip c then (X86_Return (ucast (call_retval c)), c, s\<lparr>r_mach := rearm k st (ucast addr) m1\<rparr>)
         else if call_redirect c \<noteq> 0
         then (X86_Call (ucast (call_redirect c)) (case is_type st of PUSHBP \<Rightarrow> esp + 4 | _ \<Rightarrow> esp) fr, c,
               s\<lparr>r_mach := rearm k st (ucast addr) m1\<rparr>)
         else (X86_Call eip esp fr, c, s\<lparr>r_mach := m1\<rparr>))"

text \<open>Behind the label: the function returned in two registers, and both are given back.\<close>

definition x86_tramp_after :: "kernel \<Rightarrow> intstate_t \<Rightarrow> u32 \<Rightarrow> call_t \<Rightarrow> u32 \<Rightarrow> u32 \<Rightarrow> ireg \<Rightarrow> (u32 \<times> u32) \<times> ireg" where
  "x86_tramp_after k st addr c eax edx s =
     (let s1 = s\<lparr>r_mach := rearm k st (ucast addr) (r_mach s)\<rparr>;
          c1 = dispatch_after (ucast addr) s1 (c\<lparr>call_retval := ucast eax\<rparr>)
      in ((ucast (call_retval c1), edx), s1))"

definition get_retval64 :: "u32 \<Rightarrow> u32 \<Rightarrow> u64" where
  "get_retval64 retval edx = push_bit 32 (ucast edx) OR ucast retval"

section \<open>Mocked calls\<close>

text \<open>A word of the caller's stack.\<close>

definition mem_word32 :: "machine \<Rightarrow> u32 \<Rightarrow> u32" where
  "mem_word32 m a = word_of_bytes (map (\<lambda>j. m_mem m (ucast (a + of_nat j))) [0..<4])"

lemma length_put_word32 [simp]: "4 * i + 4 \<le> length fr \<Longrightarrow> length (put_word32 i w fr) = length fr"
  by (simp add: put_word32_def)

lemma get_put_word32: "4 * i + 4 \<le> length fr \<Longrightarrow> get_word32 i (put_word32 i w fr) = w"
  by (simp add: get_word32_def put_word32_def)

lemma x86_get_set_arg: "x86_set_arg n i v fr = Some fr' \<Longrightarrow> x86_get_arg n fr' i = Some v"
  by (auto simp: x86_set_arg_def x86_get_arg_def get_put_word32 split: if_splits)

lemma ucast_u64_u32_inj: "(ucast (x :: u32) :: u64) = ucast y \<Longrightarrow> x = y"
  by (metis ucast_u64_u32)

text \<open>The words before the copied ones stay, and the copied ones are those of the caller.\<close>

lemma x86_args_below:
  assumes "length fr = 144" "i < nstack" "nstack \<le> 2"
  shows "get_word32 i (x86_tramp_args nstack uc m fr) = get_word32 i fr"
proof -
  have "take (4 * nstack) (x86_tramp_args nstack uc m fr) = take (4 * nstack) fr"
    using assms by (simp add: x86_tramp_args_def Let_def)
  moreover have "take 4 (drop (4 * i) xs) = take 4 (drop (4 * i) (take (4 * nstack) xs))" for xs :: "u8 list"
    using assms(2) by (simp add: drop_take min_def)
  ultimately show ?thesis by (metis get_word32_def)
qed

lemma x86_args_copied:
  assumes "length fr = 144" "nstack + i < 36" "144 \<le> ux_ebp uc - (ux_esp uc + 4)"
  shows "get_word32 (nstack + i) (x86_tramp_args nstack uc m fr) = mem_word32 m (ux_esp uc + 4 + of_nat (4 * i))"
proof -
  let ?src = "ux_esp uc + 4" and ?n = "144 - 4 * nstack"
  let ?g = "\<lambda>j. m_mem m (ucast (?src + of_nat j))"
  have "(of_nat ?n :: u32) \<le> 144" by (simp add: word_le_nat_alt unat_of_nat_u32)
  then have "\<not> ux_ebp uc - ?src < of_nat ?n" using assms(3) by simp
  then have args: "x86_tramp_args nstack uc m fr = take (4 * nstack) fr @ map ?g [0..<?n] @ drop (4 * nstack + ?n) fr"
    by (simp add: x86_tramp_args_def Let_def)
  have "drop (4 * (nstack + i)) (x86_tramp_args nstack uc m fr) = map ?g [4 * i..<?n] @ drop (4 * nstack + ?n) fr"
    using assms(1,2) unfolding args by (simp add: drop_map algebra_simps)
  moreover have "take 4 (map ?g [4 * i..<?n] @ xs) = map ?g [4 * i..<4 * i + 4]" for xs
    using assms(2) by (simp add: take_map)
  moreover have "map ?g [4 * i..<4 * i + 4] = map (\<lambda>j. m_mem m (ucast (?src + of_nat (4 * i) + of_nat j))) [0..<4]"
    by (rule nth_equalityI) (simp_all add: add.assoc)
  ultimately show ?thesis by (simp add: get_word32_def mem_word32_def)
qed

lemma x86_handle_signal_tramp:
  assumes "reg_inv T s" "r_installed s (ucast a) = Some as"
    "ux_eip uc = (if m_using_int3 (r_mach s) then a + 1 else a)"
    "si = Siginfo (m_using_int3 (r_mach s)) (\<not> m_using_int3 (r_mach s)) True False 0"
  shows "x86_handle_signal si uc s = Sig_Tramp (as_state as)"
  using reg_inv_Some [OF assms(1,2)] assms(2-) by (simp add: x86_handle_signal_def get_intstate_def trap_byte_def Let_def)

text \<open>
  C11. On 32-bit processes a call of a mocked function continues at the mock installed last, with
  the stack pointer at the trampoline's return address and behind it the words of the caller's stack, so that the
  mock finds the arguments of the call; the breakpoint is in place while the mock runs.
\<close>

theorem x86_mocked_call:
  assumes "kernel_ok k" "ireg_start T s0" "ireachable k s0 s"
    and a: "handlers s (ucast a) \<noteq> []" "T (ucast a) \<noteq> INSN_HLT" "T (ucast a) \<noteq> INSN_INT3"
    and mock: "ic_to (last (handlers s (ucast a))) \<noteq> 0"
    and uc: "ux_eip uc = (if m_using_int3 (r_mach s) then a + 1 else a)" "144 \<le> tx_ebp t - (ux_esp uc + 4)"
    and si: "si = Siginfo (m_using_int3 (r_mach s)) (\<not> m_using_int3 (r_mach s)) True False 0"
    and stk: "length (tx_stack t) = 144"
    and apart: "\<forall>j<144. (ucast (ux_esp uc + 4 + of_nat j) :: addr_t) \<noteq> ucast a"
  shows "\<exists>st top fr s' c. x86_handle_signal si uc s = Sig_Tramp st
    \<and> x86_tramp_before k t st uc s
      = (X86_Call (ucast (ic_to (last (handlers s (ucast a))))) (tx_frame t + of_nat (4 * top)) fr, c, s')
    \<and> get_word32 top fr = tx_after t
    \<and> (\<forall>i<34. get_word32 (top + 1 + i) fr = mem_word32 (r_mach s) (ux_esp uc + 4 + of_nat (4 * i)))
    \<and> m_mem (r_mach s') = m_mem (r_mach s) \<and> handlers s' = handlers s"
proof -
  note inv = ireachable_inv [OF assms(1-3)]
  obtain as where as: "r_installed s (ucast a) = Some as"
    using a(1) by (cases "r_installed s (ucast a)") (auto simp: handlers_def)
  note I = reg_inv_Some [OF inv as]
  let ?st = "as_state as" and ?m = "r_mach s" and ?uc = "uc\<lparr>ux_ebp := tx_ebp t\<rparr>"
  have ty: "is_type ?st = PUSHBP \<or> is_type ?st = OTHER"
    using I a(2,3) by (auto simp: classify_def)
  obtain nstack fr0 eip m1 where f: "x86_tramp_frame k t ?st a ?uc ?m = (nstack, fr0, eip, m1)"
    by (metis prod_cases4)
  define top where "top = (if is_type ?st = PUSHBP then 1 else 0 :: nat)"
  have fr: "get_word32 top fr0 = tx_after t" "length fr0 = 144" and ns: "nstack = Suc top"
    and m1: "m1 = (case is_type ?st of OTHER \<Rightarrow> snd (text_write k (ucast a) [is_orig ?st] ?m) | _ \<Rightarrow> ?m)"
    using f ty stk by (auto simp: x86_tramp_frame_def get_put_word32 top_def Let_def)
  have mem: "m_mem (rearm k ?st (ucast a) m1) = m_mem ?m"
    unfolding m1 by (rule rearm_known [OF assms(1)]) (use I in simp_all)
  have m1_mem: "m_mem m1 x = m_mem ?m x" if "x \<noteq> ucast a" for x
  proof (cases "is_type ?st")
    case OTHER
    obtain m2 where w: "text_write k (ucast a) [is_orig ?st] ?m = (0, m2)" using text_write_ok [OF assms(1)] .
    show ?thesis using OTHER w tw.tw_success [OF w] that by (simp add: m1)
  qed (simp_all add: m1)
  have c: "dispatch_before (ucast a) s call_init = call_init\<lparr>call_redirect := ic_to (last (handlers s (ucast a)))\<rparr>"
    using a(1) by (simp add: dispatch_before_last)
  have addr: "ux_eip uc - (if m_using_int3 ?m then 1 else 0) = a" using uc(1) by simp
  let ?fr = "x86_tramp_args nstack ?uc m1 fr0"
  have "x86_tramp_before k t ?st uc s =
    (X86_Call (ucast (ic_to (last (handlers s (ucast a))))) (tx_frame t + of_nat (4 * top)) ?fr,
     call_init\<lparr>call_redirect := ic_to (last (handlers s (ucast a)))\<rparr>, s\<lparr>r_mach := rearm k ?st (ucast a) m1\<rparr>)"
    unfolding x86_tramp_before_def Let_def addr f c
    using mock ty by (auto simp: call_init_def top_def)
  moreover have "get_word32 top ?fr = tx_after t"
    using x86_args_below [OF fr(2), of top nstack] fr(1) ns by (simp add: top_def)
  moreover have "get_word32 (top + 1 + i) ?fr = mem_word32 ?m (ux_esp uc + 4 + of_nat (4 * i))" if i: "i < 34" for i
  proof -
    have "get_word32 (nstack + i) ?fr = mem_word32 m1 (ux_esp uc + 4 + of_nat (4 * i))"
      using x86_args_copied [OF fr(2), of nstack i ?uc m1] i ns uc(2) by (simp add: top_def)
    moreover have "m_mem m1 (ucast (ux_esp uc + 4 + of_nat (4 * i) + of_nat j)) = m_mem ?m (ucast (ux_esp uc + 4 + of_nat (4 * i) + of_nat j))"
      if "j < 4" for j
      using apart [rule_format, of "4 * i + j"] i that by (intro m1_mem) (simp add: add.assoc)
    then have "mem_word32 m1 (ux_esp uc + 4 + of_nat (4 * i)) = mem_word32 ?m (ux_esp uc + 4 + of_nat (4 * i))"
      unfolding mem_word32_def by (intro arg_cong [where f = word_of_bytes] map_cong) auto
    ultimately show ?thesis using ns by simp
  qed
  moreover have "handlers (s\<lparr>r_mach := rearm k ?st (ucast a) m1\<rparr>) = handlers s"
    by (auto simp: handlers_def)
  ultimately show ?thesis
    using x86_handle_signal_tramp [OF inv as uc(1) si] mem by (intro exI conjI) (assumption | simp)+
qed

definition demo_x86_tramp :: x86_tramp where
  "demo_x86_tramp = \<lparr>tx_frame = 0x7000, tx_after = 0x400, tx_ebp = 0, tx_stack = replicate 144 0\<rparr>"

definition demo_x86_uctx :: x86_uctx where
  "demo_x86_uctx = \<lparr>ux_eip = 0x1000, ux_esp = 0x7f00, ux_ebp = 0\<rparr>"

lemma demo_x86_apart: "\<forall>j<144. (ucast (ux_esp demo_x86_uctx + 4 + of_nat j) :: addr_t) \<noteq> ucast (0x1000 :: u32)"
proof (intro allI impI)
  fix j :: nat assume "j < 144"
  then have "unat (ux_esp demo_x86_uctx + 4 + of_nat j) = 0x7f04 + j"
    by (simp add: demo_x86_uctx_def unat_word_ariths unat_of_nat_u32)
  then have "unat (ux_esp demo_x86_uctx + 4 + of_nat j) \<noteq> unat (0x1000 :: u32)" by simp
  then have "ux_esp demo_x86_uctx + 4 + of_nat j \<noteq> 0x1000" by metis
  then show "(ucast (ux_esp demo_x86_uctx + 4 + of_nat j) :: addr_t) \<noteq> ucast (0x1000 :: u32)"
    by (metis ucast_u64_u32_inj)
qed

theorem x86_mocked_call_witness:
  "\<exists>st top fr s' c. x86_tramp_before demo_kernel demo_x86_tramp st demo_x86_uctx demo_mocked
      = (X86_Call 0x2000 (0x7000 + of_nat (4 * top)) fr, c, s') \<and> get_word32 top fr = 0x400"
proof -
  have h: "handlers demo_mocked (ucast (0x1000 :: u32)) = [demo_mock]" using demo_mocked_simps(2) by simp
  show ?thesis
    using x86_mocked_call [OF demo_ok demo_mocked_simps(1), of "0x1000" demo_x86_uctx demo_x86_tramp
        "Siginfo False True True False 0", unfolded h demo_mocked_simps(3), OF _ _ _ _ _ _ _ _ demo_x86_apart]
    by (simp add: INSN_HLT_def INSN_INT3_def demo_mock_def demo_x86_tramp_def demo_x86_uctx_def) blast
qed

end
