(* ===== verification/NP_Serial.thy ===== *)
theory NP_Serial
  imports NP_Runner
begin

text \<open>
  A whole run with one test process at a time: the plan, the runner, the pipe of every test
  process and the reports put together. Given test processes that keep to the protocol and
  end, the run ends, every test is run once and its verdict is told.
\<close>

section \<open>Test processes that keep to the protocol\<close>

text \<open>
  For each test run: what the kernel answers when it is started, its process, the events it
  raises, and the rounds of waiting during which they arrive. Each round
  brings one call; in the last the process has ended.
\<close>

record served =
  sv_job :: job_env
  sv_pid :: nat
  sv_events :: "event_t list"
  sv_rounds :: "round_env list"

definition served_stream :: "event_t list \<Rightarrow> pipe \<Rightarrow> bool" where
  "served_stream evs p \<longleftrightarrow> (\<forall>ev\<in>set evs. proxied ev) \<and> good_pipe p \<and>
     (\<exists>res. session_bytes evs res = Inr (pipe_bytes p) \<and> res \<le> merge (results evs R_UNKNOWN) R_PASS)"

definition served_ok :: "served \<Rightarrow> bool" where
  "served_ok sv \<longleftrightarrow> fe_pipe_ok (je_fork (sv_job sv)) \<and>
     fst (fork_loop 20 10 (fe_forks (je_fork (sv_job sv)))) = Inr (Some (sv_pid sv)) \<and>
     served_stream (sv_events sv) (fe_stream (je_fork (sv_job sv))) \<and>
     length (sv_rounds sv) = Suc (length (sv_events sv)) \<and>
     (\<forall>e\<in>set (sv_rounds sv). re_poll e = Poll_Ready [(True, False)]) \<and>
     re_waits (last (sv_rounds sv)) = [[W_Exited (sv_pid sv) 0, W_No_Child]]"

definition verdict :: "served \<Rightarrow> result_t" where
  "verdict sv = merge (results (sv_events sv) R_UNKNOWN) R_PASS"

text \<open>What the listeners are told of one job, and of a run.\<close>

definition fresh_job :: "u32 \<Rightarrow> pos \<Rightarrow> assignment_t list \<Rightarrow> job_t" where
  "fresh_job jid p as = \<lparr>jb_id = jid, jb_node = p, jb_assigns = as, jb_start = 0, jb_end = 0,
     jb_stdout_path = [], jb_stderr_path = []\<rparr>"

definition job_calls :: "u32 \<Rightarrow> pos option \<times> assignment_t list \<Rightarrow> served \<Rightarrow> lcall list" where
  "job_calls jid v sv =
     (let j = fresh_job jid (the (fst v)) (snd v);
          j1 = job_pre_run_parent (je_now (sv_job sv)) j
      in L_Begin_Job j # map (L_Add_Event j1) (sv_events sv)
         @ [L_End_Job (job_post_run_parent (re_now (last (sv_rounds sv))) j1) (verdict sv)])"

fun run_calls :: "u32 \<Rightarrow> (pos option \<times> assignment_t list) list \<Rightarrow> served list \<Rightarrow> lcall list" where
  "run_calls jid (v # vs) (sv # svs) = job_calls jid v sv @ run_calls (jid + 1) vs svs"
| "run_calls jid _ _ = []"

text \<open>The process of a test keeps to the protocol if its events fit into messages and its bytes arrive.\<close>

lemma child_main_served:
  assumes "exec_wf (te_exec te)" "run_test_code k root te j tp = Inr (evs, res, tp')" "\<forall>ev\<in>set evs. sendable_event ev"
    and "good_pipe p" "child_main k root te j tp = Inr (pipe_bytes p)"
  shows "served_stream evs p"
  using run_test_code_nf [OF assms(1,2)] assms(2-) nf_ok_proxied by (auto simp: served_stream_def child_main_def)

section \<open>Waiting for one process\<close>

text \<open>A runner whose only child is the given one, and one that has none; neither captures output.\<close>

definition alone :: "child_t \<Rightarrow> runner_t \<Rightarrow> bool" where
  "alone c r \<longleftrightarrow> rn_children r = [c] \<and> rn_nrunning r = 1 \<and> rn_maxchildren r = 1 \<and> \<not> rn_needs_stdout r"

definition idle :: "runner_t \<Rightarrow> bool" where
  "idle r \<longleftrightarrow> rn_children r = [] \<and> rn_nrunning r = 0 \<and> rn_maxchildren r = 1 \<and> \<not> rn_needs_stdout r"

definition calls_of :: "runner_t \<Rightarrow> lcall list" where
  "calls_of r = map fst (rn_trace r)"

definition fails :: "result_t \<Rightarrow> u32" where
  "fails v = (if v = R_FAIL then 1 else 0)"

lemma dispatch_events_simps [simp]:
  "rn_children (dispatch_events j evs r) = rn_children r" "rn_nrunning (dispatch_events j evs r) = rn_nrunning r"
  "rn_maxchildren (dispatch_events j evs r) = rn_maxchildren r" "rn_needs_stdout (dispatch_events j evs r) = rn_needs_stdout r"
  "rn_nfailed (dispatch_events j evs r) = rn_nfailed r"
  "calls_of (dispatch_events j evs r) = calls_of r @ map (L_Add_Event j) evs"
  unfolding dispatch_events_def by (induction evs arbitrary: r) (simp_all add: dispatch_def calls_of_def)

text \<open>One round of input, while the child goes on and when it is done.\<close>

lemma input_round:
  assumes "alone c r" "\<not> is_finished c" "handle_input c = Inr (c1, evs)" "re_poll e = Poll_Ready [(True, False)]"
  defines "r1 \<equiv> (dispatch_events (ch_job c) evs (r\<lparr>rn_caught_sigchld := rn_caught_sigchld r \<or> re_sigchld e\<rparr>))\<lparr>rn_children := [c1]\<rparr>"
  shows "\<not> is_finished c1 \<Longrightarrow> wait_rounds (e # es) r = wait_rounds es r1"
    "is_finished c1 \<Longrightarrow> wait_rounds (e # es) r =
       Some (bindE (reap_finished (re_now e) (re_waits e) (r1\<lparr>rn_nrunning := 0\<rparr>)) (\<lambda>r2. Inr (r2, es)))"
  using assms
  by (simp_all add: alone_def wait_round_def Let_def,
      cases "reap_finished (re_now e) (re_waits e) (r1\<lparr>rn_nrunning := 0\<rparr>)", simp_all add: r1_def)

lemma reap_only_child:
  assumes "alone c r" "is_finished c"
  shows "\<exists>r'. reap_finished now [[W_Exited (ch_pid c) 0, W_No_Child]] (r\<lparr>rn_nrunning := 0\<rparr>) = Inr r' \<and> idle r'
    \<and> calls_of r' = calls_of r @ [L_End_Job (job_post_run_parent now (ch_job c)) (merge (ch_result c) R_PASS)]
    \<and> rn_nfailed r' = rn_nfailed r + fails (merge (ch_result c) R_PASS)"
  using assms
  by (simp add: alone_def idle_def find_finished_child_def reap_exit_zero finish_child_def Let_def merge_result_def dispatch_def
      calls_of_def fails_def job_post_run_parent_def remove_nth_def)

text \<open>The rounds of one process: its events are told in their order, then its end.\<close>

lemma wait_for_child:
  assumes "alone c r" "ch_state c \<noteq> FINISHED" "\<forall>ev\<in>set evs. proxied ev" "session_bytes evs res = Inr bs"
    "good_pipe (ch_pipe c)" "pipe_bytes (ch_pipe c) = bs"
    and "length es = Suc (length evs)" "\<forall>e\<in>set es. re_poll e = Poll_Ready [(True, False)]"
    and "re_waits (last es) = [[W_Exited (ch_pid c) 0, W_No_Child]]"
  defines "v \<equiv> merge (merge (results evs (ch_result c)) res) R_PASS"
  shows "\<exists>r'. wait_rounds (es @ es') r = Some (Inr (r', es')) \<and> idle r'
    \<and> calls_of r' = calls_of r @ map (L_Add_Event (ch_job c)) evs @ [L_End_Job (job_post_run_parent (re_now (last es)) (ch_job c)) v]
    \<and> rn_nfailed r' = rn_nfailed r + fails v"
  using assms(1-9) unfolding v_def
proof (induction evs arbitrary: c r bs es)
  case Nil
  obtain e where es: "es = [e]" using Nil.prems(7) by (cases es) auto
  have "pipe_bytes (ch_pipe c) = proxy_end_job res @ []" using Nil.prems(4,6) by simp
  from handle_call_finished [OF Nil.prems(5) this, of "ch_result c"] obtain p' where
    hc: "handle_call (ch_result c) (ch_pipe c) = (Inr (False, merge (ch_result c) res, None), p')" by metis
  let ?c = "c\<lparr>ch_result := merge (ch_result c) res, ch_pipe := p', ch_state := FINISHED\<rparr>"
  have h: "handle_input c = Inr (?c, [])" using hc Nil.prems(2) by (simp add: handle_input_def Let_def)
  have fin: "is_finished ?c" "\<not> is_finished c" using Nil.prems(2) by (simp_all add: is_finished_def)
  let ?r1 = "(r\<lparr>rn_caught_sigchld := rn_caught_sigchld r \<or> re_sigchld e\<rparr>)\<lparr>rn_children := [?c]\<rparr>"
  have "alone ?c ?r1" using Nil.prems(1) by (simp add: alone_def)
  from reap_only_child [OF this fin(1), of "re_now e"] show ?case
    using input_round(2) [OF Nil.prems(1) fin(2) h _ fin(1), of e es'] Nil.prems(8,9) es
    by (auto simp: dispatch_events_def calls_of_def)
next
  case (Cons ev evs)
  obtain e es1 where es: "es = e # es1" "length es1 = Suc (length evs)" using Cons.prems(7) by (cases es) auto
  then have last: "last es = last es1" by auto
  obtain b b' where b: "proxy_add_event ev = Inr b" "session_bytes evs res = Inr b'" "bs = b @ b'"
    using Cons.prems(4) by (auto simp: bindE_Inr_iff)
  have pv: "sendable_event ev" "ev_wf ev" "normal_form ev = ev" using Cons.prems(3) by (auto simp: proxied_def)
  have "pipe_bytes (ch_pipe c) = b @ b'" using Cons.prems(6) b by simp
  from handle_call_event [OF pv(1,2) b(1) Cons.prems(5) this, of "ch_result c"] obtain p' where
    p': "handle_call (ch_result c) (ch_pipe c) = (Inr (True, merge (ch_result c) (get_result ev), Some ev), p')"
      "good_pipe p'" "pipe_bytes p' = b'" using pv(3) by metis
  let ?c = "c\<lparr>ch_result := merge (ch_result c) (get_result ev), ch_pipe := p'\<rparr>"
  have h: "handle_input c = Inr (?c, [ev])" using p'(1) Cons.prems(2) by (simp add: handle_input_def Let_def)
  have nf: "\<not> is_finished ?c" "\<not> is_finished c" using Cons.prems(2) by (simp_all add: is_finished_def)
  let ?r1 = "(dispatch_events (ch_job c) [ev] (r\<lparr>rn_caught_sigchld := rn_caught_sigchld r \<or> re_sigchld e\<rparr>))\<lparr>rn_children := [?c]\<rparr>"
  have step: "wait_rounds (es @ es') r = wait_rounds (es1 @ es') ?r1"
    using input_round(1) [OF Cons.prems(1) nf(2) h _ nf(1), of e "es1 @ es'"] Cons.prems(8) es by simp
  have "alone ?c ?r1" using Cons.prems(1) by (simp add: alone_def)
  from Cons.IH [OF this _ _ b(2) _ _ es(2)] obtain r' where
    r': "wait_rounds (es1 @ es') ?r1 = Some (Inr (r', es'))" "idle r'"
      "calls_of r' = calls_of ?r1 @ map (L_Add_Event (ch_job c)) evs
         @ [L_End_Job (job_post_run_parent (re_now (last es1)) (ch_job c)) (merge (merge (results evs (ch_result ?c)) res) R_PASS)]"
      "rn_nfailed r' = rn_nfailed ?r1 + fails (merge (merge (results evs (ch_result ?c)) res) R_PASS)"
    using Cons.prems p' es last by auto
  moreover have "calls_of ?r1 = calls_of r @ [L_Add_Event (ch_job c) ev]" "rn_nfailed ?r1 = rn_nfailed r"
    by (simp_all add: dispatch_events_def dispatch_def calls_of_def)
  ultimately show ?case using step last by (intro exI [of _ r']) simp
qed

section \<open>One test after the other\<close>

abbreviation run_at :: "plan_iterator \<Rightarrow> u32 \<Rightarrow> job_env list \<Rightarrow> round_env list \<Rightarrow> runner_t \<Rightarrow> run_state" where
  "run_at it jid jes es r \<equiv> \<lparr>rs_itr = it, rs_next_id = jid, rs_jobs = jes, rs_rounds = es, rs_runner = r\<rparr>"

lemma start_one:
  assumes "idle r" "pi_node (nitr it) = Some p" "\<not> plan_iterator_eq it (plan_end plan)" "served_ok sv"
    and "plan_incr fuel root plan it = Some (Inr it')"
  shows "\<exists>c r'. start_jobs (Suc (Suc n)) fuel root plan (run_at it jid (sv_job sv # jes) es r)
      = Some (Inr (run_at it' (jid + 1) jes es r')) \<and> alone c r'
    \<and> ch_pid c = sv_pid sv \<and> ch_pipe c = fe_stream (je_fork (sv_job sv)) \<and> ch_job c = job_pre_run_parent (je_now (sv_job sv)) (fresh_job jid p (assigns it))
    \<and> ch_result c = R_UNKNOWN \<and> ch_state c = RUNNING
    \<and> calls_of r' = calls_of r @ [L_Begin_Job (fresh_job jid p (assigns it))] \<and> rn_nfailed r' = rn_nfailed r"
proof -
  define j where "j = fresh_job jid p (assigns it)"
  let ?j1 = "job_pre_run_parent (je_now (sv_job sv)) j" and ?fe = "je_fork (sv_job sv)"
  define c where "c = (let c0 = child_new (sv_pid sv) (fe_stream ?fe) ?j1
    in if rn_timeout r \<noteq> 0 then c0\<lparr>ch_deadline := jb_start ?j1 + rn_timeout r * NANOSEC_PER_SEC\<rparr> else c0)"
  define r' where "r' = (dispatch (L_Begin_Job j) r)\<lparr>rn_children := [c], rn_nrunning := 1\<rparr>"
  have new: "job_new jid it = Inr (j, jid + 1)" using assms(2) by (simp add: job_new_def j_def fresh_job_def)
  have "begin_job (sv_job sv) j r = Inr (Some c, r')"
    using assms(1,4) by (simp add: begin_job_def fork_child_def served_ok_def idle_def dispatch_def c_def r'_def Let_def)
  then have "start_jobs (Suc (Suc n)) fuel root plan (run_at it jid (sv_job sv # jes) es r)
      = start_jobs (Suc n) fuel root plan (run_at it' (jid + 1) jes es r')"
    using assms(1,3,5) new by (simp add: idle_def)
  also have "\<dots> = Some (Inr (run_at it' (jid + 1) jes es r'))"
    using assms(1) by (simp add: r'_def idle_def dispatch_def)
  finally show ?thesis
    using assms(1)
    by (intro exI [of _ c] exI [of _ r'])
      (simp add: alone_def idle_def j_def [symmetric] r'_def c_def child_new_def dispatch_def calls_of_def Let_def)
qed

lemma verdict_eq: "res \<le> merge (results (sv_events sv) R_UNKNOWN) R_PASS \<Longrightarrow>
    merge (merge (results (sv_events sv) R_UNKNOWN) res) R_PASS = verdict sv"
  by (auto simp: verdict_def merge_max max_def split: if_splits)

lemma serve_one:
  assumes "idle r" "pi_node (nitr it) = Some p" "\<not> plan_iterator_eq it (plan_end plan)" "served_ok sv"
    and "plan_incr fuel root plan it = Some (Inr it')"
  shows "\<exists>r'. run_loop (Suc (Suc n)) fuel root plan (run_at it jid (sv_job sv # jes) (sv_rounds sv @ es) r)
      = run_loop (Suc n) fuel root plan (run_at it' (jid + 1) jes es r') \<and> idle r'
    \<and> calls_of r' = calls_of r @ job_calls jid (Some p, assigns it) sv \<and> rn_nfailed r' = rn_nfailed r + fails (verdict sv)"
proof -
  obtain c r1 where st: "start_jobs (Suc (Suc n)) fuel root plan (run_at it jid (sv_job sv # jes) (sv_rounds sv @ es) r)
      = Some (Inr (run_at it' (jid + 1) jes (sv_rounds sv @ es) r1))" and al: "alone c r1"
    and c: "ch_pid c = sv_pid sv" "ch_pipe c = fe_stream (je_fork (sv_job sv))" "ch_result c = R_UNKNOWN" "ch_state c = RUNNING"
    and j: "L_Begin_Job (fresh_job jid p (assigns it)) # map (L_Add_Event (ch_job c)) (sv_events sv)
        @ [L_End_Job (job_post_run_parent (re_now (last (sv_rounds sv))) (ch_job c)) (verdict sv)]
        = job_calls jid (Some p, assigns it) sv"
    and r1: "calls_of r1 = calls_of r @ [L_Begin_Job (fresh_job jid p (assigns it))]" "rn_nfailed r1 = rn_nfailed r"
    using start_one [OF assms, of n jid jes "sv_rounds sv @ es"] by (auto simp: job_calls_def Let_def)
  from assms(4) obtain res where sv: "\<forall>ev\<in>set (sv_events sv). proxied ev" "good_pipe (ch_pipe c)"
    "session_bytes (sv_events sv) res = Inr (pipe_bytes (ch_pipe c))" "res \<le> merge (results (sv_events sv) R_UNKNOWN) R_PASS"
    "length (sv_rounds sv) = Suc (length (sv_events sv))" "\<forall>e\<in>set (sv_rounds sv). re_poll e = Poll_Ready [(True, False)]"
    "re_waits (last (sv_rounds sv)) = [[W_Exited (ch_pid c) 0, W_No_Child]]"
    by (auto simp: served_ok_def served_stream_def c)
  from wait_for_child [OF al _ sv(1,3,2) refl sv(5,6,7), of es] c(3,4) verdict_eq [OF sv(4)]
  obtain r2 where r2: "wait_rounds (sv_rounds sv @ es) r1 = Some (Inr (r2, es))" "idle r2"
    "calls_of r2 = calls_of r1 @ map (L_Add_Event (ch_job c)) (sv_events sv)
       @ [L_End_Job (job_post_run_parent (re_now (last (sv_rounds sv))) (ch_job c)) (verdict sv)]"
    "rn_nfailed r2 = rn_nfailed r1 + fails (verdict sv)" by auto
  have "runner_wait (sv_rounds sv @ es) r1 = Some (Inr (r2, es))" using r2(1) al by (simp add: runner_wait_def alone_def)
  then have "run_loop (Suc (Suc n)) fuel root plan (run_at it jid (sv_job sv # jes) (sv_rounds sv @ es) r)
      = run_loop (Suc n) fuel root plan (run_at it' (jid + 1) jes es r2)"
    using st al by (subst run_loop.simps) (simp add: alone_def del: run_loop.simps start_jobs.simps)
  then show ?thesis using r2 r1 j by (intro exI [of _ r2]) (simp del: run_loop.simps)
qed

lemma serve_all:
  assumes "plan_visit m fuel root plan (Some (Inr it)) = Some (Inr vs)" "idle r" "length svs = length vs"
    and "\<forall>sv\<in>set svs. served_ok sv" "\<forall>v\<in>set vs. fst v \<noteq> None"
  shows "\<exists>s. run_loop (length vs + 2) fuel root plan (run_at it jid (map sv_job svs) (concat (map sv_rounds svs)) r) = Some (Inr s)
    \<and> idle (rs_runner s) \<and> calls_of (rs_runner s) = calls_of r @ run_calls jid vs svs
    \<and> rn_nfailed (rs_runner s) = rn_nfailed r + sum_list (map (\<lambda>sv. fails (verdict sv)) svs)"
  using assms
proof (induction vs arbitrary: m it jid svs r)
  case Nil
  then obtain m' where "m = Suc m'" by (cases m) auto
  with Nil have "plan_iterator_eq it (plan_end plan)"
    by (auto simp: bindE_Inr_iff split: if_splits option.splits)
  then show ?case using Nil by (simp add: idle_def)
next
  case (Cons v vs)
  obtain m' where m: "m = Suc m'" using Cons.prems(1) by (cases m) auto
  obtain sv svs' where svs: "svs = sv # svs'" "length svs' = length vs" using Cons.prems(3) by (cases svs) auto
  have ne: "\<not> plan_iterator_eq it (plan_end plan)" and v: "v = (pi_node (nitr it), assigns it)"
    and rest: "plan_visit m' fuel root plan (plan_incr fuel root plan it) = Some (Inr vs)"
    using Cons.prems(1) m by (auto simp: bindE_Inr_iff split: if_splits option.splits)
  obtain p where p: "pi_node (nitr it) = Some p" using Cons.prems(5) v by auto
  obtain it' where it': "plan_incr fuel root plan it = Some (Inr it')"
    using rest by (cases "plan_incr fuel root plan it") (auto split: sum.splits, metis plan_visit.simps(2) option.inject sum.distinct(1) old.sum.exhaust)
  have ok: "served_ok sv" using Cons.prems(4) svs by simp
  from serve_one [OF Cons.prems(2) p ne ok it', of "Suc (length vs)" jid "map sv_job svs'" "concat (map sv_rounds svs')"]
  obtain r' where r': "run_loop (Suc (Suc (Suc (length vs)))) fuel root plan (run_at it jid (map sv_job svs) (concat (map sv_rounds svs)) r)
      = run_loop (Suc (Suc (length vs))) fuel root plan (run_at it' (jid + 1) (map sv_job svs') (concat (map sv_rounds svs')) r')"
    "idle r'" "calls_of r' = calls_of r @ job_calls jid v sv" "rn_nfailed r' = rn_nfailed r + fails (verdict sv)"
    using svs(1) v p by (auto simp del: run_loop.simps)
  from Cons.IH [OF rest [unfolded it'] r'(2) svs(2), where jid = "jid + 1"] Cons.prems(4,5) svs(1) obtain s where
    "run_loop (length vs + 2) fuel root plan (run_at it' (jid + 1) (map sv_job svs') (concat (map sv_rounds svs')) r') = Some (Inr s)"
    "idle (rs_runner s)" "calls_of (rs_runner s) = calls_of r' @ run_calls (jid + 1) vs svs'"
    "rn_nfailed (rs_runner s) = rn_nfailed r' + sum_list (map (\<lambda>sv. fails (verdict sv)) svs')"
    by (auto simp del: run_loop.simps)
  then show ?case using r' svs(1) by (intro exI [of _ s]) (simp add: add.assoc del: run_loop.simps)
qed

section \<open>The whole run\<close>

lemma fails_sum: "sum_list (map (\<lambda>sv. fails (f sv)) svs) = of_nat (length (filter (\<lambda>sv. f sv = R_FAIL) svs))"
  by (induction svs) (simp_all add: fails_def)

lemma of_nat_u32_zero: "n < 2 ^ 32 \<Longrightarrow> (of_nat n :: u32) = 0 \<longleftrightarrow> n = 0"
  using unat_of_nat_u32 [of n] by auto

lemma fails_sum_zero:
  assumes "length svs < 2 ^ 32"
  shows "sum_list (map (\<lambda>sv. fails (f sv)) svs) = 0 \<longleftrightarrow> (\<forall>sv\<in>set svs. f sv \<noteq> R_FAIL)"
proof -
  let ?n = "length (filter (\<lambda>sv. f sv = R_FAIL) svs)"
  have "?n < 2 ^ 32" by (rule le_less_trans [OF length_filter_le assms])
  note z = of_nat_u32_zero [OF this]
  show ?thesis unfolding fails_sum z by (auto simp: filter_empty_conv)
qed

lemma visits_nodes: "v \<in> set (visits root ps) \<Longrightarrow> fst v \<noteq> None"
  by (auto simp: visits_def)

lemma verdict_FAIL: "verdict sv = R_FAIL \<longleftrightarrow> (\<exists>ev\<in>set (sv_events sv). get_result ev = R_FAIL)"
  by (simp add: verdict_def results_FAIL_iff)

lemma run_tests_serial:
  assumes "plan_walk m fuel root plan = Some (Inr vs)" "plan \<noteq> []" "length svs = length vs" "\<forall>sv\<in>set svs. served_ok sv"
    and "\<forall>v\<in>set vs. fst v \<noteq> None"
  shows "\<exists>r. run_tests (length vs + 2) fuel root (Some plan) jid (map sv_job svs) (concat (map sv_rounds svs)) now ws (runner_new d vg)
      = Some (Inr (rn_nfailed r \<noteq> 0, r)) \<and> calls_of r = L_Begin # run_calls jid vs svs @ [L_End]
    \<and> rn_nfailed r = sum_list (map (\<lambda>sv. fails (verdict sv)) svs)"
proof -
  let ?r0 = "add_listener Text_Listener (runner_new d vg)"
  let ?r1 = "(runner_begin ?r0)\<lparr>rn_nrunning := 0\<rparr>"
  obtain it where it: "plan_begin fuel root plan = Some (Inr it)" "plan_visit m fuel root plan (Some (Inr it)) = Some (Inr vs)"
    using assms(1) unfolding plan_walk_def
    by (cases "plan_begin fuel root plan") (auto simp: split_sum_ex elim!: plan_visit.elims)
  have idle: "idle ?r1" "calls_of ?r1 = [L_Begin]" "rn_nfailed ?r1 = 0"
    by (simp_all add: idle_def runner_begin_def dispatch_def add_listener_def runner_new_def needs_stdout_def calls_of_def)
  obtain s where s: "run_loop (length vs + 2) fuel root plan (run_at it jid (map sv_job svs) (concat (map sv_rounds svs)) ?r1) = Some (Inr s)"
    "idle (rs_runner s)" "calls_of (rs_runner s) = [L_Begin] @ run_calls jid vs svs"
    "rn_nfailed (rs_runner s) = sum_list (map (\<lambda>sv. fails (verdict sv)) svs)"
    using serve_all [OF it(2) idle(1) assms(3,4,5), of jid] idle(2,3) by auto
  have l: "rn_listeners (runner_new d vg) = []" by (simp add: runner_new_def)
  show ?thesis
    using s it(1) l
    by (intro exI [of _ "runner_end (rs_runner s)"])
      (simp add: run_tests_def idle_def runner_end_def dispatch_def calls_of_def Let_def del: run_loop.simps)
qed

text \<open>
  C3. A serial run of the tests under a node ends whenever every test process keeps to the protocol and
  ends: each test is run exactly once for each combination of its parameters, in the order of the
  tree; the listeners are told of its start, of its events and of its end with the worst of their results; and the
  exit code is a failure exactly if some event was one.
\<close>

theorem serial_run_completes:
  assumes "node_at root base = Some m" "length (preorder base m) < fuel"
    and "length svs = length (visits root (preorder base m))" "\<forall>sv\<in>set svs. served_ok sv" "length svs < 2 ^ 32"
  shows "\<exists>r. run_tests (length svs + 2) fuel root (Some [base]) jid (map sv_job svs) (concat (map sv_rounds svs)) now ws (runner_new d vg)
      = Some (Inr (\<exists>sv\<in>set svs. \<exists>ev\<in>set (sv_events sv). get_result ev = R_FAIL, r))
    \<and> map fst (rn_trace r) = L_Begin # run_calls jid (visits root (preorder base m)) svs @ [L_End]"
proof -
  let ?vs = "visits root (preorder base m)"
  have w: "plan_walk (Suc (length ?vs)) fuel root [base] = Some (Inr ?vs)"
    using plan_walk_eq [OF assms(1,2), of "Suc (length ?vs)" "[]"] by (simp add: finish_def)
  obtain r where r: "run_tests (length ?vs + 2) fuel root (Some [base]) jid (map sv_job svs) (concat (map sv_rounds svs)) now ws
      (runner_new d vg) = Some (Inr (rn_nfailed r \<noteq> 0, r))" "calls_of r = L_Begin # run_calls jid ?vs svs @ [L_End]"
    "rn_nfailed r = sum_list (map (\<lambda>sv. fails (verdict sv)) svs)"
    using run_tests_serial [OF w _ assms(3,4)] visits_nodes by blast
  have "rn_nfailed r \<noteq> 0 \<longleftrightarrow> (\<exists>sv\<in>set svs. \<exists>ev\<in>set (sv_events sv). get_result ev = R_FAIL)"
    using r(3) fails_sum_zero [OF assms(5), of verdict] by (auto simp: verdict_FAIL)
  then show ?thesis using r(1,2) assms(3) by (intro exI [of _ r]) (simp add: calls_of_def)
qed

text \<open>A suite of two tests, one of them with a parameter of two values, in which every run passes.\<close>

definition demo_served :: served where
  "demo_served = \<lparr>sv_job = \<lparr>je_now = 100, je_fork = \<lparr>fe_pipe_ok = True, fe_tmpfiles = (None, None),
       fe_forks = [Fork_Eagain, Fork_Parent 7], fe_stream = [Chunk (proxy_end_job R_PASS)]\<rparr>\<rparr>,
     sv_pid = 7, sv_events = [],
     sv_rounds = [\<lparr>re_now = 200, re_sigchld = True, re_poll = Poll_Ready [(True, False)],
       re_waits = [[W_Exited 7 0, W_No_Child]]\<rparr>]\<rparr>"

lemma demo_served_ok: "served_ok demo_served"
proof -
  have "merge (results [] R_UNKNOWN) R_PASS = R_PASS" by (simp add: merge_max max_def)
  moreover have "good_pipe [Chunk (proxy_end_job R_PASS)]"
    by (simp add: proxy_end_job_def serialise_uint_def bytes_of_u32_def)
  ultimately have "served_stream [] [Chunk (proxy_end_job R_PASS)]"
    unfolding served_stream_def by (intro conjI exI [of _ R_PASS]) simp_all
  then show ?thesis by (simp add: served_ok_def demo_served_def)
qed

theorem serial_run_completes_witness:
  "\<exists>r. run_tests 5 9 demo_suite (Some [[]]) 1 (replicate 3 (sv_job demo_served)) (concat (replicate 3 (sv_rounds demo_served))) 300 []
      (runner_new False False) = Some (Inr (False, r))
    \<and> map fst (rn_trace r) = L_Begin # run_calls 1 (visits demo_suite (preorder [] demo_suite)) (replicate 3 demo_served) @ [L_End]"
proof -
  have l: "length (visits demo_suite (preorder [] demo_suite)) = 3" "length (preorder [] demo_suite) = 4"
    by (simp_all add: demo_suite_simps visits_def)
  have e: "sv_events demo_served = []" by (simp add: demo_served_def)
  show ?thesis
    using serial_run_completes [of demo_suite "[]" demo_suite 9 "replicate 3 demo_served" 1 300 "[]" False False]
    by (simp add: l e demo_served_ok map_replicate)
qed

end
