(* ===== verification/NP_Spiegel.thy ===== *)
theory NP_Spiegel
  imports NP_State "HOL-Library.Multiset"
begin

text \<open>
  \<^verbatim>\<open>np/spiegel/spiegel.{hxx,cxx}\<close>: the reflection interface over the debugging information: types,
  functions, locations and stack traces. An object of the interface is the reference of its entry
  and what its constructor read; the factory caches objects by reference. Loops over the children
  of an entry, and chains of types, are partial functions, since the references they follow may
  be circular; the printer of types takes the depth it may recurse to.
\<close>

section \<open>Values\<close>

abbreviation (input) TC_INVALID :: u32 where "TC_INVALID \<equiv> 0"
abbreviation (input) TC_MAJOR_INTEGER :: u32 where "TC_MAJOR_INTEGER \<equiv> 0x400"
abbreviation (input) TC_MAJOR_FLOAT :: u32 where "TC_MAJOR_FLOAT \<equiv> 0x500"
abbreviation (input) TC_MAJOR_MASK :: u32 where "TC_MAJOR_MASK \<equiv> 0x700"
abbreviation (input) TC_SIGNED :: u32 where "TC_SIGNED \<equiv> 0x80"
abbreviation (input) TC_UNSIGNED :: u32 where "TC_UNSIGNED \<equiv> 0"
abbreviation (input) TC_VOID :: u32 where "TC_VOID \<equiv> 0x100"
abbreviation (input) TC_POINTER :: u32 where "TC_POINTER \<equiv> 0x200"
abbreviation (input) TC_REFERENCE :: u32 where "TC_REFERENCE \<equiv> 0x201"
abbreviation (input) TC_ARRAY :: u32 where "TC_ARRAY \<equiv> 0x300"
abbreviation (input) TC_SIGNED_INT :: u32 where "TC_SIGNED_INT \<equiv> 0x484"
abbreviation (input) TC_SIGNED_LONG_LONG :: u32 where "TC_SIGNED_LONG_LONG \<equiv> 0x488"
abbreviation (input) TC_STRUCT :: u32 where "TC_STRUCT \<equiv> 0x600"
abbreviation (input) TC_UNION :: u32 where "TC_UNION \<equiv> 0x601"
abbreviation (input) TC_CLASS :: u32 where "TC_CLASS \<equiv> 0x602"

abbreviation (input) DW_TAG_array_type :: u32 where "DW_TAG_array_type \<equiv> 0x01"
abbreviation (input) DW_TAG_enumeration_type :: u32 where "DW_TAG_enumeration_type \<equiv> 0x04"
abbreviation (input) DW_TAG_formal_parameter :: u32 where "DW_TAG_formal_parameter \<equiv> 0x05"
abbreviation (input) DW_TAG_pointer_type :: u32 where "DW_TAG_pointer_type \<equiv> 0x0f"
abbreviation (input) DW_TAG_reference_type :: u32 where "DW_TAG_reference_type \<equiv> 0x10"
abbreviation (input) DW_TAG_subroutine_type :: u32 where "DW_TAG_subroutine_type \<equiv> 0x15"
abbreviation (input) DW_TAG_typedef :: u32 where "DW_TAG_typedef \<equiv> 0x16"
abbreviation (input) DW_TAG_unspecified_parameters :: u32 where "DW_TAG_unspecified_parameters \<equiv> 0x18"
abbreviation (input) DW_TAG_subrange_type :: u32 where "DW_TAG_subrange_type \<equiv> 0x21"
abbreviation (input) DW_TAG_base_type :: u32 where "DW_TAG_base_type \<equiv> 0x24"
abbreviation (input) DW_TAG_const_type :: u32 where "DW_TAG_const_type \<equiv> 0x26"
abbreviation (input) DW_TAG_volatile_type :: u32 where "DW_TAG_volatile_type \<equiv> 0x35"
abbreviation (input) DW_AT_byte_size :: u32 where "DW_AT_byte_size \<equiv> 0x0b"
abbreviation (input) DW_AT_upper_bound :: u32 where "DW_AT_upper_bound \<equiv> 0x2f"
abbreviation (input) DW_AT_count :: u32 where "DW_AT_count \<equiv> 0x37"
abbreviation (input) DW_AT_declaration :: u32 where "DW_AT_declaration \<equiv> 0x3c"
abbreviation (input) DW_AT_encoding :: u32 where "DW_AT_encoding \<equiv> 0x3e"
abbreviation (input) DW_AT_type :: u32 where "DW_AT_type \<equiv> 0x49"
abbreviation (input) DW_ATE_float :: u32 where "DW_ATE_float \<equiv> 0x4"
abbreviation (input) DW_ATE_signed :: u32 where "DW_ATE_signed \<equiv> 0x5"
abbreviation (input) DW_ATE_signed_char :: u32 where "DW_ATE_signed_char \<equiv> 0x6"
abbreviation (input) DW_ATE_unsigned :: u32 where "DW_ATE_unsigned \<equiv> 0x7"
abbreviation (input) DW_ATE_unsigned_char :: u32 where "DW_ATE_unsigned_char \<equiv> 0x8"

text \<open>The union of a value as its 64 bits.\<close>

record sp_value_t =
  sv_which :: u32
  sv_bits :: u64

definition make_invalid :: sp_value_t where
  "make_invalid = \<lparr>sv_which = TC_INVALID, sv_bits = 0\<rparr>"

definition make_void :: sp_value_t where
  "make_void = \<lparr>sv_which = TC_VOID, sv_bits = 0\<rparr>"

definition make_sint :: "u64 \<Rightarrow> sp_value_t" where
  "make_sint i = \<lparr>sv_which = TC_SIGNED_LONG_LONG, sv_bits = i\<rparr>"

definition make_sint32 :: "u32 \<Rightarrow> sp_value_t" where
  "make_sint32 i = \<lparr>sv_which = TC_SIGNED_LONG_LONG, sv_bits = scast i\<rparr>"

definition make_pointer :: "u64 \<Rightarrow> sp_value_t" where
  "make_pointer p = \<lparr>sv_which = TC_POINTER, sv_bits = p\<rparr>"

section \<open>Looking at an entry and its children\<close>

text \<open>A walker set on a reference and moved to its entry; nothing where there is no entry.\<close>

definition peek :: "dwarf_t \<Rightarrow> reference_t \<Rightarrow> np_error + walker_t option" where
  "peek dw ref =
     bindE (walker_at dw ref) (\<lambda>w. bindE (move_next dw w) (\<lambda>(ok, w'). Inr (if ok then Some w' else None)))"

text \<open>
  The loop over the children of an entry. The body gets each child and says whether to stop.
\<close>

partial_function (option) kids_loop ::
  "dwarf_t \<Rightarrow> (walker_t \<Rightarrow> 'a \<Rightarrow> np_error + bool \<times> 'a) \<Rightarrow> np_error + bool \<times> walker_t \<Rightarrow> 'a \<Rightarrow> (np_error + 'a) option" where
  "kids_loop dw body mv acc =
     (case mv of
        Inl e \<Rightarrow> Some (Inl e)
      | Inr (ok, w) \<Rightarrow>
          if \<not> ok then Some (Inr acc)
          else (case body w acc of
                  Inl e \<Rightarrow> Some (Inl e)
                | Inr (stop, acc') \<Rightarrow> if stop then Some (Inr acc') else kids_loop dw body (move_next dw w) acc'))"

definition for_kids ::
  "dwarf_t \<Rightarrow> (walker_t \<Rightarrow> 'a \<Rightarrow> np_error + bool \<times> 'a) \<Rightarrow> walker_t \<Rightarrow> 'a \<Rightarrow> (np_error + 'a) option" where
  "for_kids dw body w acc = kids_loop dw body (move_down dw w) acc"

text \<open>A function that does not look at the result of \<^verbatim>\<open>move_next\<close> uses the entry whatever it is.\<close>

definition peek_raw :: "dwarf_t \<Rightarrow> reference_t \<Rightarrow> np_error + walker_t" where
  "peek_raw dw ref = bindE (walker_at dw ref) (\<lambda>w. bindE (move_next dw w) (\<lambda>(_, w'). Inr w'))"

section \<open>Types\<close>

text \<open>The classification of an entry: a number, or the type it refers to.\<close>

definition class_step :: "entry_t \<Rightarrow> np_error + (u32 + reference_t)" where
  "class_step e =
     bindE (get_tag e) (\<lambda>tag.
       Inr (let byte_size = get_uint32_attribute DW_AT_byte_size e;
                encoding = get_uint32_attribute DW_AT_encoding e
            in if tag = DW_TAG_base_type then
                 Inl (if encoding = DW_ATE_float then TC_MAJOR_FLOAT OR byte_size
                      else if encoding = DW_ATE_signed \<or> encoding = DW_ATE_signed_char
                      then TC_MAJOR_INTEGER OR TC_SIGNED OR byte_size
                      else if encoding = DW_ATE_unsigned \<or> encoding = DW_ATE_unsigned_char
                      then TC_MAJOR_INTEGER OR TC_UNSIGNED OR byte_size
                      else TC_INVALID)
               else if tag = DW_TAG_typedef \<or> tag = DW_TAG_volatile_type \<or> tag = DW_TAG_const_type
               then Inr (get_reference_attribute DW_AT_type e)
               else if tag = DW_TAG_pointer_type then Inl TC_POINTER
               else if tag = DW_TAG_reference_type then Inl TC_REFERENCE
               else if tag = DW_TAG_structure_type then Inl TC_STRUCT
               else if tag = DW_TAG_union_type then Inl TC_UNION
               else if tag = DW_TAG_class_type then Inl TC_CLASS
               else if tag = DW_TAG_enumeration_type
               then Inl (TC_MAJOR_INTEGER OR TC_SIGNED OR (if byte_size = 0 then 4 else byte_size))
               else if tag = DW_TAG_array_type then Inl TC_ARRAY
               else Inl TC_INVALID))"

partial_function (option) get_classification :: "dwarf_t \<Rightarrow> reference_t \<Rightarrow> (np_error + u32) option" where
  "get_classification dw ref =
     (if ref = reference_null then Some (Inr TC_VOID)
      else case peek dw ref of
             Inl e \<Rightarrow> Some (Inl e)
           | Inr None \<Rightarrow> Some (Inr TC_INVALID)
           | Inr (Some w) \<Rightarrow>
               (case class_step (wk_entry w) of
                  Inl e \<Rightarrow> Some (Inl e)
                | Inr (Inl c) \<Rightarrow> Some (Inr c)
                | Inr (Inr ref') \<Rightarrow> get_classification dw ref'))"

definition classification_string :: "u32 \<Rightarrow> string" where
  "classification_string cln =
     (if cln = TC_INVALID then ''invalid''
      else [''0'', ''void'', ''pointer'', ''array'', ''integer'', ''float'', ''compound'', ''7''] ! unat (drop_bit 8 cln AND 7)
        @ (if cln AND TC_MAJOR_MASK = TC_MAJOR_INTEGER
           then (if cln AND TC_SIGNED \<noteq> 0 then ''|signed'' else ''|unsigned'') else [])
        @ ''|'' @ dec (cln AND NOT (TC_MAJOR_MASK OR TC_SIGNED)))"

definition get_classification_as_string :: "dwarf_t \<Rightarrow> reference_t \<Rightarrow> (np_error + string) option" where
  "get_classification_as_string dw ref =
     map_option (\<lambda>r. bindE r (\<lambda>cln. Inr (classification_string cln))) (get_classification dw ref)"

text \<open>The number of elements a child of an array type gives: its count, or else its upper bound.\<close>

definition subrange_count :: "entry_t \<Rightarrow> np_error + u32" where
  "subrange_count e =
     bindE (get_tag e) (\<lambda>tag.
       Inr (if tag \<noteq> DW_TAG_subrange_type then 0
            else let c = get_uint32_attribute DW_AT_count e
                 in if c \<noteq> 0 then c else get_uint32_attribute DW_AT_upper_bound e))"

definition array_counts :: "dwarf_t \<Rightarrow> walker_t \<Rightarrow> (np_error + u32 list) option" where
  "array_counts dw w =
     for_kids dw (\<lambda>w' ns. bindE (subrange_count (wk_entry w')) (\<lambda>n. Inr (False, if n \<noteq> 0 then ns @ [n] else ns))) w []"

definition counts_product :: "u32 list \<Rightarrow> u32" where
  "counts_product ns = fold (\<lambda>n size. (if size \<noteq> 0 then size else 1) * n) ns 0"

partial_function (option) get_sizeof :: "dwarf_t \<Rightarrow> reference_t \<Rightarrow> (np_error + u32) option" where
  "get_sizeof dw ref =
     (if ref = reference_null then Some (Inr 0)
      else case peek dw ref of
             Inl e \<Rightarrow> Some (Inl e)
           | Inr None \<Rightarrow> Some (Inr 0)
           | Inr (Some w) \<Rightarrow>
               (case get_tag (wk_entry w) of
                  Inl e \<Rightarrow> Some (Inl e)
                | Inr tag \<Rightarrow>
                    if tag = DW_TAG_array_type \<and> get_uint32_attribute DW_AT_byte_size (wk_entry w) = 0
                    then Option.bind (get_sizeof dw (get_reference_attribute DW_AT_type (wk_entry w))) (\<lambda>es.
                           case es of
                             Inl e \<Rightarrow> Some (Inl e)
                           | Inr element_size \<Rightarrow>
                               map_option (\<lambda>r. bindE r (\<lambda>ns. Inr (counts_product ns * element_size))) (array_counts dw w))
                    else if tag = DW_TAG_typedef \<or> tag = DW_TAG_volatile_type \<or> tag = DW_TAG_const_type
                    then get_sizeof dw (get_reference_attribute DW_AT_type (wk_entry w))
                    else if tag = DW_TAG_pointer_type \<or> tag = DW_TAG_reference_type then Some (Inr 8)
                    else Some (Inr (get_uint32_attribute DW_AT_byte_size (wk_entry w)))))"

definition type_get_name :: "dwarf_t \<Rightarrow> reference_t \<Rightarrow> np_error + string" where
  "type_get_name dw ref =
     (if ref = reference_null then Inr []
      else bindE (peek dw ref) (\<lambda>w.
        case w of
          None \<Rightarrow> Inr ''wtf?''
        | Some w \<Rightarrow>
            bindE (get_tag (wk_entry w)) (\<lambda>tag.
              Inr (if tag \<in> {DW_TAG_base_type, DW_TAG_typedef, DW_TAG_structure_type, DW_TAG_union_type, DW_TAG_class_type,
                             DW_TAG_enumeration_type, DW_TAG_namespace_type}
                   then (case get_string_attribute DW_AT_name (wk_entry w) of None \<Rightarrow> [] | Some n \<Rightarrow> n)
                   else if tag \<in> {DW_TAG_pointer_type, DW_TAG_reference_type, DW_TAG_volatile_type, DW_TAG_const_type,
                                  DW_TAG_array_type, DW_TAG_subroutine_type}
                   then []
                   else to_name tagnames (sint tag)))))"

text \<open>The parameters of a function or function type: the declared ones, and the mark of an open list.\<close>

datatype param_t = Formal string reference_t | Ellipsis

definition formal_of :: "entry_t \<Rightarrow> param_t" where
  "formal_of e =
     Formal (case get_string_attribute DW_AT_name e of None \<Rightarrow> [] | Some n \<Rightarrow> n) (get_reference_attribute DW_AT_type e)"

definition subroutine_param :: "walker_t \<Rightarrow> bool \<times> param_t list \<Rightarrow> np_error + bool \<times> bool \<times> param_t list" where
  "subroutine_param w acc =
     (case acc of (ellipsis, ps) \<Rightarrow>
        bindE (get_tag (wk_entry w)) (\<lambda>tag.
          Inr (False,
               if \<not> ellipsis \<and> tag = DW_TAG_formal_parameter then (ellipsis, ps @ [formal_of (wk_entry w)])
               else if tag = DW_TAG_unspecified_parameters then (True, ps @ [Ellipsis])
               else (ellipsis, ps))))"

definition function_param :: "walker_t \<Rightarrow> param_t list \<Rightarrow> np_error + bool \<times> param_t list" where
  "function_param w ps =
     bindE (get_tag (wk_entry w)) (\<lambda>tag.
       Inr (if tag = DW_TAG_formal_parameter then (False, ps @ [formal_of (wk_entry w)])
            else if tag = DW_TAG_unspecified_parameters then (True, ps @ [Ellipsis])
            else (False, ps)))"

definition bindOE :: "('e + 'a) option \<Rightarrow> ('a \<Rightarrow> ('e + 'b) option) \<Rightarrow> ('e + 'b) option" where
  "bindOE m f = (case m of None \<Rightarrow> None | Some (Inl e) \<Rightarrow> Some (Inl e) | Some (Inr x) \<Rightarrow> f x)"

definition array_suffix :: "u32 list \<Rightarrow> string" where
  "array_suffix ns = (if ns = [] then ''[]'' else concat (map (\<lambda>n. ''['' @ dec n @ '']'') ns))"

definition or_anonymous :: "string option \<Rightarrow> string" where
  "or_anonymous name = (case name of None \<Rightarrow> ''{...}'' | Some n \<Rightarrow> n)"

fun type_to_string :: "nat \<Rightarrow> dwarf_t \<Rightarrow> reference_t \<Rightarrow> string \<Rightarrow> (np_error + string) option"
  and params_to_string :: "nat \<Rightarrow> dwarf_t \<Rightarrow> param_t list \<Rightarrow> (np_error + string) option" where
  "type_to_string 0 dw ref inner = None"
| "type_to_string (Suc n) dw ref inner =
     (if ref = reference_null then Some (Inr (if inner \<noteq> [] then ''void '' @ inner else ''void''))
      else case peek dw ref of
        Inl e \<Rightarrow> Some (Inl e)
      | Inr None \<Rightarrow> Some (Inr (if inner \<noteq> [] then ''wtf? '' @ inner else ''wtf?''))
      | Inr (Some w) \<Rightarrow>
          (case get_tag (wk_entry w) of
             Inl e \<Rightarrow> Some (Inl e)
           | Inr tag \<Rightarrow>
               let name = get_string_attribute DW_AT_name (wk_entry w);
                   ty = get_reference_attribute DW_AT_type (wk_entry w);
                   named = (\<lambda>s. Some (Inr (if inner \<noteq> [] then s @ '' '' @ inner else s)))
               in if tag = DW_TAG_base_type \<or> tag = DW_TAG_typedef
                  then named (case name of None \<Rightarrow> ''wtf?'' | Some nm \<Rightarrow> nm)
                  else if tag = DW_TAG_pointer_type then type_to_string n dw ty (''*'' @ inner)
                  else if tag = DW_TAG_reference_type then type_to_string n dw ty (''&'' @ inner)
                  else if tag = DW_TAG_volatile_type then type_to_string n dw ty (''volatile '' @ inner)
                  else if tag = DW_TAG_const_type then type_to_string n dw ty (''const '' @ inner)
                  else if tag = DW_TAG_structure_type then named (''struct '' @ or_anonymous name)
                  else if tag = DW_TAG_union_type then named (''union '' @ or_anonymous name)
                  else if tag = DW_TAG_class_type then named (''class '' @ or_anonymous name)
                  else if tag = DW_TAG_enumeration_type then named (''enum '' @ or_anonymous name)
                  else if tag = DW_TAG_namespace_type then named (''namespace '' @ or_anonymous name)
                  else if tag = DW_TAG_array_type
                  then bindOE (array_counts dw w) (\<lambda>ns. type_to_string n dw ty (inner @ array_suffix ns))
                  else if tag = DW_TAG_subroutine_type
                  then bindOE (for_kids dw subroutine_param w (False, [])) (\<lambda>(_, ps).
                       bindOE (params_to_string n dw ps) (\<lambda>s. type_to_string n dw ty (''('' @ inner @ '')('' @ s @ '')'')))
                  else named (to_name tagnames (sint tag))))"
| "params_to_string n dw [] = Some (Inr [])"
| "params_to_string n dw (p # ps) =
     bindOE (case p of Formal nm ref \<Rightarrow> type_to_string n dw ref nm | Ellipsis \<Rightarrow> Some (Inr ''...'')) (\<lambda>s.
       if ps = [] then Some (Inr s) else bindOE (params_to_string n dw ps) (\<lambda>t. Some (Inr (s @ '', '' @ t))))"

section \<open>Functions\<close>

record function_t =
  fn_ref :: reference_t
  fn_name :: string
  fn_low_pc :: u64
  fn_is_declaration :: bool

datatype cacheable_t = Cc_Type reference_t | Cc_Function function_t

type_synonym factory_t = "reference_t \<rightharpoonup> cacheable_t"

definition make_type :: "reference_t \<Rightarrow> factory_t \<Rightarrow> reference_t \<times> factory_t" where
  "make_type ref fac = (case fac ref of None \<Rightarrow> (ref, fac(ref \<mapsto> Cc_Type ref)) | Some _ \<Rightarrow> (ref, fac))"

definition populate :: "dwarf_t \<Rightarrow> function_t \<Rightarrow> np_error + function_t option" where
  "populate dw fn =
     bindE (peek dw (fn_ref fn)) (\<lambda>w.
       Inr (case w of
              None \<Rightarrow> None
            | Some w \<Rightarrow> Some (fn\<lparr>fn_low_pc := get_uint64_attribute DW_AT_low_pc (wk_entry w),
                                 fn_is_declaration := (get_uint64_attribute DW_AT_declaration (wk_entry w) \<noteq> 0)\<rparr>)))"

text \<open>The unit a member of the program belongs to, as its index in the vector of units.\<close>

definition get_compile_unit :: "dwarf_t \<Rightarrow> function_t \<Rightarrow> np_error + nat" where
  "get_compile_unit dw fn = (case resolve dw (fn_ref fn) of None \<Rightarrow> Inl Assert_Failed | Some (cu, _) \<Rightarrow> Inr (cu_index cu))"

text \<open>The constructor leaves the two fields that \<^verbatim>\<open>populate\<close> sets.\<close>

definition function_new :: "walker_t \<Rightarrow> function_t" where
  "function_new w =
     \<lparr>fn_ref = get_reference w,
      fn_name = (case get_string_attribute DW_AT_name (wk_entry w) of None \<Rightarrow> [] | Some n \<Rightarrow> n),
      fn_low_pc = 0, fn_is_declaration = False\<rparr>"

definition make_function :: "dwarf_t \<Rightarrow> walker_t \<Rightarrow> factory_t \<Rightarrow> np_error + function_t option \<times> factory_t" where
  "make_function dw w fac =
     (case fac (get_reference w) of
        Some (Cc_Function f) \<Rightarrow> Inr (Some f, fac)
      | Some (Cc_Type _) \<Rightarrow> Inl Bad_Pointer
      | None \<Rightarrow>
          bindE (populate dw (function_new w)) (\<lambda>fn.
            Inr (case fn of None \<Rightarrow> (None, fac) | Some f \<Rightarrow> (Some f, fac(fn_ref f \<mapsto> Cc_Function f)))))"

definition make_function_ref :: "dwarf_t \<Rightarrow> reference_t \<Rightarrow> factory_t \<Rightarrow> np_error + function_t option \<times> factory_t" where
  "make_function_ref dw ref fac =
     (if ref = reference_null then Inr (None, fac)
      else bindE (peek dw ref) (\<lambda>w. case w of None \<Rightarrow> Inr (None, fac) | Some w \<Rightarrow> make_function dw w fac))"

text \<open>
  The functions of a unit in the order of their addresses. Sorting more than one dereferences
  them all; functions at the same address keep their order here, which \<^verbatim>\<open>std::sort\<close> leaves open.
\<close>

definition collect_function ::
  "dwarf_t \<Rightarrow> walker_t \<Rightarrow> function_t option list \<times> factory_t \<Rightarrow> np_error + bool \<times> function_t option list \<times> factory_t" where
  "collect_function dw w acc =
     (case acc of (fns, fac) \<Rightarrow>
        bindE (get_tag (wk_entry w)) (\<lambda>tag.
          if tag \<noteq> DW_TAG_subprogram \<or> get_string_attribute DW_AT_name (wk_entry w) = None then Inr (False, fns, fac)
          else bindE (make_function dw w fac) (\<lambda>(f, fac'). Inr (False, fns @ [f], fac'))))"

definition sort_functions :: "function_t option list \<Rightarrow> np_error + function_t option list" where
  "sort_functions fns =
     (if length fns > 1 \<and> None \<in> set fns then Inl Null_Deref else Inr (sort_key (\<lambda>f. fn_low_pc (the f)) fns))"

definition get_functions ::
  "dwarf_t \<Rightarrow> compile_unit_t \<Rightarrow> factory_t \<Rightarrow> (np_error + function_t option list \<times> factory_t) option" where
  "get_functions dw cu fac =
     (case peek_raw dw (make_root_reference cu) of
        Inl e \<Rightarrow> Some (Inl e)
      | Inr w \<Rightarrow>
          bindOE (for_kids dw (collect_function dw) w ([], fac)) (\<lambda>(fns, fac').
            Some (bindE (sort_functions fns) (\<lambda>fns'. Inr (fns', fac')))))"

definition fn_get_full_name :: "dwarf_t \<Rightarrow> function_t \<Rightarrow> (np_error + string) option" where
  "fn_get_full_name dw fn = get_full_name dw (fn_ref fn)"

definition get_return_type :: "dwarf_t \<Rightarrow> function_t \<Rightarrow> factory_t \<Rightarrow> np_error + reference_t \<times> factory_t" where
  "get_return_type dw fn fac =
     bindE (entry_at dw (fn_ref fn)) (\<lambda>w. Inr (make_type (get_reference_attribute DW_AT_type (wk_entry w)) fac))"

definition parameter_type :: "walker_t \<Rightarrow> reference_t list \<times> factory_t \<Rightarrow> np_error + bool \<times> reference_t list \<times> factory_t" where
  "parameter_type w acc =
     (case acc of (ts, fac) \<Rightarrow>
        bindE (get_tag (wk_entry w)) (\<lambda>tag.
          Inr (if tag = DW_TAG_formal_parameter
               then (case make_type (get_reference_attribute DW_AT_type (wk_entry w)) fac of (t, fac') \<Rightarrow> (False, ts @ [t], fac'))
               else (tag = DW_TAG_unspecified_parameters, ts, fac))))"

definition get_parameter_types :: "dwarf_t \<Rightarrow> function_t \<Rightarrow> factory_t \<Rightarrow> (np_error + reference_t list \<times> factory_t) option" where
  "get_parameter_types dw fn fac =
     (case peek_raw dw (fn_ref fn) of Inl e \<Rightarrow> Some (Inl e) | Inr w \<Rightarrow> for_kids dw parameter_type w ([], fac))"

definition parameter_name :: "walker_t \<Rightarrow> string list \<Rightarrow> np_error + bool \<times> string list" where
  "parameter_name w ns =
     bindE (get_tag (wk_entry w)) (\<lambda>tag.
       Inr (if tag = DW_TAG_formal_parameter
            then (False, ns @ [case get_string_attribute DW_AT_name (wk_entry w) of
                                 Some (c # cs) \<Rightarrow> c # cs | _ \<Rightarrow> ''<unknown>''])
            else (tag = DW_TAG_unspecified_parameters, ns)))"

definition get_parameter_names :: "dwarf_t \<Rightarrow> function_t \<Rightarrow> (np_error + string list) option" where
  "get_parameter_names dw fn =
     (case peek_raw dw (fn_ref fn) of Inl e \<Rightarrow> Some (Inl e) | Inr w \<Rightarrow> for_kids dw parameter_name w [])"

definition has_unspecified_parameters :: "dwarf_t \<Rightarrow> function_t \<Rightarrow> (np_error + bool) option" where
  "has_unspecified_parameters dw fn =
     (case peek_raw dw (fn_ref fn) of
        Inl e \<Rightarrow> Some (Inl e)
      | Inr w \<Rightarrow> for_kids dw (\<lambda>w' found. bindE (get_tag (wk_entry w')) (\<lambda>tag.
          Inr (if tag = DW_TAG_unspecified_parameters then (True, True) else (False, found)))) w False)"

definition function_to_string :: "nat \<Rightarrow> dwarf_t \<Rightarrow> function_t \<Rightarrow> (np_error + string) option" where
  "function_to_string n dw fn =
     (case entry_at dw (fn_ref fn) of
        Inl e \<Rightarrow> Some (Inl e)
      | Inr w \<Rightarrow>
          bindOE (for_kids dw function_param w []) (\<lambda>ps.
          bindOE (params_to_string n dw ps) (\<lambda>s.
            type_to_string n dw (get_reference_attribute DW_AT_type (wk_entry w)) (fn_name fn @ ''('' @ s @ '')''))))"

definition get_live_address :: "state_t \<Rightarrow> dwarf_t \<Rightarrow> function_t \<Rightarrow> np_error + addr_t" where
  "get_live_address st dw fn =
     bindE (entry_at dw (fn_ref fn)) (\<lambda>w.
       Inr (live_address (st_link_objects st ! cu_link_object (wk_unit w)) (get_address_attribute DW_AT_low_pc (wk_entry w))))"

text \<open>
  Calling a function without parameters: what the code at an address returns in the result
  register is the argument \<open>call\<close>.
\<close>

definition invoke :: "(addr_t \<Rightarrow> u64) \<Rightarrow> state_t \<Rightarrow> dwarf_t \<Rightarrow> function_t \<Rightarrow> factory_t \<Rightarrow> (np_error + sp_value_t \<times> factory_t) option" where
  "invoke call st dw fn fac =
     bindOE (Some (get_live_address st dw fn)) (\<lambda>addr.
       if addr = 0 then Some (Inr (make_invalid, fac))
       else bindOE (get_parameter_types dw fn fac) (\<lambda>(ts, fac1).
         if ts \<noteq> [] then Some (Inr (make_invalid, fac1))
         else bindOE (Some (get_return_type dw fn fac1)) (\<lambda>(ty, fac2).
           bindOE (get_classification dw ty) (\<lambda>c.
             Some (Inr (if c = TC_VOID then make_void
                        else if c = TC_SIGNED_INT then make_sint32 (ucast (call addr))
                        else if c = TC_POINTER then make_pointer (call addr)
                        else make_invalid, fac2))))))"

section \<open>Locations\<close>

record location_t =
  lc_unit :: "nat option"
  lc_filename :: string
  lc_line :: u32
  lc_column :: u32
  lc_function :: "function_t option"
  lc_offset :: u32

text \<open>
  The upper compile unit of a lower one is its index in the vector of units. A location that
  is not found has no value, whatever parts of it were written.
\<close>

definition get_compile_units :: "state_t \<Rightarrow> nat list" where
  "get_compile_units st = [0..<length (st_units st)]"

definition sp_describe_address ::
  "(u64 \<Rightarrow> u8) \<Rightarrow> string \<Rightarrow> addr_t \<Rightarrow> state_t \<Rightarrow> factory_t \<Rightarrow> (np_error + location_t option \<times> factory_t) option" where
  "sp_describe_address mem cwd addr0 st fac =
     (let addr = recorded_address addr0 st; dw = state_dwarf mem st
      in bindOE (describe_address mem addr st) (\<lambda>de.
        if \<not> de_found de then Some (Inr (None, fac))
        else Some (
          case resolve dw (if de_cu de = reference_null then de_func de else de_cu de) of
            None \<Rightarrow> Inl Assert_Failed
          | Some (cu, _) \<Rightarrow>
              (case cu_lineno_program cu of
                 None \<Rightarrow> Inl Null_Deref
               | Some lp \<Rightarrow>
                   bindE (get_source_line cwd lp addr) (\<lambda>sl.
                     case sl of
                       None \<Rightarrow> Inr (None, fac)
                     | Some (fname, line, column) \<Rightarrow>
                         bindE (make_function_ref dw (de_func de) fac) (\<lambda>(fn, fac').
                           Inr (Some \<lparr>lc_unit = Some (cu_index cu), lc_filename = fname, lc_line = line, lc_column = column,
                                      lc_function = fn, lc_offset = de_offset de\<rparr>, fac')))))))"

definition frame_function :: "dwarf_t \<Rightarrow> location_t \<Rightarrow> (np_error + string) option" where
  "frame_function dw loc =
     (case lc_function loc of
        None \<Rightarrow> Some (Inr [])
      | Some f \<Rightarrow> bindOE (fn_get_full_name dw f) (\<lambda>nm. Some (Inr ('' '' @ nm))))"

definition frame_source :: "location_t \<Rightarrow> string" where
  "frame_source loc =
     (case lc_unit loc of
        None \<Rightarrow> []
      | Some _ \<Rightarrow> '' ('' @ lc_filename loc @ (if lc_line loc \<noteq> 0 then '':'' @ dec (lc_line loc) else []) @ '')'')"

fun stacktrace_loop ::
  "(u64 \<Rightarrow> u8) \<Rightarrow> string \<Rightarrow> state_t \<Rightarrow> bool \<Rightarrow> addr_t list \<Rightarrow> factory_t \<Rightarrow> (np_error + string \<times> factory_t) option" where
  "stacktrace_loop mem cwd st is_first [] fac = Some (Inr ([], fac))"
| "stacktrace_loop mem cwd st is_first (addr # addrs) fac =
     bindOE (sp_describe_address mem cwd addr st fac) (\<lambda>(loc, fac1).
       let head = (if is_first then ''at '' else ''by '') @ HEX addr @ '':''
       in case loc of
            None \<Rightarrow> bindOE (stacktrace_loop mem cwd st False addrs fac1) (\<lambda>(t, fac2). Some (Inr (head @ [CHR 0x0A] @ t, fac2)))
          | Some l \<Rightarrow>
              bindOE (frame_function (state_dwarf mem st) l) (\<lambda>fname.
                let line = head @ fname @ frame_source l @ [CHR 0x0A]
                in if map_option fn_name (lc_function l) = Some ''main'' then Some (Inr (line, fac1))
                   else bindOE (stacktrace_loop mem cwd st False addrs fac1) (\<lambda>(t, fac2). Some (Inr (line @ t, fac2)))))"

definition describe_stacktrace ::
  "(u64 \<Rightarrow> u8) \<Rightarrow> string \<Rightarrow> addr_t list \<Rightarrow> state_t \<Rightarrow> factory_t \<Rightarrow> (np_error + string \<times> factory_t) option" where
  "describe_stacktrace mem cwd stack st fac = stacktrace_loop mem cwd st True stack fac"

section \<open>Entries of an encoded unit\<close>

text \<open>What an entry of a tree should show, whatever depth the walker counts from.\<close>

type_synonym kid_view = "u32 \<times> abbrev_t option \<times> (u32 \<Rightarrow> value_t option)"

definition kid_view :: "entry_t \<Rightarrow> kid_view" where
  "kid_view e = (en_offset e, en_abbrev e, \<lambda>nm. get_attribute nm e)"

definition die_attr :: "compile_unit_t \<Rightarrow> die \<Rightarrow> u32 \<Rightarrow> value_t option" where
  "die_attr cu d = snd (snd (snd (head_view cu 0 0 (die_code d) (die_attrs d))))"

definition die_kid_view :: "compile_unit_t \<Rightarrow> nat \<Rightarrow> die \<Rightarrow> kid_view" where
  "die_kid_view cu off d = (of_nat off, get_abbrev cu (die_code d), die_attr cu d)"

definition kids_bytes :: "die \<Rightarrow> u8 list" where
  "kids_bytes d = (case die_kids d of None \<Rightarrow> [] | Some ks \<Rightarrow> forest_bytes ks @ [0])"

definition head_bytes :: "die \<Rightarrow> u8 list" where
  "head_bytes d = uleb_enc (unat (die_code d)) @ concat (map fst (die_attrs d))"

lemma die_bytes_split: "die_bytes d = head_bytes d @ kids_bytes d"
  by (cases d; cases "die_kids d") (simp_all add: head_bytes_def kids_bytes_def)

lemma die_wf_head: "die_wf dw cu d \<Longrightarrow> head_wf dw cu (die_code d) (die_attrs d) (die_kids d \<noteq> None)"
  by (cases d; cases "die_kids d") simp_all

lemma die_wf_kids: "die_wf dw cu d \<Longrightarrow> die_kids d = Some ks \<Longrightarrow> forest_wf dw cu ks"
  by (cases d) simp

text \<open>A walker without a filter that has just read the head of an entry.\<close>

definition read_head :: "compile_unit_t \<Rightarrow> u8 list \<Rightarrow> nat \<Rightarrow> nat \<Rightarrow> die \<Rightarrow> u8 list \<Rightarrow> walker_t \<Rightarrow> bool" where
  "read_head cu bs lev off d rest w \<longleftrightarrow>
     wk_at cu bs (if die_kids d \<noteq> None then Suc lev else lev) (kids_bytes d @ rest) w \<and> wk_filter_tag w = 0 \<and>
     en_level (wk_entry w) = of_nat lev \<and> kid_view (wk_entry w) = die_kid_view cu off d"

lemma read_head_entry:
  assumes "wk_at cu bs lev (die_bytes d @ rest) w" "wk_filter_tag w = 0" "die_wf dw cu d" "kids_bytes d @ rest \<noteq> []"
    "off + length (die_bytes d @ rest) = length bs"
  shows "\<exists>w'. read_entry dw w = Inr (RE_OK, w') \<and> read_head cu bs lev off d rest w'"
proof -
  have at: "wk_at cu bs lev (uleb_enc (unat (die_code d)) @ concat (map fst (die_attrs d)) @ kids_bytes d @ rest) w"
    using assms(1) by (simp add: die_bytes_split head_bytes_def)
  have p: "get_offset (wk_reader w) = off" using wk_at_pos [OF assms(1)] assms(5) by simp
  have m: "view_matches 0 v" for v by (simp add: view_matches_def)
  from read_entry_head [OF at die_wf_head [OF assms(3)] assms(4), unfolded p] m assms(2) obtain w' where
    w': "read_entry dw w = Inr (RE_OK, w')" "wk_at cu bs (if die_kids d \<noteq> None then Suc lev else lev) (kids_bytes d @ rest) w'"
      "wk_filter_tag w' = 0" "entry_view (wk_entry w') = head_view cu off lev (die_code d) (die_attrs d)" by auto
  have "kid_view (wk_entry w') = die_kid_view cu off d" "en_level (wk_entry w') = of_nat lev"
    using w'(4) by (simp_all add: entry_view_def head_view_def kid_view_def die_kid_view_def die_attr_def)
  with w' show ?thesis by (auto simp: read_head_def)
qed

text \<open>
  A unit in its place in the vector of units, below four gigabytes, and an entry at some offset
  of it: seeking the entry's reference puts the walker before it.
\<close>

definition unit_placed :: "dwarf_t \<Rightarrow> compile_unit_t \<Rightarrow> bool" where
  "unit_placed dw cu \<longleftrightarrow> cu_index cu < length (dw_units dw) \<and> dw_units dw ! cu_index cu = cu \<and>
     rd_pos (cu_reader cu) = 0 \<and> header_length \<le> length (rd_data (cu_reader cu)) \<and> length (rd_data (cu_reader cu)) < 2 ^ 32"

definition entry_ready :: "entry_t \<Rightarrow> nat \<Rightarrow> bool" where
  "entry_ready e n \<longleftrightarrow> unat (en_latest e) + n < 2 ^ 32 \<and> (\<forall>i. en_generation e i \<le> en_latest e)"

lemma wk_seek_unit:
  assumes "unit_placed dw cu" "off + length rest = length (rd_data (cu_reader cu))" "drop off (rd_data (cu_reader cu)) = rest"
    "entry_ready (wk_entry w) (length rest)" "wk_filter_tag w = 0"
  shows "\<exists>w'. wk_seek dw (unit_ref cu off) w = Inr w' \<and> wk_at cu (rd_data (cu_reader cu)) 0 rest w' \<and>
    wk_filter_tag w' = 0 \<and> wk_entry w' = wk_entry w"
proof -
  let ?bs = "rd_data (cu_reader cu)"
  have lt: "off < 2 ^ 32" using assms(1,2) by (simp add: unit_placed_def)
  have ud: "unat (ucast (of_nat off :: u32) :: u64) = off" using lt by (simp add: ucast_of_nat_u32 unat_of_nat_u64)
  have r: "resolve dw (unit_ref cu off) = Some (cu, ucast (of_nat off :: u32))"
    using assms(1) by (simp add: resolve_def cu_make_reference_def reference_make_def unit_placed_def)
  let ?r = "(get_contents cu)\<lparr>rd_pos := off\<rparr>"
  have c: "rd_data (get_contents cu) = ?bs" "rd_is64 (get_contents cu) = rd_is64 (cu_reader cu)"
    by (simp_all add: get_contents_def skip_def)
  have sk: "snd (seek off (get_contents cu)) = ?r" using assms(2) by (simp add: seek_def c)
  show ?thesis
    using r ud sk assms c
    by (intro exI [of _ "w\<lparr>wk_unit := cu, wk_reader := ?r, wk_level := 0\<rparr>"])
       (simp add: wk_seek_def wk_at_def rd_ok_def rd_rest_def unit_placed_def entry_ready_def)
qed

lemma peek_die:
  assumes "unit_placed dw cu" "die_wf dw cu d" "kids_bytes d @ rest \<noteq> []"
    "off + length (die_bytes d @ rest) = length (rd_data (cu_reader cu))"
    "drop off (rd_data (cu_reader cu)) = die_bytes d @ rest"
  shows "\<exists>w. peek dw (unit_ref cu off) = Inr (Some w) \<and> read_head cu (rd_data (cu_reader cu)) 0 off d rest w"
proof -
  let ?bs = "rd_data (cu_reader cu)" and ?w0 = "walker_new (compile_unit_new 0 0)"
  have e: "wk_entry ?w0 = entry_init" "wk_filter_tag ?w0 = 0" by (simp_all add: walker_new_def)
  have rdy: "entry_ready (wk_entry ?w0) (length (die_bytes d @ rest))"
    using assms(1,4) by (simp add: e entry_ready_def entry_init_def unit_placed_def)
  obtain w1 where w1: "walker_at dw (unit_ref cu off) = Inr w1" "wk_at cu ?bs 0 (die_bytes d @ rest) w1"
    "wk_filter_tag w1 = 0" "wk_entry w1 = entry_init"
    using wk_seek_unit [OF assms(1,4,5) rdy e(2)] by (auto simp: walker_at_def e)
  obtain w2 where w2: "read_entry dw w1 = Inr (RE_OK, w2)" "read_head cu ?bs 0 off d rest w2"
    using read_head_entry [OF w1(2,3) assms(2,3,4)] by blast
  have "move_next dw w1 = next_loop dw 0 w1"
    by (simp add: move_next_def w1(4) entry_init_def get_attribute_def name_to_index_def)
  also have "\<dots> = Inr (True, w2)" using next_loop_round [OF w2(1), of 0] w2(2) by (simp add: read_head_def)
  finally show ?thesis using w1(1) w2(2) by (simp add: peek_def)
qed

section \<open>The children of an entry\<close>

text \<open>
  A sibling attribute, where an entry has one, refers to the entry that follows; the last has none.
\<close>

fun sib_ok :: "compile_unit_t \<Rightarrow> nat \<Rightarrow> die list \<Rightarrow> bool" where
  "sib_ok cu off [] = True"
| "sib_ok cu off [d] = (case die_attr cu d DW_AT_sibling of Some (T_REF _) \<Rightarrow> False | _ \<Rightarrow> True)"
| "sib_ok cu off (d # d' # ds) =
     ((case die_attr cu d DW_AT_sibling of Some (T_REF rf) \<Rightarrow> rf = unit_ref cu (off + length (die_bytes d)) | _ \<Rightarrow> True)
      \<and> sib_ok cu (off + length (die_bytes d)) (d' # ds))"

lemma read_head_attr: "read_head cu bs lev off d rest w \<Longrightarrow> get_attribute nm (wk_entry w) = die_attr cu d nm"
  by (simp add: read_head_def kid_view_def die_kid_view_def fun_eq_iff)

text \<open>Without a sibling reference the loop passes over the entry's own children.\<close>

lemma next_loop_over:
  assumes "read_head cu bs lev off d rest w" "die_wf dw cu d" "off + length (die_bytes d @ rest) = length bs"
  shows "\<exists>w'. next_loop dw (of_nat lev) w = next_loop dw (of_nat lev) w' \<and> wk_at cu bs lev rest w' \<and> wk_filter_tag w' = 0"
proof (cases "die_kids d")
  case None
  with assms(1) show ?thesis by (auto simp: read_head_def kids_bytes_def)
next
  case (Some ks)
  have at: "wk_at cu bs (Suc lev) (forest_bytes ks @ 0 # rest) w" "wk_filter_tag w = 0"
    using assms(1) Some by (simp_all add: read_head_def kids_bytes_def)
  have "(off + length (head_bytes d)) + length (forest_bytes ks @ 0 # rest) = length bs"
    using assms(3) Some by (simp add: die_bytes_split kids_bytes_def)
  from next_loop_over_kids [OF at(1) die_wf_kids [OF assms(2) Some] this] at(2) show ?thesis by auto
qed

lemma read_entry_end0:
  assumes "wk_at cu bs 0 (0 # rest) w"
  shows "\<exists>w'. read_entry dw w = Inr (RE_EOF, w')"
  using read_uleb128_zero [of "wk_reader w" rest] assms
  by (auto simp: fetched_def wk_at_def read_entry_def Let_def)

lemma move_next_last:
  assumes "read_head cu bs lev off d (0 # rest) w" "die_wf dw cu d" "off + length (die_bytes d @ 0 # rest) = length bs"
    "sib_ok cu off [d]"
  shows "\<exists>w'. move_next dw w = Inr (False, w')"
proof -
  have "move_next dw w = next_loop dw (of_nat lev) w"
    using assms(1,4) read_head_attr [OF assms(1)]
    by (auto simp: move_next_def read_head_def split: option.splits value_t.splits)
  moreover obtain w1 where w1: "next_loop dw (of_nat lev) w = next_loop dw (of_nat lev) w1" "wk_at cu bs lev (0 # rest) w1"
    using next_loop_over [OF assms(1-3)] by blast
  moreover have "\<exists>w'. next_loop dw (of_nat lev) w1 = Inr (False, w')"
  proof (cases lev)
    case 0
    then obtain w2 where "read_entry dw w1 = Inr (RE_EOF, w2)" using read_entry_end0 w1(2) by blast
    then show ?thesis using 0 by (simp add: next_loop.simps [of dw _ w1])
  next
    case (Suc l)
    then obtain w2 where w2: "read_entry dw w1 = Inr (RE_EOL, w2)" "wk_at cu bs l rest w2"
      using read_entry_end [of cu bs l rest w1 dw] w1(2) by blast
    have "lev + length (0 # rest) < 2 ^ 32" using w1(2) by (simp add: wk_at_def)
    then have "(of_nat l :: u32) < of_nat lev" using Suc by (simp add: word_less_nat_alt unat_of_nat_u32 del: of_nat_Suc)
    moreover have "wk_level w1 = of_nat lev" "wk_level w2 = of_nat l" using w1(2) w2(2) by (simp_all add: wk_at_def)
    ultimately show ?thesis
      using next_loop_round [OF w2(1), of "of_nat lev"] by (simp add: next_loop.simps [of dw _ w2])
  qed
  ultimately show ?thesis by simp
qed

lemma read_head_ready:
  assumes "read_head cu bs lev off d rest w" "off + length (die_bytes d @ rest) = length bs"
  shows "entry_ready (wk_entry w) (length rest)"
  using assms by (auto simp: read_head_def wk_at_def entry_ready_def)

lemma move_next_more:
  assumes h: "read_head cu bs lev off d (die_bytes d' @ rest) w" and wf: "die_wf dw cu d" "die_wf dw cu d'"
    and off: "off + length (die_bytes d @ die_bytes d' @ rest) = length bs" and rest: "rest \<noteq> []"
    and u: "unit_placed dw cu" "bs = rd_data (cu_reader cu)" "drop off bs = die_bytes d @ die_bytes d' @ rest"
    and s: "case die_attr cu d DW_AT_sibling of Some (T_REF rf) \<Rightarrow> rf = unit_ref cu (off + length (die_bytes d)) | _ \<Rightarrow> True"
  shows "\<exists>w' lev'. move_next dw w = Inr (True, w') \<and> read_head cu bs lev' (off + length (die_bytes d)) d' rest w'"
proof (cases "\<exists>rf. die_attr cu d DW_AT_sibling = Some (T_REF rf)")
  case False
  then have "move_next dw w = next_loop dw (of_nat lev) w"
    using h read_head_attr [OF h] by (auto simp: move_next_def read_head_def split: option.splits value_t.splits)
  moreover obtain w1 where w1: "next_loop dw (of_nat lev) w = next_loop dw (of_nat lev) w1"
    "wk_at cu bs lev (die_bytes d' @ rest) w1" "wk_filter_tag w1 = 0"
    using next_loop_over [OF h wf(1)] off by auto
  moreover obtain w2 where w2: "read_entry dw w1 = Inr (RE_OK, w2)"
    "read_head cu bs lev (off + length (die_bytes d)) d' rest w2"
    using read_head_entry [OF w1(2,3) wf(2), of "off + length (die_bytes d)"] rest off by auto
  moreover have "next_loop dw (of_nat lev) w1 = Inr (True, w2)"
    using next_loop_round [OF w2(1), of "of_nat lev"] w1(2) w2(2) by (simp add: wk_at_def read_head_def)
  ultimately show ?thesis by auto
next
  case True
  let ?o = "off + length (die_bytes d)"
  have mv: "move_next dw w = move_to dw (unit_ref cu ?o) w"
    using True s read_head_attr [OF h, of DW_AT_sibling] by (auto simp: move_next_def)
  have o: "?o + length (die_bytes d' @ rest) = length (rd_data (cu_reader cu))" using off u(2) by simp
  have dr: "drop ?o (rd_data (cu_reader cu)) = die_bytes d' @ rest"
    using arg_cong [OF u(3), of "drop (length (die_bytes d))"] u(2) by (simp add: add.commute)
  have ready: "entry_ready (wk_entry w) (length (die_bytes d' @ rest))" using read_head_ready [OF h] off by simp
  have "wk_filter_tag w = 0" using h by (simp add: read_head_def)
  from wk_seek_unit [OF u(1) o dr ready this] obtain w1 where w1: "wk_seek dw (unit_ref cu ?o) w = Inr w1"
    "wk_at cu (rd_data (cu_reader cu)) 0 (die_bytes d' @ rest) w1" "wk_filter_tag w1 = 0" by blast
  obtain w2 where "read_entry dw w1 = Inr (RE_OK, w2)" "read_head cu bs 0 ?o d' rest w2"
    using read_head_entry [OF w1(2,3) wf(2) _ o] rest u(2) by auto
  with w1(1) mv show ?thesis by (auto simp: move_to_def)
qed

text \<open>A loop body run over a list of walkers.\<close>

fun kids_fold :: "(walker_t \<Rightarrow> 'a \<Rightarrow> np_error + bool \<times> 'a) \<Rightarrow> walker_t list \<Rightarrow> 'a \<Rightarrow> np_error + 'a" where
  "kids_fold body [] acc = Inr acc"
| "kids_fold body (w # ws) acc =
     bindE (body w acc) (\<lambda>(stop, acc'). if stop then Inr acc' else kids_fold body ws acc')"

fun forest_offsets :: "nat \<Rightarrow> die list \<Rightarrow> (nat \<times> die) list" where
  "forest_offsets off [] = []"
| "forest_offsets off (d # ds) = (off, d) # forest_offsets (off + length (die_bytes d)) ds"

definition shows_entry :: "compile_unit_t \<Rightarrow> walker_t \<Rightarrow> nat \<times> die \<Rightarrow> bool" where
  "shows_entry cu w od \<longleftrightarrow> wk_unit w = cu \<and> kid_view (wk_entry w) = die_kid_view cu (fst od) (snd od)"

lemma kids_loop_forest:
  assumes "read_head cu bs lev off d (forest_bytes ds @ 0 # rest) w" "forest_wf dw cu (d # ds)"
    "off + length (forest_bytes (d # ds) @ 0 # rest) = length bs" "sib_ok cu off (d # ds)"
    "unit_placed dw cu" "bs = rd_data (cu_reader cu)" "drop off bs = forest_bytes (d # ds) @ 0 # rest"
  shows "\<exists>ws. list_all2 (shows_entry cu) ws (forest_offsets off (d # ds)) \<and>
    (\<forall>body (acc :: 'a). kids_loop dw body (Inr (True, w)) acc = Some (kids_fold body ws acc))"
  using assms
proof (induction ds arbitrary: d off lev w)
  case Nil
  have "die_wf dw cu d" "off + length (die_bytes d @ 0 # rest) = length bs" using Nil.prems by simp_all
  from move_next_last [OF _ this Nil.prems(4)] Nil.prems(1) obtain w' where w': "move_next dw w = Inr (False, w')" by auto
  have "kids_loop dw body (Inr (True, w)) acc = Some (kids_fold body [w] acc)" for body and acc :: 'a
    using w' by (subst kids_loop.simps) (auto simp: kids_loop.simps [of dw body "Inr (False, w')"] bindE_def split: sum.splits)
  moreover have "shows_entry cu w (off, d)" using Nil.prems(1) by (simp add: shows_entry_def read_head_def wk_at_def)
  ultimately show ?case by (intro exI [of _ "[w]"]) simp
next
  case (Cons d' ds)
  let ?o = "off + length (die_bytes d)"
  have h: "read_head cu bs lev off d (die_bytes d' @ forest_bytes ds @ 0 # rest) w" using Cons.prems(1) by simp
  have wf: "die_wf dw cu d" "die_wf dw cu d'" using Cons.prems(2) by simp_all
  have o: "off + length (die_bytes d @ die_bytes d' @ forest_bytes ds @ 0 # rest) = length bs"
    "drop off bs = die_bytes d @ die_bytes d' @ forest_bytes ds @ 0 # rest" using Cons.prems(3,7) by simp_all
  obtain w1 lev1 where w1: "move_next dw w = Inr (True, w1)" "read_head cu bs lev1 ?o d' (forest_bytes ds @ 0 # rest) w1"
    using move_next_more [OF h wf o(1) _ Cons.prems(5,6) o(2)] Cons.prems(4) by auto
  have "drop ?o bs = forest_bytes (d' # ds) @ 0 # rest"
    using arg_cong [OF o(2), of "drop (length (die_bytes d))"] by (simp add: add.commute)
  with Cons.IH [OF w1(2)] Cons.prems obtain ws where ws: "list_all2 (shows_entry cu) ws (forest_offsets ?o (d' # ds))"
    "\<forall>body (acc :: 'a). kids_loop dw body (Inr (True, w1)) acc = Some (kids_fold body ws acc)" by auto
  have "kids_loop dw body (Inr (True, w)) acc = Some (kids_fold body (w # ws) acc)" for body and acc :: 'a
    using w1(1) ws(2) by (subst kids_loop.simps) (auto split: sum.splits)
  moreover have "shows_entry cu w (off, d)" using Cons.prems(1) by (simp add: shows_entry_def read_head_def wk_at_def)
  ultimately show ?case using ws(1) by (intro exI [of _ "w # ws"]) simp
qed

lemma for_kids_forest:
  assumes h: "read_head cu bs lev off d rest w" and k: "die_kids d = Some ks" and wf: "die_wf dw cu d"
    and off: "off + length (die_bytes d @ rest) = length bs" and s: "sib_ok cu (off + length (head_bytes d)) ks"
    and u: "unit_placed dw cu" "bs = rd_data (cu_reader cu)" "drop off bs = die_bytes d @ rest"
  shows "\<exists>ws. list_all2 (shows_entry cu) ws (forest_offsets (off + length (head_bytes d)) ks) \<and>
    (\<forall>body (acc :: 'a). for_kids dw body w acc = Some (kids_fold body ws acc))"
proof -
  let ?o = "off + length (head_bytes d)"
  have at: "wk_at cu bs (Suc lev) (forest_bytes ks @ 0 # rest) w" "wk_filter_tag w = 0"
    using h k by (simp_all add: read_head_def kids_bytes_def)
  have o: "?o + length (forest_bytes ks @ 0 # rest) = length bs" using off k by (simp add: die_bytes_split kids_bytes_def)
  have dr: "drop ?o bs = forest_bytes ks @ 0 # rest"
    using arg_cong [OF u(3), of "drop (length (head_bytes d))"] k by (simp add: add.commute die_bytes_split kids_bytes_def)
  have wfk: "forest_wf dw cu ks" by (rule die_wf_kids [OF wf k])
  have hc: "has_children (wk_entry w) = Inr True"
    using h die_wf_head [OF wf] k
    by (auto simp: read_head_def kid_view_def die_kid_view_def has_children_def head_wf_def split: option.splits)
  show ?thesis
  proof (cases ks)
    case Nil
    then obtain w1 where "read_entry dw w = Inr (RE_EOL, w1)" using read_entry_end [of cu bs lev rest w dw] at(1) by auto
    then have "for_kids dw body w acc = Some (Inr acc)" for body and acc :: 'a
      using hc by (simp add: for_kids_def move_down_def kids_loop.simps)
    then show ?thesis using Nil by (intro exI [of _ "[]"]) simp
  next
    case (Cons d' ds)
    obtain w1 where w1: "read_entry dw w = Inr (RE_OK, w1)" "read_head cu bs (Suc lev) ?o d' (forest_bytes ds @ 0 # rest) w1"
      using read_head_entry [of cu bs "Suc lev" d' "forest_bytes ds @ 0 # rest" w dw ?o] at o wfk Cons by auto
    have "for_kids dw body w acc = kids_loop dw body (Inr (True, w1)) acc" for body and acc :: 'a
      using w1(1) hc by (simp add: for_kids_def move_down_def)
    with kids_loop_forest [OF w1(2) _ _ _ u(1,2), where 'a = 'a] wfk o s dr Cons show ?thesis by auto
  qed
qed

text \<open>The functions a unit declares: the named functions among the children of its own entry.\<close>

definition die_tag :: "compile_unit_t \<Rightarrow> die \<Rightarrow> u32 option" where
  "die_tag cu d = map_option ab_tag (get_abbrev cu (die_code d))"

definition die_uint64 :: "compile_unit_t \<Rightarrow> die \<Rightarrow> u32 \<Rightarrow> u64" where
  "die_uint64 cu d nm = (case die_attr cu d nm of Some (T_UINT32 v) \<Rightarrow> ucast v | Some (T_UINT64 v) \<Rightarrow> v | _ \<Rightarrow> 0)"

definition declared_function :: "compile_unit_t \<Rightarrow> nat \<times> die \<Rightarrow> function_t list" where
  "declared_function cu od =
     (case od of (off, d) \<Rightarrow>
        case (die_tag cu d = Some DW_TAG_subprogram, die_attr cu d DW_AT_name) of
          (True, Some (T_STRING name)) \<Rightarrow>
            [\<lparr>fn_ref = unit_ref cu off, fn_name = name, fn_low_pc = die_uint64 cu d DW_AT_low_pc,
              fn_is_declaration = (die_uint64 cu d DW_AT_declaration \<noteq> 0)\<rparr>]
        | _ \<Rightarrow> [])"

definition declared_functions :: "compile_unit_t \<Rightarrow> die \<Rightarrow> function_t list" where
  "declared_functions cu d =
     (case die_kids d of
        None \<Rightarrow> []
      | Some ks \<Rightarrow> concat (map (declared_function cu) (forest_offsets (header_length + length (head_bytes d)) ks)))"

lemma shows_entry_attr: "shows_entry cu w (off, d) \<Longrightarrow> get_attribute nm (wk_entry w) = die_attr cu d nm"
  by (simp add: shows_entry_def kid_view_def die_kid_view_def fun_eq_iff)

lemma shows_entry_ref: "shows_entry cu w (off, d) \<Longrightarrow> get_reference w = unit_ref cu off"
  by (simp add: shows_entry_def kid_view_def die_kid_view_def get_reference_def)

lemma shows_entry_tag: "shows_entry cu w (off, d) \<Longrightarrow> die_wf dw cu d \<Longrightarrow> \<exists>a. get_abbrev cu (die_code d) = Some a \<and> get_tag (wk_entry w) = Inr (ab_tag a)"
  using die_wf_head [of dw cu d]
  by (auto simp: shows_entry_def kid_view_def die_kid_view_def get_tag_def head_wf_def split: option.splits)

text \<open>Every entry of a list of siblings can be looked up by its reference.\<close>

lemma peek_sibling:
  assumes "unit_placed dw cu" "forest_wf dw cu ds" "off + length (forest_bytes ds @ 0 # rest) = length (rd_data (cu_reader cu))"
    "drop off (rd_data (cu_reader cu)) = forest_bytes ds @ 0 # rest" "od \<in> set (forest_offsets off ds)"
  shows "die_wf dw cu (snd od) \<and> (\<exists>w. peek dw (unit_ref cu (fst od)) = Inr (Some w) \<and> shows_entry cu w od)
    \<and> off \<le> fst od \<and> fst od < length (rd_data (cu_reader cu))"
  using assms(2-)
proof (induction ds arbitrary: off)
  case (Cons d ds)
  let ?bs = "rd_data (cu_reader cu)"
  show ?case
  proof (cases "od = (off, d)")
    case True
    have "kids_bytes d @ forest_bytes ds @ 0 # rest \<noteq> []" by simp
    from peek_die [OF assms(1) _ this, of off] Cons.prems obtain w where
      "peek dw (unit_ref cu off) = Inr (Some w)" "read_head cu ?bs 0 off d (forest_bytes ds @ 0 # rest) w" by auto
    with True Cons.prems(1,2) show ?thesis by (auto simp: shows_entry_def read_head_def wk_at_def)
  next
    case False
    have "drop (off + length (die_bytes d)) ?bs = forest_bytes ds @ 0 # rest"
      using arg_cong [OF Cons.prems(3), of "drop (length (die_bytes d))"] by (simp add: add.commute)
    with Cons.IH [of "off + length (die_bytes d)"] Cons.prems False show ?thesis by fastforce
  qed
qed simp

lemma collect_step:
  assumes w: "shows_entry cu w od" and wf: "die_wf dw cu (snd od)" and p: "peek dw (unit_ref cu (fst od)) = Inr (Some w')"
    and w': "shows_entry cu w' od" and f: "fac (unit_ref cu (fst od)) = None"
  shows "\<exists>fac'. collect_function dw w (fns, fac) = Inr (False, fns @ map Some (declared_function cu od), fac')
    \<and> (\<forall>r. r \<noteq> unit_ref cu (fst od) \<longrightarrow> fac' r = fac r)"
proof -
  obtain off d where od: "od = (off, d)" by (cases od)
  obtain a where a: "get_abbrev cu (die_code d) = Some a" "get_tag (wk_entry w) = Inr (ab_tag a)"
    using shows_entry_tag w wf od by fastforce
  note at = shows_entry_attr [OF w [unfolded od]] shows_entry_attr [OF w' [unfolded od]]
  have u: "get_uint64_attribute nm (wk_entry w') = die_uint64 cu d nm" for nm
    by (simp add: get_uint64_attribute_def at die_uint64_def)
  have nm: "get_string_attribute DW_AT_name (wk_entry w) = (case die_attr cu d DW_AT_name of Some (T_STRING s) \<Rightarrow> Some s | _ \<Rightarrow> None)"
    by (simp add: get_string_attribute_def at)
  show ?thesis
  proof (cases "ab_tag a = DW_TAG_subprogram \<and> (\<exists>s. die_attr cu d DW_AT_name = Some (T_STRING s))")
    case True
    then obtain s where s: "ab_tag a = DW_TAG_subprogram" "die_attr cu d DW_AT_name = Some (T_STRING s)" by blast
    let ?fn = "\<lparr>fn_ref = unit_ref cu off, fn_name = s, fn_low_pc = die_uint64 cu d DW_AT_low_pc,
              fn_is_declaration = (die_uint64 cu d DW_AT_declaration \<noteq> 0)\<rparr>"
    have "declared_function cu od = [?fn]" using a s by (simp add: declared_function_def od die_tag_def)
    moreover have "make_function dw w fac = Inr (Some ?fn, fac(unit_ref cu off \<mapsto> Cc_Function ?fn))"
      using f p s shows_entry_ref [OF w [unfolded od]]
      by (simp add: make_function_def populate_def function_new_def nm od u)
    ultimately show ?thesis using a s nm by (intro exI [of _ "fac(unit_ref cu off \<mapsto> Cc_Function ?fn)"]) (simp add: collect_function_def od)
  next
    case False
    then have "declared_function cu od = []"
      using a by (auto simp: declared_function_def od die_tag_def split: option.splits value_t.splits bool.splits)
    moreover have "collect_function dw w (fns, fac) = Inr (False, fns, fac)"
      using False a nm by (auto simp: collect_function_def split: option.splits value_t.splits)
    ultimately show ?thesis by auto
  qed
qed

lemma collect_fold:
  assumes "list_all2 (shows_entry cu) ws ods"
    and "\<And>od. od \<in> set ods \<Longrightarrow> die_wf dw cu (snd od) \<and> (\<exists>w. peek dw (unit_ref cu (fst od)) = Inr (Some w) \<and> shows_entry cu w od)"
    and "distinct (map (\<lambda>od. unit_ref cu (fst od)) ods)" "\<And>od. od \<in> set ods \<Longrightarrow> fac (unit_ref cu (fst od)) = None"
  shows "\<exists>fac'. kids_fold (collect_function dw) ws (fns, fac) = Inr (fns @ map Some (concat (map (declared_function cu) ods)), fac')"
  using assms
proof (induction ws ods arbitrary: fns fac rule: list_all2_induct)
  case (Cons w ws od ods)
  from Cons.prems(1) [of od] obtain w' where "die_wf dw cu (snd od)" "peek dw (unit_ref cu (fst od)) = Inr (Some w')" "shows_entry cu w' od"
    by auto
  from collect_step [OF Cons.hyps(1) this] Cons.prems(3) obtain fac1 where
    f1: "collect_function dw w (fns, fac) = Inr (False, fns @ map Some (declared_function cu od), fac1)"
      "\<forall>r. r \<noteq> unit_ref cu (fst od) \<longrightarrow> fac1 r = fac r" by (metis list.set_intros(1))
  have "fac1 (unit_ref cu (fst od')) = None" if "od' \<in> set ods" for od'
    using f1(2) that Cons.prems(2) Cons.prems(3) [of od'] by (auto simp: image_iff)
  with Cons.IH [of "fac1" "fns @ map Some (declared_function cu od)"] Cons.prems obtain fac' where
    "kids_fold (collect_function dw) ws (fns @ map Some (declared_function cu od), fac1) =
       Inr (fns @ map Some (declared_function cu od) @ map Some (concat (map (declared_function cu) ods)), fac')" by auto
  with f1(1) show ?case by auto
qed simp

lemma forest_offsets_sorted:
  "sorted_wrt (<) (map fst (forest_offsets off ds)) \<and> (\<forall>od\<in>set (forest_offsets off ds). off \<le> fst od)"
proof (induction ds arbitrary: off)
  case (Cons d ds)
  have "0 < length (die_bytes d)" using uleb_enc_nonempty [of "unat (die_code d)"] by (simp add: die_bytes_split head_bytes_def)
  then have "\<forall>od\<in>set (forest_offsets (off + length (die_bytes d)) ds). off < fst od"
    using Cons [of "off + length (die_bytes d)"] by (meson less_add_same_cancel1 less_le_trans)
  then show ?case using Cons [of "off + length (die_bytes d)"] by (auto simp: less_imp_le)
qed simp

lemma insort_Some: "insort_key (\<lambda>f. fn_low_pc (the f)) (Some x) (map Some xs) = map Some (insort_key fn_low_pc x xs)"
  by (induction xs) simp_all

lemma sort_functions_all: "sort_functions (map Some fns) = Inr (map Some (sort_key fn_low_pc fns))"
proof -
  have "sort_key (\<lambda>f. fn_low_pc (the f)) (map Some fns) = map Some (sort_key fn_low_pc fns)"
    by (induction fns) (simp_all add: insort_Some)
  then show ?thesis by (auto simp: sort_functions_def)
qed

text \<open>
  C16. Reflection lists the functions of a compile unit: for a unit that encodes a tree of entries,
  exactly the named functions among the children of the unit's own entry, each with its name, its
  address and whether it is only declared, in the order of their addresses, whether or not
  entries refer to their siblings.
\<close>

theorem get_functions_declared:
  assumes enc: "unit_encodes dw cu d" and u: "unit_placed dw cu"
    and s: "sib_ok cu (header_length + length (head_bytes d)) (the (die_kids d))"
  shows "\<exists>fns fac. get_functions dw cu Map.empty = Some (Inr (map Some fns, fac)) \<and>
    mset fns = mset (declared_functions cu d) \<and> sorted (map fn_low_pc fns)"
proof -
  let ?bs = "rd_data (cu_reader cu)"
  obtain ks where k: "die_kids d = Some ks" using enc by (auto simp: unit_encodes_def)
  have wf: "die_wf dw cu d" and dr: "drop header_length ?bs = die_bytes d @ []"
    and len: "header_length + length (die_bytes d @ []) = length ?bs"
    using enc unit_encodes_at(2) [OF enc] by (simp_all add: unit_encodes_def)
  have root: "make_root_reference cu = unit_ref cu header_length"
    by (simp add: make_root_reference_def cu_make_reference_def header_length_def)
  have ne: "kids_bytes d @ [] \<noteq> []" using k by (simp add: kids_bytes_def)
  obtain w where w: "peek dw (unit_ref cu header_length) = Inr (Some w)" "read_head cu ?bs 0 header_length d [] w"
    using peek_die [OF u wf ne len dr] by blast
  have pr: "peek_raw dw (make_root_reference cu) = Inr w"
    using w(1) by (auto simp: peek_def peek_raw_def root bindE_Inr_iff split: if_splits)
  let ?o = "header_length + length (head_bytes d)"
  obtain ws where ws: "list_all2 (shows_entry cu) ws (forest_offsets ?o ks)"
    "\<forall>body (acc :: function_t option list \<times> factory_t). for_kids dw body w acc = Some (kids_fold body ws acc)"
    using for_kids_forest [OF w(2) k wf len _ u refl dr, where 'a = "function_t option list \<times> factory_t"] s k by fastforce
  have "?o + length (forest_bytes ks @ 0 # []) = length ?bs" using len k by (simp add: die_bytes_split kids_bytes_def)
  moreover have "drop ?o ?bs = forest_bytes ks @ 0 # []"
    using arg_cong [OF dr, of "drop (length (head_bytes d))"] k by (simp add: add.commute die_bytes_split kids_bytes_def)
  ultimately have sib: "die_wf dw cu (snd od) \<and> (\<exists>w. peek dw (unit_ref cu (fst od)) = Inr (Some w) \<and> shows_entry cu w od) \<and> fst od < 2 ^ 32"
    if "od \<in> set (forest_offsets ?o ks)" for od
    using peek_sibling [OF u die_wf_kids [OF wf k] _ _ that, of "[]"] u by (auto simp: unit_placed_def)
  have "distinct (map fst (forest_offsets ?o ks))"
    using forest_offsets_sorted [of ?o ks] by (simp add: strict_sorted_iff)
  then have "distinct (map (\<lambda>od. unit_ref cu (fst od)) (forest_offsets ?o ks))"
    using sib unit_ref_inj by (auto simp: distinct_map inj_on_def)
  from collect_fold [OF ws(1) _ this, of dw Map.empty "[]"] sib obtain fac where
    "kids_fold (collect_function dw) ws ([], Map.empty) = Inr (map Some (concat (map (declared_function cu) (forest_offsets ?o ks))), fac)"
    by auto
  then show ?thesis
    using pr ws(2) k
    by (intro exI [of _ "sort_key fn_low_pc (declared_functions cu d)"])
       (auto simp: get_functions_def bindOE_def declared_functions_def sort_functions_all)
qed

definition demo_functions :: "function_t list" where
  "demo_functions =
     [\<lparr>fn_ref = cu_make_reference demo_unit 16, fn_name = ''f'', fn_low_pc = 0, fn_is_declaration = False\<rparr>,
      \<lparr>fn_ref = cu_make_reference demo_unit 22, fn_name = ''g'', fn_low_pc = 0, fn_is_declaration = False\<rparr>]"

lemma demo_unit_functions:
  "declared_functions demo_unit demo_unit_die = demo_functions"
  "sib_ok demo_unit (header_length + length (head_bytes demo_unit_die)) (the (die_kids demo_unit_die))"
  by (simp_all add: declared_functions_def declared_function_def demo_functions_def demo_unit_die_def head_bytes_def header_length_def
      uleb_enc.simps bytes_of_string_def die_tag_def die_attr_def head_view_def get_abbrev_def name_to_index_def die_uint64_def)
     (simp_all add: demo_unit_def die_attr_def head_view_def get_abbrev_def name_to_index_def die_uint64_def)

theorem get_functions_declared_witness:
  "\<exists>fns fac. get_functions \<lparr>dw_units = [demo_unit], dw_contents = \<lambda>_ _. []\<rparr> demo_unit Map.empty = Some (Inr (map Some fns, fac)) \<and>
    mset fns = mset demo_functions \<and> sorted (map fn_low_pc fns)"
proof -
  have "unit_placed \<lparr>dw_units = [demo_unit], dw_contents = \<lambda>_ _. []\<rparr> demo_unit"
    by (simp add: unit_placed_def demo_unit_bytes) (simp add: demo_unit_def compile_unit_new_def mk_reader_def header_length_def)
  from get_functions_declared [OF demo_unit_encodes this demo_unit_functions(2)] show ?thesis
    by (simp add: demo_unit_functions(1))
qed

section \<open>Chains of types\<close>

text \<open>
  What a type is, described apart from the code that classifies it. One link of a chain is a type
  whose entry is a typedef or a const or volatile type, and the type its
  \<^verbatim>\<open>DW_AT_type\<close> refers to; nothing else is looked through.
\<close>

definition alias_tags :: "u32 set" where
  "alias_tags = {DW_TAG_typedef, DW_TAG_const_type, DW_TAG_volatile_type}"

definition class_link :: "dwarf_t \<Rightarrow> reference_t \<Rightarrow> reference_t \<Rightarrow> bool" where
  "class_link dw ref ref' \<longleftrightarrow>
     ref \<noteq> reference_null \<and>
     (\<exists>w tag. peek dw ref = Inr (Some w) \<and> get_tag (wk_entry w) = Inr tag \<and> tag \<in> alias_tags \<and>
              ref' = get_reference_attribute DW_AT_type (wk_entry w))"

text \<open>
  The class of a type that is not an alias: the numbers of \<^verbatim>\<open>spiegel.hxx\<close> as tables, by encoding for the
  base types (the size is added by or), by tag for the others.
\<close>

definition base_classes :: "(u32 \<times> u32) list" where
  "base_classes =
     [(DW_ATE_float, 0x500), (DW_ATE_signed, 0x480), (DW_ATE_signed_char, 0x480),
      (DW_ATE_unsigned, 0x400), (DW_ATE_unsigned_char, 0x400)]"

definition plain_classes :: "(u32 \<times> u32) list" where
  "plain_classes =
     [(DW_TAG_pointer_type, 0x200), (DW_TAG_reference_type, 0x201), (DW_TAG_array_type, 0x300),
      (DW_TAG_structure_type, 0x600), (DW_TAG_union_type, 0x601), (DW_TAG_class_type, 0x602)]"

definition own_class :: "u32 \<Rightarrow> u32 \<Rightarrow> u32 \<Rightarrow> u32" where
  "own_class tag encoding sz =
     (if tag = DW_TAG_base_type then (case map_of base_classes encoding of Some c \<Rightarrow> c OR sz | None \<Rightarrow> 0)
      else if tag = DW_TAG_enumeration_type then 0x480 OR (if sz = 0 then 4 else sz)
      else case map_of plain_classes tag of Some c \<Rightarrow> c | None \<Rightarrow> 0)"

inductive classified :: "dwarf_t \<Rightarrow> reference_t \<Rightarrow> np_error + u32 \<Rightarrow> bool" for dw where
  classified_void: "classified dw reference_null (Inr 0x100)"
| classified_alias: "class_link dw ref ref' \<Longrightarrow> classified dw ref' r \<Longrightarrow> classified dw ref r"
| classified_own: "ref \<noteq> reference_null \<Longrightarrow> peek dw ref = Inr (Some w) \<Longrightarrow> get_tag (wk_entry w) = Inr tag \<Longrightarrow> tag \<notin> alias_tags \<Longrightarrow>
    classified dw ref (Inr (own_class tag (get_uint32_attribute DW_AT_encoding (wk_entry w)) (get_uint32_attribute DW_AT_byte_size (wk_entry w))))"
| classified_no_entry: "ref \<noteq> reference_null \<Longrightarrow> peek dw ref = Inr None \<Longrightarrow> classified dw ref (Inr 0)"
| classified_bad_walk: "ref \<noteq> reference_null \<Longrightarrow> peek dw ref = Inl e \<Longrightarrow> classified dw ref (Inl e)"
| classified_bad_tag: "ref \<noteq> reference_null \<Longrightarrow> peek dw ref = Inr (Some w) \<Longrightarrow> get_tag (wk_entry w) = Inl e \<Longrightarrow> classified dw ref (Inl e)"

lemma or_signed: "0x400 OR (0x80 OR x) = (0x480 OR x :: u32)"
  by (simp flip: or.assoc)

lemma class_step_tag:
  "get_tag e = Inl er \<Longrightarrow> class_step e = Inl er"
  "get_tag e = Inr tag \<Longrightarrow> tag \<in> alias_tags \<Longrightarrow> class_step e = Inr (Inr (get_reference_attribute DW_AT_type e))"
  "get_tag e = Inr tag \<Longrightarrow> tag \<notin> alias_tags \<Longrightarrow>
    class_step e = Inr (Inl (own_class tag (get_uint32_attribute DW_AT_encoding e) (get_uint32_attribute DW_AT_byte_size e)))"
  by (auto simp: class_step_def alias_tags_def own_class_def base_classes_def plain_classes_def or_signed Let_def)

lemma class_link_step: "class_link dw ref ref' \<Longrightarrow> get_classification dw ref = get_classification dw ref'"
  by (subst get_classification.simps) (auto simp: class_link_def class_step_tag)

lemma class_link_unique: "class_link dw ref r1 \<Longrightarrow> class_link dw ref r2 \<Longrightarrow> r1 = r2"
  by (auto simp: class_link_def)

text \<open>Every type has a link, or what the classification gives at once.\<close>

lemma class_cases:
  obtains (link) ref' where "class_link dw ref ref'"
  | (ends) r where "\<And>ref'. \<not> class_link dw ref ref'" "classified dw ref r" "get_classification dw ref = Some r"
proof (cases "ref = reference_null \<or> (\<forall>w. peek dw ref \<noteq> Inr (Some w))")
  case True
  show thesis
  proof (rule ends)
    show "\<not> class_link dw ref ref'" for ref' using True by (auto simp: class_link_def)
    let ?r = "if ref = reference_null then Inr 0x100 else case peek dw ref of Inl e \<Rightarrow> Inl e | Inr _ \<Rightarrow> Inr 0"
    show "classified dw ref ?r"
      using True by (auto split: sum.splits intro: classified.intros)
    show "get_classification dw ref = Some ?r"
      using True by (subst get_classification.simps) (auto split: sum.splits option.splits)
  qed
next
  case False
  then obtain w where nn: "ref \<noteq> reference_null" and w: "peek dw ref = Inr (Some w)" by blast
  show thesis
  proof (cases "get_tag (wk_entry w)")
    case (Inl e)
    show thesis
    proof (rule ends)
      show "\<not> class_link dw ref ref'" for ref' using w Inl by (auto simp: class_link_def)
      show "classified dw ref (Inl e)" using nn w Inl by (rule classified_bad_tag)
      show "get_classification dw ref = Some (Inl e)"
        by (subst get_classification.simps) (simp add: nn w class_step_tag(1) [OF Inl])
    qed
  next
    case (Inr tag)
    show thesis
    proof (cases "tag \<in> alias_tags")
      case True
      then show thesis using nn w Inr by (intro link) (auto simp: class_link_def)
    next
      case other: False
      show thesis
      proof (rule ends)
        show "\<not> class_link dw ref ref'" for ref' using w Inr other by (auto simp: class_link_def)
        show "classified dw ref (Inr (own_class tag (get_uint32_attribute DW_AT_encoding (wk_entry w)) (get_uint32_attribute DW_AT_byte_size (wk_entry w))))"
          using nn w Inr other by (rule classified_own)
        show "get_classification dw ref = Some (Inr (own_class tag (get_uint32_attribute DW_AT_encoding (wk_entry w)) (get_uint32_attribute DW_AT_byte_size (wk_entry w))))"
          by (subst get_classification.simps) (simp add: nn w class_step_tag(3) [OF Inr other])
      qed
    qed
  qed
qed

lemma classified_returns: "classified dw ref r \<Longrightarrow> get_classification dw ref = Some r"
proof (induction rule: classified.induct)
  case (classified_alias ref ref' r)
  then show ?case by (simp add: class_link_step)
qed (subst get_classification.simps, simp add: class_step_tag)+

lemma classified_no_chain:
  assumes "classified dw ref r" "f 0 = ref"
  shows "\<exists>i. \<not> class_link dw (f i) (f (Suc i))"
  using assms
proof (induction arbitrary: f rule: classified.induct)
  case (classified_alias ref ref' r)
  show ?case
  proof (cases "class_link dw ref (f 1)")
    case True
    then have "f (Suc 0) = ref'" using class_link_unique [OF _ classified_alias.hyps(1)] by simp
    from classified_alias.IH [of "\<lambda>i. f (Suc i)", OF this] show ?thesis by blast
  next
    case False
    then show ?thesis using classified_alias.prems by (intro exI [of _ 0]) simp
  qed
qed (auto simp: class_link_def intro!: exI [of _ 0])

lemma class_stuck: "(\<And>r. \<not> classified dw ref r) \<Longrightarrow> \<exists>ref'. class_link dw ref ref' \<and> (\<forall>r. \<not> classified dw ref' r)"
  by (rule class_cases [of dw ref]) (auto intro: classified_alias)

lemma unclassified_chain:
  assumes "\<And>r. \<not> classified dw ref r"
  shows "\<exists>f. f 0 = ref \<and> (\<forall>i. class_link dw (f i) (f (Suc i)))"
proof -
  obtain nxt where nxt: "(\<And>c. \<not> classified dw r c) \<Longrightarrow> class_link dw r (nxt r) \<and> (\<forall>c. \<not> classified dw (nxt r) c)" for r
    using class_stuck [of dw] by metis
  define f where "f n = (nxt ^^ n) ref" for n
  have "\<not> classified dw (f n) c" for n c
    by (induction n arbitrary: c) (use assms nxt in \<open>auto simp: f_def\<close>)
  then have "f 0 = ref \<and> (\<forall>n. class_link dw (f n) (f (Suc n)))" using nxt by (simp add: f_def)
  then show ?thesis by blast
qed

lemma chain_hangs:
  assumes "get_classification dw ref = Some r" "f 0 = ref"
  shows "\<exists>i. \<not> class_link dw (f i) (f (Suc i))"
proof -
  have "\<forall>f. f 0 = ref \<longrightarrow> (\<exists>i. \<not> class_link dw (f i) (f (Suc i)))"
  proof (rule get_classification.raw_induct [OF _ assms(1), of "\<lambda>dw ref _. \<forall>f. f 0 = ref \<longrightarrow> (\<exists>i. \<not> class_link dw (f i) (f (Suc i)))"])
    fix gc dw ref y
    assume IH: "\<And>dw ref y. gc dw ref = Some y \<Longrightarrow> \<forall>f. f 0 = ref \<longrightarrow> (\<exists>i. \<not> class_link dw (f i) (f (Suc i)))"
      and gc: "(if ref = reference_null then Some (Inr TC_VOID)
        else case peek dw ref of Inl e \<Rightarrow> Some (Inl e) | Inr None \<Rightarrow> Some (Inr TC_INVALID)
             | Inr (Some w) \<Rightarrow> (case class_step (wk_entry w) of Inl e \<Rightarrow> Some (Inl e) | Inr (Inl c) \<Rightarrow> Some (Inr c)
                                | Inr (Inr ref') \<Rightarrow> gc dw ref')) = Some y"
    show "\<forall>f. f 0 = ref \<longrightarrow> (\<exists>i. \<not> class_link dw (f i) (f (Suc i)))"
    proof (intro allI impI)
      fix f :: "nat \<Rightarrow> reference_t"
      assume f: "f 0 = ref"
      show "\<exists>i. \<not> class_link dw (f i) (f (Suc i))"
      proof (cases "class_link dw ref (f 1)")
        case True
        then have "gc dw (f 1) = Some y" using gc by (auto simp: class_link_def class_step_tag)
        from IH [OF this] obtain i where "\<not> class_link dw (f (Suc i)) (f (Suc (Suc i)))" by (auto dest: spec [of _ "\<lambda>i. f (Suc i)"])
        then show ?thesis by blast
      qed (use f in \<open>auto intro: exI [of _ 0]\<close>)
    qed
  qed
  with assms(2) show ?thesis by blast
qed

text \<open>
  C37. Classifying a type gives what the type is: typedefs, const and volatile types, and only
  these, are looked through until void, a type with a class of its own (by its tag, or its encoding
  and size), a missing entry or an unreadable one is reached, and the answer is the one of that end
  of the chain. It fails to return exactly when the chain has no end, going on through such types
  for ever.
\<close>

theorem get_classification_terminates:
  "(get_classification dw ref = Some r) = classified dw ref r \<and>
   (get_classification dw ref = None) = (\<exists>f. f 0 = ref \<and> (\<forall>i. class_link dw (f i) (f (Suc i))))"
proof -
  have ret: "classified dw ref c \<Longrightarrow> get_classification dw ref = Some c" for c by (rule classified_returns)
  have none: "get_classification dw ref = None" if "\<exists>f. f 0 = ref \<and> (\<forall>i. class_link dw (f i) (f (Suc i)))"
    using that chain_hangs by fastforce
  show ?thesis
  proof (cases "\<exists>c. classified dw ref c")
    case True
    then show ?thesis using ret classified_no_chain by fastforce
  next
    case False
    then have "\<exists>f. f 0 = ref \<and> (\<forall>i. class_link dw (f i) (f (Suc i)))" using unclassified_chain by blast
    then show ?thesis using none False by auto
  qed
qed

end
