(* ===== verification/NP_Dump.thy ===== *)
theory NP_Dump
  imports NP_Spiegel
begin

text \<open>
  The second half of \<^verbatim>\<open>spiegel/dwarf/state.cxx\<close>: descriptions of types and parameters, and the functions
  that print the debugging information. What is printed is the result. A type that
  refers to itself through pointers is described without end, so describing takes a bound.
\<close>

section \<open>Loops that move one walker\<close>

text \<open>
  Over the children of an entry, and over all entries that follow. The body may move the walker on;
  the loop goes on from where it left it.
\<close>

partial_function (option) kids_walk ::
  "dwarf_t \<Rightarrow> (walker_t \<Rightarrow> 'a \<Rightarrow> (np_error + walker_t \<times> 'a) option) \<Rightarrow> np_error + bool \<times> walker_t \<Rightarrow> 'a \<Rightarrow>
   (np_error + walker_t \<times> 'a) option" where
  "kids_walk dw body mv acc =
     (case mv of
        Inl e \<Rightarrow> Some (Inl e)
      | Inr (ok, w) \<Rightarrow>
          if \<not> ok then Some (Inr (w, acc))
          else Option.bind (body w acc) (\<lambda>r.
            case r of Inl e \<Rightarrow> Some (Inl e) | Inr (w', acc') \<Rightarrow> kids_walk dw body (move_next dw w') acc'))"

partial_function (option) preorder_walk ::
  "dwarf_t \<Rightarrow> (walker_t \<Rightarrow> 'a \<Rightarrow> (np_error + walker_t \<times> 'a) option) \<Rightarrow> walker_t \<Rightarrow> 'a \<Rightarrow> (np_error + 'a) option" where
  "preorder_walk dw body w acc =
     (case move_preorder dw w of
        Inl e \<Rightarrow> Some (Inl e)
      | Inr (ok, w1) \<Rightarrow>
          if \<not> ok then Some (Inr acc)
          else Option.bind (body w1 acc) (\<lambda>r.
            case r of Inl e \<Rightarrow> Some (Inl e) | Inr (w', acc') \<Rightarrow> preorder_walk dw body w' acc'))"

section \<open>Types and parameters\<close>

text \<open>The entry of the type of an entry, or what is said where there is none.\<close>

definition described_type :: "dwarf_t \<Rightarrow> walker_t \<Rightarrow> np_error + (string + walker_t)" where
  "described_type dw ow =
     bindE (case get_attribute DW_AT_specification (wk_entry ow) of
              None \<Rightarrow> Inr (walker_copy ow, wk_entry ow)
            | Some _ \<Rightarrow>
                bindE (move_to dw (get_reference_attribute DW_AT_specification (wk_entry ow)) (walker_copy ow)) (\<lambda>(ok, w).
                  if ok then Inr (w, wk_entry w) else Inl Null_Deref)) (\<lambda>(w, e).
       let ref = get_reference_attribute DW_AT_type e
       in if ref = reference_null then Inr (Inl ''void '')
          else bindE (move_to dw ref w) (\<lambda>(ok, w'). Inr (if ok then Inr w' else Inl ''??? '')))"

fun describe_type :: "nat \<Rightarrow> dwarf_t \<Rightarrow> walker_t \<Rightarrow> (np_error + string) option" where
  "describe_type 0 dw ow = None"
| "describe_type (Suc n) dw ow =
     (case described_type dw ow of
        Inl e \<Rightarrow> Some (Inl e)
      | Inr (Inl s) \<Rightarrow> Some (Inr s)
      | Inr (Inr w) \<Rightarrow>
          (case bindE (get_partial_name dw (get_reference w)) (\<lambda>name. bindE (get_tag (wk_entry w)) (\<lambda>tag. Inr (name, tag))) of
             Inl e \<Rightarrow> Some (Inl e)
           | Inr (name, tag) \<Rightarrow>
               if tag = DW_TAG_base_type \<or> tag = DW_TAG_typedef
               then Some (case name of None \<Rightarrow> Inl Null_Deref | Some nm \<Rightarrow> Inr (nm @ '' ''))
               else if tag = DW_TAG_pointer_type then bindOE (describe_type n dw w) (\<lambda>s. Some (Inr (s @ ''* '')))
               else if tag = DW_TAG_volatile_type then bindOE (describe_type n dw w) (\<lambda>s. Some (Inr (s @ ''volatile '')))
               else if tag = DW_TAG_const_type then bindOE (describe_type n dw w) (\<lambda>s. Some (Inr (s @ ''const '')))
               else if tag = DW_TAG_structure_type then Some (Inr (''struct '' @ or_anonymous name @ '' ''))
               else if tag = DW_TAG_union_type then Some (Inr (''union '' @ or_anonymous name @ '' ''))
               else if tag = DW_TAG_class_type then Some (Inr (''class '' @ or_anonymous name @ '' ''))
               else if tag = DW_TAG_enumeration_type then Some (Inr (''enum '' @ or_anonymous name @ '' ''))
               else if tag = DW_TAG_namespace_type then Some (Inr (''namespace '' @ or_anonymous name @ '' ''))
               else if tag = DW_TAG_array_type
               then bindOE (describe_type n dw w) (\<lambda>s. bindOE (array_counts dw w) (\<lambda>ns.
                      Some (Inr (s @ concat (map (\<lambda>c. ''['' @ dec c @ '']'') ns) @ '' ''))))
               else Some (Inr (to_name tagnames (sint tag) @ '' ''))))"

text \<open>The parameters of the function the walker is at; it is left behind them.\<close>

definition describe_parameter :: "nat \<Rightarrow> dwarf_t \<Rightarrow> walker_t \<Rightarrow> nat \<times> bool \<times> string \<Rightarrow>
    (np_error + walker_t \<times> nat \<times> bool \<times> string) option" where
  "describe_parameter n dw w acc =
     (case acc of (nparams, got_ellipsis, s) \<Rightarrow>
        let s1 = (if nparams \<noteq> 0 then s @ '', '' else s)
        in if got_ellipsis then Some (Inr (w, acc))
           else (case get_tag (wk_entry w) of
             Inl e \<Rightarrow> Some (Inl e)
           | Inr tag \<Rightarrow>
               if tag = DW_TAG_formal_parameter
               then bindOE (describe_type n dw w) (\<lambda>t. Some (Inr (w, Suc nparams, False, s1 @ t)))
               else if tag = DW_TAG_unspecified_parameters then Some (Inr (w, Suc nparams, True, s1 @ ''...''))
               else Some (Inr (w, acc))))"

definition describe_function_parameters :: "nat \<Rightarrow> dwarf_t \<Rightarrow> walker_t \<Rightarrow> (np_error + walker_t \<times> string) option" where
  "describe_function_parameters n dw w =
     bindOE (kids_walk dw (describe_parameter n dw) (move_down dw w) (0, False, ''('')) (\<lambda>(w', _, _, s).
       Some (Inr (w', s @ '')'')))"

section \<open>Structures, functions and variables\<close>

abbreviation (input) DW_TAG_member :: u32 where "DW_TAG_member \<equiv> 0x0d"
abbreviation (input) DW_TAG_variable :: u32 where "DW_TAG_variable \<equiv> 0x34"
abbreviation (input) DW_AT_location :: u32 where "DW_AT_location \<equiv> 0x02"

abbreviation NEWLINE :: string where "NEWLINE \<equiv> [CHR 0x0A]"

text \<open>A member of a structure: what is printed of it, among the variables or among the functions.\<close>

definition dump_member :: "nat \<Rightarrow> dwarf_t \<Rightarrow> string \<Rightarrow> walker_t \<Rightarrow> string list \<times> string list \<Rightarrow>
    (np_error + walker_t \<times> string list \<times> string list) option" where
  "dump_member n dw structname w acc =
     (case acc of (variables, functions) \<Rightarrow>
        case get_string_attribute DW_AT_name (wk_entry w) of
          None \<Rightarrow> Some (Inr (w, acc))
        | Some name \<Rightarrow>
            (case get_tag (wk_entry w) of
               Inl e \<Rightarrow> Some (Inl e)
             | Inr tag \<Rightarrow>
                 if tag = DW_TAG_member \<or> tag = DW_TAG_variable
                 then bindOE (describe_type n dw w) (\<lambda>t.
                        Some (Inr (w, variables @ [''    /*member*/ '' @ t @ '' '' @ name @ '';'' @ NEWLINE], functions)))
                 else if tag = DW_TAG_subprogram
                 then bindOE (if name = structname then Some (Inr ''    /*constructor*/ '')
                              else if name = ''~'' @ structname then Some (Inr ''    /*destructor*/ '')
                              else bindOE (describe_type n dw w) (\<lambda>t. Some (Inr (''    /*function*/ '' @ t)))) (\<lambda>s.
                      bindOE (describe_function_parameters n dw w) (\<lambda>(w', ps).
                        Some (Inr (w', variables, functions @ [s @ name @ ps @ NEWLINE]))))
                 else Some (Inr (w, variables @ [''    /* '' @ to_name tagnames (sint tag) @ '' */'' @ NEWLINE], functions))))"

definition struct_keyword :: "u32 \<Rightarrow> string option" where
  "struct_keyword tag =
     (if tag = DW_TAG_structure_type then Some ''struct''
      else if tag = DW_TAG_union_type then Some ''union''
      else if tag = DW_TAG_class_type then Some ''class''
      else None)"

definition dump_struct :: "nat \<Rightarrow> dwarf_t \<Rightarrow> walker_t \<Rightarrow> string \<Rightarrow> (np_error + walker_t \<times> string) option" where
  "dump_struct n dw w out =
     (case get_tag (wk_entry w) of
        Inl e \<Rightarrow> Some (Inl e)
      | Inr tag \<Rightarrow>
          (case struct_keyword tag of
             None \<Rightarrow> Some (Inr (w, out))
           | Some keyword \<Rightarrow>
               if get_uint32_attribute DW_AT_declaration (wk_entry w) \<noteq> 0 then Some (Inr (w, out))
               else (case get_partial_name dw (get_reference w) of
                 Inl e \<Rightarrow> Some (Inl e)
               | Inr None \<Rightarrow> Some (Inr (w, out))
               | Inr (Some structname) \<Rightarrow>
                   bindOE (get_full_name dw (get_reference w)) (\<lambda>full.
                   bindOE (kids_walk dw (dump_member n dw structname) (move_down dw w) ([], [])) (\<lambda>(w', variables, functions).
                     Some (Inr (w', out @ keyword @ '' '' @ full @ '' {'' @ NEWLINE @ concat variables @ concat functions
                                @ ''} '' @ keyword @ NEWLINE)))))))"

text \<open>The units one after the other; the walker of a unit is first moved to the unit's own entry.\<close>

fun over_units :: "(compile_unit_t \<Rightarrow> (np_error + string) option) \<Rightarrow> compile_unit_t list \<Rightarrow> (np_error + string) option" where
  "over_units f [] = Some (Inr [])"
| "over_units f (cu # cus) = bindOE (f cu) (\<lambda>s. bindOE (over_units f cus) (\<lambda>t. Some (Inr (s @ t))))"

definition unit_open :: string where "unit_open = ''compile_unit {'' @ NEWLINE"
definition unit_close :: string where "unit_close = ''} compile_unit'' @ NEWLINE"

definition dump_structs :: "nat \<Rightarrow> dwarf_t \<Rightarrow> (np_error + string) option" where
  "dump_structs n dw =
     over_units (\<lambda>cu.
       case move_next dw (walker_new cu) of
         Inl e \<Rightarrow> Some (Inl e)
       | Inr (_, w) \<Rightarrow> bindOE (preorder_walk dw (dump_struct n dw) w []) (\<lambda>s. Some (Inr (unit_open @ s @ unit_close))))
       (dw_units dw)"

definition dump_function :: "nat \<Rightarrow> dwarf_t \<Rightarrow> walker_t \<Rightarrow> string \<Rightarrow> (np_error + walker_t \<times> string) option" where
  "dump_function n dw w out =
     (case get_tag (wk_entry w) of
        Inl e \<Rightarrow> Some (Inl e)
      | Inr tag \<Rightarrow>
          if tag \<noteq> DW_TAG_subprogram then Some (Inr (w, out))
          else (case get_string_attribute DW_AT_name (wk_entry w) of
            None \<Rightarrow> Some (Inr (w, out))
          | Some name \<Rightarrow>
              bindOE (describe_type n dw w) (\<lambda>t.
              bindOE (describe_function_parameters n dw w) (\<lambda>(w', ps).
                Some (Inr (w', out @ t @ name @ ps @ NEWLINE))))))"

definition dump_functions :: "nat \<Rightarrow> dwarf_t \<Rightarrow> (np_error + string) option" where
  "dump_functions n dw =
     bindOE (over_units (\<lambda>cu.
       case move_next dw (walker_new cu) of
         Inl e \<Rightarrow> Some (Inl e)
       | Inr (_, w) \<Rightarrow>
           bindOE (kids_walk dw (dump_function n dw) (move_down dw w) []) (\<lambda>(_, s). Some (Inr (unit_open @ s @ unit_close))))
       (dw_units dw)) (\<lambda>s. Some (Inr (''Functions'' @ NEWLINE @ ''========='' @ NEWLINE @ s @ NEWLINE @ NEWLINE)))"

definition dump_variable :: "nat \<Rightarrow> dwarf_t \<Rightarrow> walker_t \<Rightarrow> string \<Rightarrow> (np_error + walker_t \<times> string) option" where
  "dump_variable n dw w out =
     (case get_tag (wk_entry w) of
        Inl e \<Rightarrow> Some (Inl e)
      | Inr tag \<Rightarrow>
          if tag \<noteq> DW_TAG_variable then Some (Inr (w, out))
          else if get_attribute DW_AT_location (wk_entry w) = None then Some (Inr (w, out))
          else bindOE (describe_type n dw w) (\<lambda>t. bindOE (get_full_name dw (get_reference w)) (\<lambda>full.
                 Some (Inr (w, out @ t @ full @ '';'' @ NEWLINE)))))"

definition dump_variables :: "nat \<Rightarrow> dwarf_t \<Rightarrow> (np_error + string) option" where
  "dump_variables n dw =
     over_units (\<lambda>cu.
       case move_next dw (walker_new cu) of
         Inl e \<Rightarrow> Some (Inl e)
       | Inr (ok, w) \<Rightarrow>
           if \<not> ok then Some (Inl Null_Deref)
           else bindOE (preorder_walk dw (dump_variable n dw) w []) (\<lambda>s.
             Some (Inr (''compile_unit '' @ (case get_string_attribute DW_AT_name (wk_entry w) of None \<Rightarrow> ''(null)'' | Some nm \<Rightarrow> nm)
                        @ '' {'' @ NEWLINE @ s @ unit_close))))
       (dw_units dw)"

section \<open>Entries\<close>

definition dump_path :: "dwarf_t \<Rightarrow> (resolver \<Rightarrow> string) \<Rightarrow> walker_t \<Rightarrow> np_error + string" where
  "dump_path dw descr w =
     bindE (get_path dw w) (\<lambda>path.
       Inr (''Path:'' @ concat (map (\<lambda>ref. '' '' @ reference_as_string descr ref) path) @ NEWLINE))"

text \<open>One entry, indented by its level, after its path if that is wanted.\<close>

definition dump_entry :: "dwarf_t \<Rightarrow> (resolver \<Rightarrow> string) \<Rightarrow> bool \<Rightarrow> walker_t \<Rightarrow> np_error + string" where
  "dump_entry dw descr paths w =
     bindE (if paths then dump_path dw descr w else Inr []) (\<lambda>p.
       Inr (p @ concat (replicate (unat (en_level (wk_entry w))) ''  '') @ entry_to_string descr (wk_entry w) @ NEWLINE))"

fun recursive_dump :: "nat \<Rightarrow> dwarf_t \<Rightarrow> (resolver \<Rightarrow> string) \<Rightarrow> bool \<Rightarrow> u32 \<Rightarrow> walker_t \<Rightarrow> (np_error + walker_t \<times> string) option"
  and recursive_kids :: "nat \<Rightarrow> dwarf_t \<Rightarrow> (resolver \<Rightarrow> string) \<Rightarrow> bool \<Rightarrow> u32 \<Rightarrow> np_error + bool \<times> walker_t \<Rightarrow>
    (np_error + walker_t \<times> string) option" where
  "recursive_dump 0 dw descr paths depth w = None"
| "recursive_dump (Suc n) dw descr paths depth w =
     (if en_level (wk_entry w) \<noteq> depth then Some (Inl Assert_Failed)
      else bindOE (Some (dump_entry dw descr paths w)) (\<lambda>s.
           bindOE (recursive_kids n dw descr paths (depth + 1) (move_down dw w)) (\<lambda>(w', t). Some (Inr (w', s @ t)))))"
| "recursive_kids 0 dw descr paths depth mv = None"
| "recursive_kids (Suc n) dw descr paths depth mv =
     (case mv of
        Inl e \<Rightarrow> Some (Inl e)
      | Inr (ok, w) \<Rightarrow>
          if \<not> ok then Some (Inr (w, []))
          else bindOE (recursive_dump n dw descr paths depth w) (\<lambda>(w1, s).
               bindOE (recursive_kids n dw descr paths depth (move_next dw w1)) (\<lambda>(w2, t). Some (Inr (w2, s @ t)))))"

definition dump_unit :: "nat \<Rightarrow> dwarf_t \<Rightarrow> (resolver \<Rightarrow> string) \<Rightarrow> bool \<Rightarrow> bool \<Rightarrow> compile_unit_t \<Rightarrow> (np_error + string) option" where
  "dump_unit n dw descr preorder paths cu =
     (if preorder
      then preorder_walk dw (\<lambda>w out. Some (bindE (dump_entry dw descr paths w) (\<lambda>s. Inr (w, out @ s)))) (walker_new cu) []
      else (case move_next dw (walker_new cu) of
              Inl e \<Rightarrow> Some (Inl e)
            | Inr (ok, w) \<Rightarrow>
                if \<not> ok then Some (Inl Null_Deref)
                else bindOE (recursive_dump n dw descr paths 0 w) (\<lambda>(_, s). Some (Inr s))))"

definition dump_info :: "nat \<Rightarrow> dwarf_t \<Rightarrow> (resolver \<Rightarrow> string) \<Rightarrow> bool \<Rightarrow> bool \<Rightarrow> (np_error + string) option" where
  "dump_info n dw descr preorder paths =
     bindOE (over_units (\<lambda>cu. bindOE (dump_unit n dw descr preorder paths cu) (\<lambda>s. Some (Inr (unit_open @ s @ unit_close))))
       (dw_units dw)) (\<lambda>s. Some (Inr (''Info'' @ NEWLINE @ ''===='' @ NEWLINE @ s @ NEWLINE @ NEWLINE)))"

section \<open>Abbreviations\<close>

definition dump_abbrev :: "abbrev_t \<Rightarrow> string" where
  "dump_abbrev a =
     ''np: Code '' @ print_base lower_digits 10 (unat (ab_code a)) @ NEWLINE
     @ ''np:     tag 0x'' @ print_base lower_digits 16 (unat (ab_tag a)) @ '' ('' @ to_name tagnames (sint (ab_tag a)) @ '')'' @ NEWLINE
     @ ''np:     children '' @ print_base lower_digits 10 (unat (ab_children a))
       @ '' ('' @ to_name childvals (uint (ab_children a)) @ '')'' @ NEWLINE
     @ ''np:     attribute specifications {'' @ NEWLINE
     @ concat (map (\<lambda>(nm, form).
         ''np:         name 0x'' @ print_base lower_digits 16 (unat nm) @ '' ('' @ to_name attrnames (sint nm) @ '')''
         @ ''np:  form 0x'' @ print_base lower_digits 16 (unat form) @ '' ('' @ to_name formvals (sint form) @ '')'' @ NEWLINE)
         (ab_attr_specs a))
     @ ''np:     }'' @ NEWLINE"

definition cu_dump_abbrevs :: "compile_unit_t \<Rightarrow> string" where
  "cu_dump_abbrevs cu =
     ''np: Abbrevs {'' @ NEWLINE
     @ concat (map (\<lambda>a. case a of None \<Rightarrow> [] | Some ab \<Rightarrow> dump_abbrev ab) (cu_abbrevs cu))
     @ ''np: }'' @ NEWLINE"

text \<open>What goes to the output and what goes to the error output.\<close>

definition dump_abbrevs :: "dwarf_t \<Rightarrow> string \<times> string" where
  "dump_abbrevs dw =
     (''Abbrevs'' @ NEWLINE @ ''======='' @ NEWLINE @ concat (map (\<lambda>cu. unit_open @ unit_close) (dw_units dw)) @ NEWLINE @ NEWLINE,
      concat (map cu_dump_abbrevs (dw_units dw)))"

section \<open>What is printed of a tree\<close>

text \<open>The line of an entry, from what a client sees of it, and the lines of several, up to the first error.\<close>

fun view_attrs :: "(resolver \<Rightarrow> string) \<Rightarrow> (u32 \<Rightarrow> value_t option) \<Rightarrow> string \<Rightarrow> attr_spec_t list \<Rightarrow> string" where
  "view_attrs descr at sep [] = []"
| "view_attrs descr at sep ((nm, form) # specs) =
     sep @ to_name attrnames (sint nm) @ ''='' @
     (case at nm of Some v \<Rightarrow> value_to_string descr v | None \<Rightarrow> ''<missing>'') @ view_attrs descr at '', '' specs"

definition view_line :: "dwarf_t \<Rightarrow> (resolver \<Rightarrow> string) \<Rightarrow> bool \<Rightarrow> compile_unit_t \<Rightarrow> view \<Rightarrow> np_error + string" where
  "view_line dw descr paths cu v =
     (case v of (off, lev, ab, at) \<Rightarrow>
        bindE (if paths
               then bindE (path_loop dw (cu_make_reference cu off) (walker_new cu) []) (\<lambda>path.
                 Inr (''Path:'' @ concat (map (\<lambda>ref. '' '' @ reference_as_string descr ref) path) @ NEWLINE))
               else Inr []) (\<lambda>p.
          Inr (p @ concat (replicate (unat lev) ''  '') @
            (case ab of
               None \<Rightarrow> []
             | Some a \<Rightarrow>
                 snprintf 1024 (''Entry offset=0x'' @ print_base lower_digits 16 (unat off) @ '' level='' @
                   print_base lower_digits 10 (unat lev) @ '' tag='' @ to_name tagnames (sint (ab_tag a)) @ '' {'') @
                 view_attrs descr at [] (ab_attr_specs a) @ ''}'') @ NEWLINE)))"

fun dump_lines :: "(view \<Rightarrow> np_error + string) \<Rightarrow> view list \<Rightarrow> np_error + string" where
  "dump_lines f [] = Inr []"
| "dump_lines f (v # vs) = bindE (f v) (\<lambda>s. bindE (dump_lines f vs) (\<lambda>t. Inr (s @ t)))"

lemma dump_lines_append: "dump_lines f (vs @ vs') = bindE (dump_lines f vs) (\<lambda>s. bindE (dump_lines f vs') (\<lambda>t. Inr (s @ t)))"
  by (induction vs) (simp_all add: bindE_assoc)

lemma attrs_string_view: "attrs_string descr e sep specs = view_attrs descr (\<lambda>nm. get_attribute nm e) sep specs"
  by (induction specs arbitrary: sep) auto

lemma dump_entry_view: "dump_entry dw descr paths w = view_line dw descr paths (wk_unit w) (entry_view (wk_entry w))"
  by (cases "en_abbrev (wk_entry w)") (simp_all add: dump_entry_def dump_path_def get_path_def get_reference_def view_line_def entry_view_def entry_to_string_def
      attrs_string_view)

section \<open>In preorder\<close>

lemma preorder_walk_round:
  assumes "read_entry dw w = Inr (res, w')" "res \<noteq> RE_EOF"
  shows "preorder_walk dw body w acc =
    (if res = RE_OK
     then Option.bind (body w' acc) (\<lambda>r. case r of Inl e \<Rightarrow> Some (Inl e) | Inr (w1, acc') \<Rightarrow> preorder_walk dw body w1 acc')
     else preorder_walk dw body w' acc)"
  using assms by (simp add: preorder_walk.simps [of dw body w] move_preorder.simps [of dw w] preorder_walk.simps [of dw body w'])

lemma preorder_dump_rounds:
  fixes dw descr paths
  defines "body \<equiv> \<lambda>w out. Some (bindE (dump_entry dw descr paths w) (\<lambda>s. Inr (w, out @ s)))"
  assumes "rounds dw w tr w'" "wk_unit w = cu"
  shows "preorder_walk dw body w acc =
    bindOE (Some (dump_lines (view_line dw descr paths cu) (round_views tr))) (\<lambda>s. preorder_walk dw body w' (acc @ s))"
  using assms(2,3)
proof (induction arbitrary: acc rule: rounds.induct)
  case (rounds_none w)
  then show ?case by (simp add: round_views_def bindOE_def)
next
  case (rounds_more w res w1 tr w2)
  have u: "wk_unit w1 = cu" using read_entry_unit [OF rounds_more.hyps(1)] rounds_more.prems by simp
  note IH = rounds_more.IH [OF u]
  show ?case
  proof (cases "res = RE_OK")
    case True
    then show ?thesis
      using preorder_walk_round [OF rounds_more.hyps(1,2), of body acc] u IH
      by (cases "view_line dw descr paths cu (entry_view (wk_entry w1))")
        (auto simp: body_def dump_entry_view round_views_def bindOE_def split: sum.splits)
  next
    case False
    then show ?thesis
      using preorder_walk_round [OF rounds_more.hyps(1,2), of body acc] IH by (simp add: round_views_def)
  qed
qed

lemma dump_unit_preorder:
  assumes "unit_encodes dw cu d"
  shows "dump_unit n dw descr True paths cu = Some (dump_lines (view_line dw descr paths cu) (die_views cu header_length 0 d))"
proof -
  have z: "set_filter_tag 0 (walker_new cu) = walker_new cu" by (simp add: set_filter_tag_def walker_new_def)
  have all: "filter (view_matches 0) vs = vs" for vs by (simp add: view_matches_def)
  obtain tr w' where tr: "rounds dw (walker_new cu) tr w'" "wk_at cu (rd_data (cu_reader cu)) 0 [] w'"
    "round_views tr = die_views cu header_length 0 d"
    using unit_rounds [OF assms, of 0] by (auto simp: z all)
  have "wk_unit (walker_new cu) = cu" by (simp add: walker_new_def)
  note pre = preorder_dump_rounds [OF tr(1) this, of descr paths "[]"]
  have "preorder_walk dw body w' acc = Some (Inr acc)" for body :: "walker_t \<Rightarrow> string \<Rightarrow> _" and acc
    using read_entry_eof [OF tr(2), of dw] by (auto simp: preorder_walk.simps [of dw body w'] move_preorder.simps [of dw w'])
  with pre tr(3) show ?thesis by (simp add: dump_unit_def bindOE_def split: sum.splits)
qed

section \<open>By recursion\<close>

text \<open>
  The walk by recursion reads the sibling reference of the entry read last, which may be one below the
  entry it comes back to. No entry without children may have one, then it is never followed.
\<close>

definition sibling_of :: "compile_unit_t \<Rightarrow> u32 \<Rightarrow> (u8 list \<times> value_t) list \<Rightarrow> value_t option" where
  "sibling_of cu code attrs = snd (snd (snd (head_view cu 0 0 code attrs))) DW_AT_sibling"

fun plain_leaves :: "compile_unit_t \<Rightarrow> die \<Rightarrow> bool" and plain_forest :: "compile_unit_t \<Rightarrow> die list \<Rightarrow> bool" where
  "plain_leaves cu (Die code attrs None) = (sibling_of cu code attrs = None)"
| "plain_leaves cu (Die code attrs (Some kids)) = ((kids = [] \<longrightarrow> sibling_of cu code attrs = None) \<and> plain_forest cu kids)"
| "plain_forest cu [] = True"
| "plain_forest cu (d # ds) = (plain_leaves cu d \<and> plain_forest cu ds)"

text \<open>The bytes behind the head of an entry.\<close>

definition after_head :: "die \<Rightarrow> u8 list \<Rightarrow> u8 list" where
  "after_head d rest = (case die_kids d of None \<Rightarrow> rest | Some ks \<Rightarrow> forest_bytes ks @ 0 # rest)"

definition inner_level :: "die \<Rightarrow> nat \<Rightarrow> nat" where
  "inner_level d lev = (if die_kids d = None then lev else Suc lev)"

text \<open>A walker that has read the head of an entry, and one that has come back to the entry's level behind it.\<close>

definition at_head :: "compile_unit_t \<Rightarrow> u8 list \<Rightarrow> nat \<Rightarrow> nat \<Rightarrow> die \<Rightarrow> u8 list \<Rightarrow> walker_t \<Rightarrow> bool" where
  "at_head cu bs off lev d rest w \<longleftrightarrow> wk_at cu bs (inner_level d lev) (after_head d rest) w \<and> wk_filter_tag w = 0 \<and>
     entry_view (wk_entry w) = head_view cu off lev (die_code d) (die_attrs d)"

definition past :: "compile_unit_t \<Rightarrow> u8 list \<Rightarrow> nat \<Rightarrow> u8 list \<Rightarrow> walker_t \<Rightarrow> bool" where
  "past cu bs lev rest w \<longleftrightarrow> wk_at cu bs lev rest w \<and> wk_filter_tag w = 0 \<and>
     en_level (wk_entry w) = of_nat lev \<and> get_attribute DW_AT_sibling (wk_entry w) = None"

lemma die_bytes_head: "die_bytes d @ rest = uleb_enc (unat (die_code d)) @ concat (map fst (die_attrs d)) @ after_head d rest"
  by (cases d; cases "die_kids d") (auto simp: after_head_def)

lemma read_die:
  assumes "wk_at cu bs lev (die_bytes d @ rest) w" "wk_filter_tag w = 0" "die_wf dw cu d" "after_head d rest \<noteq> []"
    and "off + length (die_bytes d @ rest) = length bs"
  shows "\<exists>w'. read_entry dw w = Inr (RE_OK, w') \<and> at_head cu bs off lev d rest w'"
proof -
  have p: "get_offset (wk_reader w) = off" using wk_at_pos [OF assms(1)] assms(5) by simp
  have m: "view_matches 0 v" for v by (simp add: view_matches_def)
  from read_entry_head [OF assms(1) [unfolded die_bytes_head] die_wf_head [OF assms(3)] assms(4), unfolded p assms(2)]
  show ?thesis using m by (auto simp: at_head_def inner_level_def)
qed

lemma at_head_fields:
  assumes "at_head cu bs off lev d rest w" "die_wf dw cu d"
  shows "en_level (wk_entry w) = of_nat lev" "has_children (wk_entry w) = Inr (die_kids d \<noteq> None)"
    "get_attribute DW_AT_sibling (wk_entry w) = sibling_of cu (die_code d) (die_attrs d)" "wk_unit w = cu"
  using assms die_wf_head [OF assms(2)]
  by (auto simp: at_head_def entry_view_def head_view_def has_children_def head_wf_def sibling_of_def wk_at_def fun_eq_iff
      split: option.splits)

text \<open>The next sibling, and the end of a list of siblings.\<close>

lemma get_attribute_partial: "get_attribute nm (partial_setup off lev a e) = get_attribute nm e"
  by (simp add: get_attribute_def partial_setup_def Let_def)

lemma next_loop_die:
  assumes "wk_at cu bs lev (die_bytes d @ rest) w" "read_entry dw w = Inr (RE_OK, w')" "at_head cu bs off lev d rest w'"
    and "die_wf dw cu d"
  shows "next_loop dw (of_nat lev) w = Inr (True, w')"
  using next_loop_round [OF assms(2), of "of_nat lev"] assms(1) at_head_fields(1) [OF assms(3,4)] by (simp add: wk_at_def)

lemma next_loop_end:
  assumes at: "wk_at cu bs (Suc lev) (0 # rest) w" and sib: "get_attribute DW_AT_sibling (wk_entry w) = None" "wk_filter_tag w = 0"
  shows "\<exists>w'. next_loop dw (of_nat (Suc lev)) w = Inr (False, w') \<and> past cu bs lev rest w'"
proof -
  obtain w2 where w2: "read_entry dw w = Inr (RE_EOL, w2)" "wk_at cu bs lev rest w2" "wk_filter_tag w2 = 0" "wk_entry w2 = wk_entry w"
    using read_entry_end [OF at] sib(2) by auto
  have lt: "(of_nat lev :: u32) < of_nat (Suc lev)"
    using at by (simp add: wk_at_def word_less_nat_alt unat_of_nat_u32 del: of_nat_Suc)
  then have nz: "(of_nat (Suc lev) :: u32) \<noteq> 0" by (metis not_less_zero word_not_simps(1))
  let ?w = "w2\<lparr>wk_entry := partial_setup (en_offset (wk_entry w)) (of_nat (Suc lev) - 1) None (wk_entry w)\<rparr>"
  have "next_loop dw (of_nat (Suc lev)) w = next_loop dw (of_nat (Suc lev)) w2"
    using next_loop_round [OF w2(1), of "of_nat (Suc lev)"] at by (simp add: wk_at_def)
  also have "\<dots> = Inr (False, ?w)"
    using lt nz w2(2,4) by (simp add: next_loop.simps [of dw _ w2] wk_at_def del: of_nat_Suc)
  finally have "next_loop dw (of_nat (Suc lev)) w = Inr (False, ?w)" .
  moreover have "past cu bs lev rest ?w"
    using w2 sib by (simp add: past_def get_attribute_partial) (simp add: wk_at_def partial_setup_def)
  ultimately show ?thesis by blast
qed

lemma past_move_next: "past cu bs lev rest w \<Longrightarrow> move_next dw w = next_loop dw (of_nat lev) w"
  by (simp add: past_def move_next_def)

text \<open>What the recursion gives: the lines of the entries and the walker behind them, with any bound that is large enough.\<close>

definition dumps :: "(nat \<Rightarrow> (np_error + walker_t \<times> string) option) \<Rightarrow> np_error + string \<Rightarrow> walker_t \<Rightarrow> bool" where
  "dumps run out w \<longleftrightarrow> (\<exists>N. \<forall>n\<ge>N. run n = Some (bindE out (\<lambda>s. Inr (w, s))))"

lemma dumps_here: "dumps (\<lambda>n. recursive_kids n dw descr paths depth (Inr (False, w))) (Inr []) w"
  unfolding dumps_def by (intro exI [of _ 1]) (auto simp: less_eq_nat.simps Suc_le_D split: nat.splits dest!: Suc_le_D)

lemma dumps_entry:
  assumes "en_level (wk_entry w) = depth"
    and "dumps (\<lambda>n. recursive_kids n dw descr paths (depth + 1) (move_down dw w)) out w'"
  shows "dumps (\<lambda>n. recursive_dump n dw descr paths depth w)
    (bindE (dump_entry dw descr paths w) (\<lambda>s. bindE out (\<lambda>t. Inr (s @ t)))) w'"
proof -
  obtain N where N: "\<forall>n\<ge>N. recursive_kids n dw descr paths (depth + 1) (move_down dw w) = Some (bindE out (\<lambda>s. Inr (w', s)))"
    using assms(2) by (auto simp: dumps_def)
  have "recursive_dump n dw descr paths depth w
      = Some (bindE (bindE (dump_entry dw descr paths w) (\<lambda>s. bindE out (\<lambda>t. Inr (s @ t)))) (\<lambda>s. Inr (w', s)))" if n: "Suc N \<le> n" for n
  proof -
    obtain m where m: "n = Suc m" "N \<le> m" using n by (cases n) auto
    then show ?thesis using N assms(1) by (cases "dump_entry dw descr paths w"; cases out) (simp_all add: bindOE_def)
  qed
  then show ?thesis by (auto simp: dumps_def)
qed

lemma dumps_kid:
  assumes "dumps (\<lambda>n. recursive_dump n dw descr paths depth w) out w1"
    and "dumps (\<lambda>n. recursive_kids n dw descr paths depth (move_next dw w1)) out' w2"
  shows "dumps (\<lambda>n. recursive_kids n dw descr paths depth (Inr (True, w))) (bindE out (\<lambda>s. bindE out' (\<lambda>t. Inr (s @ t)))) w2"
proof -
  obtain M N where M: "\<forall>n\<ge>M. recursive_dump n dw descr paths depth w = Some (bindE out (\<lambda>s. Inr (w1, s)))"
    and N: "\<forall>n\<ge>N. recursive_kids n dw descr paths depth (move_next dw w1) = Some (bindE out' (\<lambda>s. Inr (w2, s)))"
    using assms by (auto simp: dumps_def)
  have "recursive_kids n dw descr paths depth (Inr (True, w))
      = Some (bindE (bindE out (\<lambda>s. bindE out' (\<lambda>t. Inr (s @ t)))) (\<lambda>s. Inr (w2, s)))" if n: "Suc (max M N) \<le> n" for n
  proof -
    obtain m where m: "n = Suc m" "M \<le> m" "N \<le> m" using n by (cases n) auto
    then show ?thesis using M N by (cases out; cases out') (simp_all add: bindOE_def)
  qed
  then show ?thesis by (auto simp: dumps_def)
qed

text \<open>Over a tree, and over a list of siblings.\<close>

lemma recursive_dump_tree:
  fixes paths descr dw cu
  defines "f \<equiv> view_line dw descr paths cu"
  shows "at_head cu bs off lev d rest w \<Longrightarrow> die_wf dw cu d \<Longrightarrow> plain_leaves cu d \<Longrightarrow> off + length (die_bytes d @ rest) = length bs \<Longrightarrow>
      \<exists>w'. past cu bs lev rest w' \<and> dumps (\<lambda>n. recursive_dump n dw descr paths (of_nat lev) w) (dump_lines f (die_views cu off lev d)) w'"
    and "wk_at cu bs (Suc lev) (forest_bytes ds @ 0 # rest) w \<Longrightarrow> wk_filter_tag w = 0 \<Longrightarrow> forest_wf dw cu ds \<Longrightarrow> plain_forest cu ds \<Longrightarrow>
      (ds = [] \<Longrightarrow> get_attribute DW_AT_sibling (wk_entry w) = None) \<Longrightarrow> off + length (forest_bytes ds @ 0 # rest) = length bs \<Longrightarrow>
      \<exists>w'. past cu bs lev rest w' \<and>
        dumps (\<lambda>n. recursive_kids n dw descr paths (of_nat (Suc lev)) (next_loop dw (of_nat (Suc lev)) w))
          (dump_lines f (forest_views cu off (Suc lev) ds)) w'"
proof (induction d and ds arbitrary: off lev rest w and off lev rest w rule: die_bytes_forest_bytes.induct)
  case (1 code attrs)
  let ?d = "Die code attrs None"
  note h = at_head_fields [OF "1.prems"(1,2)]
  have "move_down dw w = Inr (False, w)" using h(2) by (simp add: move_down_def)
  then have "dumps (\<lambda>n. recursive_dump n dw descr paths (of_nat lev) w) (dump_lines f (die_views cu off lev ?d)) w"
    using dumps_entry [OF h(1), of dw descr paths "Inr []" w] dumps_here [of dw descr paths "of_nat lev + 1" w] h(4) "1.prems"(1)
    by (simp add: dump_entry_view f_def at_head_def)
  moreover have "past cu bs lev rest w"
    using "1.prems" h by (simp add: past_def at_head_def inner_level_def after_head_def)
  ultimately show ?case by blast
next
  case (2 code attrs kids)
  let ?d = "Die code attrs (Some kids)" and ?off = "off + length (uleb_enc (unat code) @ concat (map fst attrs))"
  note h = at_head_fields [OF "2.prems"(1,2)]
  have at: "wk_at cu bs (Suc lev) (forest_bytes kids @ 0 # rest) w" "wk_filter_tag w = 0"
    using "2.prems"(1) by (simp_all add: at_head_def inner_level_def after_head_def)
  have wf: "forest_wf dw cu kids" "plain_forest cu kids" "?off + length (forest_bytes kids @ 0 # rest) = length bs"
    using "2.prems" by simp_all
  have "\<exists>w'. past cu bs lev rest w' \<and> dumps (\<lambda>n. recursive_kids n dw descr paths (of_nat lev + 1) (move_down dw w))
      (dump_lines f (forest_views cu ?off (Suc lev) kids)) w'"
  proof (cases kids)
    case Nil
    obtain w2 where w2: "read_entry dw w = Inr (RE_EOL, w2)" "wk_at cu bs lev rest w2" "wk_filter_tag w2 = 0" "wk_entry w2 = wk_entry w"
      using read_entry_end [of cu bs lev rest w dw] at Nil by auto
    then have "move_down dw w = Inr (False, w2)" using h(2) by (simp add: move_down_def)
    moreover have "past cu bs lev rest w2" using w2 h "2.prems"(3) Nil by (simp add: past_def)
    ultimately show ?thesis using dumps_here Nil by fastforce
  next
    case (Cons k ks)
    have k: "wk_at cu bs (Suc lev) (die_bytes k @ forest_bytes ks @ 0 # rest) w" "die_wf dw cu k"
      "?off + length (die_bytes k @ forest_bytes ks @ 0 # rest) = length bs" "after_head k (forest_bytes ks @ 0 # rest) \<noteq> []"
      using at(1) wf Cons by (simp_all add: after_head_def split: option.splits)
    obtain w1 where w1: "read_entry dw w = Inr (RE_OK, w1)" "at_head cu bs ?off (Suc lev) k (forest_bytes ks @ 0 # rest) w1"
      using read_die [OF k(1) at(2) k(2,4,3)] by blast
    then have "move_down dw w = next_loop dw (of_nat (Suc lev)) w"
      using next_loop_die [OF k(1) w1 k(2)] h(2) by (simp add: move_down_def)
    moreover have "\<exists>w'. past cu bs lev rest w' \<and>
        dumps (\<lambda>n. recursive_kids n dw descr paths (of_nat (Suc lev)) (next_loop dw (of_nat (Suc lev)) w))
          (dump_lines f (forest_views cu ?off (Suc lev) kids)) w'"
      using "2.IH" [OF at wf(1,2) _ wf(3)] Cons by blast
    ultimately show ?thesis by (simp add: add.commute)
  qed
  then obtain w' where w': "past cu bs lev rest w'" "dumps (\<lambda>n. recursive_kids n dw descr paths (of_nat lev + 1) (move_down dw w))
      (dump_lines f (forest_views cu ?off (Suc lev) kids)) w'" by blast
  have "dumps (\<lambda>n. recursive_dump n dw descr paths (of_nat lev) w) (dump_lines f (die_views cu off lev ?d)) w'"
    using dumps_entry [OF h(1) w'(2)] h(4) "2.prems"(1) by (simp add: dump_entry_view f_def at_head_def del: length_append)
  with w'(1) show ?case by blast
next
  case 3
  obtain w' where w': "next_loop dw (of_nat (Suc lev)) w = Inr (False, w')" "past cu bs lev rest w'"
    using next_loop_end [of cu bs lev rest w dw] "3.prems" by auto
  then show ?case using dumps_here by (intro exI [of _ w']) (simp del: of_nat_Suc)
next
  case (4 d ds)
  have d: "wk_at cu bs (Suc lev) (die_bytes d @ forest_bytes ds @ 0 # rest) w" "die_wf dw cu d" "plain_leaves cu d"
    "off + length (die_bytes d @ forest_bytes ds @ 0 # rest) = length bs" "after_head d (forest_bytes ds @ 0 # rest) \<noteq> []"
    and ds: "forest_wf dw cu ds" "plain_forest cu ds" "off + length (die_bytes d) + length (forest_bytes ds @ 0 # rest) = length bs"
    using "4.prems" by (simp_all add: after_head_def split: option.splits)
  obtain w1 where w1: "read_entry dw w = Inr (RE_OK, w1)" "at_head cu bs off (Suc lev) d (forest_bytes ds @ 0 # rest) w1"
    using read_die [OF d(1) "4.prems"(2) d(2,5,4)] by blast
  note nl = next_loop_die [OF d(1) w1 d(2)]
  obtain w2 where w2: "past cu bs (Suc lev) (forest_bytes ds @ 0 # rest) w2"
    "dumps (\<lambda>n. recursive_dump n dw descr paths (of_nat (Suc lev)) w1) (dump_lines f (die_views cu off (Suc lev) d)) w2"
    using "4.IH"(1) [OF w1(2) d(2,3,4)] by blast
  obtain w3 where w3: "past cu bs lev rest w3"
    "dumps (\<lambda>n. recursive_kids n dw descr paths (of_nat (Suc lev)) (next_loop dw (of_nat (Suc lev)) w2))
       (dump_lines f (forest_views cu (off + length (die_bytes d)) (Suc lev) ds)) w3"
    using "4.IH"(2) [OF _ _ ds(1,2) _ ds(3), where w = w2] w2(1) by (auto simp: past_def)
  show ?case
    using dumps_kid [OF w2(2)] w3 past_move_next [OF w2(1)] nl by (auto simp: dump_lines_append simp del: of_nat_Suc)
qed

section \<open>Both orders\<close>

lemma dump_unit_recursive:
  assumes "unit_encodes dw cu d" "plain_leaves cu d"
  shows "\<exists>N. \<forall>n\<ge>N. dump_unit n dw descr False paths cu
    = Some (dump_lines (view_line dw descr paths cu) (die_views cu header_length 0 d))"
proof -
  let ?w = "walker_new cu" and ?bs = "rd_data (cu_reader cu)"
  have z: "set_filter_tag 0 ?w = ?w" "wk_filter_tag ?w = 0" by (simp_all add: set_filter_tag_def walker_new_def)
  have at: "wk_at cu ?bs 0 (die_bytes d @ []) ?w" "header_length + length (die_bytes d @ []) = length ?bs"
    using unit_encodes_at(1) [OF assms(1), of 0] unit_encodes_at(2) [OF assms(1)] by (simp_all add: z)
  have wf: "die_wf dw cu d" "after_head d [] \<noteq> []" using assms(1) by (auto simp: unit_encodes_def after_head_def)
  obtain w1 where w1: "read_entry dw ?w = Inr (RE_OK, w1)" "at_head cu ?bs header_length 0 d [] w1"
    using read_die [OF at(1) z(2) wf at(2)] by blast
  have "get_attribute DW_AT_sibling (wk_entry ?w) = Some T_UNDEF" "en_level (wk_entry ?w) = 0"
    by (simp_all add: walker_new_def entry_init_def get_attribute_def name_to_index_def)
  then have mn: "move_next dw ?w = Inr (True, w1)" using next_loop_die [OF at(1) w1 wf(1)] by (simp add: move_next_def)
  obtain w2 where "dumps (\<lambda>n. recursive_dump n dw descr paths (of_nat 0) w1)
      (dump_lines (view_line dw descr paths cu) (die_views cu header_length 0 d)) w2"
    using recursive_dump_tree(1) [OF w1(2) wf(1) assms(2) at(2)] by blast
  then obtain N where "\<forall>n\<ge>N. recursive_dump n dw descr paths 0 w1
      = Some (bindE (dump_lines (view_line dw descr paths cu) (die_views cu header_length 0 d)) (\<lambda>s. Inr (w2, s)))"
    by (auto simp: dumps_def)
  then show ?thesis
    using mn by (intro exI [of _ N])
      (cases "dump_lines (view_line dw descr paths cu) (die_views cu header_length 0 d)"; simp add: dump_unit_def bindOE_def)
qed

lemma over_units_eventually:
  fixes f g :: "nat \<Rightarrow> compile_unit_t \<Rightarrow> (np_error + string) option"
  shows "\<forall>cu\<in>set cus. \<exists>N. \<forall>n\<ge>N. f n cu = g n cu \<Longrightarrow> \<exists>N. \<forall>n\<ge>N. over_units (f n) cus = over_units (g n) cus"
proof (induction cus)
  case (Cons cu cus)
  then obtain M N where M: "\<forall>n\<ge>M. f n cu = g n cu" and N: "\<forall>n\<ge>N. over_units (f n) cus = over_units (g n) cus" by auto
  have "over_units (f n) (cu # cus) = over_units (g n) (cu # cus)" if "max M N \<le> n" for n
    using M N that by (simp add: max.bounded_iff)
  then show ?case by blast
qed simp

lemma over_units_total: "\<forall>cu\<in>set cus. f cu \<noteq> None \<Longrightarrow> over_units f cus \<noteq> None"
  by (induction cus) (auto simp: bindOE_def split: option.splits sum.splits)

text \<open>
  C23. Printing all entries by recursion gives the same text as printing them in preorder, with or without the paths,
  if every unit encodes a tree of entries in which no entry without children refers to its sibling.
\<close>

theorem dump_info_orders_agree:
  assumes "\<forall>cu\<in>set (dw_units dw). \<exists>d. unit_encodes dw cu d \<and> plain_leaves cu d"
  shows "\<exists>N. \<forall>n\<ge>N. dump_info n dw descr False paths = dump_info n dw descr True paths
    \<and> dump_info n dw descr True paths \<noteq> None"
proof -
  let ?f = "\<lambda>preorder n cu. bindOE (dump_unit n dw descr preorder paths cu) (\<lambda>s. Some (Inr (unit_open @ s @ unit_close)))"
  have "\<forall>cu\<in>set (dw_units dw). \<exists>N. \<forall>n\<ge>N. ?f False n cu = ?f True n cu"
    using assms dump_unit_recursive [of dw _ _ descr paths] dump_unit_preorder [of dw _ _ _ descr paths] by metis
  then obtain N where N: "\<forall>n\<ge>N. over_units (?f False n) (dw_units dw) = over_units (?f True n) (dw_units dw)"
    using over_units_eventually [of "dw_units dw" "?f False" "?f True"] by blast
  have "\<forall>cu\<in>set (dw_units dw). ?f True n cu \<noteq> None" for n
    using assms dump_unit_preorder [of dw _ _ n descr paths] by (fastforce simp: bindOE_def split: sum.splits)
  then have "over_units (?f True n) (dw_units dw) \<noteq> None" for n by (rule over_units_total)
  then have "dump_info n dw descr True paths \<noteq> None" for n
    by (auto simp: dump_info_def bindOE_def [of "over_units _ _"] split: option.splits sum.splits)
  moreover have "dump_info n dw descr False paths = dump_info n dw descr True paths" if "N \<le> n" for n
    using N [rule_format, OF that] by (simp only: dump_info_def)
  ultimately show ?thesis by blast
qed

theorem dump_info_orders_agree_witness:
  "\<exists>N. \<forall>n\<ge>N. dump_info n \<lparr>dw_units = [demo_unit], dw_contents = \<lambda>_ _. []\<rparr> (\<lambda>_. []) False True
      = dump_info n \<lparr>dw_units = [demo_unit], dw_contents = \<lambda>_ _. []\<rparr> (\<lambda>_. []) True True
    \<and> dump_info n \<lparr>dw_units = [demo_unit], dw_contents = \<lambda>_ _. []\<rparr> (\<lambda>_. []) True True \<noteq> None"
proof -
  have "plain_leaves demo_unit demo_unit_die"
    by (simp add: demo_unit_die_def sibling_of_def head_view_def get_abbrev_def) (simp add: demo_unit_def)
  with demo_unit_encodes show ?thesis by (intro dump_info_orders_agree) auto
qed

end
