(* ===== verification/NP_Classifier.thy ===== *)
theory NP_Classifier
  imports NP_Types
begin

text \<open>
  \<^verbatim>\<open>np/classifier.{hxx,cxx}\<close> and the classification of function names in
  \<^verbatim>\<open>np/testmanager.cxx\<close>. The classifiers are extended regular expressions of the C library,
  compiled without regard to case; what the program uses of them is modelled here: anchors,
  characters, bracket expressions with ranges, the dot, the star of a single character, and
  one group that is not nested. The classification of a name is then compared with a direct
  description of the names the expressions stand for.
\<close>

section \<open>Regular expressions\<close>

text \<open>An element of an expression that takes one character: the ranges of characters it allows.\<close>

datatype re_atom = Ranges "(char \<times> char) list" | Any_Char

datatype re_token = Bol | Eol | One re_atom | Many re_atom | Group_Open | Group_Close

record regex_t =
  rx_tokens :: "re_token list"
  rx_icase :: bool

text \<open>
  Bracket expressions: the ranges up to the closing bracket, and the rest of the expression.
  Negated ones, and ones that start with a bracket, are left out.
\<close>

fun re_ranges :: "string \<Rightarrow> ((char \<times> char) list \<times> string) option" where
  "re_ranges (a # m # b # cs) =
     (if a = CHR '']'' then Some ([], m # b # cs)
      else if m = CHR ''-'' \<and> b \<noteq> CHR '']'' then map_option (\<lambda>(rs, rest). ((a, b) # rs, rest)) (re_ranges cs)
      else map_option (\<lambda>(rs, rest). ((a, a) # rs, rest)) (re_ranges (m # b # cs)))"
| "re_ranges (a # cs) =
     (if a = CHR '']'' then Some ([], cs) else map_option (\<lambda>(rs, rest). ((a, a) # rs, rest)) (re_ranges cs))"
| "re_ranges [] = None"

definition re_bracket :: "string \<Rightarrow> ((char \<times> char) list \<times> string) option" where
  "re_bracket cs = (if cs \<noteq> [] \<and> (hd cs = CHR ''^'' \<or> hd cs = CHR '']'') then None else re_ranges cs)"

text \<open>
  Compiling. An expression with a construct outside the ones described above is not compiled.
\<close>

definition re_star :: "re_atom \<Rightarrow> string \<Rightarrow> re_token \<times> string" where
  "re_star a cs = (if cs \<noteq> [] \<and> hd cs = CHR ''*'' then (Many a, tl cs) else (One a, cs))"

definition re_other :: "char \<Rightarrow> bool" where
  "re_other c \<longleftrightarrow> c \<in> set ''*+?{|'' \<or> c = CHR 0x5C"

lemma re_ranges_length: "re_ranges cs = Some (rs, rest) \<Longrightarrow> length rest < length cs"
  by (induction cs arbitrary: rs rest rule: re_ranges.induct) (fastforce split: if_splits)+

lemma re_bracket_length: "re_bracket cs = Some (rs, rest) \<Longrightarrow> length rest < length cs"
  by (auto simp: re_bracket_def re_ranges_length split: if_splits)

lemma re_star_length: "re_star a cs = (t, cs') \<Longrightarrow> length cs' \<le> length cs"
  by (auto simp: re_star_def split: if_splits)

function re_tokens :: "string \<Rightarrow> re_token list option" where
  "re_tokens [] = Some []"
| "re_tokens (c # cs) =
     (if c = CHR ''^'' then map_option (Cons Bol) (re_tokens cs)
      else if c = CHR ''$'' then map_option (Cons Eol) (re_tokens cs)
      else if c = CHR ''('' then map_option (Cons Group_Open) (re_tokens cs)
      else if c = CHR '')'' then map_option (Cons Group_Close) (re_tokens cs)
      else if re_other c then None
      else if c = CHR ''['' then
        (case re_bracket cs of
           None \<Rightarrow> None
         | Some (rs, cs1) \<Rightarrow> (case re_star (Ranges rs) cs1 of (t, cs2) \<Rightarrow> map_option (Cons t) (re_tokens cs2)))
      else (case re_star (if c = CHR ''.'' then Any_Char else Ranges [(c, c)]) cs of
              (t, cs2) \<Rightarrow> map_option (Cons t) (re_tokens cs2)))"
  by pat_completeness auto
termination
  by (relation "measure length") (auto dest!: re_bracket_length re_star_length [OF sym])

definition regcomp :: "string \<Rightarrow> bool \<Rightarrow> regex_t option" where
  "regcomp re icase =
     (case re_tokens re of
        None \<Rightarrow> None
      | Some ts \<Rightarrow>
          (let gs = filter (\<lambda>t. t = Group_Open \<or> t = Group_Close) ts
           in if gs = [] \<or> gs = [Group_Open, Group_Close] then Some \<lparr>rx_tokens = ts, rx_icase = icase\<rparr> else None))"

text \<open>Matching a character; without regard to case both cases of it are tried.\<close>

definition to_lower :: "char \<Rightarrow> char" where
  "to_lower c = (let n = of_char c :: nat in if 65 \<le> n \<and> n \<le> 90 then char_of (n + 32) else c)"

definition to_upper :: "char \<Rightarrow> char" where
  "to_upper c = (let n = of_char c :: nat in if 97 \<le> n \<and> n \<le> 122 then char_of (n - 32) else c)"

definition in_range :: "char \<Rightarrow> char \<times> char \<Rightarrow> bool" where
  "in_range c r \<longleftrightarrow> (of_char (fst r) :: nat) \<le> of_char c \<and> (of_char c :: nat) \<le> of_char (snd r)"

fun atom_matches :: "bool \<Rightarrow> re_atom \<Rightarrow> char \<Rightarrow> bool" where
  "atom_matches icase Any_Char c = True"
| "atom_matches icase (Ranges rs) c =
     (list_ex (in_range c) rs \<or> icase \<and> (list_ex (in_range (to_lower c)) rs \<or> list_ex (in_range (to_upper c)) rs))"

text \<open>
  Matching the tokens at a position of the subject, the longest run of a star first. The group
  is a pair of offsets; the result gives the end of the match and the group.
\<close>

type_synonym group = "(nat \<times> nat option) option"

fun re_match :: "bool \<Rightarrow> re_token list \<Rightarrow> nat \<Rightarrow> string \<Rightarrow> group \<Rightarrow> (nat \<times> group) option" where
  "re_match ic [] i s g = Some (i, g)"
| "re_match ic (Bol # ts) i s g = (if i = 0 then re_match ic ts i s g else None)"
| "re_match ic (Eol # ts) i s g = (if s = [] then re_match ic ts i s g else None)"
| "re_match ic (Group_Open # ts) i s g = re_match ic ts i s (Some (i, None))"
| "re_match ic (Group_Close # ts) i s g = re_match ic ts i s (map_option (\<lambda>(a, _). (a, Some i)) g)"
| "re_match ic (One a # ts) i s g =
     (case s of [] \<Rightarrow> None | c # cs \<Rightarrow> if atom_matches ic a c then re_match ic ts (Suc i) cs g else None)"
| "re_match ic (Many a # ts) i s g =
     (case s of
        [] \<Rightarrow> re_match ic ts i s g
      | c # cs \<Rightarrow>
          (case (if atom_matches ic a c then re_match ic (Many a # ts) (Suc i) cs g else None) of
             Some r \<Rightarrow> Some r
           | None \<Rightarrow> re_match ic ts i s g))"

text \<open>\<^verbatim>\<open>regexec\<close> with room for the whole match and the group: the first position that matches.\<close>

fun re_search :: "regex_t \<Rightarrow> nat \<Rightarrow> string \<Rightarrow> (nat \<times> nat \<times> group) option" where
  "re_search rx i s =
     (case re_match (rx_icase rx) (rx_tokens rx) i s None of
        Some (e, g) \<Rightarrow> Some (i, e, g)
      | None \<Rightarrow> (case s of [] \<Rightarrow> None | c # cs \<Rightarrow> re_search rx (Suc i) cs))"

definition regexec :: "regex_t \<Rightarrow> string \<Rightarrow> (nat \<times> nat \<times> group) option" where
  "regexec rx s = re_search rx 0 s"

section \<open>Classifiers\<close>

record 'r classifier_t =
  cl_re :: string
  cl_compiled :: regex_t
  cl_failed :: 'r
  cl_matched :: 'r

text \<open>\<^verbatim>\<open>set_regexp\<close> and \<^verbatim>\<open>set_results\<close>: nothing where the expression does not compile.\<close>

definition set_regexp :: "string \<Rightarrow> bool \<Rightarrow> regex_t option" where
  "set_regexp re case_sensitive = regcomp re (\<not> case_sensitive)"

text \<open>
  \<^verbatim>\<open>classify\<close>: the result for the name, and the buffer for the group, of \<open>maxmatch\<close> characters
  with the terminating one; the caller may pass no buffer.
\<close>

definition classify :: "'r classifier_t \<Rightarrow> string \<Rightarrow> string option \<Rightarrow> nat \<Rightarrow> 'r \<times> string option" where
  "classify cl func match_return maxmatch =
     (case regexec (cl_compiled cl) func of
        None \<Rightarrow> (cl_failed cl, match_return)
      | Some (_, _, Some (so, Some eo)) \<Rightarrow>
          if match_return = None then (cl_matched cl, None)
          else if eo - so \<ge> maxmatch then (cl_failed cl, match_return)
          else (cl_matched cl, Some (take (eo - so) (drop so func)))
      | Some (_, _, _) \<Rightarrow> (cl_matched cl, match_return))"

type_synonym classifiers = "functype_t classifier_t list"

fun classify_loop :: "classifiers \<Rightarrow> string \<Rightarrow> string option \<Rightarrow> nat \<Rightarrow> functype_t \<times> string option" where
  "classify_loop [] func buf maxmatch = (FT_UNKNOWN, buf)"
| "classify_loop (cl # cls) func buf maxmatch =
     (case classify cl func buf maxmatch of
        (ft, buf') \<Rightarrow> if ft \<noteq> FT_UNKNOWN then (ft, buf') else classify_loop cls func buf' maxmatch)"

text \<open>The buffer is emptied first.\<close>

definition classify_function :: "classifiers \<Rightarrow> string \<Rightarrow> string option \<Rightarrow> nat \<Rightarrow> functype_t \<times> string option" where
  "classify_function cls func match_return maxmatch =
     classify_loop cls func (if match_return \<noteq> None then Some [] else None) maxmatch"

definition add_classifier :: "string \<Rightarrow> bool \<Rightarrow> functype_t \<Rightarrow> classifiers \<Rightarrow> classifiers" where
  "add_classifier re case_sensitive type cls =
     (case set_regexp re case_sensitive of
        None \<Rightarrow> cls
      | Some rx \<Rightarrow> cls @ [\<lparr>cl_re = re, cl_compiled = rx, cl_failed = FT_UNKNOWN, cl_matched = type\<rparr>])"

definition classifier_table :: "(string \<times> functype_t) list" where
  "classifier_table =
     [(''^test_([a-z0-9].*)'', FT_TEST),
      (''^[tT]est([A-Z].*)'', FT_TEST),
      (''^[sS]etup$'', FT_BEFORE),
      (''^set_up$'', FT_BEFORE),
      (''^[iI]nit$'', FT_BEFORE),
      (''^[tT]ear[dD]own$'', FT_AFTER),
      (''^tear_down$'', FT_AFTER),
      (''^[cC]leanup$'', FT_AFTER),
      (''^mock_(.*)'', FT_MOCK),
      (''^[mM]ock([A-Z].*)'', FT_MOCK),
      (''^__np_parameter_(.*)'', FT_PARAM)]"

definition setup_classifiers :: "classifiers \<Rightarrow> classifiers" where
  "setup_classifiers cls = fold (\<lambda>(re, type). add_classifier re False type) classifier_table cls"

section \<open>The names the classifiers stand for\<close>

definition is_letter :: "char \<Rightarrow> bool" where
  "is_letter c \<longleftrightarrow> in_range (to_lower c) (CHR ''a'', CHR ''z'')"

definition is_digit :: "char \<Rightarrow> bool" where
  "is_digit c \<longleftrightarrow> in_range c (CHR ''0'', CHR ''9'')"

definition starts_with :: "(char \<Rightarrow> bool) \<Rightarrow> string \<Rightarrow> bool" where
  "starts_with P r \<longleftrightarrow> r \<noteq> [] \<and> P (hd r)"

definition has_prefix :: "string \<Rightarrow> string \<Rightarrow> bool" where
  "has_prefix p s \<longleftrightarrow> map to_lower (take (length p) s) = p"

text \<open>
  The direct description: a prefix in any case with a remainder of the right kind that fits the
  buffer, or a whole name in any case.
\<close>

definition name_class :: "string \<Rightarrow> functype_t \<times> string option" where
  "name_class s =
     (let named = (\<lambda>p ok. has_prefix p s \<and> ok (drop (length p) s) \<and> length s < length p + 512);
          rest = (\<lambda>p. Some (drop (length p) s));
          whole = (\<lambda>ws. map to_lower s \<in> set ws)
      in if named ''test_'' (starts_with (\<lambda>c. is_letter c \<or> is_digit c)) then (FT_TEST, rest ''test_'')
         else if named ''test'' (starts_with is_letter) then (FT_TEST, rest ''test'')
         else if whole [''setup'', ''set_up'', ''init''] then (FT_BEFORE, Some [])
         else if whole [''teardown'', ''tear_down'', ''cleanup''] then (FT_AFTER, Some [])
         else if named ''mock_'' (\<lambda>r. True) then (FT_MOCK, rest ''mock_'')
         else if named ''mock'' (starts_with is_letter) then (FT_MOCK, rest ''mock'')
         else if named ''__np_parameter_'' (\<lambda>r. True) then (FT_PARAM, rest ''__np_parameter_'')
         else (FT_UNKNOWN, Some []))"

section \<open>Matching in any case\<close>

lemma of_char_lt [simp]: "(of_char (c :: char) :: nat) < 256"
  using nat_of_char_less_256 [of c] by simp

lemma of_char_lower: "(of_char (to_lower c) :: nat) = (if 65 \<le> (of_char c :: nat) \<and> (of_char c :: nat) \<le> 90 then of_char c + 32 else of_char c)"
  by (simp add: to_lower_def Let_def)

lemma of_char_upper: "(of_char (to_upper c) :: nat) = (if 97 \<le> (of_char c :: nat) \<and> (of_char c :: nat) \<le> 122 then of_char c - 32 else of_char c)"
  using of_char_lt [of c] by (auto simp: to_upper_def Let_def intro!: mod_less)

lemma char_eq_nat: "(c :: char) = d \<longleftrightarrow> (of_char c :: nat) = of_char d"
  by simp

lemma to_lower_lower [simp]: "to_lower (to_lower c) = to_lower c" "to_lower (to_upper c) = to_lower c"
  unfolding char_eq_nat of_char_lower of_char_upper by (auto simp: not_le)

lemma in_range_same [simp]: "in_range c (d, d) \<longleftrightarrow> c = d"
  unfolding char_eq_nat in_range_def by auto

text \<open>An atom for a letter in any case.\<close>

definition reads :: "re_token \<Rightarrow> char \<Rightarrow> bool" where
  "reads t c \<longleftrightarrow> (\<exists>a. t = One a \<and> (\<forall>x. atom_matches True a x \<longleftrightarrow> to_lower x = c))"

lemma reads_ranges:
  assumes "\<forall>r\<in>set rs. fst r = snd r \<and> to_lower (fst r) = c" "(c, c) \<in> set rs"
  shows "reads (One (Ranges rs)) c"
proof -
  have "to_lower y = c" if "list_ex (in_range y) rs" for y
    using that assms(1) by (force simp: list_ex_iff)
  moreover have "list_ex (in_range (to_lower x)) rs" if "to_lower x = c" for x
    using that assms(2) by (force simp: list_ex_iff)
  ultimately have "atom_matches True (Ranges rs) x \<longleftrightarrow> to_lower x = c" for x by (metis atom_matches.simps(2) to_lower_lower)
  then show ?thesis by (auto simp: reads_def)
qed

lemma upper_range_letter: "atom_matches True (Ranges [(CHR ''A'', CHR ''Z'')]) c \<longleftrightarrow> is_letter c"
  by (auto simp: is_letter_def in_range_def of_char_lower of_char_upper split: if_splits)

lemma alnum_range: "atom_matches True (Ranges [(CHR ''a'', CHR ''z''), (CHR ''0'', CHR ''9'')]) c \<longleftrightarrow> is_letter c \<or> is_digit c"
  by (auto simp: is_letter_def is_digit_def in_range_def of_char_lower of_char_upper split: if_splits)

lemma re_match_prefix:
  "list_all2 reads ts p \<Longrightarrow>
     re_match True (ts @ rest) i s g = (if has_prefix p s then re_match True rest (i + length p) (drop (length p) s) g else None)"
proof (induction arbitrary: i s rule: list_all2_induct)
  case (Cons t ts c p)
  then show ?case by (cases s) (auto simp: reads_def has_prefix_def)
qed (simp add: has_prefix_def)

lemma re_match_rest:
  "re_match ic [Many Any_Char, Group_Close] i s g = Some (i + length s, map_option (\<lambda>(a, _). (a, Some (i + length s))) g)"
  by (induction s arbitrary: i) auto

lemma re_search_anchored: "0 < i \<Longrightarrow> rx_tokens rx = Bol # ts \<Longrightarrow> re_search rx i s = None"
  by (induction s arbitrary: i) auto

declare re_search.simps [simp del] re_match.simps(7) [simp del]

lemma regexec_anchored:
  assumes "rx_tokens rx = Bol # ts"
  shows "regexec rx s = map_option (\<lambda>(e, g). (0, e, g)) (re_match (rx_icase rx) ts 0 s None)"
  using re_search_anchored [OF _ assms, of 1] assms
  by (subst regexec_def, subst re_search.simps) (auto split: option.split list.split)

text \<open>The three kinds of classifiers.\<close>

lemma drop_Cons_length: "drop n s = c # cs \<Longrightarrow> length cs = length s - Suc n \<and> n < length s"
  by (drule arg_cong [of _ _ length]) auto

lemma classify_kind:
  assumes "list_all2 reads ts p" "rx_icase (cl_compiled cl)"
  shows "rx_tokens (cl_compiled cl) = Bol # ts @ [Group_Open, One a, Many Any_Char, Group_Close] \<Longrightarrow>
      classify cl s (Some buf) m =
        (if has_prefix p s \<and> starts_with (atom_matches True a) (drop (length p) s) \<and> length s < length p + m
         then (cl_matched cl, Some (drop (length p) s)) else (cl_failed cl, Some buf))"
    and "rx_tokens (cl_compiled cl) = Bol # ts @ [Group_Open, Many Any_Char, Group_Close] \<Longrightarrow> 0 < m \<Longrightarrow>
      classify cl s (Some buf) m =
        (if has_prefix p s \<and> length s < length p + m then (cl_matched cl, Some (drop (length p) s)) else (cl_failed cl, Some buf))"
    and "rx_tokens (cl_compiled cl) = Bol # ts @ [Eol] \<Longrightarrow>
      classify cl s (Some buf) m = (if map to_lower s = p then (cl_matched cl, Some buf) else (cl_failed cl, Some buf))"
proof -
  have len: "has_prefix p s \<Longrightarrow> length p \<le> length s"
    unfolding has_prefix_def by (drule arg_cong [of _ _ length]) simp
  have rx: "re_match True (ts @ rest) 0 s None = (if has_prefix p s then re_match True rest (length p) (drop (length p) s) None else None)" for rest
    using re_match_prefix [OF assms(1)] by simp
  show "rx_tokens (cl_compiled cl) = Bol # ts @ [Group_Open, One a, Many Any_Char, Group_Close] \<Longrightarrow>
      classify cl s (Some buf) m =
        (if has_prefix p s \<and> starts_with (atom_matches True a) (drop (length p) s) \<and> length s < length p + m
         then (cl_matched cl, Some (drop (length p) s)) else (cl_failed cl, Some buf))"
    using len assms(2)
    by (cases "drop (length p) s") (auto simp: classify_def regexec_anchored rx re_match_rest starts_with_def dest: drop_Cons_length)
  show "rx_tokens (cl_compiled cl) = Bol # ts @ [Group_Open, Many Any_Char, Group_Close] \<Longrightarrow> 0 < m \<Longrightarrow>
      classify cl s (Some buf) m =
        (if has_prefix p s \<and> length s < length p + m then (cl_matched cl, Some (drop (length p) s)) else (cl_failed cl, Some buf))"
    using len assms(2) by (auto simp: classify_def regexec_anchored rx re_match_rest)
  have "map to_lower s = p \<longleftrightarrow> has_prefix p s \<and> drop (length p) s = []" by (auto simp: has_prefix_def)
  then show "rx_tokens (cl_compiled cl) = Bol # ts @ [Eol] \<Longrightarrow>
      classify cl s (Some buf) m = (if map to_lower s = p then (cl_matched cl, Some buf) else (cl_failed cl, Some buf))"
    using assms(2) by (auto simp: classify_def regexec_anchored rx)
qed

definition lit :: "char \<Rightarrow> re_token" where
  "lit c = One (Ranges [(c, c)])"

lemma reads_lit: "to_lower c = c \<Longrightarrow> reads (lit c) c"
  by (simp add: lit_def reads_ranges)

lemma reads_both: "to_lower c = c \<Longrightarrow> to_lower d = c \<Longrightarrow> reads (One (Ranges [(c, c), (d, d)])) c"
  by (rule reads_ranges) auto

lemma compiled_table:
  "re_tokens ''^test_([a-z0-9].*)'' = Some (Bol # (map lit ''test_'') @ [Group_Open, One (Ranges [(CHR ''a'', CHR ''z''), (CHR ''0'', CHR ''9'')]), Many Any_Char, Group_Close])"
  "re_tokens ''^[tT]est([A-Z].*)'' = Some (Bol # ([One (Ranges [(CHR ''t'', CHR ''t''), (CHR ''T'', CHR ''T'')])] @ map lit ''est'') @ [Group_Open, One (Ranges [(CHR ''A'', CHR ''Z'')]), Many Any_Char, Group_Close])"
  "re_tokens ''^[sS]etup$'' = Some (Bol # ([One (Ranges [(CHR ''s'', CHR ''s''), (CHR ''S'', CHR ''S'')])] @ map lit ''etup'') @ [Eol])"
  "re_tokens ''^set_up$'' = Some (Bol # (map lit ''set_up'') @ [Eol])"
  "re_tokens ''^[iI]nit$'' = Some (Bol # ([One (Ranges [(CHR ''i'', CHR ''i''), (CHR ''I'', CHR ''I'')])] @ map lit ''nit'') @ [Eol])"
  "re_tokens ''^[tT]ear[dD]own$'' = Some (Bol # ([One (Ranges [(CHR ''t'', CHR ''t''), (CHR ''T'', CHR ''T'')])] @ map lit ''ear'' @ [One (Ranges [(CHR ''d'', CHR ''d''), (CHR ''D'', CHR ''D'')])] @ map lit ''own'') @ [Eol])"
  "re_tokens ''^tear_down$'' = Some (Bol # (map lit ''tear_down'') @ [Eol])"
  "re_tokens ''^[cC]leanup$'' = Some (Bol # ([One (Ranges [(CHR ''c'', CHR ''c''), (CHR ''C'', CHR ''C'')])] @ map lit ''leanup'') @ [Eol])"
  "re_tokens ''^mock_(.*)'' = Some (Bol # (map lit ''mock_'') @ [Group_Open, Many Any_Char, Group_Close])"
  "re_tokens ''^[mM]ock([A-Z].*)'' = Some (Bol # ([One (Ranges [(CHR ''m'', CHR ''m''), (CHR ''M'', CHR ''M'')])] @ map lit ''ock'') @ [Group_Open, One (Ranges [(CHR ''A'', CHR ''Z'')]), Many Any_Char, Group_Close])"
  "re_tokens ''^__np_parameter_(.*)'' = Some (Bol # (map lit ''__np_parameter_'') @ [Group_Open, Many Any_Char, Group_Close])"
  by (simp_all add: re_star_def re_other_def re_bracket_def lit_def)

lemma read_table:
  "list_all2 reads (map lit ''test_'') ''test_''"
  "list_all2 reads ([One (Ranges [(CHR ''t'', CHR ''t''), (CHR ''T'', CHR ''T'')])] @ map lit ''est'') ''test''"
  "list_all2 reads ([One (Ranges [(CHR ''s'', CHR ''s''), (CHR ''S'', CHR ''S'')])] @ map lit ''etup'') ''setup''"
  "list_all2 reads (map lit ''set_up'') ''set_up''"
  "list_all2 reads ([One (Ranges [(CHR ''i'', CHR ''i''), (CHR ''I'', CHR ''I'')])] @ map lit ''nit'') ''init''"
  "list_all2 reads ([One (Ranges [(CHR ''t'', CHR ''t''), (CHR ''T'', CHR ''T'')])] @ map lit ''ear'' @ [One (Ranges [(CHR ''d'', CHR ''d''), (CHR ''D'', CHR ''D'')])] @ map lit ''own'') ''teardown''"
  "list_all2 reads (map lit ''tear_down'') ''tear_down''"
  "list_all2 reads ([One (Ranges [(CHR ''c'', CHR ''c''), (CHR ''C'', CHR ''C'')])] @ map lit ''leanup'') ''cleanup''"
  "list_all2 reads (map lit ''mock_'') ''mock_''"
  "list_all2 reads ([One (Ranges [(CHR ''m'', CHR ''m''), (CHR ''M'', CHR ''M'')])] @ map lit ''ock'') ''mock''"
  "list_all2 reads (map lit ''__np_parameter_'') ''__np_parameter_''"
  by (auto intro!: reads_lit reads_both simp: to_lower_def char_of_def bit_Suc_0_iff)

declare re_tokens.simps [simp del]

definition table_classifier :: "string \<times> functype_t \<Rightarrow> functype_t classifier_t" where
  "table_classifier row =
     \<lparr>cl_re = fst row, cl_compiled = \<lparr>rx_tokens = the (re_tokens (fst row)), rx_icase = True\<rparr>, cl_failed = FT_UNKNOWN, cl_matched = snd row\<rparr>"

lemma add_classifier_table:
  "row \<in> set classifier_table \<Longrightarrow> add_classifier (fst row) False (snd row) cls = cls @ [table_classifier row]"
  by (auto simp: classifier_table_def add_classifier_def set_regexp_def regcomp_def compiled_table lit_def table_classifier_def)

lemma setup_classifiers_eq: "setup_classifiers cls = cls @ map table_classifier classifier_table"
proof -
  have "set rows \<subseteq> set classifier_table \<Longrightarrow>
    fold (\<lambda>(re, type). add_classifier re False type) rows cls = cls @ map table_classifier rows" for rows cls
    by (induction rows arbitrary: cls) (auto simp: add_classifier_table [of "(re, ty)" for re ty, simplified])
  then show ?thesis by (simp add: setup_classifiers_def)
qed

lemma starts_with_ranges:
  "starts_with (atom_matches True (Ranges [(CHR ''A'', CHR ''Z'')])) = starts_with is_letter"
  "starts_with (atom_matches True (Ranges [(CHR ''a'', CHR ''z''), (CHR ''0'', CHR ''9'')])) = starts_with (\<lambda>c. is_letter c \<or> is_digit c)"
  by (simp_all add: fun_eq_iff starts_with_def upper_range_letter alnum_range del: atom_matches.simps)

lemma table_classifier_simps:
  "rx_tokens (cl_compiled (table_classifier (re, ft))) = the (re_tokens re)" "rx_icase (cl_compiled (table_classifier (re, ft)))"
  "cl_matched (table_classifier (re, ft)) = ft" "cl_failed (table_classifier (re, ft)) = FT_UNKNOWN"
  by (simp_all add: table_classifier_def)

lemma table_kind:
  assumes "list_all2 reads ts p"
  shows "re_tokens re = Some (Bol # ts @ [Group_Open, One a, Many Any_Char, Group_Close]) \<Longrightarrow>
      classify (table_classifier (re, type)) s (Some buf) 512 =
        (if has_prefix p s \<and> starts_with (atom_matches True a) (drop (length p) s) \<and> length s < length p + 512
         then (type, Some (drop (length p) s)) else (FT_UNKNOWN, Some buf))"
    and "re_tokens re = Some (Bol # ts @ [Group_Open, Many Any_Char, Group_Close]) \<Longrightarrow>
      classify (table_classifier (re, type)) s (Some buf) 512 =
        (if has_prefix p s \<and> length s < length p + 512 then (type, Some (drop (length p) s)) else (FT_UNKNOWN, Some buf))"
    and "re_tokens re = Some (Bol # ts @ [Eol]) \<Longrightarrow>
      classify (table_classifier (re, type)) s (Some buf) 512 = (if map to_lower s = p then (type, Some buf) else (FT_UNKNOWN, Some buf))"
  using classify_kind [OF assms, of "table_classifier (re, type)"] by (simp_all add: table_classifier_simps)

lemma classify_table:
  "classify (table_classifier (''^test_([a-z0-9].*)'', type)) s (Some buf) 512 =
     (if has_prefix ''test_'' s \<and> starts_with (\<lambda>c. is_letter c \<or> is_digit c) (drop (length ''test_'') s) \<and> length s < length ''test_'' + 512 then (type, Some (drop (length ''test_'') s)) else (FT_UNKNOWN, Some buf))"
  "classify (table_classifier (''^[tT]est([A-Z].*)'', type)) s (Some buf) 512 =
     (if has_prefix ''test'' s \<and> starts_with is_letter (drop (length ''test'') s) \<and> length s < length ''test'' + 512 then (type, Some (drop (length ''test'') s)) else (FT_UNKNOWN, Some buf))"
  "classify (table_classifier (''^[sS]etup$'', type)) s (Some buf) 512 =
     (if map to_lower s = ''setup'' then (type, Some buf) else (FT_UNKNOWN, Some buf))"
  "classify (table_classifier (''^set_up$'', type)) s (Some buf) 512 =
     (if map to_lower s = ''set_up'' then (type, Some buf) else (FT_UNKNOWN, Some buf))"
  "classify (table_classifier (''^[iI]nit$'', type)) s (Some buf) 512 =
     (if map to_lower s = ''init'' then (type, Some buf) else (FT_UNKNOWN, Some buf))"
  "classify (table_classifier (''^[tT]ear[dD]own$'', type)) s (Some buf) 512 =
     (if map to_lower s = ''teardown'' then (type, Some buf) else (FT_UNKNOWN, Some buf))"
  "classify (table_classifier (''^tear_down$'', type)) s (Some buf) 512 =
     (if map to_lower s = ''tear_down'' then (type, Some buf) else (FT_UNKNOWN, Some buf))"
  "classify (table_classifier (''^[cC]leanup$'', type)) s (Some buf) 512 =
     (if map to_lower s = ''cleanup'' then (type, Some buf) else (FT_UNKNOWN, Some buf))"
  "classify (table_classifier (''^mock_(.*)'', type)) s (Some buf) 512 =
     (if has_prefix ''mock_'' s \<and> length s < length ''mock_'' + 512 then (type, Some (drop (length ''mock_'') s)) else (FT_UNKNOWN, Some buf))"
  "classify (table_classifier (''^[mM]ock([A-Z].*)'', type)) s (Some buf) 512 =
     (if has_prefix ''mock'' s \<and> starts_with is_letter (drop (length ''mock'') s) \<and> length s < length ''mock'' + 512 then (type, Some (drop (length ''mock'') s)) else (FT_UNKNOWN, Some buf))"
  "classify (table_classifier (''^__np_parameter_(.*)'', type)) s (Some buf) 512 =
     (if has_prefix ''__np_parameter_'' s \<and> length s < length ''__np_parameter_'' + 512 then (type, Some (drop (length ''__np_parameter_'') s)) else (FT_UNKNOWN, Some buf))"
  subgoal by (rule table_kind(1) [OF read_table(1) compiled_table(1), unfolded starts_with_ranges])
  subgoal by (rule table_kind(1) [OF read_table(2) compiled_table(2), unfolded starts_with_ranges])
  subgoal by (rule table_kind(3) [OF read_table(3) compiled_table(3)])
  subgoal by (rule table_kind(3) [OF read_table(4) compiled_table(4)])
  subgoal by (rule table_kind(3) [OF read_table(5) compiled_table(5)])
  subgoal by (rule table_kind(3) [OF read_table(6) compiled_table(6)])
  subgoal by (rule table_kind(3) [OF read_table(7) compiled_table(7)])
  subgoal by (rule table_kind(3) [OF read_table(8) compiled_table(8)])
  subgoal by (rule table_kind(2) [OF read_table(9) compiled_table(9)])
  subgoal by (rule table_kind(1) [OF read_table(10) compiled_table(10), unfolded starts_with_ranges])
  subgoal by (rule table_kind(2) [OF read_table(11) compiled_table(11)])
  done

lemma classify_loop_row:
  "classify cl s buf m = (if c then (ft, r) else (FT_UNKNOWN, buf)) \<Longrightarrow> ft \<noteq> FT_UNKNOWN \<Longrightarrow>
     classify_loop (cl # cls) s buf m = (if c then (ft, r) else classify_loop cls s buf m)"
  by simp

lemma if_disj: "(if a \<or> b then x else y) = (if a then x else if b then x else y)"
  by simp

lemma classify_names_loop: "classify_loop (map table_classifier classifier_table) s (Some []) 512 = name_class s"
  unfolding classifier_table_def name_class_def Let_def list.map
  by (simp only: classify_table [THEN classify_loop_row] functype_t.distinct simp_thms not_False_eq_True classify_loop.simps(1)
      list.set insert_iff empty_iff if_disj)

lemma name_class_fixture: "name_class s = (ft, r) \<Longrightarrow> ft = FT_BEFORE \<or> ft = FT_AFTER \<Longrightarrow> r = Some []"
  by (auto simp: name_class_def Let_def split: if_splits)

text \<open>
  C19. The regular expressions classify every function name the way the direct description
  does, also where a remainder is too long for the buffer: tests, set-up and tear-down functions,
  mocks and parameters are recognised by their prefix or their whole name, in any case.
\<close>

theorem classify_function_names: "classify_function (setup_classifiers []) s (Some buf) 512 = name_class s"
  by (simp add: setup_classifiers_eq classify_function_def classify_names_loop)

end
