(* ===== verification/NP_Testmanager.thy ===== *)
theory NP_Testmanager
  imports NP_Classifier NP_Testnode NP_Spiegel
begin

text \<open>
  \<^verbatim>\<open>np/testmanager.{hxx,cxx}\<close>: the test manager. It reads the functions of the program from
  the debugging information, classifies them by their names and hangs them into the tree of test
  nodes. What it takes from the running program is one argument: the memory and working
  directory the debugging information is read with, what calling a function returns, what the
  declaration of a parameter holds, and where an entry of the procedure linkage table leads.
\<close>

section \<open>State\<close>

record world_t =
  wd_mem :: "u64 \<Rightarrow> u8"
  wd_cwd :: string
  wd_call :: "addr_t \<Rightarrow> u64"
  wd_param_dec :: "u64 \<Rightarrow> addr_t \<times> string"
  wd_follow_plt :: "addr_t \<Rightarrow> addr_t"

datatype warning_t = Warn_Libc string | Warn_No_Target string string | Warn_No_Tests

text \<open>
  The members of the manager, with the count of tests found and the number of intercept
  objects made. The detached upper part of the tree is only kept to be freed and is left out.
\<close>

record testmanager_t =
  tm_classifiers :: classifiers
  tm_spiegel :: "state_t option"
  tm_factory :: factory_t
  tm_root :: testnode_t
  tm_ntests :: nat
  tm_intercepts :: nat
  tm_warnings :: "warning_t list"

definition testmanager_new :: testmanager_t where
  "testmanager_new =
     \<lparr>tm_classifiers = [], tm_spiegel = None, tm_factory = Map.empty, tm_root = testnode_new None, tm_ntests = 0,
      tm_intercepts = 0, tm_warnings = []\<rparr>"

section \<open>Names\<close>

definition get_absolute_path :: "string \<Rightarrow> compile_unit_t \<Rightarrow> np_error + string" where
  "get_absolute_path cwd cu =
     make_absolute_to_dir cwd (case cu_filename cu of None \<Rightarrow> [] | Some f \<Rightarrow> f)
       (case cu_compilation_directory cu of None \<Rightarrow> [] | Some d \<Rightarrow> d)"

definition function_path :: "world_t \<Rightarrow> state_t \<Rightarrow> NP_Spiegel.function_t \<Rightarrow> np_error + string" where
  "function_path wd st fn =
     bindE (get_compile_unit (state_dwarf (wd_mem wd) st) fn) (\<lambda>i. get_absolute_path (wd_cwd wd) (st_units st ! i))"

definition strip_extension :: "string \<Rightarrow> string" where
  "strip_extension name = (case find_last_of name CHR ''.'' of None \<Rightarrow> name | Some p \<Rightarrow> take p name)"

definition test_name :: "world_t \<Rightarrow> state_t \<Rightarrow> NP_Spiegel.function_t \<Rightarrow> string \<Rightarrow> np_error + string" where
  "test_name wd st fn submatch =
     bindE (function_path wd st fn) (\<lambda>name. Inr (strip_extension name @ (if submatch \<noteq> [] then ''/'' @ submatch else [])))"

definition libc_names :: "string list" where
  "libc_names =
     [''alphasort'', ''creat'', ''fallocate'', ''fclose'', ''fdopen'', ''fgetpos'', ''fopen'', ''fputs'',
      ''freopen'', ''fseeko'', ''fsetpos'', ''fstat'', ''fstatat'', ''fstatfs'', ''fstatvfs'', ''ftello'',
      ''ftruncate'', ''ftw'', ''getdirentries'', ''getrlimit'', ''glob'', ''globfree'', ''lockf'', ''lseek'',
      ''lstat'', ''mkostemp'', ''mkostemps'', ''mkstemp'', ''mkstemps'', ''mmap'', ''nftw'', ''open'',
      ''openat'', ''posix_fadvise'', ''posix_fallocate'', ''pread'', ''preadv'', ''prlimit'', ''pwrite'',
      ''pwritev'', ''readdir'', ''scandir'', ''scandirat'', ''sendfile'', ''setrlimit'', ''stat'', ''statfs'',
      ''statvfs'', ''tmpfile'', ''truncate'', ''versionsort'']"

definition warn_on_automock :: "string \<Rightarrow> bool" where
  "warn_on_automock target \<longleftrightarrow> target \<in> set libc_names"

section \<open>Mock targets and parameters\<close>

fun find_target :: "string \<Rightarrow> NP_Spiegel.function_t option list \<Rightarrow> np_error + NP_Spiegel.function_t option" where
  "find_target name [] = Inr None"
| "find_target name (None # fns) = Inl Null_Deref"
| "find_target name (Some f # fns) =
     (if NP_Spiegel.fn_name f \<noteq> name \<or> fn_is_declaration f \<or> fn_low_pc f = 0 then find_target name fns else Inr (Some f))"

fun target_loop ::
  "dwarf_t \<Rightarrow> string \<Rightarrow> compile_unit_t list \<Rightarrow> factory_t \<Rightarrow> (np_error + NP_Spiegel.function_t option \<times> factory_t) option" where
  "target_loop dw name [] fac = Some (Inr (None, fac))"
| "target_loop dw name (cu # cus) fac =
     bindOE (get_functions dw cu fac) (\<lambda>(fns, fac').
       bindOE (Some (find_target name fns)) (\<lambda>t.
         case t of Some f \<Rightarrow> Some (Inr (Some f, fac')) | None \<Rightarrow> target_loop dw name cus fac'))"

definition find_mock_target ::
  "world_t \<Rightarrow> state_t \<Rightarrow> string \<Rightarrow> factory_t \<Rightarrow> (np_error + NP_Spiegel.function_t option \<times> factory_t) option" where
  "find_mock_target wd st name fac = target_loop (state_dwarf (wd_mem wd) st) name (st_units st) fac"

text \<open>The declaration of a parameter is read through the pointer the function returns.\<close>

definition get_param_dec ::
  "world_t \<Rightarrow> state_t \<Rightarrow> NP_Spiegel.function_t \<Rightarrow> factory_t \<Rightarrow> (np_error + (addr_t \<times> string) \<times> factory_t) option" where
  "get_param_dec wd st fn fac =
     bindOE (invoke (wd_call wd) st (state_dwarf (wd_mem wd) st) fn fac) (\<lambda>(v, fac').
       Some (if sv_bits v = 0 then Inl Null_Deref else Inr (wd_param_dec wd (sv_bits v), fac')))"

section \<open>Discovering functions\<close>

text \<open>Changing the node a name leads to.\<close>

definition place :: "string \<Rightarrow> (testnode_t \<Rightarrow> np_error + testnode_t) \<Rightarrow> testnode_t \<Rightarrow> np_error + testnode_t" where
  "place name f root =
     bindE (make_path name root) (\<lambda>(root', p).
       case node_at root' p of
         None \<Rightarrow> Inl Bad_Pointer
       | Some n \<Rightarrow> bindE (f n) (\<lambda>n'. Inr (update_at p (\<lambda>_. n') root')))"

text \<open>What the tests and the events later read of a function.\<close>

definition event_function :: "world_t \<Rightarrow> state_t \<Rightarrow> NP_Spiegel.function_t \<Rightarrow> np_error + NP_Event.function_t" where
  "event_function wd st fn =
     bindE (function_path wd st fn) (\<lambda>path.
       bindE (get_live_address st (state_dwarf (wd_mem wd) st) fn) (\<lambda>addr.
         Inr \<lparr>NP_Event.function_t.fn_name = NP_Spiegel.fn_name fn, fn_path = path, fn_addr = addr\<rparr>))"

text \<open>Whether a function returns a type of the given class and takes no parameters.\<close>

definition has_signature ::
  "dwarf_t \<Rightarrow> NP_Spiegel.function_t \<Rightarrow> u32 \<Rightarrow> factory_t \<Rightarrow> (np_error + bool \<times> factory_t) option" where
  "has_signature dw fn cls fac =
     bindOE (Some (get_return_type dw fn fac)) (\<lambda>(ty, fac1).
       bindOE (get_classification dw ty) (\<lambda>c.
         if c \<noteq> cls then Some (Inr (False, fac1))
         else bindOE (get_parameter_types dw fn fac1) (\<lambda>(ts, fac2). Some (Inr (ts = [], fac2)))))"

definition add_function ::
  "world_t \<Rightarrow> state_t \<Rightarrow> functype_t \<Rightarrow> u32 \<Rightarrow> string \<Rightarrow> NP_Spiegel.function_t \<Rightarrow> testmanager_t \<Rightarrow> (np_error + testmanager_t) option" where
  "add_function wd st type cls submatch fn tm =
     bindOE (has_signature (state_dwarf (wd_mem wd) st) fn cls (tm_factory tm)) (\<lambda>(ok, fac).
       if \<not> ok then Some (Inr (tm\<lparr>tm_factory := fac\<rparr>))
       else Some (
         bindE (test_name wd st fn submatch) (\<lambda>name.
         bindE (event_function wd st fn) (\<lambda>f.
         bindE (place name (set_function type f) (tm_root tm)) (\<lambda>root.
           Inr (tm\<lparr>tm_factory := fac, tm_root := root, tm_ntests := (if type = FT_TEST then Suc (tm_ntests tm) else tm_ntests tm)\<rparr>))))))"

definition add_target_mock ::
  "world_t \<Rightarrow> state_t \<Rightarrow> NP_Spiegel.function_t \<Rightarrow> NP_Spiegel.function_t \<Rightarrow> testmanager_t \<Rightarrow> (np_error + testmanager_t) option" where
  "add_target_mock wd st target fn tm =
     (let dw = state_dwarf (wd_mem wd) st
      in bindOE (Some (test_name wd st fn [])) (\<lambda>name.
         bindOE (Some (get_live_address st dw target)) (\<lambda>from.
         bindOE (fn_get_full_name dw target) (\<lambda>full.
         bindOE (Some (get_live_address st dw fn)) (\<lambda>to.
         bindOE (Some (place name (\<lambda>n. Inr (add_mock (\<lambda>a. instrumentable_address (wd_follow_plt wd) a st) (tm_intercepts tm)
                                              from (Some full) to n)) (tm_root tm))) (\<lambda>root.
           Some (Inr (tm\<lparr>tm_root := root, tm_intercepts := Suc (tm_intercepts tm)\<rparr>))))))))"

definition add_auto_mock ::
  "world_t \<Rightarrow> state_t \<Rightarrow> string \<Rightarrow> NP_Spiegel.function_t \<Rightarrow> testmanager_t \<Rightarrow> (np_error + testmanager_t) option" where
  "add_auto_mock wd st submatch fn tm =
     (let tm1 = (if warn_on_automock submatch then tm\<lparr>tm_warnings := tm_warnings tm @ [Warn_Libc submatch]\<rparr> else tm)
      in bindOE (find_mock_target wd st submatch (tm_factory tm1)) (\<lambda>(target, fac).
           let tm2 = tm1\<lparr>tm_factory := fac\<rparr>
           in case target of
                None \<Rightarrow> Some (Inr (tm2\<lparr>tm_warnings := tm_warnings tm2 @ [Warn_No_Target submatch (NP_Spiegel.fn_name fn)]\<rparr>))
              | Some t \<Rightarrow> add_target_mock wd st t fn tm2))"

definition add_param ::
  "world_t \<Rightarrow> state_t \<Rightarrow> string \<Rightarrow> NP_Spiegel.function_t \<Rightarrow> testmanager_t \<Rightarrow> (np_error + testmanager_t) option" where
  "add_param wd st submatch fn tm =
     bindOE (get_param_dec wd st fn (tm_factory tm)) (\<lambda>((var, vals), fac).
       Some (
         bindE (test_name wd st fn []) (\<lambda>name.
         bindE (place name (\<lambda>n. Inr (add_parameter submatch var vals n)) (tm_root tm)) (\<lambda>root.
           Inr (tm\<lparr>tm_factory := fac, tm_root := root\<rparr>)))))"

definition discover_function ::
  "world_t \<Rightarrow> state_t \<Rightarrow> NP_Spiegel.function_t option \<Rightarrow> testmanager_t \<Rightarrow> (np_error + testmanager_t) option" where
  "discover_function wd st f tm =
     (case f of
        None \<Rightarrow> Some (Inl Null_Deref)
      | Some fn \<Rightarrow>
          if fn_low_pc fn = 0 then Some (Inr tm)
          else case classify_function (tm_classifiers tm) (NP_Spiegel.fn_name fn) (Some []) 512 of
            (type, buf) \<Rightarrow>
              let submatch = the buf
              in case type of
                   FT_UNKNOWN \<Rightarrow> Some (Inr tm)
                 | FT_TEST \<Rightarrow> if submatch = [] then Some (Inr tm) else add_function wd st FT_TEST TC_VOID submatch fn tm
                 | FT_MOCK \<Rightarrow> if submatch = [] then Some (Inr tm) else add_auto_mock wd st submatch fn tm
                 | FT_PARAM \<Rightarrow> if submatch = [] then Some (Inr tm) else add_param wd st submatch fn tm
                 | _ \<Rightarrow> if submatch \<noteq> [] then Some (Inl Assert_Failed)
                        else add_function wd st type TC_SIGNED_INT submatch fn tm)"

fun discover_loop ::
  "world_t \<Rightarrow> state_t \<Rightarrow> NP_Spiegel.function_t option list \<Rightarrow> testmanager_t \<Rightarrow> (np_error + testmanager_t) option" where
  "discover_loop wd st [] tm = Some (Inr tm)"
| "discover_loop wd st (f # fns) tm = bindOE (discover_function wd st f tm) (discover_loop wd st fns)"

fun discover_units ::
  "world_t \<Rightarrow> state_t \<Rightarrow> compile_unit_t list \<Rightarrow> testmanager_t \<Rightarrow> (np_error + testmanager_t) option" where
  "discover_units wd st [] tm = Some (Inr tm)"
| "discover_units wd st (cu # cus) tm =
     bindOE (get_functions (state_dwarf (wd_mem wd) st) cu (tm_factory tm)) (\<lambda>(fns, fac).
       bindOE (discover_loop wd st fns (tm\<lparr>tm_factory := fac\<rparr>)) (discover_units wd st cus))"

text \<open>
  \<^verbatim>\<open>discover_functions\<close>: the reflection state is made on the first call. The result of
  \<^verbatim>\<open>add_self\<close> is not looked at.
\<close>

definition discover_functions ::
  "platform_t \<Rightarrow> string \<Rightarrow> linkobj_t list \<Rightarrow> world_t \<Rightarrow> testmanager_t \<Rightarrow> (np_error + testmanager_t) option" where
  "discover_functions pf exe los wd tm =
     bindOE (case tm_spiegel tm of
               Some st \<Rightarrow> Some (Inr (st, tm))
             | None \<Rightarrow> Some (bindE (add_self pf exe los state_new) (\<lambda>(_, st).
                 Inr (st, tm\<lparr>tm_spiegel := Some st, tm_root := testnode_new None\<rparr>)))) (\<lambda>(st, tm1).
     bindOE (discover_units wd st (st_units st) (tm1\<lparr>tm_ntests := 0\<rparr>)) (\<lambda>tm2.
       let tm3 = (if tm_ntests tm2 = 0 then tm2\<lparr>tm_warnings := tm_warnings tm2 @ [Warn_No_Tests]\<rparr> else tm2)
       in Some (Inr (tm3\<lparr>tm_root := detach_common (tm_root tm3)\<rparr>))))"

text \<open>
  The built-in intercepts on the root: the addresses of the functions of the C library and of
  the functions that stand in for them.
\<close>

definition add_builtin :: "world_t \<Rightarrow> state_t \<Rightarrow> addr_t \<times> string \<times> addr_t \<Rightarrow> testmanager_t \<Rightarrow> testmanager_t" where
  "add_builtin wd st b tm =
     (case b of (from, name, to) \<Rightarrow>
        tm\<lparr>tm_root := add_mock (\<lambda>a. instrumentable_address (wd_follow_plt wd) a st) (tm_intercepts tm) from (Some name) to (tm_root tm),
           tm_intercepts := Suc (tm_intercepts tm)\<rparr>)"

definition init_syslog_intercepts :: "world_t \<Rightarrow> state_t \<Rightarrow> (string \<Rightarrow> addr_t) \<Rightarrow> testmanager_t \<Rightarrow> testmanager_t" where
  "init_syslog_intercepts wd st sy tm =
     add_builtin wd st (sy ''__syslog_chk'', ''__syslog_chk'', sy ''mock___syslog_chk'')
       (add_builtin wd st (sy ''syslog'', ''syslog'', sy ''mock_syslog'') tm)"

definition init_exit_intercepts :: "world_t \<Rightarrow> state_t \<Rightarrow> (string \<Rightarrow> addr_t) \<Rightarrow> testmanager_t \<Rightarrow> testmanager_t" where
  "init_exit_intercepts wd st sy tm = add_builtin wd st (sy ''exit'', ''exit'', sy ''mock_exit'') tm"

definition setup_builtin_intercepts :: "world_t \<Rightarrow> state_t \<Rightarrow> (string \<Rightarrow> addr_t) \<Rightarrow> testmanager_t \<Rightarrow> testmanager_t" where
  "setup_builtin_intercepts wd st sy tm = init_exit_intercepts wd st sy (init_syslog_intercepts wd st sy tm)"

definition instance_new ::
  "platform_t \<Rightarrow> string \<Rightarrow> linkobj_t list \<Rightarrow> (string \<Rightarrow> addr_t) \<Rightarrow> world_t \<Rightarrow> (np_error + testmanager_t) option" where
  "instance_new pf exe los sy wd =
     (let tm = testmanager_new\<lparr>tm_classifiers := setup_classifiers []\<rparr>
      in bindOE (discover_functions pf exe los wd tm) (\<lambda>tm1.
           Some (case tm_spiegel tm1 of None \<Rightarrow> Inl Null_Deref | Some st \<Rightarrow> Inr (setup_builtin_intercepts wd st sy tm1))))"

text \<open>\<^verbatim>\<open>root_->find\<close>, the root having been made.\<close>

definition tm_find_node :: "testmanager_t \<Rightarrow> string \<Rightarrow> pos option" where
  "tm_find_node tm nm = find_node (tm_root tm) nm"

section \<open>Mocks by name\<close>

definition mock_by_name ::
  "kernel \<Rightarrow> world_t \<Rightarrow> state_t \<Rightarrow> string \<Rightarrow> addr_t \<Rightarrow> nat \<Rightarrow> factory_t \<times> intercept_t list \<times> ireg \<Rightarrow>
   (np_error + factory_t \<times> intercept_t list \<times> ireg) option" where
  "mock_by_name k wd st fname to nid s =
     (case s of (fac, ds) \<Rightarrow>
        bindOE (find_mock_target wd st fname fac) (\<lambda>(f, fac').
          case f of
            None \<Rightarrow> Some (Inl Null_Deref)
          | Some fn \<Rightarrow>
              bindOE (Some (get_live_address st (state_dwarf (wd_mem wd) st) fn)) (\<lambda>from.
              bindOE (fn_get_full_name (state_dwarf (wd_mem wd) st) fn) (\<lambda>full.
                Some (Inr (fac', np_mock k (\<lambda>a. instrumentable_address (wd_follow_plt wd) a st) nid from (Some full) to ds))))))"

definition unmock_by_name ::
  "kernel \<Rightarrow> world_t \<Rightarrow> state_t \<Rightarrow> string \<Rightarrow> factory_t \<times> intercept_t list \<times> ireg \<Rightarrow>
   (np_error + factory_t \<times> intercept_t list \<times> ireg) option" where
  "unmock_by_name k wd st fname s =
     (case s of (fac, ds) \<Rightarrow>
        bindOE (find_mock_target wd st fname fac) (\<lambda>(f, fac').
          case f of
            None \<Rightarrow> Some (Inl Null_Deref)
          | Some fn \<Rightarrow>
              bindOE (Some (get_live_address st (state_dwarf (wd_mem wd) st) fn)) (\<lambda>from.
                Some (Inr (fac', np_unmock k from ds)))))"

section \<open>The functions in a tree\<close>

text \<open>The functions of the tree by the names that lead to their nodes.\<close>

fun walk :: "string list \<Rightarrow> testnode_t \<Rightarrow> testnode_t option" where
  "walk [] n = Some n"
| "walk (x # xs) n = (case child_index x (tn_children n) of None \<Rightarrow> None | Some i \<Rightarrow> walk xs (tn_children n ! i))"

definition functions_at :: "testnode_t \<Rightarrow> string list \<Rightarrow> functype_t \<Rightarrow> NP_Event.function_t option" where
  "functions_at root parts ft = (case walk parts root of None \<Rightarrow> None | Some n \<Rightarrow> tn_funcs n ft)"

lemma functions_at_simps [simp]:
  "functions_at n [] ft = tn_funcs n ft"
  "functions_at n (x # xs) ft =
     (case child_index x (tn_children n) of None \<Rightarrow> None | Some i \<Rightarrow> functions_at (tn_children n ! i) xs ft)"
  by (auto simp: functions_at_def split: option.split)

lemma child_index_same_name: "i < length cs \<Longrightarrow> tn_name c = tn_name (cs ! i) \<Longrightarrow> child_index y (cs[i := c]) = child_index y cs"
  by (induction cs arbitrary: i) (auto split: nat.split)

lemma child_index_snoc:
  "child_index y (cs @ [c]) = (case child_index y cs of Some j \<Rightarrow> Some j | None \<Rightarrow> if tn_name c = Some y then Some (length cs) else None)"
  by (induction cs) (auto split: option.splits)

lemma update_at_name: "node_at n p = Some m \<Longrightarrow> tn_name m' = tn_name m \<Longrightarrow> tn_name (update_at p (\<lambda>_. m') n) = tn_name n"
  by (cases p) auto

lemma functions_new [simp]: "functions_at (testnode_new nm) qs ft = None"
  by (cases qs) simp_all

lemma place_functions:
  assumes "make_parts parts n = (n', p)" "node_at n' p = Some m" "tn_name m' = tn_name m" "tn_children m' = tn_children m"
  shows "functions_at (update_at p (\<lambda>_. m') n') qs ft = (if qs = parts then tn_funcs m' ft else functions_at n qs ft)
    \<and> tn_funcs m ft = functions_at n parts ft"
  using assms
proof (induction parts n arbitrary: n' p qs rule: make_parts.induct)
  case (1 n)
  then show ?case by (cases qs) (auto split: option.split)
next
  case (2 part parts n)
  show ?case
  proof (cases "child_index part (tn_children n)")
    case None
    obtain c q where c: "make_parts parts (testnode_new (Some part)) = (c, q)" by fastforce
    have n': "n' = set_children (tn_children n @ [c]) n" "p = length (tn_children n) # q" using "2.prems"(1) None c by auto
    then have m: "node_at c q = Some m" using "2.prems"(2) by simp
    have nm: "tn_name (update_at q (\<lambda>_. m') c) = Some part"
      using update_at_name [OF m "2.prems"(3)] make_parts_simps(1) [of parts "testnode_new (Some part)"] c by simp
    show ?thesis
    proof (cases qs)
      case (Cons y ys)
      from "2.IH"(1) [OF None c m "2.prems"(3,4), of ys] show ?thesis
        using None Cons nm by (cases "child_index y (tn_children n)")
          (auto simp: n' child_index_snoc nth_append dest: child_index_Some)
    qed (use "2.IH"(1) [OF None c m "2.prems"(3,4)] None in \<open>simp add: n'\<close>)
  next
    case (Some i)
    obtain c q where c: "make_parts parts (tn_children n ! i) = (c, q)" by fastforce
    have i: "i < length (tn_children n)" "tn_name (tn_children n ! i) = Some part" using child_index_Some [OF Some] by simp_all
    have n': "n' = set_children ((tn_children n)[i := c]) n" "p = i # q" using "2.prems"(1) Some c by auto
    then have m: "node_at c q = Some m" using "2.prems"(2) i by simp
    have nm: "tn_name (update_at q (\<lambda>_. m') c) = tn_name (tn_children n ! i)"
      using update_at_name [OF m "2.prems"(3)] make_parts_simps(1) [of parts "tn_children n ! i"] c by simp
    show ?thesis
    proof (cases qs)
      case (Cons y ys)
      have "y = part" if "child_index y (tn_children n) = Some i" using child_index_Some [OF that] i by simp
      with "2.IH"(2) [OF Some c m "2.prems"(3,4), of ys] show ?thesis
        using Some i by (cases "child_index y (tn_children n)") (auto simp: n' Cons child_index_same_name [OF i(1) nm] nth_list_update)
    qed (use "2.IH"(2) [OF Some c m "2.prems"(3,4)] Some i in \<open>simp add: n'\<close>)
  qed
qed

lemma place_Inr:
  "place name f root = Inr root' \<longleftrightarrow>
     (\<exists>r p n n'. tokens ''/'' name \<noteq> [] \<and> make_parts (tokens ''/'' name) root = (r, p) \<and> node_at r p = Some n \<and> f n = Inr n' \<and>
        root' = update_at p (\<lambda>_. n') r)"
proof -
  obtain r p where "make_parts (tokens ''/'' name) root = (r, p)" by fastforce
  then show ?thesis
    by (cases "node_at r p") (auto simp: place_def make_path_def bindE_Inr_iff Let_def)
qed

lemma set_function_keeps:
  "set_function ft f n = Inr n' \<Longrightarrow>
     tn_name n' = tn_name n \<and> tn_children n' = tn_children n \<and> tn_funcs n' = (if tn_funcs n ft = None then (tn_funcs n)(ft \<mapsto> f) else tn_funcs n)"
  by (cases n) (auto split: if_splits option.splits)

lemma place_set_function:
  assumes "place name (set_function ft f) root = Inr root'"
  shows "functions_at root' qs t =
    (if qs = tokens ''/'' name \<and> t = ft \<and> functions_at root qs t = None then Some f else functions_at root qs t)"
proof -
  obtain r p n n' where m: "make_parts (tokens ''/'' name) root = (r, p)" "node_at r p = Some n"
    and n: "set_function ft f n = Inr n'" and root': "root' = update_at p (\<lambda>_. n') r"
    using assms by (auto simp: place_Inr)
  note k = set_function_keeps [OF n]
  have "functions_at root' qs t = (if qs = tokens ''/'' name then tn_funcs n' t else functions_at root qs t)"
    "tn_funcs n = functions_at root (tokens ''/'' name)"
    using place_functions [OF m] k by (simp_all add: root' fun_eq_iff)
  then show ?thesis using k by (auto simp: fun_upd_apply)
qed

lemma place_keeps_functions:
  assumes "place name (\<lambda>n. Inr (g n)) root = Inr root'"
    "\<And>n. tn_name (g n) = tn_name n \<and> tn_children (g n) = tn_children n \<and> tn_funcs (g n) = tn_funcs n"
  shows "functions_at root' = functions_at root"
proof -
  obtain r p n where m: "make_parts (tokens ''/'' name) root = (r, p)" "node_at r p = Some n" and root': "root' = update_at p (\<lambda>_. g n) r"
    using assms(1) by (auto simp: place_Inr)
  have "functions_at root' qs ft = functions_at root qs ft" for qs ft
    using place_functions [OF m, of "g n" qs ft] assms(2) by (simp add: root')
  then show ?thesis by (simp add: fun_eq_iff)
qed

lemma place_defined:
  assumes "tokens ''/'' name \<noteq> []" "\<And>n. \<exists>n'. f n = Inr n'"
  shows "\<exists>root'. place name f root = Inr root'"
proof -
  obtain r p where m: "make_parts (tokens ''/'' name) root = (r, p)" by fastforce
  then obtain n where "node_at r p = Some n" using make_parts_path [OF m] by blast
  with m assms obtain n' where "place name f root = Inr (update_at p (\<lambda>_. n') r)" by (fastforce simp: place_Inr)
  then show ?thesis by blast
qed

lemma added_keeps:
  "tn_name (add_mock i k a nm b n) = tn_name n \<and> tn_children (add_mock i k a nm b n) = tn_children n \<and> tn_funcs (add_mock i k a nm b n) = tn_funcs n"
  "tn_name (add_parameter s v vs n) = tn_name n \<and> tn_children (add_parameter s v vs n) = tn_children n \<and> tn_funcs (add_parameter s v vs n) = tn_funcs n"
  by (cases n; simp add: add_mock_def)+

section \<open>The signature does not depend on the cache\<close>

lemma kids_loop_rel:
  assumes b: "\<And>w a b. R a b \<Longrightarrow> rel_sum (=) (rel_prod (=) R) (body w a) (body w b)"
    and k: "kids_loop dw body mv a = Some r" and "R a b"
  shows "\<exists>r'. kids_loop dw body mv b = Some r' \<and> rel_sum (=) R r r'"
proof -
  let ?ok = "\<lambda>body. \<forall>w a b. R a b \<longrightarrow> rel_sum (=) (rel_prod (=) R) (body w a) (body w b)"
  have "?ok body \<longrightarrow> (\<forall>b. R a b \<longrightarrow> (\<exists>r'. kids_loop dw body mv b = Some r' \<and> rel_sum (=) R r r'))"
  proof (rule kids_loop.raw_induct [OF _ k, of "\<lambda>dw body mv a r. ?ok body \<longrightarrow>
      (\<forall>b. R a b \<longrightarrow> (\<exists>r'. kids_loop dw body mv b = Some r' \<and> rel_sum (=) R r r'))"], intro impI allI, goal_cases)
    case (1 kl dw body mv a r b)
    show ?case
    proof (cases mv)
      case (Inr ow)
      obtain ok w where ow: "ow = (ok, w)" by fastforce
      show ?thesis
      proof (cases ok)
        case True
        then have mv: "mv = Inr (True, w)" using Inr ow by simp
        have bw: "rel_sum (=) (rel_prod (=) R) (body w a) (body w b)" using 1(3,4) by blast
        show ?thesis
        proof (cases "body w a")
          case (Inl e)
          then have "body w b = Inl e" using bw by (cases "body w b") auto
          with Inl 1(2) mv show ?thesis by (subst kids_loop.simps) auto
        next
          case (Inr sa)
          obtain stop a' where sa: "sa = (stop, a')" by fastforce
          obtain b' where b': "body w b = Inr (stop, b')" "R a' b'" using bw Inr sa by (cases "body w b") auto
          show ?thesis
          proof (cases stop)
            case True
            with Inr sa b' 1(2) mv show ?thesis by (subst kids_loop.simps) auto
          next
            case False
            then have "kl dw body (move_next dw w) a' = Some r" using Inr sa 1(2) mv by simp
            from 1(1) [OF this, rule_format, OF _ b'(2)] 1(3) obtain r' where "kids_loop dw body (move_next dw w) b' = Some r'" "rel_sum (=) R r r'" by blast
            with False b' mv show ?thesis by (subst kids_loop.simps) auto
          qed
        qed
      qed (use Inr ow 1(2,4) in \<open>subst kids_loop.simps, auto\<close>)
    qed (use 1(2) in \<open>subst kids_loop.simps, auto\<close>)
  qed
  with assms(3) b show ?thesis by blast
qed

text \<open>Results that agree but for the cache.\<close>

abbreviation (input) same_result :: "np_error + 'a \<times> factory_t \<Rightarrow> np_error + 'a \<times> factory_t \<Rightarrow> bool" where
  "same_result \<equiv> rel_sum (=) (rel_prod (=) (\<lambda>_ _. True))"

lemma make_type_ref [simp]: "fst (make_type ref fac) = ref"
  by (simp add: make_type_def split: option.split)

lemma get_parameter_types_cache:
  assumes "get_parameter_types dw fn fac = Some r"
  shows "\<exists>r'. get_parameter_types dw fn fac2 = Some r' \<and> same_result r r'"
proof (cases "peek_raw dw (fn_ref fn)")
  case (Inr w)
  have "rel_sum (=) (rel_prod (=) (rel_prod (=) (\<lambda>_ _. True))) (parameter_type w' a) (parameter_type w' b)"
    if "rel_prod (=) (\<lambda>_ _. True) a b" for w' and a b :: "reference_t list \<times> factory_t"
    using that by (cases a; cases b; cases "get_tag (wk_entry w')")
      (auto simp: parameter_type_def make_type_def split: option.split)
  from kids_loop_rel [of "rel_prod (=) (\<lambda>_ _. True)", OF this, where dw = dw and mv = "move_down dw w" and a = "([], fac)" and r = r and b = "([], fac2)"] assms Inr
  show ?thesis by (simp add: get_parameter_types_def for_kids_def)
qed (use assms in \<open>auto simp: get_parameter_types_def\<close>)

lemma has_signature_cache:
  assumes "has_signature dw fn cls fac = Some r"
  shows "\<exists>r'. has_signature dw fn cls fac2 = Some r' \<and> same_result r r'"
proof (cases "entry_at dw (fn_ref fn)")
  case (Inl e)
  with assms show ?thesis by (auto simp: has_signature_def get_return_type_def bindOE_def)
next
  case (Inr w)
  let ?ty = "get_reference_attribute DW_AT_type (wk_entry w)"
  have rt: "get_return_type dw fn fac = Inr (?ty, snd (make_type ?ty fac))" for fac
    using Inr by (simp add: get_return_type_def prod_eq_iff)
  obtain c where c: "get_classification dw ?ty = Some c" using assms rt by (auto simp: has_signature_def bindOE_def split: option.splits)
  show ?thesis
  proof (cases "\<exists>t. c = Inr t \<and> t = cls")
    case True
    obtain ps where ps: "get_parameter_types dw fn (snd (make_type ?ty fac)) = Some ps"
      using assms rt c True by (auto simp: has_signature_def bindOE_def split: option.splits)
    from get_parameter_types_cache [OF this, of "snd (make_type ?ty fac2)"] obtain ps' where
      "get_parameter_types dw fn (snd (make_type ?ty fac2)) = Some ps'" "same_result ps ps'" by blast
    with ps assms rt c True show ?thesis by (cases ps; cases ps') (auto simp: has_signature_def bindOE_def)
  qed (use assms rt c in \<open>cases c; auto simp: has_signature_def bindOE_def\<close>)
qed

definition signature_ok :: "dwarf_t \<Rightarrow> NP_Spiegel.function_t \<Rightarrow> u32 \<Rightarrow> bool" where
  "signature_ok dw fn cls \<longleftrightarrow> (\<exists>fac. has_signature dw fn cls Map.empty = Some (Inr (True, fac)))"

lemma has_signature_ok: "has_signature dw fn cls fac = Some (Inr (ok, fac')) \<Longrightarrow> ok = signature_ok dw fn cls"
  using has_signature_cache [of dw fn cls fac "Inr (ok, fac')" Map.empty] by (auto simp: signature_ok_def rel_sum.simps)

section \<open>Where functions go\<close>

text \<open>
  The node, by the names that lead to it, and the role a function of the program is discovered
  in, from its name, its signature and its source file.
\<close>

definition destination :: "world_t \<Rightarrow> state_t \<Rightarrow> NP_Spiegel.function_t \<Rightarrow> ((string list \<times> functype_t) \<times> NP_Event.function_t) option" where
  "destination wd st fn =
     (case name_class (NP_Spiegel.fn_name fn) of (ft, buf) \<Rightarrow>
        if fn_low_pc fn = 0 \<or> ft \<notin> {FT_TEST, FT_BEFORE, FT_AFTER} then None
        else if \<not> signature_ok (state_dwarf (wd_mem wd) st) fn (if ft = FT_TEST then TC_VOID else TC_SIGNED_INT) then None
        else (case (test_name wd st fn (the buf), event_function wd st fn) of
                (Inr name, Inr f) \<Rightarrow> Some ((tokens ''/'' name, ft), f)
              | _ \<Rightarrow> None))"

definition discovered :: "world_t \<Rightarrow> state_t \<Rightarrow> NP_Spiegel.function_t list \<Rightarrow> string list \<times> functype_t \<Rightarrow> NP_Event.function_t option" where
  "discovered wd st fns = map_of (List.map_filter (destination wd st) fns)"

text \<open>A function whose debugging information can be read as far as discovering it needs.\<close>

definition discoverable :: "world_t \<Rightarrow> state_t \<Rightarrow> NP_Spiegel.function_t \<Rightarrow> bool" where
  "discoverable wd st fn \<longleftrightarrow>
     (case name_class (NP_Spiegel.fn_name fn) of (ft, buf) \<Rightarrow>
        fn_low_pc fn = 0 \<or> ft = FT_UNKNOWN \<or>
        ft \<in> {FT_TEST, FT_BEFORE, FT_AFTER} \<and>
          (\<forall>cls. \<exists>ok fac. has_signature (state_dwarf (wd_mem wd) st) fn cls Map.empty = Some (Inr (ok, fac))) \<and>
          (\<exists>name f. test_name wd st fn (the buf) = Inr name \<and> tokens ''/'' name \<noteq> [] \<and> event_function wd st fn = Inr f))"

lemma name_class_test: "name_class s = (FT_TEST, buf) \<Longrightarrow> the buf \<noteq> []"
  by (auto simp: name_class_def Let_def starts_with_def split: if_splits)

lemma functype_ord_singular: "ft \<in> {FT_TEST, FT_BEFORE, FT_AFTER} \<Longrightarrow> functype_ord ft < 4"
  by auto

lemma bindOE_Inr_iff: "bindOE m f = Some (Inr y) \<longleftrightarrow> (\<exists>x. m = Some (Inr x) \<and> f x = Some (Inr y))"
  by (auto simp: bindOE_def split: option.splits sum.splits)

lemma add_function_functions:
  assumes "add_function wd st ft cls sub fn tm = Some (Inr tm')"
  shows "tm_classifiers tm' = tm_classifiers tm \<and>
    (if signature_ok (state_dwarf (wd_mem wd) st) fn cls
     then \<exists>name f. test_name wd st fn sub = Inr name \<and> event_function wd st fn = Inr f \<and>
       (\<forall>qs t. functions_at (tm_root tm') qs t =
          (if qs = tokens ''/'' name \<and> t = ft \<and> functions_at (tm_root tm) qs t = None then Some f else functions_at (tm_root tm) qs t))
     else functions_at (tm_root tm') = functions_at (tm_root tm))"
proof -
  obtain ok fac where s: "has_signature (state_dwarf (wd_mem wd) st) fn cls (tm_factory tm) = Some (Inr (ok, fac))"
    using assms by (auto simp: add_function_def bindOE_Inr_iff)
  then have ok: "ok = signature_ok (state_dwarf (wd_mem wd) st) fn cls" by (rule has_signature_ok)
  show ?thesis
  proof (cases ok)
    case True
    then obtain name f root where "test_name wd st fn sub = Inr name" "event_function wd st fn = Inr f"
      "place name (set_function ft f) (tm_root tm) = Inr root" "tm_root tm' = root" "tm_classifiers tm' = tm_classifiers tm"
      using assms s by (auto simp: add_function_def bindOE_def bindE_Inr_iff)
    with True ok show ?thesis by (simp add: place_set_function)
  qed (use assms s ok in \<open>auto simp: add_function_def bindOE_def\<close>)
qed

lemma add_mock_functions:
  assumes "add_auto_mock wd st sub fn tm = Some (Inr tm')"
  shows "tm_classifiers tm' = tm_classifiers tm \<and> functions_at (tm_root tm') = functions_at (tm_root tm)"
proof -
  let ?tm1 = "if warn_on_automock sub then tm\<lparr>tm_warnings := tm_warnings tm @ [Warn_Libc sub]\<rparr> else tm"
  have w: "tm_classifiers ?tm1 = tm_classifiers tm" "tm_root ?tm1 = tm_root tm" by simp_all
  obtain t fac where t: "find_mock_target wd st sub (tm_factory ?tm1) = Some (Inr (t, fac))"
    using assms by (auto simp: add_auto_mock_def Let_def bindOE_Inr_iff simp del: if_split)
  show ?thesis
  proof (cases t)
    case None
    with assms t w show ?thesis by (auto simp: add_auto_mock_def Let_def bindOE_def simp del: if_split)
  next
    case (Some target)
    then have "add_target_mock wd st target fn (?tm1\<lparr>tm_factory := fac\<rparr>) = Some (Inr tm')"
      using assms t by (auto simp: add_auto_mock_def Let_def bindOE_def simp del: if_split)
    then show ?thesis
      using w by (auto simp: add_target_mock_def Let_def bindOE_Inr_iff place_keeps_functions [OF _ added_keeps(1)] simp del: if_split)
  qed
qed

lemma add_param_functions:
  "add_param wd st sub fn tm = Some (Inr tm') \<Longrightarrow>
     tm_classifiers tm' = tm_classifiers tm \<and> functions_at (tm_root tm') = functions_at (tm_root tm)"
  by (auto simp: add_param_def bindOE_Inr_iff bindE_Inr_iff dest: place_keeps_functions [OF _ added_keeps(2)])

lemma classify_discovered:
  "classify_function (setup_classifiers []) s (Some []) 512 = name_class s"
  by (simp add: setup_classifiers_eq classify_function_def classify_names_loop)

lemma discover_function_step:
  assumes "tm_classifiers tm = setup_classifiers []" "discover_function wd st (Some fn) tm = Some (Inr tm')"
  shows "tm_classifiers tm' = setup_classifiers [] \<and>
    (\<forall>qs t. functions_at (tm_root tm') qs t =
      (case functions_at (tm_root tm) qs t of Some f \<Rightarrow> Some f
       | None \<Rightarrow> (case destination wd st fn of Some d \<Rightarrow> if fst d = (qs, t) then Some (snd d) else None | None \<Rightarrow> None)))"
proof (cases "fn_low_pc fn = 0")
  case True
  with assms show ?thesis by (auto simp: discover_function_def destination_def split: option.split prod.split)
next
  case False
  obtain ft buf where nc: "name_class (NP_Spiegel.fn_name fn) = (ft, buf)" by fastforce
  note d = assms(2) [unfolded discover_function_def, simplified False assms(1) classify_discovered nc option.case prod.case Let_def if_False]
  have keep: ?thesis if "tm_classifiers tm' = tm_classifiers tm" "functions_at (tm_root tm') = functions_at (tm_root tm)"
    "destination wd st fn = None" using that assms(1) by (auto split: option.split)
  have add: ?thesis if a: "add_function wd st ft (if ft = FT_TEST then TC_VOID else TC_SIGNED_INT) (the buf) fn tm = Some (Inr tm')"
    and ft: "ft \<in> {FT_TEST, FT_BEFORE, FT_AFTER}"
  proof (cases "signature_ok (state_dwarf (wd_mem wd) st) fn (if ft = FT_TEST then TC_VOID else TC_SIGNED_INT)")
    case True
    with add_function_functions [OF a] obtain name f where nf: "test_name wd st fn (the buf) = Inr name" "event_function wd st fn = Inr f"
      and fs: "functions_at (tm_root tm') qs t =
        (if qs = tokens ''/'' name \<and> t = ft \<and> functions_at (tm_root tm) qs t = None then Some f else functions_at (tm_root tm) qs t)"
      and cls: "tm_classifiers tm' = tm_classifiers tm" for qs t by (simp only: if_True) blast
    have "destination wd st fn = Some ((tokens ''/'' name, ft), f)" using True ft nc False nf by (simp add: destination_def)
    then show ?thesis using cls assms(1) by (simp add: fs split: option.split)
  qed (use add_function_functions [OF a] ft nc in \<open>intro keep; simp add: destination_def\<close>)
  show ?thesis
  proof (cases ft)
    case FT_UNKNOWN
    then show ?thesis using d nc by (intro keep) (auto simp: destination_def)
  next
    case FT_BEFORE
    with d show ?thesis by (intro add) (auto split: if_splits)
  next
    case FT_TEST
    with d name_class_test [of "NP_Spiegel.fn_name fn" buf] nc show ?thesis by (intro add) (auto split: if_splits)
  next
    case FT_AFTER
    with d show ?thesis by (intro add) (auto split: if_splits)
  next
    case FT_MOCK
    with d nc show ?thesis using add_mock_functions [of wd st "the buf" fn tm tm']
      by (intro keep) (auto simp: destination_def split: if_splits)
  next
    case FT_PARAM
    with d nc show ?thesis using add_param_functions [of wd st "the buf" fn tm tm']
      by (intro keep) (auto simp: destination_def split: if_splits)
  qed
qed

lemma add_function_defined:
  assumes "\<forall>cls. \<exists>ok fac. has_signature (state_dwarf (wd_mem wd) st) fn cls Map.empty = Some (Inr (ok, fac))"
    "test_name wd st fn sub = Inr name" "tokens ''/'' name \<noteq> []" "event_function wd st fn = Inr f" "functype_ord ft < 4"
  shows "\<exists>tm'. add_function wd st ft cls sub fn tm = Some (Inr tm')"
proof -
  obtain ok fac where "has_signature (state_dwarf (wd_mem wd) st) fn cls Map.empty = Some (Inr (ok, fac))" using assms(1) by blast
  from has_signature_cache [OF this, of "tm_factory tm"] obtain fac' where
    s: "has_signature (state_dwarf (wd_mem wd) st) fn cls (tm_factory tm) = Some (Inr (ok, fac'))" by (auto simp: rel_sum.simps)
  have "\<exists>n'. set_function ft f n = Inr n'" for n using assms(5) by (cases n) (auto split: option.split)
  then obtain root where "place name (set_function ft f) (tm_root tm) = Inr root" using place_defined [OF assms(3)] by blast
  with s assms(2,4) show ?thesis by (simp add: add_function_def bindOE_def)
qed

lemma discover_function_defined:
  assumes "tm_classifiers tm = setup_classifiers []" "discoverable wd st fn"
  shows "\<exists>tm'. discover_function wd st (Some fn) tm = Some (Inr tm')"
proof -
  obtain ft buf where nc: "name_class (NP_Spiegel.fn_name fn) = (ft, buf)" by fastforce
  consider "fn_low_pc fn = 0" | "fn_low_pc fn \<noteq> 0" "ft = FT_UNKNOWN"
    | name f where "fn_low_pc fn \<noteq> 0" "ft \<in> {FT_TEST, FT_BEFORE, FT_AFTER}"
      "\<forall>cls. \<exists>ok fac. has_signature (state_dwarf (wd_mem wd) st) fn cls Map.empty = Some (Inr (ok, fac))"
      "test_name wd st fn (the buf) = Inr name" "tokens ''/'' name \<noteq> []" "event_function wd st fn = Inr f"
    using assms(2) nc by (auto simp: discoverable_def)
  then show ?thesis
  proof cases
    case 3
    note add = add_function_defined [OF 3(3-6) functype_ord_singular [OF 3(2)]]
    from 3(1,2) name_class_fixture [OF nc] name_class_test [of "NP_Spiegel.fn_name fn" buf] nc add show ?thesis
      by (auto simp: discover_function_def assms(1) classify_discovered)
  qed (use nc in \<open>simp_all add: discover_function_def assms(1) classify_discovered\<close>)
qed

lemma discovered_Cons:
  "discovered wd st (fn # fns) k =
     (case destination wd st fn of Some d \<Rightarrow> if fst d = k then Some (snd d) else discovered wd st fns k | None \<Rightarrow> discovered wd st fns k)"
  by (auto simp: discovered_def map_filter_simps split: option.split)

text \<open>
  C17. Discovering the functions of a compile unit fills the tree of tests: a function is at a
  node, as its test, set-up or tear-down function, exactly if it was there before or is the
  first function of the unit whose name, signature and source file lead there; every defined
  function is looked at and no other is ever added. Functions whose debugging information can
  be read, the ones that are mocks or parameters aside, are all discovered without an error.
\<close>

theorem discover_loop_tree:
  assumes "tm_classifiers tm = setup_classifiers []"
  shows "(\<forall>tm'. discover_loop wd st (map Some fns) tm = Some (Inr tm') \<longrightarrow>
      (\<forall>qs t. functions_at (tm_root tm') qs t =
        (case functions_at (tm_root tm) qs t of Some f \<Rightarrow> Some f | None \<Rightarrow> discovered wd st fns (qs, t))))
    \<and> ((\<forall>fn\<in>set fns. discoverable wd st fn) \<longrightarrow> (\<exists>tm'. discover_loop wd st (map Some fns) tm = Some (Inr tm')))"
  using assms
proof (induction fns arbitrary: tm)
  case Nil
  then show ?case by (auto simp: discovered_def map_filter_simps split: option.split)
next
  case (Cons fn fns)
  have "functions_at (tm_root tm') qs t =
      (case functions_at (tm_root tm) qs t of Some f \<Rightarrow> Some f | None \<Rightarrow> discovered wd st (fn # fns) (qs, t))"
    if l: "discover_loop wd st (map Some (fn # fns)) tm = Some (Inr tm')" for tm' qs t
  proof -
    obtain tm1 where tm1: "discover_function wd st (Some fn) tm = Some (Inr tm1)" "discover_loop wd st (map Some fns) tm1 = Some (Inr tm')"
      using l by (auto simp: bindOE_Inr_iff)
    note step = discover_function_step [OF Cons.prems tm1(1)]
    then have c: "tm_classifiers tm1 = setup_classifiers []" by blast
    show ?thesis using Cons.IH [OF c] tm1(2) step by (simp add: discovered_Cons split: option.split)
  qed
  moreover have "\<exists>tm'. discover_loop wd st (map Some (fn # fns)) tm = Some (Inr tm')" if d: "\<forall>f\<in>set (fn # fns). discoverable wd st f"
  proof -
    obtain tm1 where tm1: "discover_function wd st (Some fn) tm = Some (Inr tm1)"
      using discover_function_defined [OF Cons.prems, of wd st fn] d by auto
    from discover_function_step [OF Cons.prems this] Cons.IH [of tm1] d tm1 show ?thesis by (auto simp: bindOE_def)
  qed
  ultimately show ?case by blast
qed

text \<open>A unit with one function, as a test of the source file that the working directory gives.\<close>

definition demo_world :: world_t where
  "demo_world = \<lparr>wd_mem = (\<lambda>_. 0), wd_cwd = ''/tmp'', wd_call = (\<lambda>_. 0), wd_param_dec = (\<lambda>_. (0, [])), wd_follow_plt = id\<rparr>"

definition demo_tm_state :: state_t where
  "demo_tm_state = demo_fn_state\<lparr>st_link_objects := [link_object_new ''m'']\<rparr>"

definition demo_function :: NP_Spiegel.function_t where
  "demo_function = \<lparr>fn_ref = cu_make_reference demo_fn_unit 16, fn_name = ''test_a'', fn_low_pc = 0x1000, fn_is_declaration = False\<rparr>"

lemma peek_entry_at: "peek dw r = Inr (Some w) \<Longrightarrow> entry_at dw r = Inr w \<and> peek_raw dw r = Inr w"
  by (auto simp: peek_def peek_raw_def entry_at_def bindE_Inr_iff split: if_splits)

lemma demo_fn_peek:
  assumes "dw_units dw = [demo_fn_unit]"
  shows "\<exists>w. peek dw (cu_make_reference demo_fn_unit 16) = Inr (Some w) \<and>
    read_head demo_fn_unit (rd_data (cu_reader demo_fn_unit)) 0 16 (hd (the (die_kids demo_fn_die))) [0] w"
proof -
  have b: "rd_data (cu_reader demo_fn_unit) = replicate header_length 0 @ die_bytes demo_fn_die"
    "rd_pos (cu_reader demo_fn_unit) = 0" "cu_index demo_fn_unit = 0"
    by (simp_all add: demo_fn_unit_def mk_reader_def compile_unit_new_def)
  let ?d = "hd (the (die_kids demo_fn_die))"
  have k: "die_kids demo_fn_die = Some [?d]" "kids_bytes ?d = []" "length (head_bytes demo_fn_die) = 5" "length (die_bytes demo_fn_die) < 100"
    by (simp_all add: demo_fn_die_def head_bytes_def kids_bytes_def uleb_enc.simps bytes_of_string_def bytes_of_u64_def bytes_of_u32_def)
  have "die_wf dw demo_fn_unit demo_fn_die" using demo_fn_encodes by (simp add: unit_encodes_def)
  then have wf: "die_wf dw demo_fn_unit ?d" using die_wf_kids [OF _ k(1)] by simp
  have bts: "die_bytes demo_fn_die = head_bytes demo_fn_die @ die_bytes ?d @ [0]"
    by (subst die_bytes_split) (simp add: kids_bytes_def demo_fn_die_def)
  have "unit_placed dw demo_fn_unit" using assms b k(4) by (simp add: unit_placed_def header_length_def)
  from peek_die [OF this wf, of "[0]" 16] show ?thesis using b k bts by (simp add: header_length_def)
qed

lemma demo_has_signature:
  assumes "dw_units dw = [demo_fn_unit]"
  shows "\<exists>fac. has_signature dw demo_function cls Map.empty = Some (Inr (cls = TC_VOID, fac))"
proof -
  let ?d = "hd (the (die_kids demo_fn_die))"
  obtain w where w: "peek dw (cu_make_reference demo_fn_unit 16) = Inr (Some w)"
    "read_head demo_fn_unit (rd_data (cu_reader demo_fn_unit)) 0 16 ?d [0] w"
    using demo_fn_peek [OF assms] by blast
  have "die_attr demo_fn_unit ?d DW_AT_type = None"
    by (simp add: demo_fn_die_def die_attr_def head_view_def get_abbrev_def name_to_index_def) (simp add: demo_fn_unit_def)
  then have ty: "get_reference_attribute DW_AT_type (wk_entry w) = reference_null"
    using read_head_attr [OF w(2), of DW_AT_type] by (simp add: get_reference_attribute_def)
  have "en_abbrev (wk_entry w) = get_abbrev demo_fn_unit 2"
    using w(2) by (simp add: read_head_def kid_view_def die_kid_view_def demo_fn_die_def)
  then have "has_children (wk_entry w) = Inr False"
    by (simp add: has_children_def get_abbrev_def) (simp add: demo_fn_unit_def)
  then have "for_kids dw parameter_type w acc = Some (Inr acc)" for acc
    by (simp add: for_kids_def move_down_def kids_loop.simps)
  then show ?thesis
    using peek_entry_at [OF w(1)] ty
    by (simp add: has_signature_def get_return_type_def demo_function_def bindOE_def get_parameter_types_def make_type_def
        get_classification.simps [of dw reference_null])
qed

lemma demo_path: "function_path demo_world demo_tm_state demo_function = Inr ''/tmp''"
proof -
  have u: "st_units demo_tm_state = [demo_fn_unit]" by (simp add: demo_tm_state_def demo_fn_state_def)
  have c: "cu_index demo_fn_unit = 0" "cu_filename demo_fn_unit = None" "cu_compilation_directory demo_fn_unit = None"
    by (simp_all add: demo_fn_unit_def compile_unit_new_def)
  have "get_compile_unit (state_dwarf (wd_mem demo_world) demo_tm_state) demo_function = Inr 0"
    by (simp add: get_compile_unit_def demo_function_def resolve_def cu_make_reference_def reference_make_def c state_dwarf_def u)
  then show ?thesis
    by (simp add: function_path_def get_absolute_path_def u c make_absolute_to_dir_def make_absolute_to_def demo_world_def Let_def is_absolute_def SLASH_def tokens_eq)
qed

lemma demo_class: "name_class (NP_Spiegel.fn_name demo_function) = (FT_TEST, Some ''a'')"
  by (simp add: demo_function_def name_class_def has_prefix_def starts_with_def is_letter_def in_range_def to_lower_def)

lemma demo_test_name: "test_name demo_world demo_tm_state demo_function ''a'' = Inr ''/tmp/a''"
  by (simp add: test_name_def demo_path strip_extension_def)

lemma demo_event_function:
  "event_function demo_world demo_tm_state demo_function = Inr \<lparr>NP_Event.function_t.fn_name = ''test_a'', fn_path = ''/tmp'', fn_addr = 0x1000\<rparr>"
proof -
  let ?d = "hd (the (die_kids demo_fn_die))" and ?dw = "state_dwarf (wd_mem demo_world) demo_tm_state"
  have u: "dw_units ?dw = [demo_fn_unit]" by (simp add: state_dwarf_def demo_tm_state_def demo_fn_state_def)
  obtain w where w: "peek ?dw (cu_make_reference demo_fn_unit 16) = Inr (Some w)"
    "read_head demo_fn_unit (rd_data (cu_reader demo_fn_unit)) 0 16 ?d [0] w"
    using demo_fn_peek [OF u] by blast
  have "die_attr demo_fn_unit ?d DW_AT_low_pc = Some (T_UINT64 0x1000)"
    by (simp add: demo_fn_die_def die_attr_def head_view_def get_abbrev_def name_to_index_def) (simp add: demo_fn_unit_def)
  then have "get_address_attribute DW_AT_low_pc (wk_entry w) = 0x1000"
    using read_head_attr [OF w(2), of DW_AT_low_pc] by (simp add: get_address_attribute_def get_uint64_attribute_def)
  moreover have f: "fn_ref demo_function = cu_make_reference demo_fn_unit 16" "NP_Spiegel.fn_name demo_function = ''test_a''"
    and l: "lk_slide (st_link_objects demo_tm_state ! 0) = 0"
    by (simp_all add: demo_function_def demo_tm_state_def link_object_new_def)
  moreover have "cu_link_object (wk_unit w) = 0"
    using w(2) by (simp add: read_head_def wk_at_def demo_fn_unit_def compile_unit_new_def)
  ultimately show "event_function demo_world demo_tm_state demo_function =
      Inr \<lparr>NP_Event.function_t.fn_name = ''test_a'', fn_path = ''/tmp'', fn_addr = 0x1000\<rparr>"
    using peek_entry_at [OF w(1)] f
    by (simp add: event_function_def demo_path get_live_address_def live_address_def l)
qed

lemma demo_destination:
  "destination demo_world demo_tm_state demo_function =
     Some (([''tmp'', ''a''], FT_TEST), \<lparr>NP_Event.function_t.fn_name = ''test_a'', fn_path = ''/tmp'', fn_addr = 0x1000\<rparr>)"
  "discoverable demo_world demo_tm_state demo_function"
proof -
  have u: "dw_units (state_dwarf (wd_mem demo_world) demo_tm_state) = [demo_fn_unit]"
    by (simp add: state_dwarf_def demo_tm_state_def demo_fn_state_def)
  have t: "tokens ''/'' ''/tmp/a'' = [''tmp'', ''a'']" by (simp add: tokens_eq)
  have low: "fn_low_pc demo_function \<noteq> 0" by (simp add: demo_function_def)
  show "destination demo_world demo_tm_state demo_function =
     Some (([''tmp'', ''a''], FT_TEST), \<lparr>NP_Event.function_t.fn_name = ''test_a'', fn_path = ''/tmp'', fn_addr = 0x1000\<rparr>)"
    using demo_has_signature [OF u, of TC_VOID] low
    by (simp add: destination_def demo_class demo_test_name demo_event_function t signature_ok_def)
  show "discoverable demo_world demo_tm_state demo_function"
    using demo_has_signature [OF u] by (simp add: discoverable_def demo_class demo_test_name demo_event_function t) blast
qed

theorem discover_loop_tree_witness:
  "\<exists>tm'. discover_loop demo_world demo_tm_state [Some demo_function] (testmanager_new\<lparr>tm_classifiers := setup_classifiers []\<rparr>) = Some (Inr tm') \<and>
     functions_at (tm_root tm') [''tmp'', ''a''] FT_TEST = Some \<lparr>NP_Event.function_t.fn_name = ''test_a'', fn_path = ''/tmp'', fn_addr = 0x1000\<rparr> \<and>
     functions_at (tm_root tm') [''tmp''] FT_TEST = None"
proof -
  let ?tm = "testmanager_new\<lparr>tm_classifiers := setup_classifiers []\<rparr>"
  have c: "tm_classifiers ?tm = setup_classifiers []" "tm_root ?tm = testnode_new None" by (simp_all add: testmanager_new_def)
  note t = discover_loop_tree [OF c(1), of demo_world demo_tm_state "[demo_function]"]
  then obtain tm' where r: "discover_loop demo_world demo_tm_state [Some demo_function] ?tm = Some (Inr tm')"
    using demo_destination(2) by (auto simp del: discover_loop.simps)
  with t have "functions_at (tm_root tm') qs t = (case functions_at (tm_root ?tm) qs t of Some f \<Rightarrow> Some f
       | None \<Rightarrow> discovered demo_world demo_tm_state [demo_function] (qs, t))" for qs t by (simp del: discover_loop.simps)
  with r show ?thesis
    by (intro exI [of _ tm']) (simp add: c discovered_Cons demo_destination(1) discovered_def map_filter_simps del: discover_loop.simps functions_at_simps(2))
qed

end
