(* ===== verification/NP_Listeners.thy ===== *)
theory NP_Listeners
  imports NP_Runner NP_Common "HOL-Library.List_Lexorder" "HOL-Library.Char_ord"
begin

text \<open>
  \<^verbatim>\<open>np/text_listener.{hxx,cxx}\<close> and \<^verbatim>\<open>np/junit_listener.{hxx,cxx}\<close>: the listeners that report
  a run, driven by the calls the runner makes. The text listener counts jobs and prints lines;
  the JUnit listener keeps the cases of every suite and at the end writes one XML document
  per suite, here as the tree that is handed to the XML library.
\<close>

section \<open>Text\<close>

text \<open>What is printed to the standard error stream is kept in \<open>tl_out\<close>.\<close>

record text_listener_t =
  tl_nrun :: u32
  tl_nfailed :: u32
  tl_out :: string

definition text_listener_new :: text_listener_t where
  "text_listener_new = \<lparr>tl_nrun = 0, tl_nfailed = 0, tl_out = []\<rparr>"

definition NL :: string where
  "NL = [CHR 0x0A]"

definition tl_print :: "string \<Rightarrow> text_listener_t \<Rightarrow> text_listener_t" where
  "tl_print s t = t\<lparr>tl_out := tl_out t @ s\<rparr>"

definition text_begin :: "text_listener_t \<Rightarrow> text_listener_t" where
  "text_begin t = tl_print (''np: running'' @ NL) (t\<lparr>tl_nrun := 0, tl_nfailed := 0\<rparr>)"

definition text_end :: "text_listener_t \<Rightarrow> text_listener_t" where
  "text_end t = tl_print (''np: '' @ dec (tl_nrun t) @ '' run '' @ dec (tl_nfailed t) @ '' failed'' @ NL) t"

definition text_begin_job :: "testnode_t \<Rightarrow> job_t \<Rightarrow> text_listener_t \<Rightarrow> np_error + text_listener_t" where
  "text_begin_job root j t =
     bindE (job_as_string root j) (\<lambda>nm. Inr (tl_print (''np: running: '' @ [CHR 0x22] @ nm @ [CHR 0x22] @ NL) t))"

text \<open>A result that is none of the three goes to the log only.\<close>

definition text_end_job :: "testnode_t \<Rightarrow> job_t \<Rightarrow> result_t \<Rightarrow> text_listener_t \<Rightarrow> np_error + text_listener_t" where
  "text_end_job root j res t =
     bindE (job_as_string root j) (\<lambda>nm.
       let t1 = t\<lparr>tl_nrun := tl_nrun t + 1\<rparr>
       in Inr (case res of
                 R_PASS \<Rightarrow> tl_print (''PASS '' @ nm @ NL) t1
               | R_NOTAPPLICABLE \<Rightarrow> tl_print (''N/A '' @ nm @ NL) t1
               | R_FAIL \<Rightarrow> tl_print (''FAIL '' @ nm @ NL) (t1\<lparr>tl_nfailed := tl_nfailed t1 + 1\<rparr>)
               | R_UNKNOWN \<Rightarrow> t1))"

definition text_add_event :: "event_t \<Rightarrow> text_listener_t \<Rightarrow> np_error + text_listener_t" where
  "text_add_event ev t =
     bindE (event_as_string ev) (\<lambda>s. bindE (get_long_location ev) (\<lambda>l. Inr (tl_print (''EVENT '' @ s @ NL @ l @ NL) t)))"

fun text_call :: "testnode_t \<Rightarrow> lcall \<Rightarrow> text_listener_t \<Rightarrow> np_error + text_listener_t" where
  "text_call root L_Begin t = Inr (text_begin t)"
| "text_call root L_End t = Inr (text_end t)"
| "text_call root (L_Begin_Job j) t = text_begin_job root j t"
| "text_call root (L_End_Job j res) t = text_end_job root j res t"
| "text_call root (L_Add_Event j ev) t = text_add_event ev t"

section \<open>JUnit\<close>

record case_t =
  cs_result :: result_t
  cs_event :: "event_t option"
  cs_elapsed :: int
  cs_stdout :: string
  cs_stderr :: string

definition case_new :: case_t where
  "case_new = \<lparr>cs_result = R_UNKNOWN, cs_event = None, cs_elapsed = 0, cs_stdout = [], cs_stderr = []\<rparr>"

text \<open>A \<^verbatim>\<open>std::map\<close> is the list of its entries in the order of the keys.\<close>

type_synonym cases_t = "(string \<times> case_t) list"
type_synonym junit_listener_t = "(string \<times> cases_t) list"

fun map_at :: "'k::linorder \<Rightarrow> 'v \<Rightarrow> ('v \<Rightarrow> 'v) \<Rightarrow> ('k \<times> 'v) list \<Rightarrow> ('k \<times> 'v) list" where
  "map_at k d f [] = [(k, f d)]"
| "map_at k d f ((k', v) # xs) =
     (if k = k' then (k, f v) # xs else if k < k' then (k, f d) # (k', v) # xs else (k', v) # map_at k d f xs)"

text \<open>\<^verbatim>\<open>std::string::find\<close>: where the first copy of a string starts.\<close>

fun string_find :: "string \<Rightarrow> string \<Rightarrow> nat option" where
  "string_find pat [] = (if pat = [] then Some 0 else None)"
| "string_find pat (c # cs) =
     (if take (length pat) (c # cs) = pat then Some 0 else map_option Suc (string_find pat cs))"

text \<open>
  The names of the suite and the case of a job. The result of \<^verbatim>\<open>find\<close> is kept in an
  \<^verbatim>\<open>int\<close>, where not finding anything is minus one.
\<close>

definition case_names :: "testnode_t \<Rightarrow> job_t \<Rightarrow> np_error + string \<times> string" where
  "case_names root j =
     (if jb_node j = [] then Inl Null_Deref
      else let suitename = get_fullname root (butlast (jb_node j))
           in bindE (job_as_string root j) (\<lambda>jobname.
                let pos = (case string_find suitename jobname of None \<Rightarrow> length suitename | Some off \<Rightarrow> off + length suitename + 1)
                in if pos > length jobname then Inl Out_Of_Range else Inr (suitename, drop pos jobname)))"

definition update_case :: "string \<times> string \<Rightarrow> (case_t \<Rightarrow> case_t) \<Rightarrow> junit_listener_t \<Rightarrow> junit_listener_t" where
  "update_case nm f js = map_at (fst nm) [] (map_at (snd nm) case_new f) js"

text \<open>The captured output of a job is an argument: the two files and the clock.\<close>

definition junit_end_job ::
  "testnode_t \<Rightarrow> (job_t \<Rightarrow> file_t \<times> file_t) \<Rightarrow> int \<Rightarrow> job_t \<Rightarrow> result_t \<Rightarrow> junit_listener_t \<Rightarrow> np_error + junit_listener_t" where
  "junit_end_job root files now j res js =
     bindE (case_names root j) (\<lambda>nm.
       Inr (update_case nm (\<lambda>c. c\<lparr>cs_result := res, cs_elapsed := get_elapsed now j,
              cs_stdout := get_file_contents (fst (files j)), cs_stderr := get_file_contents (snd (files j))\<rparr>) js))"

text \<open>\<^verbatim>\<open>clone\<close> copies the strings of the event as well, which \<^verbatim>\<open>save_strings\<close> may fail on.\<close>

definition clone :: "event_t \<Rightarrow> np_error + event_t" where
  "clone ev = bindE (save_strings ev) (\<lambda>_. Inr ev)"

definition find_cs_event :: "string \<times> string \<Rightarrow> junit_listener_t \<Rightarrow> event_t option" where
  "find_cs_event nm js =
     (case map_of js (fst nm) of
        None \<Rightarrow> None
      | Some cs \<Rightarrow> (case map_of cs (snd nm) of None \<Rightarrow> None | Some c \<Rightarrow> cs_event c))"

definition junit_add_event :: "testnode_t \<Rightarrow> job_t \<Rightarrow> event_t \<Rightarrow> junit_listener_t \<Rightarrow> np_error + junit_listener_t" where
  "junit_add_event root j ev js =
     bindE (case_names root j) (\<lambda>nm.
       if get_result ev = R_FAIL \<and> find_cs_event nm js = None
       then bindE (clone ev) (\<lambda>e. Inr (update_case nm (\<lambda>c. c\<lparr>cs_event := Some e\<rparr>) js))
       else Inr (update_case nm (\<lambda>c. c) js))"

subsection \<open>The report\<close>

datatype xml_node = Element string "(string \<times> string) list" "xml_node list" | Text_Node string

definition error_element :: "event_t \<Rightarrow> np_error + xml_node" where
  "error_element e =
     bindE (event_as_string e) (\<lambda>s.
     bindE (get_long_location e) (\<lambda>l.
       Inr (Element ''error'' [(''type'', which_as_string e), (''message'', the (ev_description e))] [Text_Node (s @ NL @ l)])))"

definition case_element :: "string \<times> case_t \<Rightarrow> np_error + xml_node" where
  "case_element nc =
     (case nc of (casename, c) \<Rightarrow>
        bindE (case cs_event c of None \<Rightarrow> Inr [] | Some e \<Rightarrow> bindE (error_element e) (\<lambda>x. Inr [x])) (\<lambda>errs.
          Inr (Element ''testcase'' [(''name'', casename), (''classname'', casename), (''time'', rel_format (cs_elapsed c))] errs)))"

fun case_elements :: "cases_t \<Rightarrow> np_error + xml_node list" where
  "case_elements [] = Inr []"
| "case_elements (nc # ncs) = bindE (case_element nc) (\<lambda>x. bindE (case_elements ncs) (\<lambda>xs. Inr (x # xs)))"

definition all_output :: "(case_t \<Rightarrow> string) \<Rightarrow> cases_t \<Rightarrow> string" where
  "all_output out cs = concat (map (\<lambda>(nm, c). if out c \<noteq> [] then ''==='' @ nm @ ''==='' @ NL @ out c else []) cs)"

definition nerrs :: "cases_t \<Rightarrow> u32" where
  "nerrs cs = fold (\<lambda>(nm, c) n. if cs_result c = R_FAIL then n + 1 else n) cs 0"

definition suite_element :: "string \<Rightarrow> string \<Rightarrow> string \<times> cases_t \<Rightarrow> np_error + xml_node" where
  "suite_element hostname timestamp s =
     (case s of (suitename, cs) \<Rightarrow>
        bindE (case_elements cs) (\<lambda>xs.
          Inr (Element ''testsuite''
                 [(''name'', suitename), (''failures'', ''0''), (''tests'', dec (of_nat (length cs))), (''hostname'', hostname),
                  (''timestamp'', timestamp), (''errors'', dec (nerrs cs)), (''time'', rel_format (sum_list (map (\<lambda>(nm, c). cs_elapsed c) cs)))]
                 ([Element ''properties'' [] []] @ xs @
                  [Element ''system-out'' [] [Text_Node (all_output cs_stdout cs)], Element ''system-err'' [] [Text_Node (all_output cs_stderr cs)]]))))"

fun write_suites :: "string \<Rightarrow> string \<Rightarrow> junit_listener_t \<Rightarrow> np_error + (string \<times> xml_node) list" where
  "write_suites hostname timestamp [] = Inr []"
| "write_suites hostname timestamp (s # ss) =
     bindE (suite_element hostname timestamp s) (\<lambda>x.
     bindE (write_suites hostname timestamp ss) (\<lambda>xs. Inr ((''reports/TEST-'' @ fst s @ ''.xml'', x) # xs)))"

text \<open>
  The end of a run: the files written, with their documents. The name of the host is an
  argument, nothing if it is not known, as is whether the directory is there or could be made.
\<close>

definition get_hostname :: "string option \<Rightarrow> string" where
  "get_hostname h = (case h of None \<Rightarrow> ''localhost'' | Some s \<Rightarrow> s)"

definition junit_end :: "string option \<Rightarrow> string \<Rightarrow> bool \<Rightarrow> junit_listener_t \<Rightarrow> np_error + (string \<times> xml_node) list" where
  "junit_end h timestamp directory_ok js =
     (if \<not> directory_ok then Inr [] else write_suites (get_hostname h) timestamp js)"

fun junit_call ::
  "testnode_t \<Rightarrow> (job_t \<Rightarrow> file_t \<times> file_t) \<Rightarrow> int \<Rightarrow> lcall \<Rightarrow> junit_listener_t \<Rightarrow> np_error + junit_listener_t" where
  "junit_call root files now (L_End_Job j res) js = junit_end_job root files now j res js"
| "junit_call root files now (L_Add_Event j ev) js = junit_add_event root j ev js"
| "junit_call root files now _ js = Inr js"

section \<open>Listeners that count\<close>

fun listener_calls :: "(lcall \<Rightarrow> 's \<Rightarrow> np_error + 's) \<Rightarrow> lcall list \<Rightarrow> 's \<Rightarrow> np_error + 's" where
  "listener_calls call [] s = Inr s"
| "listener_calls call (c # cs) s = bindE (call c s) (listener_calls call cs)"

text \<open>
  The interface of a listener that counts the jobs of a run: its counts follow what the runner
  tells it.
\<close>

locale counting_listener =
  fixes call :: "lcall \<Rightarrow> 's \<Rightarrow> np_error + 's" and counts :: "'s \<Rightarrow> u32 \<times> u32"
  assumes call_counts: "call c s = Inr s' \<Longrightarrow> counts s' = told c (counts s)"
begin

lemma calls_counts: "listener_calls call cs s = Inr s' \<Longrightarrow> counts s' = fold told cs (counts s)"
  by (induction cs arbitrary: s) (auto simp: bindE_Inr_iff call_counts)

end

lemma listener_calls_append:
  "listener_calls call (cs @ ds) s = bindE (listener_calls call cs s) (listener_calls call ds)"
proof (induction cs arbitrary: s)
  case (Cons c cs)
  then show ?case by (cases "call c s") simp_all
qed simp

interpretation tlis: counting_listener "text_call root" "\<lambda>t. (tl_nrun t, tl_nfailed t)" for root
proof
  fix c s s'
  assume "text_call root c s = Inr s'"
  then show "(tl_nrun s', tl_nfailed s') = told c (tl_nrun s, tl_nfailed s)"
  proof (cases c)
    case (L_End_Job j res)
    with \<open>text_call root c s = Inr s'\<close> show ?thesis
      by (cases res) (auto simp: text_end_job_def tl_print_def bindE_Inr_iff Let_def)
  qed (auto simp: text_begin_def text_end_def text_begin_job_def text_add_event_def tl_print_def bindE_Inr_iff)
qed

text \<open>A call whose names and texts can be printed.\<close>

fun printable :: "testnode_t \<Rightarrow> lcall \<Rightarrow> bool" where
  "printable root (L_Begin_Job j) \<longleftrightarrow> \<not> isl (job_as_string root j)"
| "printable root (L_End_Job j res) \<longleftrightarrow> \<not> isl (job_as_string root j)"
| "printable root (L_Add_Event j ev) \<longleftrightarrow> \<not> isl (event_as_string ev) \<and> \<not> isl (get_long_location ev)"
| "printable root _ \<longleftrightarrow> True"

lemma not_isl_Inr: "\<not> isl x \<Longrightarrow> (\<And>y. x = Inr y \<Longrightarrow> P) \<Longrightarrow> P"
  by (cases x) auto

lemma text_calls_printable: "list_all (printable root) cs \<Longrightarrow> \<exists>t'. listener_calls (text_call root) cs t = Inr t'"
proof (induction cs arbitrary: t)
  case (Cons c cs)
  then have "\<exists>t1. text_call root c t = Inr t1"
    by (cases c) (auto simp: text_begin_job_def text_end_job_def text_add_event_def Let_def elim!: not_isl_Inr)
  with Cons show ?case by auto
qed simp

lemma told_counts_calls: "told_counts r = fold told (map fst (rn_trace r)) (0, 0)"
  by (simp add: told_counts_def fold_map comp_def case_prod_unfold)

text \<open>
  C4. The text listener reports the run: given the calls a fresh runner made during a run of
  the tests, it counts the same tests run and failed as the runner, so that the run exits with
  success exactly if the listener counted no failure, and the last line it prints gives
  these counts.
\<close>

theorem text_report_agrees:
  assumes "run_tests n fuel root oplan next_id jes es now ws (runner_new dbg vg) = Some (Inr (code, r))"
    and "list_all (printable root) (map fst (rn_trace r))"
  shows "\<exists>t out. listener_calls (text_call root) (map fst (rn_trace r)) text_listener_new = Inr t \<and>
    tl_nrun t = rn_nrun r \<and> tl_nfailed t = rn_nfailed r \<and> (code \<longleftrightarrow> tl_nfailed t \<noteq> 0) \<and>
    tl_out t = out @ ''np: '' @ dec (rn_nrun r) @ '' run '' @ dec (rn_nfailed r) @ '' failed'' @ NL"
proof -
  have cnt: "cnt_inv r" "code = (rn_nfailed r \<noteq> 0)" using run_tests_cnt [OF assms(1)] by simp_all
  obtain r2 where "r = runner_end r2" using run_tests_steps [OF assms(1)] by blast
  then obtain cs where cs: "map fst (rn_trace r) = cs @ [L_End]" by (simp add: runner_end_def dispatch_def)
  obtain t where t: "listener_calls (text_call root) (map fst (rn_trace r)) text_listener_new = Inr t"
    using text_calls_printable [OF assms(2)] by blast
  have "(tl_nrun t, tl_nfailed t) = told_counts r"
    using tlis.calls_counts [OF t] by (simp add: text_listener_new_def told_counts_calls)
  then have n: "tl_nrun t = rn_nrun r" "tl_nfailed t = rn_nfailed r" using cnt(1) by (simp_all add: cnt_inv_def)
  obtain t1 where "t = text_end t1" using t by (auto simp: cs listener_calls_append bindE_Inr_iff)
  then have "tl_out t = tl_out t1 @ ''np: '' @ dec (tl_nrun t) @ '' run '' @ dec (tl_nfailed t) @ '' failed'' @ NL"
    by (simp add: text_end_def tl_print_def)
  with t n cnt(2) show ?thesis by auto
qed

lemma demo_run_printable:
  "case demo_run of Some (Inr (code, r)) \<Rightarrow> code \<and> list_all (printable demo_suite) (map fst (rn_trace r)) \<and> rn_nrun r = 1 \<and> rn_nfailed r = 1 | _ \<Rightarrow> False"
  by code_simp

theorem text_report_agrees_witness:
  "\<exists>r t out. demo_run = Some (Inr (True, r)) \<and>
    listener_calls (text_call demo_suite) (map fst (rn_trace r)) text_listener_new = Inr t \<and>
    tl_out t = out @ ''np: 1 run 1 failed'' @ NL"
proof -
  obtain r where r: "demo_run = Some (Inr (True, r))" "list_all (printable demo_suite) (map fst (rn_trace r))"
    "rn_nrun r = 1" "rn_nfailed r = 1"
    using demo_run_printable by (auto split: option.splits sum.splits)
  have d: "dec 1 = ''1''" by code_simp
  from text_report_agrees [OF r(1) [unfolded demo_run_def] r(2)] r show ?thesis by (auto simp: d)
qed

section \<open>The cases of the JUnit report\<close>

definition look :: "string \<times> string \<Rightarrow> junit_listener_t \<Rightarrow> case_t option" where
  "look nm js = (case map_of js (fst nm) of None \<Rightarrow> None | Some cs \<Rightarrow> map_of cs (snd nm))"

definition keys_sorted :: "junit_listener_t \<Rightarrow> bool" where
  "keys_sorted js \<longleftrightarrow> sorted_wrt (<) (map fst js) \<and> (\<forall>s\<in>set js. sorted_wrt (<) (map fst (snd s)))"

lemma map_at_keys: "fst ` set (map_at k d f xs) = insert k (fst ` set xs)"
  by (induction k d f xs rule: map_at.induct) auto

lemma map_at_sorted: "sorted_wrt (<) (map fst xs) \<Longrightarrow> sorted_wrt (<) (map fst (map_at k d f xs))"
proof (induction k d f xs rule: map_at.induct)
  case (2 k d f k' v xs)
  have "\<forall>y\<in>fst ` set (map_at k d f xs). k' < y" if "\<not> k < k'" "k \<noteq> k'"
    using 2(2) that by (auto simp: map_at_keys)
  with 2 show ?case by auto
qed simp

lemma map_of_map_at:
  "sorted_wrt (<) (map fst xs) \<Longrightarrow>
     map_of (map_at k d f xs) k' = (if k' = k then Some (f (case map_of xs k of None \<Rightarrow> d | Some v \<Rightarrow> v)) else map_of xs k')"
proof (induction k d f xs rule: map_at.induct)
  case (2 k d f k1 v xs)
  have "map_of xs k = None" if "k < k1" using 2(2) that by (force simp: map_of_eq_None_iff)
  with 2 show ?case by auto
qed simp

lemma map_at_values:
  "sorted_wrt (<) (map fst xs) \<Longrightarrow> x \<in> set (map_at k d f xs) \<Longrightarrow>
     snd x = f (case map_of xs k of None \<Rightarrow> d | Some v \<Rightarrow> v) \<or> x \<in> set xs"
proof (induction k d f xs rule: map_at.induct)
  case (2 k d f k1 v xs)
  have n: "map_of xs k = None" if "k < k1" using 2(2) that by (force simp: map_of_eq_None_iff)
  consider "k = k1" | "k \<noteq> k1" "k < k1" | "k \<noteq> k1" "\<not> k < k1" by blast
  then show ?case
  proof cases
    case 1
    with 2(3) show ?thesis by auto
  next
    case 2
    with n "2.prems"(2) show ?thesis by auto
  next
    case 3
    with "2.prems" "2.IH" [OF 3] show ?thesis by auto
  qed
qed simp

lemma update_case_sorted:
  assumes "keys_sorted js"
  shows "keys_sorted (update_case nm f js)"
proof -
  let ?g = "map_at (snd nm) case_new f"
  have s: "sorted_wrt (<) (map fst js)" "\<forall>x\<in>set js. sorted_wrt (<) (map fst (snd x))" using assms by (simp_all add: keys_sorted_def)
  have "sorted_wrt (<) (map fst (?g (case map_of js (fst nm) of None \<Rightarrow> [] | Some cs \<Rightarrow> cs)))"
    using s(2) by (intro map_at_sorted) (auto dest!: map_of_SomeD split: option.split)
  then have "sorted_wrt (<) (map fst (snd x))" if "x \<in> set (update_case nm f js)" for x
    using map_at_values [OF s(1) that [unfolded update_case_def]] s(2) by auto
  then show ?thesis using map_at_sorted [OF s(1)] by (simp add: keys_sorted_def update_case_def)
qed

lemma look_update_case:
  assumes "keys_sorted js"
  shows "look nm' (update_case nm f js) =
    (if nm' = nm then Some (f (case look nm js of None \<Rightarrow> case_new | Some c \<Rightarrow> c)) else look nm' js)"
proof -
  have s: "sorted_wrt (<) (map fst js)" "\<And>k cs. map_of js k = Some cs \<Longrightarrow> sorted_wrt (<) (map fst cs)"
    using assms by (auto simp: keys_sorted_def dest!: map_of_SomeD)
  show ?thesis
    using s(2) by (cases "map_of js (fst nm)")
      (auto simp: look_def update_case_def map_of_map_at [OF s(1)] map_of_map_at prod_eq_iff split: option.split)
qed

text \<open>The case a call is about, and what the calls about a case say of it.\<close>

fun call_job :: "lcall \<Rightarrow> job_t option" where
  "call_job (L_End_Job j res) = Some j"
| "call_job (L_Add_Event j ev) = Some j"
| "call_job _ = None"

definition names_of :: "testnode_t \<Rightarrow> lcall \<Rightarrow> (string \<times> string) option" where
  "names_of root c =
     (case call_job c of None \<Rightarrow> None | Some j \<Rightarrow> (case case_names root j of Inl e \<Rightarrow> None | Inr nm \<Rightarrow> Some nm))"

fun ended :: "lcall \<Rightarrow> (job_t \<times> result_t) option" where
  "ended (L_End_Job j res) = Some (j, res)"
| "ended _ = None"

fun failing :: "lcall \<Rightarrow> event_t option" where
  "failing (L_Add_Event j ev) = (if get_result ev = R_FAIL then Some ev else None)"
| "failing _ = None"

definition first_of :: "'a list \<Rightarrow> 'a option" where
  "first_of xs = (case xs of [] \<Rightarrow> None | x # _ \<Rightarrow> Some x)"

text \<open>
  The state of a case after some calls about it: the result, time and output of the job as it was
  when it ended last, and the first failing event.
\<close>

type_synonym outcome_t = "result_t \<times> int \<times> string \<times> string"

definition case_outcome :: "case_t \<Rightarrow> outcome_t" where
  "case_outcome c = (cs_result c, cs_elapsed c, cs_stdout c, cs_stderr c)"

fun end_outcome :: "(job_t \<Rightarrow> file_t \<times> file_t) \<Rightarrow> int \<Rightarrow> job_t \<times> result_t \<Rightarrow> outcome_t" where
  "end_outcome files now (j, res) =
     (res, get_elapsed now j, get_file_contents (fst (files j)), get_file_contents (snd (files j)))"

definition told_case :: "(job_t \<Rightarrow> file_t \<times> file_t) \<Rightarrow> int \<Rightarrow> lcall list \<Rightarrow> case_t option \<Rightarrow> bool" where
  "told_case files now cs c \<longleftrightarrow> (case c of
      None \<Rightarrow> cs = []
    | Some c \<Rightarrow> cs \<noteq> [] \<and> case_outcome c = last ((R_UNKNOWN, 0, [], []) # map (end_outcome files now) (List.map_filter ended cs)) \<and>
        cs_event c = first_of (List.map_filter failing cs))"

lemma map_filter_snoc: "List.map_filter f (xs @ [x]) = List.map_filter f xs @ (case f x of None \<Rightarrow> [] | Some y \<Rightarrow> [y])"
  by (simp add: map_filter_def split: option.split)

lemma told_case_snoc:
  assumes "told_case files now cs c"
    "case_outcome c' = (case ended x of Some e \<Rightarrow> end_outcome files now e | None \<Rightarrow> case_outcome (case c of None \<Rightarrow> case_new | Some c \<Rightarrow> c))"
    "cs_event c' = (let e = cs_event (case c of None \<Rightarrow> case_new | Some c \<Rightarrow> c) in if e = None then failing x else e)"
  shows "told_case files now (cs @ [x]) (Some c')"
  using assms
  by (cases "List.map_filter failing cs")
     (auto simp: told_case_def case_new_def case_outcome_def first_of_def map_filter_snoc Let_def split: option.splits)

lemma junit_call_told:
  assumes "junit_call root files now c js = Inr js'" "keys_sorted js" "told_case files now cs (look nm js)"
  shows "told_case files now (if names_of root c = Some nm then cs @ [c] else cs) (look nm js') \<and> keys_sorted js'"
proof (cases "call_job c")
  case None
  then show ?thesis using assms by (cases c) (auto simp: names_of_def)
next
  case (Some j)
  obtain nmc where n: "case_names root j = Inr nmc"
    using assms(1) Some by (cases c) (auto simp: junit_end_job_def junit_add_event_def bindE_Inr_iff)
  then have names: "names_of root c = Some nmc" using Some by (simp add: names_of_def)
  have ev: "find_cs_event nmc js = cs_event (case look nmc js of None \<Rightarrow> case_new | Some c \<Rightarrow> c)"
    by (simp add: find_cs_event_def look_def case_new_def split: option.split)
  obtain f where f: "js' = update_case nmc f js"
    "\<And>x. x = (case look nmc js of None \<Rightarrow> case_new | Some c \<Rightarrow> c) \<Longrightarrow>
      case_outcome (f x) = (case ended c of Some e \<Rightarrow> end_outcome files now e | None \<Rightarrow> case_outcome x) \<and>
      cs_event (f x) = (if cs_event x = None then failing c else cs_event x)"
    using assms(1) Some n
  proof (cases c)
    case (L_End_Job j' res)
    with assms(1) Some n that show ?thesis by (auto simp: junit_end_job_def bindE_Inr_iff case_outcome_def)
  next
    case (L_Add_Event j' e)
    show ?thesis
    proof (cases "get_result e = R_FAIL \<and> find_cs_event nmc js = None")
      case True
      with assms(1) Some n L_Add_Event ev show ?thesis
        by (intro that [of "\<lambda>c. c\<lparr>cs_event := Some e\<rparr>"]) (auto simp: junit_add_event_def clone_def bindE_Inr_iff case_outcome_def)
    next
      case False
      with assms(1) Some n L_Add_Event ev show ?thesis
        by (intro that [of "\<lambda>c. c"]) (auto simp: junit_add_event_def bindE_Inr_iff split: if_splits)
    qed
  qed simp_all
  have "told_case files now (cs @ [c]) (look nm js')" if "nm = nmc"
  proof -
    have "told_case files now (cs @ [c]) (Some (f (case look nmc js of None \<Rightarrow> case_new | Some c \<Rightarrow> c)))"
      using f(2) [OF refl] by (intro told_case_snoc [OF assms(3) [unfolded that]]) (simp_all add: Let_def)
    with that show ?thesis by (simp add: f(1) look_update_case [OF assms(2)])
  qed
  then show ?thesis using assms(3) names by (auto simp: f(1) look_update_case [OF assms(2)] update_case_sorted [OF assms(2)])
qed

lemma junit_calls_told:
  "listener_calls (junit_call root files now) cs js = Inr js' \<Longrightarrow> keys_sorted js \<Longrightarrow> told_case files now ds (look nm js) \<Longrightarrow>
     told_case files now (ds @ filter (\<lambda>c. names_of root c = Some nm) cs) (look nm js') \<and> keys_sorted js'"
proof (induction cs arbitrary: js ds)
  case (Cons c cs)
  then obtain js1 where j: "junit_call root files now c js = Inr js1" "listener_calls (junit_call root files now) cs js1 = Inr js'"
    by (auto simp: bindE_Inr_iff)
  from junit_call_told [OF j(1) Cons.prems(2,3)] Cons.IH [OF j(2), of ds] Cons.IH [OF j(2), of "ds @ [c]"]
  show ?case by (auto split: if_splits)
qed auto

text \<open>A call with names and strings that can be made.\<close>

fun reportable :: "testnode_t \<Rightarrow> lcall \<Rightarrow> bool" where
  "reportable root (L_End_Job j res) \<longleftrightarrow> \<not> isl (case_names root j)"
| "reportable root (L_Add_Event j ev) \<longleftrightarrow> \<not> isl (case_names root j) \<and> \<not> isl (save_strings ev)"
| "reportable root _ \<longleftrightarrow> True"

lemma junit_calls_reportable:
  "list_all (reportable root) cs \<Longrightarrow> \<exists>js'. listener_calls (junit_call root files now) cs js = Inr js'"
proof (induction cs arbitrary: js)
  case (Cons c cs)
  then have "\<exists>js1. junit_call root files now c js = Inr js1"
    by (cases c) (auto simp: junit_end_job_def junit_add_event_def clone_def elim!: not_isl_Inr)
  with Cons show ?case by auto
qed simp

text \<open>
  Case by case, under the names the listener gives them. Which jobs have the same names is the
  subject of \<^verbatim>\<open>NP_Junit\<close>.
\<close>

lemma junit_cases_by_name:
  assumes "list_all (reportable root) cs"
  shows "\<exists>js. listener_calls (junit_call root files now) cs [] = Inr js \<and> keys_sorted js \<and>
    (\<forall>nm. told_case files now (filter (\<lambda>c. names_of root c = Some nm) cs) (look nm js))"
proof -
  obtain js where js: "listener_calls (junit_call root files now) cs [] = Inr js" using junit_calls_reportable [OF assms] by blast
  have "keys_sorted []" "told_case files now [] (look nm [])" for nm by (simp_all add: keys_sorted_def told_case_def look_def)
  from junit_calls_told [OF js this] js show ?thesis by auto
qed

text \<open>Two jobs of the suite \<open>a\<close>, whose calls are interleaved.\<close>

definition demo_case_job :: "nat \<Rightarrow> job_t" where
  "demo_case_job k = \<lparr>jb_id = 1, jb_node = [0, 0], jb_assigns = [\<lparr>as_param = \<lparr>pm_name = ''p'', pm_variable = 1, pm_values = [''x'', ''y'']\<rparr>, as_idx = k\<rparr>],
     jb_start = 5, jb_end = 9, jb_stdout_path = [], jb_stderr_path = []\<rparr>"

definition demo_calls :: "lcall list" where
  "demo_calls = [L_Begin, L_Begin_Job (demo_case_job 0), L_Begin_Job (demo_case_job 1), L_Add_Event (demo_case_job 1) (mk_event EV_EXFAIL ''bad''),
     L_End_Job (demo_case_job 0) R_PASS, L_End_Job (demo_case_job 1) R_FAIL, L_End]"

end
