(* ===== verification/NP_Interpose.thy ===== *)
theory NP_Interpose
  imports NP_Runner NP_Classifier
begin

text \<open>
  The functions that code under test reaches the framework through: \<^verbatim>\<open>uasserts.c\<close>,
  \<^verbatim>\<open>iassert.c\<close>, \<^verbatim>\<open>icunit.c\<close>, \<^verbatim>\<open>iexit.c\<close>, \<^verbatim>\<open>iexcept.c\<close> and \<^verbatim>\<open>isyslog.c\<close>. Throwing an event
  (\<^verbatim>\<open>np_throw\<close> of \<^verbatim>\<open>except.h\<close>) leaves the function for good, which is an outcome here. The stack
  trace, the texts that \<^verbatim>\<open>printf\<close> and \<^verbatim>\<open>strerror\<close> make and the matching of the regular
  expressions that tests write are arguments.
\<close>

section \<open>Assertions\<close>

datatype 'a outcome = Returns 'a | Thrown event_t

definition np_pass :: "string \<Rightarrow> u32 \<Rightarrow> 'a outcome" where
  "np_pass file line = Thrown (at_line file line (mk_event EV_EXPASS ''NP_PASS called''))"

definition np_fail :: "string \<Rightarrow> string \<Rightarrow> u32 \<Rightarrow> 'a outcome" where
  "np_fail trace file line = Thrown (with_stack trace (at_line file line (mk_event EV_EXFAIL ''NP_FAIL called'')))"

definition np_notapplicable :: "string \<Rightarrow> string \<Rightarrow> u32 \<Rightarrow> 'a outcome" where
  "np_notapplicable trace file line =
     Thrown (with_stack trace (at_line file line (mk_event EV_EXNA ''NP_NOTAPPLICABLE called'')))"

definition np_assert_failed :: "string \<Rightarrow> string \<Rightarrow> u32 \<Rightarrow> string \<Rightarrow> 'a outcome" where
  "np_assert_failed trace file line formatted =
     Thrown (with_stack trace (at_line file line (mk_event EV_ASSERT (snprintf 1024 formatted))))"

definition assert_fail :: "string \<Rightarrow> string \<Rightarrow> string \<Rightarrow> u32 \<Rightarrow> string \<Rightarrow> 'a outcome" where
  "assert_fail trace condition filename lineno func =
     Thrown (with_stack trace (in_function func (at_line filename lineno (mk_event EV_ASSERT condition))))"

definition assert_perror_fail :: "(int \<Rightarrow> string) \<Rightarrow> string \<Rightarrow> int \<Rightarrow> string \<Rightarrow> u32 \<Rightarrow> string \<Rightarrow> 'a outcome" where
  "assert_perror_fail strerror trace errnum filename lineno func =
     Thrown (with_stack trace (in_function func (at_line filename lineno (mk_event EV_ASSERT (strerror errnum)))))"

definition assert_plain :: "string \<Rightarrow> string \<Rightarrow> string \<Rightarrow> u32 \<Rightarrow> 'a outcome" where
  "assert_plain trace condition filename lineno =
     Thrown (with_stack trace (at_line filename lineno (mk_event EV_ASSERT condition)))"

definition CU_assertImplementation :: "string \<Rightarrow> bool \<Rightarrow> u32 \<Rightarrow> string \<Rightarrow> string \<Rightarrow> string \<Rightarrow> bool outcome" where
  "CU_assertImplementation trace bValue uiLine strCondition strFile strFunction =
     (if \<not> bValue
      then Thrown (with_stack trace (in_function strFunction (at_line strFile uiLine (mk_event EV_ASSERT strCondition))))
      else Returns True)"

section \<open>Leaving the program\<close>

definition mock_exit :: "string \<Rightarrow> int \<Rightarrow> 'a outcome" where
  "mock_exit trace status = Thrown (with_stack trace (mk_event EV_EXIT (snprintf 64 (''exit('' @ int_string status @ '')''))))"

text \<open>
  The handler of exceptions no one catches: the demangled name of the current exception, if
  there is one, and what it says, if it is a standard exception.
\<close>

definition terminate_handler :: "string \<Rightarrow> string option \<Rightarrow> string option \<Rightarrow> 'a outcome" where
  "terminate_handler trace name what =
     (case name of
        None \<Rightarrow> Thrown (with_stack trace (mk_event EV_EXCEPTION ''terminate called without an active exception''))
      | Some nm \<Rightarrow>
          (let desc = snprintf 2048 (''terminate called with exception '' @ nm);
               desc2 = (case what of None \<Rightarrow> desc | Some s \<Rightarrow> desc @ snprintf (2048 - length desc) ('': '' @ s))
           in Thrown (with_stack trace (mk_event EV_EXCEPTION desc2))))"

section \<open>Messages to the system log\<close>

datatype sldisposition_t = SL_UNKNOWN | SL_IGNORE | SL_COUNT | SL_FAIL

fun sl_ord :: "sldisposition_t \<Rightarrow> nat" where
  "sl_ord SL_UNKNOWN = 0"
| "sl_ord SL_IGNORE = 1"
| "sl_ord SL_COUNT = 2"
| "sl_ord SL_FAIL = 3"

text \<open>The compiled expression of an expectation is the set of messages it matches.\<close>

record slmatch_t =
  sl_matches :: "string \<Rightarrow> bool"
  sl_disposition :: sldisposition_t
  sl_count :: u32
  sl_tag :: int

text \<open>\<open>compile\<close> is \<^verbatim>\<open>set_regexp\<close> on an arbitrary expression: the message of an error, or what it matches.\<close>

definition add_slmatch ::
  "(string \<Rightarrow> string + (string \<Rightarrow> bool)) \<Rightarrow> string \<Rightarrow> string \<Rightarrow> sldisposition_t \<Rightarrow> int \<Rightarrow> slmatch_t list \<Rightarrow> slmatch_t list outcome" where
  "add_slmatch compile trace re dis tag ms =
     (case compile re of
        Inl msg \<Rightarrow> Thrown (with_stack trace (mk_event EV_SLMATCH msg))
      | Inr p \<Rightarrow> Returns (ms @ [\<lparr>sl_matches = p, sl_disposition = dis, sl_count = 0, sl_tag = tag\<rparr>]))"

definition np_syslog_fail :: "(string \<Rightarrow> string + (string \<Rightarrow> bool)) \<Rightarrow> string \<Rightarrow> string \<Rightarrow> slmatch_t list \<Rightarrow> slmatch_t list outcome" where
  "np_syslog_fail compile trace re ms = add_slmatch compile trace re SL_FAIL 0 ms"

definition np_syslog_ignore :: "(string \<Rightarrow> string + (string \<Rightarrow> bool)) \<Rightarrow> string \<Rightarrow> string \<Rightarrow> slmatch_t list \<Rightarrow> slmatch_t list outcome" where
  "np_syslog_ignore compile trace re ms = add_slmatch compile trace re SL_IGNORE 0 ms"

definition np_syslog_match ::
  "(string \<Rightarrow> string + (string \<Rightarrow> bool)) \<Rightarrow> string \<Rightarrow> string \<Rightarrow> int \<Rightarrow> slmatch_t list \<Rightarrow> slmatch_t list outcome" where
  "np_syslog_match compile trace re tag ms = add_slmatch compile trace re SL_COUNT tag ms"

definition np_syslog_count :: "string \<Rightarrow> int \<Rightarrow> slmatch_t list \<Rightarrow> u32 outcome" where
  "np_syslog_count trace tag ms =
     (let mine = filter (\<lambda>m. tag < 0 \<or> sl_tag m = tag) ms
      in if mine = [] then Thrown (with_stack trace (mk_event EV_SLMATCH (snprintf 64 (''Unmatched syslog tag '' @ int_string tag))))
         else Returns (sum_list (map sl_count mine)))"

text \<open>
  \<^verbatim>\<open>find_slmatch\<close>: the loop keeps the index of the first expectation of the strongest
  disposition among those that match.
\<close>

definition sl_classify :: "slmatch_t \<Rightarrow> string \<Rightarrow> sldisposition_t" where
  "sl_classify m msg = (if sl_matches m msg then sl_disposition m else SL_UNKNOWN)"

fun slmatch_loop :: "string \<Rightarrow> nat \<Rightarrow> slmatch_t list \<Rightarrow> (nat \<times> sldisposition_t) option \<Rightarrow> (nat \<times> sldisposition_t) option" where
  "slmatch_loop msg i [] most = most"
| "slmatch_loop msg i (m # ms) most =
     (let dis = sl_classify m msg
      in slmatch_loop msg (Suc i) ms
           (if dis \<noteq> SL_UNKNOWN \<and> (case most of None \<Rightarrow> True | Some (_, mostdis) \<Rightarrow> sl_ord mostdis < sl_ord dis)
            then Some (i, dis) else most))"

definition find_slmatch :: "string \<Rightarrow> slmatch_t list \<Rightarrow> sldisposition_t \<times> slmatch_t list" where
  "find_slmatch msg ms =
     (case slmatch_loop msg 0 ms None of
        None \<Rightarrow> (SL_FAIL, ms)
      | Some (i, mostdis) \<Rightarrow>
          (mostdis, if mostdis = SL_COUNT then ms[i := (ms ! i)\<lparr>sl_count := sl_count (ms ! i) + 1\<rparr>] else ms))"

definition prioritynames :: "(string \<times> u32) list" where
  "prioritynames =
     [(''alert'', 1), (''crit'', 2), (''debug'', 7), (''emerg'', 0), (''err'', 3), (''error'', 3), (''info'', 6),
      (''none'', 0x10), (''notice'', 5), (''panic'', 0), (''warn'', 4), (''warning'', 4)]"

definition syslog_priority_name :: "u32 \<Rightarrow> string" where
  "syslog_priority_name prio =
     (let p = prio AND 7
      in case List.find (\<lambda>c. snd c = p) prioritynames of Some c \<Rightarrow> fst c | None \<Rightarrow> snprintf 32 (dec p))"

definition is_space :: "char \<Rightarrow> bool" where
  "is_space c \<longleftrightarrow> c \<in> {CHR '' '', CHR 0x09, CHR 0x0A, CHR 0x0B, CHR 0x0C, CHR 0x0D}"

text \<open>The message as it is matched; trailing space is removed, but never the first character.\<close>

definition vlogmsg :: "u32 \<Rightarrow> string \<Rightarrow> string" where
  "vlogmsg prio formatted =
     (let pre = take 1021 (syslog_priority_name prio) @ '': '';
          buf = pre @ snprintf (1024 - length pre) formatted
      in take 1 buf @ rev (dropWhile is_space (rev (drop 1 buf))))"

text \<open>The mock of \<^verbatim>\<open>syslog\<close>: the expectations with their counts, and the events raised.\<close>

definition mock_syslog :: "string \<Rightarrow> u32 \<Rightarrow> string \<Rightarrow> slmatch_t list \<Rightarrow> (slmatch_t list \<times> event_t list) outcome" where
  "mock_syslog trace prio formatted ms =
     (let msg = vlogmsg prio formatted
      in case find_slmatch msg ms of
           (SL_FAIL, _) \<Rightarrow> Thrown (with_stack trace (mk_event EV_SLMATCH msg))
         | (SL_UNKNOWN, ms') \<Rightarrow> Returns (ms', [with_stack trace (mk_event EV_SYSLOG msg)])
         | (_, ms') \<Rightarrow> Returns (ms', []))"

section \<open>What the entry points do to a test\<close>

lemma with_stack_result [simp]: "get_result (with_stack trace ev) = get_result ev"
  by (simp add: with_stack_def get_result_def)

lemma at_line_result [simp]: "get_result (at_line f l ev) = get_result ev" "get_result (in_function fn ev) = get_result ev"
  by (simp_all add: at_line_def in_function_def get_result_def)

lemma mk_event_result: "get_result (mk_event w d) =
    (case w of EV_EXPASS \<Rightarrow> R_PASS | EV_EXNA \<Rightarrow> R_NOTAPPLICABLE | EV_SYSLOG \<Rightarrow> R_UNKNOWN | _ \<Rightarrow> R_FAIL)"
  by (simp add: get_result_def mk_event_def)

text \<open>The verdict on a message, from all expectations that match it.\<close>

definition sl_verdict :: "slmatch_t list \<Rightarrow> string \<Rightarrow> sldisposition_t" where
  "sl_verdict ms msg =
     (let ds = map sl_disposition (filter (\<lambda>m. sl_matches m msg) ms)
      in if ds = [] \<or> SL_FAIL \<in> set ds then SL_FAIL else if SL_COUNT \<in> set ds then SL_COUNT else SL_IGNORE)"

definition sl_total :: "slmatch_t list \<Rightarrow> u32" where
  "sl_total ms = sum_list (map sl_count ms)"

definition sl_expects :: "slmatch_t list \<Rightarrow> ((string \<Rightarrow> bool) \<times> sldisposition_t \<times> int) list" where
  "sl_expects ms = map (\<lambda>m. (sl_matches m, sl_disposition m, sl_tag m)) ms"

definition sl_ok :: "slmatch_t list \<Rightarrow> bool" where
  "sl_ok ms \<longleftrightarrow> (\<forall>m\<in>set ms. sl_disposition m \<noteq> SL_UNKNOWN)"

lemma sl_ord_le: "sl_ord d \<le> sl_ord SL_FAIL" "sl_ord d = sl_ord e \<longleftrightarrow> d = e" "sl_ord d = 0 \<longleftrightarrow> d = SL_UNKNOWN"
  by (cases d; cases e; simp)+

lemma slmatch_loop_None: "slmatch_loop msg i ms most = None \<longleftrightarrow> most = None \<and> (\<forall>m\<in>set ms. sl_classify m msg = SL_UNKNOWN)"
  by (induction msg i ms most rule: slmatch_loop.induct) (auto simp: Let_def split: if_splits)

lemma slmatch_loop_Some:
  "slmatch_loop msg i ms most = Some (k, d) \<Longrightarrow>
     (most = Some (k, d) \<or> i \<le> k \<and> k < i + length ms \<and> sl_classify (ms ! (k - i)) msg = d \<and> d \<noteq> SL_UNKNOWN) \<and>
     (\<forall>m\<in>set ms. sl_ord (sl_classify m msg) \<le> sl_ord d) \<and> (\<forall>k' d'. most = Some (k', d') \<longrightarrow> sl_ord d' \<le> sl_ord d)"
proof (induction msg i ms most rule: slmatch_loop.induct)
  case (2 msg i m ms most)
  let ?dis = "sl_classify m msg"
  let ?c = "?dis \<noteq> SL_UNKNOWN \<and> (case most of None \<Rightarrow> True | Some (_, mostdis) \<Rightarrow> sl_ord mostdis < sl_ord ?dis)"
  have IH: "((if ?c then Some (i, ?dis) else most) = Some (k, d) \<or>
      Suc i \<le> k \<and> k < Suc i + length ms \<and> sl_classify (ms ! (k - Suc i)) msg = d \<and> d \<noteq> SL_UNKNOWN)"
    "\<forall>m\<in>set ms. sl_ord (sl_classify m msg) \<le> sl_ord d"
    "\<forall>k' d'. (if ?c then Some (i, ?dis) else most) = Some (k', d') \<longrightarrow> sl_ord d' \<le> sl_ord d"
    using 2(1) [OF refl] 2(2) by (simp_all add: Let_def)
  show ?case
  proof (cases ?c)
    case True
    with IH have "sl_ord ?dis \<le> sl_ord d" by simp
    with True IH show ?thesis by (auto simp: nth_Cons' Suc_le_eq split: option.splits)
  next
    case False
    then have "sl_ord ?dis \<le> sl_ord d"
    proof (cases "?dis = SL_UNKNOWN")
      case False
      with \<open>\<not> ?c\<close> obtain k' d' where "most = Some (k', d')" "sl_ord ?dis \<le> sl_ord d'" by (cases most) auto
      with IH(3) \<open>\<not> ?c\<close> show ?thesis by fastforce
    qed simp
    with False IH show ?thesis by (auto simp: nth_Cons' Suc_le_eq)
  qed
qed simp

lemma strongest:
  assumes "d \<in> set ds" "\<forall>e\<in>set ds. sl_ord e \<le> sl_ord d" "d \<noteq> SL_UNKNOWN"
  shows "d = (if ds = [] \<or> SL_FAIL \<in> set ds then SL_FAIL else if SL_COUNT \<in> set ds then SL_COUNT else SL_IGNORE)"
proof -
  have "SL_FAIL \<in> set ds \<Longrightarrow> d = SL_FAIL" "SL_COUNT \<in> set ds \<Longrightarrow> d = SL_FAIL \<or> d = SL_COUNT"
    using assms(2) by (cases d; force)+
  moreover have "d = SL_IGNORE \<or> d = SL_COUNT \<or> d = SL_FAIL" using assms(3) by (cases d) simp_all
  ultimately show ?thesis using assms(1) by auto
qed

lemma sum_list_update_word:
  fixes xs :: "u32 list"
  shows "k < length xs \<Longrightarrow> sum_list (xs[k := x]) = sum_list xs + (x - xs ! k)"
  by (induction xs arbitrary: k) (auto simp: nth_Cons' split: nat.split)

lemma find_slmatch_verdict:
  assumes "sl_ok ms" "find_slmatch msg ms = (dis, ms')"
  shows "dis = sl_verdict ms msg \<and> sl_total ms' = sl_total ms + (if dis = SL_COUNT then 1 else 0) \<and> sl_expects ms' = sl_expects ms"
proof (cases "slmatch_loop msg 0 ms None")
  case None
  then have "\<not> sl_matches m msg" if "m \<in> set ms" for m
    using that assms(1) by (auto simp: slmatch_loop_None sl_classify_def sl_ok_def split: if_splits)
  then have "filter (\<lambda>m. sl_matches m msg) ms = []" by (simp add: filter_empty_conv)
  with None assms(2) show ?thesis by (simp add: find_slmatch_def sl_verdict_def)
next
  case (Some kd)
  obtain k d where kd: "kd = (k, d)" by fastforce
  have k: "k < length ms" "sl_classify (ms ! k) msg = d" "d \<noteq> SL_UNKNOWN" "\<forall>m\<in>set ms. sl_ord (sl_classify m msg) \<le> sl_ord d"
    using slmatch_loop_Some [OF Some [unfolded kd]] by simp_all
  let ?ds = "map sl_disposition (filter (\<lambda>m. sl_matches m msg) ms)"
  have d: "d \<in> set ?ds" using k nth_mem [OF k(1)] by (force simp: sl_classify_def split: if_splits)
  have le: "sl_ord e \<le> sl_ord d" if "e \<in> set ?ds" for e using that k(4) by (force simp: sl_classify_def)
  have "d = sl_verdict ms msg" unfolding sl_verdict_def Let_def using strongest [OF d _ k(3)] le by blast
  moreover have "sl_total (ms[k := (ms ! k)\<lparr>sl_count := sl_count (ms ! k) + 1\<rparr>]) = sl_total ms + 1"
    using k(1) by (simp add: sl_total_def map_update sum_list_update_word)
  moreover have "sl_expects (ms[k := (ms ! k)\<lparr>sl_count := sl_count (ms ! k) + 1\<rparr>]) = sl_expects ms"
    using k(1) by (simp add: sl_expects_def map_update list_update_same_conv)
  ultimately show ?thesis using assms(2) Some kd by (auto simp: find_slmatch_def)
qed

lemma expects_verdict: "sl_expects ms' = sl_expects ms \<Longrightarrow> sl_verdict ms' msg = sl_verdict ms msg \<and> sl_ok ms' = sl_ok ms"
proof -
  assume e: "sl_expects ms' = sl_expects ms"
  have v: "map sl_disposition (filter (\<lambda>m. sl_matches m msg) ms) = map (\<lambda>(p, d, t). d) (filter (\<lambda>(p, d, t). p msg) (sl_expects ms))" for ms
    by (simp add: sl_expects_def filter_map comp_def)
  have o: "sl_ok ms \<longleftrightarrow> (\<forall>(p, d, t)\<in>set (sl_expects ms). d \<noteq> SL_UNKNOWN)" for ms by (auto simp: sl_ok_def sl_expects_def)
  show ?thesis using e by (simp add: sl_verdict_def v o)
qed

fun syslog_all :: "string \<Rightarrow> (u32 \<times> string) list \<Rightarrow> slmatch_t list \<Rightarrow> slmatch_t list outcome" where
  "syslog_all trace [] ms = Returns ms"
| "syslog_all trace ((prio, body) # msgs) ms =
     (case mock_syslog trace prio body ms of Thrown ev \<Rightarrow> Thrown ev | Returns (ms', evs) \<Rightarrow> syslog_all trace msgs ms')"

lemma mock_syslog_verdict:
  assumes "sl_ok ms"
  shows "if sl_verdict ms (vlogmsg prio body) = SL_FAIL
    then mock_syslog trace prio body ms = Thrown (with_stack trace (mk_event EV_SLMATCH (vlogmsg prio body)))
    else \<exists>ms'. mock_syslog trace prio body ms = Returns (ms', []) \<and> sl_expects ms' = sl_expects ms \<and>
      sl_total ms' = sl_total ms + (if sl_verdict ms (vlogmsg prio body) = SL_COUNT then 1 else 0)"
proof -
  obtain dis ms' where f: "find_slmatch (vlogmsg prio body) ms = (dis, ms')" by fastforce
  note v = find_slmatch_verdict [OF assms f]
  have "dis \<noteq> SL_UNKNOWN" using v by (simp add: sl_verdict_def Let_def)
  with v f show ?thesis by (cases dis) (auto simp: mock_syslog_def Let_def)
qed


text \<open>Expectations made with expressions of the kind the classifiers use.\<close>

definition ere_compile :: "string \<Rightarrow> string + (string \<Rightarrow> bool)" where
  "ere_compile re = (case set_regexp re False of None \<Rightarrow> Inl ''not compiled'' | Some rx \<Rightarrow> Inr (\<lambda>s. regexec rx s \<noteq> None))"

definition demo_expectations :: "slmatch_t list" where
  "demo_expectations =
     (case np_syslog_ignore ere_compile [] ''skip'' [] of
        Thrown ev \<Rightarrow> []
      | Returns ms \<Rightarrow> (case np_syslog_match ere_compile [] ''^err: hel*o'' 1 ms of Thrown ev \<Rightarrow> [] | Returns ms' \<Rightarrow> ms'))"

lemma demo_expectations_ok:
  "sl_ok demo_expectations" "demo_expectations \<noteq> []" "sl_total demo_expectations = 0"
  "map (\<lambda>m. sl_verdict demo_expectations (vlogmsg (fst m) (snd m))) [(3, ''Hello ''), (6, ''skip it''), (3, ''hello'')] = [SL_COUNT, SL_IGNORE, SL_COUNT]"
proof -
  have "length demo_expectations = 2" "\<forall>m\<in>set demo_expectations. sl_disposition m \<noteq> SL_UNKNOWN" "sl_total demo_expectations = 0" by code_simp+
  then show "sl_ok demo_expectations" "demo_expectations \<noteq> []" "sl_total demo_expectations = 0" by (auto simp: sl_ok_def)
  show "map (\<lambda>m. sl_verdict demo_expectations (vlogmsg (fst m) (snd m))) [(3, ''Hello ''), (6, ''skip it''), (3, ''hello'')] = [SL_COUNT, SL_IGNORE, SL_COUNT]"
    by code_simp
qed


end
