(* ===== verification/NP_Platform.thy ===== *)
theory NP_Platform
  imports NP_State NP_Filename
begin

text \<open>
  \<^verbatim>\<open>spiegel/platform/x86x.cxx\<close> and \<^verbatim>\<open>spiegel/platform/linux.cxx\<close>: the stack trace, and what is
  asked of Linux and its linker. The memory of the process and the answers of the kernel
  and the linker are arguments.
\<close>

section \<open>Stack traces\<close>

text \<open>
  The forms of call instructions: for each byte a mask and the value under it. The number of
  bytes is the length the source writes before them.
\<close>

abbreviation (input) any_byte :: "u8 \<times> u8" where "any_byte \<equiv> (0, 0)"

definition insn_forms :: "(u8 \<times> u8) list list" where
  "insn_forms =
     [[(0xFF, 0xE8), any_byte, any_byte, any_byte, any_byte],
      [(0xFF, 0xFF), (0xE0, 0x00)],
      [(0xFF, 0xFF), (0xF8, 0x20), any_byte],
      [(0xFF, 0xFF), (0xF8, 0x28), any_byte, any_byte, any_byte, any_byte],
      [(0xFF, 0xFF), (0xF0, 0x30)],
      [(0xFF, 0xFF), (0xE0, 0x40), any_byte],
      [(0xFF, 0xFF), (0xF8, 0x60), any_byte, any_byte],
      [(0xFF, 0xFF), (0xF8, 0x68), any_byte],
      [(0xFF, 0xFF), (0xF0, 0x70), any_byte],
      [(0xFF, 0xFF), (0xE0, 0x80), any_byte, any_byte, any_byte, any_byte],
      [(0xFF, 0xFF), (0xF8, 0xA0), any_byte, any_byte, any_byte, any_byte, any_byte],
      [(0xFF, 0xFF), (0xF8, 0xA8), any_byte, any_byte, any_byte, any_byte],
      [(0xFF, 0xFF), (0xF0, 0xB0), any_byte, any_byte, any_byte, any_byte],
      [(0xFF, 0xFF), (0xE0, 0xC0)],
      [(0xFF, 0xFF), (0xF8, 0xE0)],
      [(0xFF, 0xFF), (0xF8, 0xE8)],
      [(0xFF, 0xFF), (0xF0, 0xF0)]]"

fun form_matches :: "(u64 \<Rightarrow> u8) \<Rightarrow> u64 \<Rightarrow> (u8 \<times> u8) list \<Rightarrow> bool" where
  "form_matches mem p [] = True"
| "form_matches mem p ((m, want) # fs) = (if mem p AND m \<noteq> want then False else form_matches mem (p + 1) fs)"

fun call_length_loop :: "(u64 \<Rightarrow> u8) \<Rightarrow> u64 \<Rightarrow> (u8 \<times> u8) list list \<Rightarrow> nat" where
  "call_length_loop mem ra [] = 0"
| "call_length_loop mem ra (f # fs) = (if form_matches mem (ra - of_nat (length f)) f then length f else call_length_loop mem ra fs)"

definition call_instruction_length_for_ra :: "(u64 \<Rightarrow> u8) \<Rightarrow> u64 \<Rightarrow> nat" where
  "call_instruction_length_for_ra mem ra = call_length_loop mem ra insn_forms"

definition read_ulong :: "(u64 \<Rightarrow> u8) \<Rightarrow> u64 \<Rightarrow> u64" where
  "read_ulong mem a = word_of_bytes (map (\<lambda>i. mem (a + of_nat i)) [0..<8])"

definition frame_address :: "(u64 \<Rightarrow> u8) \<Rightarrow> u64 \<Rightarrow> u64" where
  "frame_address mem bp =
     (let ra = read_ulong mem (bp + 8)
      in if ra > 4096 then ra - of_nat (call_instruction_length_for_ra mem ra) else ra)"

text \<open>Whether the walk over the frames goes on to the next frame pointer.\<close>

definition last_frame :: "u64 \<Rightarrow> u64 \<Rightarrow> bool" where
  "last_frame bp nextbp \<longleftrightarrow> nextbp = 0 \<or> nextbp < bp \<or> nextbp - bp > 16384"

partial_function (option) stack_loop :: "(u64 \<Rightarrow> u8) \<Rightarrow> u64 \<Rightarrow> u64 list option" where
  "stack_loop mem bp =
     (if last_frame bp (read_ulong mem bp) then Some [frame_address mem bp]
      else Option.bind (stack_loop mem (read_ulong mem bp)) (\<lambda>stack. Some (frame_address mem bp # stack)))"

text \<open>The frame pointer of \<^verbatim>\<open>get_stacktrace\<close> itself is an argument.\<close>

definition get_stacktrace :: "(u64 \<Rightarrow> u8) \<Rightarrow> u64 \<Rightarrow> u64 list option" where
  "get_stacktrace mem bp = stack_loop mem bp"

section \<open>Link objects\<close>

record phdr_t =
  ph_type :: u32
  ph_offset :: u64
  ph_vaddr :: u64
  ph_memsz :: u64

record phdr_info =
  di_addr :: u64
  di_name :: "string option"
  di_phdr :: "phdr_t list"

definition phdr_mapping :: "u64 \<Rightarrow> phdr_t \<Rightarrow> mapping_t list" where
  "phdr_mapping addr ph =
     (if ph_type ph \<noteq> 1 then []
      else if ph_memsz ph = 0 then []
      else [\<lparr>mp_offset = ph_offset ph, mp_size = ph_memsz ph, mp_map = addr + ph_vaddr ph\<rparr>])"

definition add_one_linkobj :: "phdr_info \<Rightarrow> linkobj_t list \<Rightarrow> linkobj_t list" where
  "add_one_linkobj info vec =
     (if di_phdr info = [] then vec
      else vec @ [\<lparr>lj_name = (if di_name info = Some [] then None else di_name info), lj_slide = di_addr info,
                   lj_mappings = concat (map (phdr_mapping (di_addr info)) (di_phdr info))\<rparr>])"

definition get_linkobjs :: "phdr_info list \<Rightarrow> linkobj_t list" where
  "get_linkobjs infos = fold add_one_linkobj infos []"

text \<open>\<open>dladdr\<close> gives nothing if it fails, else the name of the symbol, if it has one.\<close>

definition follow_plt :: "(addr_t \<Rightarrow> string option option) \<Rightarrow> (string option \<Rightarrow> addr_t) \<Rightarrow> addr_t \<Rightarrow> addr_t" where
  "follow_plt dladdr dlsym addr = (case dladdr addr of None \<Rightarrow> addr | Some sname \<Rightarrow> dlsym sname)"

section \<open>Debuggers and descriptors\<close>

definition digit_char :: "char \<Rightarrow> bool" where
  "digit_char c \<longleftrightarrow> CHR ''0'' = c \<or> c \<in> set ''123456789''"

text \<open>The decimal number a string starts with.\<close>

definition decimal :: "string \<Rightarrow> nat" where
  "decimal s = foldl (\<lambda>n c. 10 * n + (of_char c - 48)) 0 (takeWhile digit_char s)"

text \<open>
  \<^verbatim>\<open>get_tracer_pid\<close>: the lines of the status file as \<^verbatim>\<open>fgets\<close> returns them, nothing if it cannot
  be opened. The number is converted to a signed 32-bit process identifier.
\<close>

fun tracer_loop :: "string list \<Rightarrow> int" where
  "tracer_loop [] = 0"
| "tracer_loop (l # ls) =
     (case tok_all (tok_init (Some l) None) of
        [] \<Rightarrow> tracer_loop ls
      | w # ws \<Rightarrow>
          if w \<noteq> ''TracerPid:'' then tracer_loop ls
          else (case ws of [] \<Rightarrow> 0 | p # _ \<Rightarrow> sint (of_nat (min (decimal p) (2 ^ 64 - 1)) :: u32)))"

definition get_tracer_pid :: "string list option \<Rightarrow> int" where
  "get_tracer_pid status = (case status of None \<Rightarrow> - 1 | Some ls \<Rightarrow> tracer_loop ls)"

definition path_tail :: "string \<Rightarrow> string" where
  "path_tail s = rev (takeWhile (\<lambda>c. c \<noteq> CHR ''/'') (rev s))"

text \<open>The command of the tracing process, nothing if it cannot be read.\<close>

definition is_running_under_debugger :: "bool \<Rightarrow> string list option \<Rightarrow> (int \<Rightarrow> string option) \<Rightarrow> bool" where
  "is_running_under_debugger valgrind status get_exe_by_pid =
     (let tracer = get_tracer_pid status
      in if valgrind then False
         else if tracer < 0 then False
         else if tracer = 0 then False
         else case get_exe_by_pid tracer of None \<Rightarrow> True | Some command \<Rightarrow> path_tail command = ''gdb'')"

text \<open>
  The open descriptors, from the entries of the directory that lists them: the name of each and
  what it links to, nothing if the link cannot be read. Pipes of Valgrind are left out.
\<close>

definition fd_ignored :: "string \<Rightarrow> bool" where
  "fd_ignored buf \<longleftrightarrow> CHR ''/'' \<in> set buf \<and> take 9 (path_tail buf) = ''vgdb-pipe''"

definition fd_entry :: "nat \<Rightarrow> string \<times> string option \<Rightarrow> (nat \<times> string) option" where
  "fd_entry dirfd e =
     (case e of (name, link) \<Rightarrow>
        if name = [] \<or> \<not> digit_char (hd name) then None
        else if decimal name = dirfd then None
        else case link of None \<Rightarrow> None | Some buf \<Rightarrow> if fd_ignored buf then None else Some (decimal name, buf))"

definition add_fd :: "nat \<times> string \<Rightarrow> string list \<Rightarrow> string list" where
  "add_fd fl fds =
     (let fds' = (if fst fl \<ge> length fds then fds @ replicate (Suc (fst fl) - length fds) [] else fds)
      in fds'[fst fl := snd fl])"

definition get_file_descriptors :: "nat \<Rightarrow> (string \<times> string option) list option \<Rightarrow> string list" where
  "get_file_descriptors dirfd dir =
     (case dir of None \<Rightarrow> [] | Some es \<Rightarrow> fold (\<lambda>e fds. case fd_entry dirfd e of None \<Rightarrow> fds | Some fl \<Rightarrow> add_fd fl fds) es [])"

text \<open>
  The demangler gives a status, zero with the demangled name, and -1 if it runs out of memory,
  on which the process ends.
\<close>

datatype exception_result = Oom | NoException | ExceptionType string

definition current_exception_type :: "string option \<Rightarrow> (string \<Rightarrow> int \<times> string) \<Rightarrow> exception_result" where
  "current_exception_type tinfo demangle =
     (case tinfo of
        None \<Rightarrow> NoException
      | Some name \<Rightarrow>
          (case demangle name of (status, demangled) \<Rightarrow>
             if status = - 1 then Oom
             else if status = 0 then ExceptionType demangled
             else ExceptionType name))"

section \<open>The program and its tracer\<close>

text \<open>The argument vector ends at the first null pointer.\<close>

definition get_argv :: "string option list \<Rightarrow> bool \<times> nat \<times> string option list" where
  "get_argv dl_argv = (True, length (takeWhile (\<lambda>p. p \<noteq> None) dl_argv), dl_argv)"

definition PATH_MAX :: nat where "PATH_MAX = 4096"

text \<open>The target of \<^verbatim>\<open>/proc/self/exe\<close>, nothing if it cannot be read; the buffer takes all but its last byte.\<close>

definition self_exe :: "string option \<Rightarrow> string option" where
  "self_exe link = map_option (\<lambda>t. takeWhile (\<lambda>c. c \<noteq> NUL) (take (PATH_MAX - 1) t)) link"

text \<open>The contents of the command line file of a process; an empty file counts as a failure.\<close>

definition get_exe_by_pid :: "string option \<Rightarrow> string option" where
  "get_exe_by_pid cmdline =
     (case cmdline of
        None \<Rightarrow> None
      | Some t \<Rightarrow>
          let buf = take (PATH_MAX - 1) t
          in if length buf = 0 then None else Some (takeWhile (\<lambda>c. c \<noteq> NUL) buf))"

text \<open>
  A process traced by a debugger is seen to be, whatever the debugger's arguments are: the command line
  is cut at its first zero byte.
\<close>

lemma traced_by_gdb:
  assumes "get_tracer_pid status = pid" "0 < pid" "cmdline pid = Some (dir @ ''/gdb'' @ NUL # args)"
    "NUL \<notin> set dir" "length dir < 4000"
  shows "is_running_under_debugger False status (\<lambda>p. get_exe_by_pid (cmdline p))"
proof -
  have n: "NUL \<notin> set ''/gdb''" by code_simp
  have "takeWhile (\<lambda>c. c \<noteq> NUL) (take 4095 (dir @ ''/gdb'' @ NUL # args)) = dir @ ''/gdb''"
    using assms(4,5) n by (auto simp: take_Cons' takeWhile_append)
  then have "get_exe_by_pid (cmdline pid) = Some (dir @ ''/gdb'')"
    using assms(3) by (simp add: get_exe_by_pid_def PATH_MAX_def)
  moreover have "path_tail (dir @ ''/gdb'') = ''gdb''" by (simp add: path_tail_def)
  ultimately show ?thesis using assms(1,2) by (simp add: is_running_under_debugger_def)
qed

section \<open>Call instructions\<close>

text \<open>A near relative call ending at the return address is found with its length of five bytes.\<close>

lemma near_call_length: "mem (ra - 5) = 0xE8 \<Longrightarrow> call_instruction_length_for_ra mem ra = 5"
  by (simp add: call_instruction_length_for_ra_def insn_forms_def)

text \<open>A length that is found is that of a form which the bytes before the return address have.\<close>

lemma call_length_form:
  "call_length_loop mem ra fs = n \<Longrightarrow> 0 < n \<Longrightarrow> \<exists>f\<in>set fs. length f = n \<and> form_matches mem (ra - of_nat n) f"
  by (induction fs) (auto split: if_splits)

text \<open>
  The masks of the table are over the upper bits of the second byte, not over its three lowest,
  which hold the addressing form. So the six bytes of an indirect call relative to the instruction
  pointer, \<^verbatim>\<open>FF 15\<close> and a displacement, are never taken for a call of six bytes.
\<close>

lemma form_second_byte:
  "form_matches mem p f \<Longrightarrow> 2 \<le> length f \<Longrightarrow> mem (p + 1) AND fst (f ! 1) = snd (f ! 1)"
  by (cases f; cases "tl f") (auto split: if_splits)

lemma six_byte_forms: "f \<in> set insn_forms \<Longrightarrow> length f = 6 \<Longrightarrow> (0x15 AND fst (f ! 1)) \<noteq> snd (f ! 1)"
  unfolding insn_forms_def by auto

lemma rip_relative_call_missed:
  assumes "mem (ra - 5) = 0x15"
  shows "call_instruction_length_for_ra mem ra \<noteq> 6"
proof
  assume "call_instruction_length_for_ra mem ra = 6"
  then obtain f where f: "f \<in> set insn_forms" "length f = 6" "form_matches mem (ra - 6) f"
    unfolding call_instruction_length_for_ra_def by (auto dest: call_length_form)
  have "ra - 6 + 1 = ra - 5" by simp
  with form_second_byte [OF f(3)] f(2) assms have "0x15 AND fst (f ! 1) = snd (f ! 1)" by simp
  with six_byte_forms [OF f(1,2)] show False by simp
qed

section \<open>The walk over the frames\<close>

text \<open>A frame and the next one the walk goes on to.\<close>

definition frame_link :: "(u64 \<Rightarrow> u8) \<Rightarrow> u64 \<Rightarrow> u64 \<Rightarrow> bool" where
  "frame_link mem bp nextbp \<longleftrightarrow> nextbp = read_ulong mem bp \<and> \<not> last_frame bp nextbp"

lemma frame_link_le: "frame_link mem bp b \<Longrightarrow> bp \<le> b"
  by (auto simp: frame_link_def last_frame_def)

lemma stack_loop_self: "frame_link mem bp bp \<Longrightarrow> stack_loop mem bp \<noteq> Some s"
proof
  assume f: "frame_link mem bp bp" and "stack_loop mem bp = Some s"
  from \<open>stack_loop mem bp = Some s\<close> have "frame_link mem bp bp \<longrightarrow> False"
    by (rule stack_loop.raw_induct [rotated]) (auto simp: frame_link_def Option.bind_eq_Some_conv split: if_splits)
  with f show False by blast
qed

lemma stack_loop_link: "frame_link mem bp b \<Longrightarrow> stack_loop mem bp = None \<longleftrightarrow> stack_loop mem b = None"
  by (subst stack_loop.simps) (auto simp: frame_link_def Option.bind_eq_None_conv)

lemma stack_loop_returns:
  "\<forall>b. (frame_link mem)\<^sup>*\<^sup>* bp b \<longrightarrow> \<not> frame_link mem b b \<Longrightarrow> \<exists>s. stack_loop mem bp = Some s"
proof (induction "2 ^ 64 - unat bp" arbitrary: bp rule: less_induct)
  case less
  show ?case
  proof (cases "last_frame bp (read_ulong mem bp)")
    case True
    then show ?thesis by (subst stack_loop.simps) simp
  next
    case False
    let ?b = "read_ulong mem bp"
    have l: "frame_link mem bp ?b" using False by (simp add: frame_link_def)
    then have "bp < ?b" using less.prems frame_link_le [OF l] by (metis order_le_less rtranclp.rtrancl_refl)
    then have "2 ^ 64 - unat ?b < 2 ^ 64 - unat bp"
      using unsigned_less [of ?b, where 'a = nat] by (simp add: word_less_nat_alt)
    from less.hyps [OF this] less.prems l obtain s where "stack_loop mem ?b = Some s"
      by (meson converse_rtranclp_into_rtranclp)
    then show ?thesis using False by (subst stack_loop.simps) simp
  qed
qed

text \<open>
  C38. A stack trace returns exactly if no frame the walk comes to holds its own address as the
  saved frame pointer: the frame pointers then only grow, and otherwise the walk never ends.
\<close>

theorem get_stacktrace_terminates:
  "(get_stacktrace mem bp = None) = (\<exists>b. (frame_link mem)\<^sup>*\<^sup>* bp b \<and> frame_link mem b b)"
proof
  assume "get_stacktrace mem bp = None"
  then show "\<exists>b. (frame_link mem)\<^sup>*\<^sup>* bp b \<and> frame_link mem b b"
    using stack_loop_returns [of mem bp] by (force simp: get_stacktrace_def)
next
  assume "\<exists>b. (frame_link mem)\<^sup>*\<^sup>* bp b \<and> frame_link mem b b"
  then obtain b where b: "(frame_link mem)\<^sup>*\<^sup>* bp b" "frame_link mem b b" by blast
  have "stack_loop mem b = None" using stack_loop_self [OF b(2)] by (cases "stack_loop mem b") auto
  with b(1) show "get_stacktrace mem bp = None"
    unfolding get_stacktrace_def by (induction rule: converse_rtranclp_induct) (auto simp: stack_loop_link)
qed

end
