(* ===== verification/NP_Log.thy ===== *)
theory NP_Log
  imports NP_Common
begin

text \<open>
  \<^verbatim>\<open>util/log.{hxx,cxx}\<close>: the levels of the log, and writing a message of one or more lines. The
  clock and the formatting of the caller's arguments are arguments.
\<close>

section \<open>Levels\<close>

datatype level_t = DEBUG | INFO | WARN | ERROR

fun level_ord :: "level_t \<Rightarrow> nat" where
  "level_ord DEBUG = 1"
| "level_ord INFO = 2"
| "level_ord WARN = 3"
| "level_ord ERROR = 4"

fun level_name :: "level_t \<Rightarrow> string" where
  "level_name DEBUG = ''DEBUG''"
| "level_name INFO = ''INFO''"
| "level_name WARN = ''WARN''"
| "level_name ERROR = ''ERROR''"

record log_t =
  lg_level :: level_t
  lg_stream :: string

definition log_init :: log_t where
  "log_init = \<lparr>lg_level = INFO, lg_stream = ''stderr''\<rparr>"

text \<open>A level or stream of zero leaves the setting as it is.\<close>

definition basic_config :: "level_t option \<Rightarrow> string option \<Rightarrow> log_t \<Rightarrow> log_t" where
  "basic_config lev fp lg =
     (let lg1 = (case lev of None \<Rightarrow> lg | Some l \<Rightarrow> lg\<lparr>lg_level := l\<rparr>)
      in case fp of None \<Rightarrow> lg1 | Some f \<Rightarrow> lg1\<lparr>lg_stream := f\<rparr>)"

text \<open>Debug messages are compiled in only if the build asks for them.\<close>

definition is_enabled_for :: "bool \<Rightarrow> level_t \<Rightarrow> log_t \<Rightarrow> bool" where
  "is_enabled_for np_debug lev lg \<longleftrightarrow> (np_debug \<or> lev \<noteq> DEBUG) \<and> level_ord (lg_level lg) \<le> level_ord lev"

section \<open>Writing a message\<close>

abbreviation NL :: char where "NL \<equiv> CHR 0x0A"

text \<open>
  The buffer is filled piece by piece; \<^verbatim>\<open>used\<close> counts what a piece would have taken had it fitted. The
  space left is unsigned, so a count past the limit is an error when the next piece is put.
\<close>

definition LOG_MAXLEN :: nat where "LOG_MAXLEN = 16384 - 16"

definition log_put :: "string \<Rightarrow> string \<times> nat \<Rightarrow> np_error + string \<times> nat" where
  "log_put s b =
     (case b of (buf, used) \<Rightarrow>
        if used > LOG_MAXLEN then Inl Length_Error
        else Inr (buf @ snprintf (LOG_MAXLEN - used) s, used + length s))"

definition log_put_time :: "(int \<Rightarrow> string) \<Rightarrow> int \<Rightarrow> string \<times> nat \<Rightarrow> np_error + string \<times> nat" where
  "log_put_time strftime_local now b =
     (case b of (buf, used) \<Rightarrow>
        if used > LOG_MAXLEN then Inl Length_Error
        else let (s, n) = abs_format_iso8601_buf strftime_local now (LOG_MAXLEN - used) NP_MICROSECONDS
             in Inr (buf @ s, used + n))"

definition log_prefix :: "(int \<Rightarrow> string) \<Rightarrow> int \<Rightarrow> level_t \<Rightarrow> string \<Rightarrow> nat \<Rightarrow> np_error + string \<times> nat" where
  "log_prefix strftime_local now lev function line =
     bindE (log_put ''np: ['' ([], 0)) (\<lambda>b1.
     bindE (log_put_time strftime_local now b1) (\<lambda>b2.
     log_put (''][''  @ function @ '':'' @ print_base lower_digits 10 line @ ''][''
              @ level_name lev @ ''] '') b2))"

text \<open>
  The loop over the lines: each is written behind the prefix, the rest moved up to where the message
  starts. The search for a line's end fails if there is none.
\<close>

function write_lines :: "string \<Rightarrow> string \<Rightarrow> np_error + string list" where
  "write_lines pre rest =
     (if NL \<notin> set rest then Inl Assert_Failed
      else let l = takeWhile (\<lambda>c. c \<noteq> NL) rest;
               after = drop (Suc (length l)) rest
           in if after = [] then Inr [pre @ l @ [NL]]
              else bindE (write_lines pre after) (\<lambda>ws. Inr ((pre @ l @ [NL]) # ws)))"
  by pat_completeness auto
termination
  by (relation "measure (\<lambda>(p, s). length s)") (auto simp: neq_Nil_conv)

declare write_lines.simps [simp del]

text \<open>
  \<^verbatim>\<open>_vprintf\<close>. The count used is that of the whole message even if it did not fit. A message
  that just does not fit is cut, and the newline is put behind the end of the string, where the search does
  not find it; a longer one is looked at, and written to, behind the end of the buffer.
\<close>

definition log_vprintf :: "(int \<Rightarrow> string) \<Rightarrow> int \<Rightarrow> level_t \<Rightarrow> string \<Rightarrow> nat \<Rightarrow> string \<Rightarrow> np_error + string list" where
  "log_vprintf strftime_local now lev function line msg =
     bindE (log_prefix strftime_local now lev function line) (\<lambda>(pre, used).
     if used > LOG_MAXLEN then Inl Length_Error
     else let used1 = used + length msg
          in if used1 < LOG_MAXLEN
             then write_lines pre (if last (pre @ msg) \<noteq> NL then msg @ [NL] else msg)
             else if used1 < 16383 then Inl Assert_Failed
             else Inl Out_Of_Range)"

text \<open>The macros of each level: nothing is written below the level set.\<close>

definition logprintf :: "bool \<Rightarrow> log_t \<Rightarrow> (int \<Rightarrow> string) \<Rightarrow> int \<Rightarrow> level_t \<Rightarrow> string \<Rightarrow> nat \<Rightarrow> string \<Rightarrow> np_error + string list" where
  "logprintf np_debug lg strftime_local now lev function line msg =
     (if is_enabled_for np_debug lev lg then log_vprintf strftime_local now lev function line msg else Inr [])"

section \<open>The lines written\<close>

text \<open>What stands before every line: nothing of it is cut.\<close>

definition iso_microseconds :: "(int \<Rightarrow> string) \<Rightarrow> int \<Rightarrow> string" where
  "iso_microseconds strftime_local now =
     strftime_local (now sdiv NANOSEC_PER_SEC) @ ''.''
     @ pad_zero 6 (print_base lower_digits 10 (unat (of_int (now smod NANOSEC_PER_SEC) :: u64) div 1000))"

definition log_header :: "(int \<Rightarrow> string) \<Rightarrow> int \<Rightarrow> level_t \<Rightarrow> string \<Rightarrow> nat \<Rightarrow> string" where
  "log_header strftime_local now lev function line =
     ''np: ['' @ iso_microseconds strftime_local now @ ''][''
     @ function @ '':'' @ print_base lower_digits 10 line @ ''][''  @ level_name lev @ ''] ''"

lemma snprintf_fits: "length s < n \<Longrightarrow> snprintf n s = s"
  by (simp add: snprintf_def)

lemma log_put_fits: "used + length s < LOG_MAXLEN \<Longrightarrow> log_put s (buf, used) = Inr (buf @ s, used + length s)"
  by (simp add: log_put_def snprintf_fits)

lemma log_put_time_fits:
  "used + length (iso_microseconds f now) < LOG_MAXLEN \<Longrightarrow>
   log_put_time f now (buf, used) = Inr (buf @ iso_microseconds f now, used + length (iso_microseconds f now))"
  by (auto simp: log_put_time_def abs_format_iso8601_buf_def iso_microseconds_def Let_def snprintf_fits)

lemma log_prefix_fits:
  assumes "length (log_header f now lev function line) < LOG_MAXLEN"
  shows "log_prefix f now lev function line
       = Inr (log_header f now lev function line, length (log_header f now lev function line))"
  using assms unfolding log_prefix_def log_header_def by (simp add: log_put_fits log_put_time_fits)

lemma last_log_header: "last (log_header f now lev function line @ msg) = (if msg = [] then CHR '' '' else last msg)"
  by (simp add: log_header_def)

lemma write_lines_ends:
  "rest \<noteq> [] \<Longrightarrow> last rest = NL \<Longrightarrow>
   \<exists>ls. write_lines pre rest = Inr (map (\<lambda>l. pre @ l @ [NL]) ls)
      \<and> concat (map (\<lambda>l. l @ [NL]) ls) = rest \<and> (\<forall>l\<in>set ls. NL \<notin> set l)"
proof (induction pre rest rule: write_lines.induct)
  case (1 pre rest)
  define l where "l = takeWhile (\<lambda>c. c \<noteq> NL) rest"
  define after where "after = drop (Suc (length l)) rest"
  have nl: "NL \<in> set rest" using "1.prems" last_in_set by metis
  have l: "NL \<notin> set l" using set_takeWhileD [of NL "\<lambda>c. c \<noteq> NL" rest] by (auto simp: l_def)
  have s: "rest = l @ NL # after"
    using nl unfolding l_def after_def by (induction rest) auto
  show ?case
  proof (cases "after = []")
    case True
    then have "write_lines pre rest = Inr [pre @ l @ [NL]]"
      using nl by (subst write_lines.simps) (simp add: l_def after_def Let_def)
    then show ?thesis using s l True by (intro exI [of _ "[l]"]) simp
  next
    case False
    then have "last after = NL" using "1.prems" s by simp
    with "1.IH" [OF _ l_def after_def] nl False obtain ls where
      ls: "write_lines pre after = Inr (map (\<lambda>l. pre @ l @ [NL]) ls)"
        "concat (map (\<lambda>l. l @ [NL]) ls) = after" "\<forall>l\<in>set ls. NL \<notin> set l" by auto
    then have "write_lines pre rest = Inr (map (\<lambda>l. pre @ l @ [NL]) (l # ls))"
      using nl False by (subst write_lines.simps) (simp add: l_def after_def Let_def)
    then show ?thesis using s l ls(2,3) by (intro exI [of _ "l # ls"]) simp
  qed
qed

text \<open>
  C40. A message that fits is written whole, one write for each of its lines, with the time, the
  function and the level in front of every line and a newline at the end of the last.
\<close>

theorem log_message_lines:
  assumes "length (log_header f now lev function line) + length msg < LOG_MAXLEN"
  shows "\<exists>ls. log_vprintf f now lev function line msg
           = Inr (map (\<lambda>l. log_header f now lev function line @ l @ [NL]) ls)
         \<and> concat (map (\<lambda>l. l @ [NL]) ls) = (if msg \<noteq> [] \<and> last msg = NL then msg else msg @ [NL])
         \<and> (\<forall>l\<in>set ls. NL \<notin> set l)"
proof -
  let ?h = "log_header f now lev function line"
  let ?m = "if msg \<noteq> [] \<and> last msg = NL then msg else msg @ [NL]"
  have "log_vprintf f now lev function line msg = write_lines ?h ?m"
    using assms by (simp add: log_vprintf_def log_prefix_fits last_log_header)
  then show ?thesis using write_lines_ends [of ?m ?h] by (auto split: if_splits)
qed

theorem log_message_lines_witness:
  "\<exists>ls. log_vprintf (\<lambda>_. ''T'') 0 INFO ''f'' 7 (''a'' @ [NL] @ ''b'')
      = Inr (map (\<lambda>l. log_header (\<lambda>_. ''T'') 0 INFO ''f'' 7 @ l @ [NL]) ls)
    \<and> concat (map (\<lambda>l. l @ [NL]) ls) = ''a'' @ [NL] @ ''b'' @ [NL]"
  using log_message_lines [of "\<lambda>_. ''T''" 0 INFO "''f''" 7 "''a'' @ [NL] @ ''b''"]
  by (simp add: log_header_def iso_microseconds_def LOG_MAXLEN_def pad_zero_def print_base.simps) blast

text \<open>A message that does not fit is never written whole: the process ends in an assertion or worse.\<close>

lemma log_message_too_long:
  assumes "length (log_header f now lev function line) < LOG_MAXLEN"
    and "LOG_MAXLEN \<le> length (log_header f now lev function line) + length msg"
  shows "\<exists>e. log_vprintf f now lev function line msg = Inl e"
  using assms by (simp add: log_vprintf_def log_prefix_fits)

end
