(* ===== verification/NP_Main.thy ===== *)
theory NP_Main
  imports NP_Runner NP_Log
begin

text \<open>
  \<^verbatim>\<open>main.c\<close> and \<^verbatim>\<open>np.c\<close>: the options of the default main program, starting over under Valgrind,
  and how the plan, the runner and the output formats are put together. What
  \<^verbatim>\<open>getopt_long\<close> returns is an argument: the options in their order and the other words.
\<close>

section \<open>Options\<close>

datatype opt_t = Opt_Format string | Opt_Jobs string | Opt_List | Opt_Debug | Opt_Help

datatype mode_t = UNKNOWN | RUN | LIST

record options_t =
  op_output_formats :: "string option"
  op_mode :: mode_t
  op_concurrency :: int
  op_debug :: bool

definition options_init :: options_t where
  "options_init = \<lparr>op_output_formats = None, op_mode = UNKNOWN, op_concurrency = - 1, op_debug = False\<rparr>"

definition lower_char :: "char \<Rightarrow> char" where
  "lower_char c = (let n = (of_char c :: nat) in if 65 \<le> n \<and> n \<le> 90 then char_of (n + 32) else c)"

definition strcaseeq :: "string \<Rightarrow> string \<Rightarrow> bool" where
  "strcaseeq a b \<longleftrightarrow> map lower_char a = map lower_char b"

text \<open>\<^verbatim>\<open>atoi\<close>: blanks, a sign and digits; a number too big for \<^verbatim>\<open>long\<close> is cut off and narrowed to \<^verbatim>\<open>int\<close>.\<close>

definition is_space :: "char \<Rightarrow> bool" where
  "is_space c \<longleftrightarrow> c = CHR '' '' \<or> (let n = (of_char c :: nat) in 9 \<le> n \<and> n \<le> 13)"

definition is_digit :: "char \<Rightarrow> bool" where
  "is_digit c \<longleftrightarrow> (let n = (of_char c :: nat) in 48 \<le> n \<and> n \<le> 57)"

definition digits_value :: "string \<Rightarrow> int" where
  "digits_value s = foldl (\<lambda>n c. 10 * n + (of_char c - 48)) 0 (takeWhile is_digit s)"

definition atoi :: "string \<Rightarrow> int" where
  "atoi s =
     (let t = dropWhile is_space s;
          v = (case t of
                 [] \<Rightarrow> 0
               | c # u \<Rightarrow> if c = CHR ''-'' then - digits_value u
                         else if c = CHR ''+'' then digits_value u else digits_value t)
      in sint (word_of_int (max (- (2 ^ 63)) (min (2 ^ 63 - 1) v)) :: u32))"

text \<open>The loop over the options; nothing when the usage is printed and the program ends.\<close>

definition parse_option :: "opt_t \<Rightarrow> options_t \<Rightarrow> options_t option" where
  "parse_option opt ops =
     (case opt of
        Opt_Format s \<Rightarrow> Some (ops\<lparr>op_output_formats := Some s\<rparr>)
      | Opt_Jobs s \<Rightarrow>
          if strcaseeq s ''max'' then Some (ops\<lparr>op_concurrency := 0\<rparr>)
          else if atoi s \<le> 0 then None
          else Some (ops\<lparr>op_concurrency := atoi s\<rparr>)
      | Opt_List \<Rightarrow> Some (ops\<lparr>op_mode := LIST\<rparr>)
      | Opt_Debug \<Rightarrow> Some (ops\<lparr>op_debug := True\<rparr>)
      | Opt_Help \<Rightarrow> None)"

fun parse_options :: "opt_t list \<Rightarrow> options_t \<Rightarrow> options_t option" where
  "parse_options [] ops = Some ops"
| "parse_options (opt # opts) ops =
     (case parse_option opt ops of None \<Rightarrow> None | Some ops' \<Rightarrow> parse_options opts ops')"

definition debug_wanted :: "options_t \<Rightarrow> string option \<Rightarrow> bool" where
  "debug_wanted ops env \<longleftrightarrow> op_debug ops \<or> env = Some ''yes''"

definition main_log :: "options_t \<Rightarrow> string option \<Rightarrow> log_t \<Rightarrow> log_t" where
  "main_log ops env lg = basic_config (Some (if debug_wanted ops env then DEBUG else INFO)) None lg"

section \<open>Starting the library\<close>

text \<open>The settings of the build, and the state of the process.\<close>

record build_t =
  bd_have_valgrind :: bool
  bd_valgrind_binary :: string
  bd_show_leak_kinds :: bool
  bd_suppression_file :: "string option"

text \<open>The arguments of the process are nothing where they cannot be found.\<close>

record process_t =
  pr_on_valgrind :: bool
  pr_env_valgrind :: "string option"
  pr_debugger :: bool
  pr_argv :: "string list option"
  pr_exec_ok :: bool
  pr_env_debug :: "string option"
  pr_nproc :: int

definition valgrind_argv :: "build_t \<Rightarrow> string list \<Rightarrow> string list" where
  "valgrind_argv b argv =
     [bd_valgrind_binary b, ''-q'', ''--tool=memcheck'', ''--sym-offsets=yes'']
     @ (if bd_show_leak_kinds b then [''--show-leak-kinds=definite,indirect''] else [])
     @ (case bd_suppression_file b of None \<Rightarrow> [] | Some f \<Rightarrow> [''--gen-suppressions=all'', ''--suppressions='' @ f])
     @ argv"

text \<open>\<^verbatim>\<open>be_valground\<close>: goes on, or is replaced by a process with other arguments.\<close>

definition be_valground :: "build_t \<Rightarrow> process_t \<Rightarrow> string list option" where
  "be_valground b pr =
     (if \<not> bd_have_valgrind b then None
      else if pr_on_valgrind pr then None
      else if pr_env_valgrind pr = Some ''no'' then None
      else if pr_debugger pr then None
      else map_option (valgrind_argv b) (pr_argv pr))"

datatype init_t = Init_Runner runner_t | Init_Exec "string list" | Init_Exec_Failed

definition np_init :: "build_t \<Rightarrow> process_t \<Rightarrow> init_t" where
  "np_init b pr =
     (case be_valground b pr of
        Some argv \<Rightarrow> if pr_exec_ok pr then Init_Exec argv else Init_Exec_Failed
      | None \<Rightarrow> Init_Runner (runner_new (pr_debugger pr) (pr_on_valgrind pr)))"

section \<open>The program\<close>

text \<open>The formats, in the order given; nothing at the first unknown one.\<close>

fun set_formats :: "string list \<Rightarrow> runner_t \<Rightarrow> runner_t option" where
  "set_formats [] r = Some r"
| "set_formats (f # fs) r =
     (case np_set_output_format f r of (ok, r') \<Rightarrow> if ok then set_formats fs r' else None)"

definition output_formats :: "options_t \<Rightarrow> string list" where
  "output_formats ops =
     (case op_output_formats ops of None \<Rightarrow> [] | Some s \<Rightarrow> tok_all (tok_init (Some s) (Some '','')))"

text \<open>Specifications are looked up, and their success is not looked at.\<close>

definition main_plan :: "testnode_t \<Rightarrow> string list \<Rightarrow> plan_t option" where
  "main_plan root specs = (if specs = [] then None else Some (snd (add_specs root specs [])))"

definition main_runner :: "process_t \<Rightarrow> options_t \<Rightarrow> runner_t \<Rightarrow> runner_t option" where
  "main_runner pr ops r =
     (case set_formats (output_formats ops) r of
        None \<Rightarrow> None
      | Some r1 \<Rightarrow> Some (if op_concurrency ops \<ge> 0 then set_concurrency (pr_nproc pr) (op_concurrency ops) r1 else r1))"

datatype main_t = Main_Usage | Main_Exec "string list" | Main_Exec_Failed | Main_Bad_Format
  | Main_Listed "string list" | Main_Ran bool runner_t

fun exit_code :: "main_t \<Rightarrow> int option" where
  "exit_code Main_Usage = Some 1"
| "exit_code (Main_Exec argv) = None"
| "exit_code Main_Exec_Failed = Some 1"
| "exit_code Main_Bad_Format = Some 1"
| "exit_code (Main_Listed ls) = Some 0"
| "exit_code (Main_Ran failed r) = Some (if failed then 1 else 0)"

text \<open>What the kernel answers during the run, as in \<^const>\<open>run_tests\<close>.\<close>

record run_env =
  ru_jobs :: "job_env list"
  ru_rounds :: "round_env list"
  ru_now :: int
  ru_waits :: "wait_res list"

definition np_main :: "nat \<Rightarrow> nat \<Rightarrow> build_t \<Rightarrow> process_t \<Rightarrow> testnode_t \<Rightarrow> run_env \<Rightarrow> opt_t list \<Rightarrow> string list \<Rightarrow>
    (np_error + main_t) option" where
  "np_main n fuel b pr root ru opts specs =
     (case parse_options opts options_init of
        None \<Rightarrow> Some (Inr Main_Usage)
      | Some ops \<Rightarrow>
          (let plan = main_plan root specs
           in case np_init b pr of
               Init_Exec argv \<Rightarrow> Some (Inr (Main_Exec argv))
             | Init_Exec_Failed \<Rightarrow> Some (Inr Main_Exec_Failed)
             | Init_Runner r \<Rightarrow>
                 (case op_mode ops of
                    LIST \<Rightarrow> map_option (\<lambda>m. bindE m (\<lambda>ls. Inr (Main_Listed ls))) (list_tests n fuel root plan)
                  | _ \<Rightarrow>
                      (case main_runner pr ops r of
                         None \<Rightarrow> Some (Inr Main_Bad_Format)
                       | Some r1 \<Rightarrow>
                           map_option (\<lambda>m. bindE m (\<lambda>(failed, r2). Inr (Main_Ran failed r2)))
                             (run_tests n fuel root plan 1 (ru_jobs ru) (ru_rounds ru) (ru_now ru) (ru_waits ru) r1)))))"

section \<open>Exit codes\<close>

text \<open>Zero is refused as the number of jobs; the word for as many as there are processors is \<^verbatim>\<open>max\<close>, in any case.\<close>

lemma parse_jobs_zero: "parse_option (Opt_Jobs ''0'') ops = None"
proof -
  have "atoi ''0'' = 0" "\<not> strcaseeq ''0'' ''max''" by code_simp+
  then show ?thesis by (simp add: parse_option_def)
qed

lemma parse_jobs_max: "parse_option (Opt_Jobs ''Max'') ops = Some (ops\<lparr>op_concurrency := 0\<rparr>)"
proof -
  have "strcaseeq ''Max'' ''max''" by code_simp
  then show ?thesis by (simp add: parse_option_def)
qed

text \<open>The formats named become listeners, in their order, if all of them are known.\<close>

fun format_listener :: "string \<Rightarrow> listener option" where
  "format_listener s = (if s = ''junit'' then Some Junit_Listener else if s = ''text'' then Some Text_Listener else None)"

lemma set_formats_listeners:
  "set_formats fs r = Some r' \<Longrightarrow>
   map Some (rn_listeners r') = map Some (rn_listeners r) @ map format_listener fs \<and> rn_trace r' = rn_trace r
   \<and> rn_nfailed r' = rn_nfailed r \<and> rn_children r' = rn_children r"
  by (induction fs arbitrary: r) (auto simp: np_set_output_format_def add_listener_def split: if_splits)

lemma set_formats_None: "set_formats fs r = None \<longleftrightarrow> (\<exists>f\<in>set fs. format_listener f = None)"
  by (induction fs arbitrary: r) (auto simp: np_set_output_format_def)

lemma main_runner_fresh:
  assumes "main_runner pr ops (runner_new d v) = Some r"
  shows "rn_trace r = []" "rn_nfailed r = 0" "rn_children r = []"
  using assms set_formats_listeners [of "output_formats ops" "runner_new d v"]
  by (auto simp: main_runner_def runner_new_def set_concurrency_def Let_def split: option.splits)

lemma add_specs_first_unknown: "find_node root spec = None \<Longrightarrow> main_plan root (spec # specs) = Some []"
  by (simp add: main_plan_def)

text \<open>A run of an empty plan starts no job and succeeds.\<close>

lemma run_tests_empty_plan:
  assumes "rn_nfailed r = 0" "rn_children r = []"
  shows "\<exists>r'. run_tests (Suc n) fuel root (Some []) k jes es now ws r = Some (Inr (False, r'))
    \<and> map fst (rn_trace r') = map fst (rn_trace r) @ [L_Begin, L_End]"
  using assms
  by (simp add: run_tests_def plan_begin_def plan_end_def plan_iterator_eq_def assigns_eq_def Let_def
      runner_begin_def runner_end_def dispatch_def add_listener_def)

text \<open>
  C34. If the first test named on the command line does not exist the program runs nothing, tells
  no one and ends with success, whatever other tests are named.
\<close>

theorem main_unknown_spec_succeeds:
  assumes "parse_options opts options_init = Some ops" "op_mode ops \<noteq> LIST"
    and "be_valground b pr = None"
    and "\<forall>f\<in>set (output_formats ops). f = ''junit'' \<or> f = ''text''"
    and "find_node root spec = None"
  shows "\<exists>r. np_main (Suc n) fuel b pr root ru opts (spec # specs) = Some (Inr (Main_Ran False r))
      \<and> exit_code (Main_Ran False r) = Some 0 \<and> map fst (rn_trace r) = [L_Begin, L_End]"
proof -
  let ?r0 = "runner_new (pr_debugger pr) (pr_on_valgrind pr)"
  have "set_formats (output_formats ops) ?r0 \<noteq> None"
    using assms(4) set_formats_None [of "output_formats ops" ?r0] by auto
  then obtain r1 where r1: "main_runner pr ops ?r0 = Some r1" by (auto simp: main_runner_def)
  obtain r where "run_tests (Suc n) fuel root (Some []) 1 (ru_jobs ru) (ru_rounds ru) (ru_now ru) (ru_waits ru) r1
      = Some (Inr (False, r))" "map fst (rn_trace r) = [L_Begin, L_End]"
    using run_tests_empty_plan [OF main_runner_fresh(2,3) [OF r1], of n fuel root 1 "ru_jobs ru" "ru_rounds ru" "ru_now ru" "ru_waits ru"]
      main_runner_fresh(1) [OF r1] by auto
  with assms r1 show ?thesis
    by (intro exI [of _ r]) (cases "op_mode ops"; simp add: np_main_def np_init_def add_specs_first_unknown)
qed

definition demo_build :: build_t where
  "demo_build = \<lparr>bd_have_valgrind = False, bd_valgrind_binary = [], bd_show_leak_kinds = False, bd_suppression_file = None\<rparr>"

definition demo_process :: process_t where
  "demo_process = \<lparr>pr_on_valgrind = False, pr_env_valgrind = None, pr_debugger = False, pr_argv = Some [],
     pr_exec_ok = True, pr_env_debug = None, pr_nproc = 4\<rparr>"

definition demo_env :: run_env where
  "demo_env = \<lparr>ru_jobs = [], ru_rounds = [], ru_now = 0, ru_waits = []\<rparr>"

theorem main_unknown_spec_succeeds_witness:
  "\<exists>r. np_main 1 9 demo_build demo_process demo_suite demo_env [Opt_Jobs ''MAX''] [''nosuch'', ''a'']
      = Some (Inr (Main_Ran False r)) \<and> map fst (rn_trace r) = [L_Begin, L_End]"
proof -
  have "parse_options [Opt_Jobs ''MAX''] options_init = Some (options_init\<lparr>op_concurrency := 0\<rparr>)"
    by (simp add: parse_option_def) code_simp
  moreover have "find_node demo_suite ''nosuch'' = None" by code_simp
  ultimately show ?thesis
    using main_unknown_spec_succeeds [of "[Opt_Jobs ''MAX'']" "options_init\<lparr>op_concurrency := 0\<rparr>" demo_build demo_process
        demo_suite "''nosuch''" 0 9 demo_env "[''a'']"]
    by (simp add: options_init_def be_valground_def demo_build_def output_formats_def)
qed

end
