(* ===== verification/NP_Assert.thy ===== *)
theory NP_Assert
  imports NP_Interpose
begin

text \<open>
  The assertions of \<^verbatim>\<open>np.h\<close>. Each is a macro that compares its arguments and, if they are not as asserted, calls
  \<^verbatim>\<open>__np_assert_failed\<close> with a format made of the source text of the arguments and of conversions for their
  values. What \<^verbatim>\<open>vsnprintf\<close> makes of such a format is part of the model; how it shows a pointer is left
  to the C library and is an argument. A format that the arguments do not fit has no value.
\<close>

section \<open>Formats\<close>

datatype conv = C_Percent | C_U | C_S | C_P | C_LX | C_LLD

datatype fmt_arg = Arg_U u32 | Arg_S "string option" | Arg_P u64 | Arg_LX u64 | Arg_LLD u64

text \<open>The conversion behind a percent sign and its length.\<close>

definition next_conv :: "string \<Rightarrow> (conv \<times> nat) option" where
  "next_conv cs =
     (if prefix ''%'' cs then Some (C_Percent, 1)
      else if prefix ''u'' cs then Some (C_U, 1)
      else if prefix ''s'' cs then Some (C_S, 1)
      else if prefix ''p'' cs then Some (C_P, 1)
      else if prefix ''lx'' cs then Some (C_LX, 2)
      else if prefix ''lld'' cs then Some (C_LLD, 3)
      else None)"

text \<open>One conversion: its text and the arguments left. A string must not be null.\<close>

fun render_arg :: "(u64 \<Rightarrow> string) \<Rightarrow> conv \<Rightarrow> fmt_arg list \<Rightarrow> (string \<times> fmt_arg list) option" where
  "render_arg sp C_Percent as = Some (''%'', as)"
| "render_arg sp C_U (Arg_U n # as) = Some (print_base lower_digits 10 (unat n), as)"
| "render_arg sp C_S (Arg_S (Some s) # as) = Some (s, as)"
| "render_arg sp C_P (Arg_P p # as) = Some (sp p, as)"
| "render_arg sp C_LX (Arg_LX n # as) = Some (print_base lower_digits 16 (unat n), as)"
| "render_arg sp C_LLD (Arg_LLD n # as) = Some (int_string (sint n), as)"
| "render_arg sp _ _ = None"

function c_format :: "(u64 \<Rightarrow> string) \<Rightarrow> string \<Rightarrow> fmt_arg list \<Rightarrow> string option" where
  "c_format sp [] as = Some []"
| "c_format sp (c # cs) as =
     (if c \<noteq> CHR ''%'' then map_option ((#) c) (c_format sp cs as)
      else case next_conv cs of
             None \<Rightarrow> None
           | Some (k, n) \<Rightarrow>
               (case render_arg sp k as of
                  None \<Rightarrow> None
                | Some (t, as') \<Rightarrow> map_option ((@) t) (c_format sp (drop n cs) as')))"
  by pat_completeness auto
termination by (relation "measure (\<lambda>(sp, cs, as). length cs)") auto

section \<open>The macros\<close>

text \<open>Where an assertion stands, the stack there, and how pointers are shown.\<close>

record site =
  st_file :: string
  st_lineno :: u32
  st_trace :: string
  st_pointer :: "u64 \<Rightarrow> string"

definition assert_failed_fmt :: "site \<Rightarrow> string \<Rightarrow> fmt_arg list \<Rightarrow> unit outcome option" where
  "assert_failed_fmt s fmt as =
     map_option (np_assert_failed (st_trace s) (st_file s) (st_lineno s)) (c_format (st_pointer s) fmt as)"

definition NP_ASSERT :: "site \<Rightarrow> string \<Rightarrow> bool \<Rightarrow> unit outcome option" where
  "NP_ASSERT s cc v = (if \<not> v then assert_failed_fmt s (''NP_ASSERT('' @ cc @ '')'') [] else Some (Returns ()))"

definition NP_ASSERT_TRUE :: "site \<Rightarrow> string \<Rightarrow> bool \<Rightarrow> unit outcome option" where
  "NP_ASSERT_TRUE s a v =
     (if \<not> v then assert_failed_fmt s (''NP_ASSERT_TRUE('' @ a @ ''=%u)'') [Arg_U (if v then 1 else 0)] else Some (Returns ()))"

definition NP_ASSERT_FALSE :: "site \<Rightarrow> string \<Rightarrow> bool \<Rightarrow> unit outcome option" where
  "NP_ASSERT_FALSE s a v =
     (if v then assert_failed_fmt s (''NP_ASSERT_FALSE('' @ a @ ''=%u)'') [Arg_U (if v then 1 else 0)] else Some (Returns ()))"

definition NP_ASSERT_EQUAL :: "site \<Rightarrow> string \<Rightarrow> string \<Rightarrow> u64 \<Rightarrow> u64 \<Rightarrow> unit outcome option" where
  "NP_ASSERT_EQUAL s a b x y =
     (if \<not> (x = y) then assert_failed_fmt s (''NP_ASSERT_EQUAL('' @ a @ ''=%lld, '' @ b @ ''=%lld)'') [Arg_LLD x, Arg_LLD y]
      else Some (Returns ()))"

definition NP_ASSERT_NOT_EQUAL :: "site \<Rightarrow> string \<Rightarrow> string \<Rightarrow> u64 \<Rightarrow> u64 \<Rightarrow> unit outcome option" where
  "NP_ASSERT_NOT_EQUAL s a b x y =
     (if \<not> (x \<noteq> y) then assert_failed_fmt s (''NP_ASSERT_NOT_EQUAL('' @ a @ ''=%lld, '' @ b @ ''=%lld)'') [Arg_LLD x, Arg_LLD y]
      else Some (Returns ()))"

definition NP_ASSERT_PTR_EQUAL :: "site \<Rightarrow> string \<Rightarrow> string \<Rightarrow> u64 \<Rightarrow> u64 \<Rightarrow> unit outcome option" where
  "NP_ASSERT_PTR_EQUAL s a b x y =
     (if \<not> (x = y) then assert_failed_fmt s (''NP_ASSERT_PTR_EQUAL('' @ a @ ''=%p, '' @ b @ ''=%p)'') [Arg_P x, Arg_P y]
      else Some (Returns ()))"

definition NP_ASSERT_PTR_NOT_EQUAL :: "site \<Rightarrow> string \<Rightarrow> string \<Rightarrow> u64 \<Rightarrow> u64 \<Rightarrow> unit outcome option" where
  "NP_ASSERT_PTR_NOT_EQUAL s a b x y =
     (if \<not> (x \<noteq> y) then assert_failed_fmt s (''NP_ASSERT_PTR_NOT_EQUAL('' @ a @ ''=%p, '' @ b @ ''=%p)'') [Arg_P x, Arg_P y]
      else Some (Returns ()))"

definition NP_ASSERT_NULL :: "site \<Rightarrow> string \<Rightarrow> u64 \<Rightarrow> unit outcome option" where
  "NP_ASSERT_NULL s a x =
     (if \<not> (x = 0) then assert_failed_fmt s (''NP_ASSERT_NULL('' @ a @ ''=0x%lx)'') [Arg_LX x] else Some (Returns ()))"

definition NP_ASSERT_NOT_NULL :: "site \<Rightarrow> string \<Rightarrow> u64 \<Rightarrow> unit outcome option" where
  "NP_ASSERT_NOT_NULL s a x =
     (if \<not> (x \<noteq> 0) then assert_failed_fmt s (''NP_ASSERT_NOT_NULL('' @ a @ ''=0x%lx)'') [Arg_LX x] else Some (Returns ()))"

abbreviation (input) quoted_s :: string where "quoted_s \<equiv> [CHR 0x22] @ ''%s'' @ [CHR 0x22]"

definition NP_ASSERT_STR_EQUAL :: "site \<Rightarrow> string \<Rightarrow> string \<Rightarrow> string option \<Rightarrow> string option \<Rightarrow> unit outcome option" where
  "NP_ASSERT_STR_EQUAL s a b x y =
     (if xstr x \<noteq> xstr y
      then assert_failed_fmt s (''NP_ASSERT_STR_EQUAL('' @ a @ ''='' @ quoted_s @ '', '' @ b @ ''='' @ quoted_s @ '')'') [Arg_S x, Arg_S y]
      else Some (Returns ()))"

definition NP_ASSERT_STR_NOT_EQUAL :: "site \<Rightarrow> string \<Rightarrow> string \<Rightarrow> string option \<Rightarrow> string option \<Rightarrow> unit outcome option" where
  "NP_ASSERT_STR_NOT_EQUAL s a b x y =
     (if xstr x = xstr y
      then assert_failed_fmt s (''NP_ASSERT_STR_NOT_EQUAL('' @ a @ ''='' @ quoted_s @ '', '' @ b @ ''='' @ quoted_s @ '')'') [Arg_S x, Arg_S y]
      else Some (Returns ()))"

section \<open>What an assertion promises\<close>

text \<open>The assertions a test can make, with the texts and the values of their arguments.\<close>

datatype assertion =
    A_Assert string bool | A_True string bool | A_False string bool
  | A_Equal string string u64 u64 | A_Not_Equal string string u64 u64
  | A_Ptr_Equal string string u64 u64 | A_Ptr_Not_Equal string string u64 u64
  | A_Null string u64 | A_Not_Null string u64
  | A_Str_Equal string string "string option" "string option" | A_Str_Not_Equal string string "string option" "string option"

fun run_assertion :: "site \<Rightarrow> assertion \<Rightarrow> unit outcome option" where
  "run_assertion s (A_Assert c v) = NP_ASSERT s c v"
| "run_assertion s (A_True a v) = NP_ASSERT_TRUE s a v"
| "run_assertion s (A_False a v) = NP_ASSERT_FALSE s a v"
| "run_assertion s (A_Equal a b x y) = NP_ASSERT_EQUAL s a b x y"
| "run_assertion s (A_Not_Equal a b x y) = NP_ASSERT_NOT_EQUAL s a b x y"
| "run_assertion s (A_Ptr_Equal a b x y) = NP_ASSERT_PTR_EQUAL s a b x y"
| "run_assertion s (A_Ptr_Not_Equal a b x y) = NP_ASSERT_PTR_NOT_EQUAL s a b x y"
| "run_assertion s (A_Null a x) = NP_ASSERT_NULL s a x"
| "run_assertion s (A_Not_Null a x) = NP_ASSERT_NOT_NULL s a x"
| "run_assertion s (A_Str_Equal a b x y) = NP_ASSERT_STR_EQUAL s a b x y"
| "run_assertion s (A_Str_Not_Equal a b x y) = NP_ASSERT_STR_NOT_EQUAL s a b x y"

text \<open>What is asserted; a null string compares like the empty one.\<close>

fun holds :: "assertion \<Rightarrow> bool" where
  "holds (A_Assert c v) = v"
| "holds (A_True a v) = v"
| "holds (A_False a v) = (\<not> v)"
| "holds (A_Equal a b x y) = (sint x = sint y)"
| "holds (A_Not_Equal a b x y) = (sint x \<noteq> sint y)"
| "holds (A_Ptr_Equal a b x y) = (x = y)"
| "holds (A_Ptr_Not_Equal a b x y) = (x \<noteq> y)"
| "holds (A_Null a x) = (x = 0)"
| "holds (A_Not_Null a x) = (x \<noteq> 0)"
| "holds (A_Str_Equal a b x y) = (case_option [] id x = case_option [] id y)"
| "holds (A_Str_Not_Equal a b x y) = (case_option [] id x \<noteq> case_option [] id y)"

text \<open>The texts of the arguments and the message of a failure: each text with the value it has.\<close>

fun texts :: "assertion \<Rightarrow> string list" where
  "texts (A_Assert c v) = [c]"
| "texts (A_True a v) = [a]"
| "texts (A_False a v) = [a]"
| "texts (A_Equal a b x y) = [a, b]"
| "texts (A_Not_Equal a b x y) = [a, b]"
| "texts (A_Ptr_Equal a b x y) = [a, b]"
| "texts (A_Ptr_Not_Equal a b x y) = [a, b]"
| "texts (A_Null a x) = [a]"
| "texts (A_Not_Null a x) = [a]"
| "texts (A_Str_Equal a b x y) = [a, b]"
| "texts (A_Str_Not_Equal a b x y) = [a, b]"

fun shown :: "(u64 \<Rightarrow> string) \<Rightarrow> assertion \<Rightarrow> string list" where
  "shown sp (A_Assert c v) = [[]]"
| "shown sp (A_True a v) = [if v then ''=1'' else ''=0'']"
| "shown sp (A_False a v) = [if v then ''=1'' else ''=0'']"
| "shown sp (A_Equal a b x y) = [''='' @ int_string (sint x), ''='' @ int_string (sint y)]"
| "shown sp (A_Not_Equal a b x y) = [''='' @ int_string (sint x), ''='' @ int_string (sint y)]"
| "shown sp (A_Ptr_Equal a b x y) = [''='' @ sp x, ''='' @ sp y]"
| "shown sp (A_Ptr_Not_Equal a b x y) = [''='' @ sp x, ''='' @ sp y]"
| "shown sp (A_Null a x) = [''=0x'' @ print_base lower_digits 16 (unat x)]"
| "shown sp (A_Not_Null a x) = [''=0x'' @ print_base lower_digits 16 (unat x)]"
| "shown sp (A_Str_Equal a b x y) = [''='' @ [CHR 0x22] @ the x @ [CHR 0x22], ''='' @ [CHR 0x22] @ the y @ [CHR 0x22]]"
| "shown sp (A_Str_Not_Equal a b x y) = [''='' @ [CHR 0x22] @ the x @ [CHR 0x22], ''='' @ [CHR 0x22] @ the y @ [CHR 0x22]]"

fun macro_name :: "assertion \<Rightarrow> string" where
  "macro_name (A_Assert c v) = ''NP_ASSERT''"
| "macro_name (A_True a v) = ''NP_ASSERT_TRUE''"
| "macro_name (A_False a v) = ''NP_ASSERT_FALSE''"
| "macro_name (A_Equal a b x y) = ''NP_ASSERT_EQUAL''"
| "macro_name (A_Not_Equal a b x y) = ''NP_ASSERT_NOT_EQUAL''"
| "macro_name (A_Ptr_Equal a b x y) = ''NP_ASSERT_PTR_EQUAL''"
| "macro_name (A_Ptr_Not_Equal a b x y) = ''NP_ASSERT_PTR_NOT_EQUAL''"
| "macro_name (A_Null a x) = ''NP_ASSERT_NULL''"
| "macro_name (A_Not_Null a x) = ''NP_ASSERT_NOT_NULL''"
| "macro_name (A_Str_Equal a b x y) = ''NP_ASSERT_STR_EQUAL''"
| "macro_name (A_Str_Not_Equal a b x y) = ''NP_ASSERT_STR_NOT_EQUAL''"

fun comma_list :: "string list \<Rightarrow> string" where
  "comma_list [] = []"
| "comma_list [x] = x"
| "comma_list (x # y # ys) = x @ '', '' @ comma_list (y # ys)"

definition message :: "(u64 \<Rightarrow> string) \<Rightarrow> assertion \<Rightarrow> string" where
  "message sp m = macro_name m @ ''('' @ comma_list (map2 (@) (texts m) (shown sp m)) @ '')''"

fun no_null :: "assertion \<Rightarrow> bool" where
  "no_null (A_Str_Equal a b x y) = (x \<noteq> None \<and> y \<noteq> None)"
| "no_null (A_Str_Not_Equal a b x y) = (x \<noteq> None \<and> y \<noteq> None)"
| "no_null _ = True"

section \<open>Formatting the failures\<close>

lemma c_format_plain:
  "CHR ''%'' \<notin> set t \<Longrightarrow> c_format sp (t @ r) as = map_option ((@) t) (c_format sp r as)"
  by (cases "c_format sp r as"; induction t) auto

text \<open>The values in the formats of the macros.\<close>

lemma c_format_conv:
  "c_format sp (CHR ''%'' # CHR ''u'' # r) (Arg_U n # as) = map_option ((@) (print_base lower_digits 10 (unat n))) (c_format sp r as)"
  "c_format sp (CHR ''%'' # CHR ''s'' # r) (Arg_S (Some t) # as) = map_option ((@) t) (c_format sp r as)"
  "c_format sp (CHR ''%'' # CHR ''p'' # r) (Arg_P p # as) = map_option ((@) (sp p)) (c_format sp r as)"
  "c_format sp (CHR ''%'' # CHR ''l'' # CHR ''x'' # r) (Arg_LX w # as) = map_option ((@) (print_base lower_digits 16 (unat w))) (c_format sp r as)"
  "c_format sp (CHR ''%'' # CHR ''l'' # CHR ''l'' # CHR ''d'' # r) (Arg_LLD w # as) = map_option ((@) (int_string (sint w))) (c_format sp r as)"
  by (simp_all add: next_conv_def)

lemma c_format_char: "c \<noteq> CHR ''%'' \<Longrightarrow> c_format sp (c # r) as = map_option ((#) c) (c_format sp r as)"
  by simp

lemmas macro_defs = NP_ASSERT_def NP_ASSERT_TRUE_def NP_ASSERT_FALSE_def NP_ASSERT_EQUAL_def NP_ASSERT_NOT_EQUAL_def
  NP_ASSERT_PTR_EQUAL_def NP_ASSERT_PTR_NOT_EQUAL_def NP_ASSERT_NULL_def NP_ASSERT_NOT_NULL_def
  NP_ASSERT_STR_EQUAL_def NP_ASSERT_STR_NOT_EQUAL_def

lemma run_assertion_holds: "holds m \<Longrightarrow> run_assertion s m = Some (Returns ())"
  by (cases m) (auto simp: macro_defs xstr_def signed_word_eqI split: option.splits)

lemma run_assertion_message:
  assumes "\<forall>t\<in>set (texts m). CHR ''%'' \<notin> set t" "no_null m"
  shows "run_assertion s m = Some (if holds m then Returns () else
    np_assert_failed (st_trace s) (st_file s) (st_lineno s) (message (st_pointer s) m))"
  using assms
  by (cases m)
     (auto simp: macro_defs assert_failed_fmt_def message_def c_format_plain c_format_conv c_format_char xstr_def
      print_base_small lower_digits_def signed_word_eqI simp del: c_format.simps(2))

lemma assert_failed_result:
  "np_assert_failed trace file line t = Thrown ev \<Longrightarrow>
     get_result ev = R_FAIL \<and> ev_description ev = Some (snprintf 1024 t) \<and> ev_filename ev = Some file \<and> ev_lineno ev = line"
  using events_of_uint_ord [of EV_ASSERT]
  by (auto simp: np_assert_failed_def get_result_def with_stack_def at_line_def mk_event_def)

text \<open>
  C13. An assertion of a test whose arguments' texts hold no percent sign returns exactly if what it
  asserts is true, where a null string counts as empty. Otherwise, if no string is null, it ends the test with an event of the result
  FAIL at its file and line, described by the name of the macro and each argument's text with the value it
  had, cut to the length of the buffer.
\<close>

theorem assertions_fail_exactly:
  assumes "\<forall>t\<in>set (texts m). CHR ''%'' \<notin> set t" "holds m \<or> no_null m"
  shows "(run_assertion s m = Some (Returns ()) \<longleftrightarrow> holds m)
    \<and> (\<not> holds m \<longrightarrow> (\<exists>ev. run_assertion s m = Some (Thrown ev) \<and> get_result ev = R_FAIL
         \<and> ev_description ev = Some (snprintf 1024 (message (st_pointer s) m))
         \<and> ev_filename ev = Some (st_file s) \<and> ev_lineno ev = st_lineno s))"
proof (cases "holds m")
  case True
  then show ?thesis by (simp add: run_assertion_holds)
next
  case False
  obtain ev where "np_assert_failed (st_trace s) (st_file s) (st_lineno s) (message (st_pointer s) m) = (Thrown ev :: unit outcome)"
    by (simp add: np_assert_failed_def)
  with run_assertion_message [OF assms(1), of s] assms(2) False assert_failed_result [OF this] show ?thesis by simp
qed

theorem assertions_fail_exactly_witness:
  "\<exists>ev. run_assertion \<lparr>st_file = ''t.c'', st_lineno = 7, st_trace = [], st_pointer = (\<lambda>p. [])\<rparr> (A_Equal ''n'' ''3'' (- 1) 3) = Some (Thrown ev)
     \<and> get_result ev = R_FAIL \<and> ev_description ev = Some ''NP_ASSERT_EQUAL(n=-1, 3=3)''"
proof -
  let ?s = "\<lparr>st_file = ''t.c'', st_lineno = 7, st_trace = [], st_pointer = (\<lambda>p. [])\<rparr>"
  have m: "snprintf 1024 (message (\<lambda>p. []) (A_Equal ''n'' ''3'' (- 1) 3)) = ''NP_ASSERT_EQUAL(n=-1, 3=3)''"
    by (simp add: message_def snprintf_def int_string_def print_base_small lower_digits_def)
  show ?thesis
    using assertions_fail_exactly [of "A_Equal ''n'' ''3'' (- 1) 3" ?s] by (auto simp: m)
qed

text \<open>
  The text of an argument is part of the format. An expression with a remainder in it is taken for a conversion, and
  the failed assertion has no defined message; so has one whose string is null.
\<close>

lemma percent_in_assertion: "NP_ASSERT s ''n % 2 == 0'' False = None"
  by (simp add: NP_ASSERT_def assert_failed_fmt_def next_conv_def)

lemma null_in_assertion: "NP_ASSERT_STR_EQUAL s ''p'' ''q'' None (Some ''x'') = None"
  by (simp add: NP_ASSERT_STR_EQUAL_def assert_failed_fmt_def next_conv_def xstr_def)

end
