(* ===== verification/NP_Util.thy ===== *)
theory NP_Util
  imports NP_Common
begin

unbundle bit_operations_syntax

text \<open>
  The rest of \<^verbatim>\<open>np/util\<close>: writing in full, running out of memory and the allocation wrappers of
  \<^verbatim>\<open>common.cxx\<close>, the trace buffer of \<^verbatim>\<open>trace.{h,c}\<close> and the probes of \<^verbatim>\<open>profile.cxx\<close>. The answers of
  the kernel and of the C library are arguments.
\<close>

section \<open>Writing and ending\<close>

text \<open>
  \<^verbatim>\<open>do_write\<close>: the answers of \<^verbatim>\<open>write\<close> to come, and what is left to write. The result is the one of the
  function, the bytes that went out and the answers not used; there is none while the
  function waits for a further answer.
\<close>

fun do_write_loop :: "int list \<Rightarrow> string \<Rightarrow> (bool \<times> string \<times> int list) option" where
  "do_write_loop ns [] = Some (True, [], ns)"
| "do_write_loop [] (c # cs) = None"
| "do_write_loop (n # ns) (c # cs) =
     (if n < 0 then Some (False, [], ns)
      else Option.bind (do_write_loop ns (drop (nat n) (c # cs)))
             (\<lambda>(ok, out, rest). Some (ok, take (nat n) (c # cs) @ out, rest)))"

definition do_write :: "int list \<Rightarrow> string \<Rightarrow> (int \<times> string \<times> int list) option" where
  "do_write ns buf =
     Option.bind (do_write_loop ns buf) (\<lambda>(ok, out, rest). Some (if ok then int (length buf) else - 1, out, rest))"

text \<open>What \<^verbatim>\<open>oom\<close> writes to the standard error before the process exits with status 1.\<close>

definition oom :: "int list \<Rightarrow> string \<Rightarrow> string option" where
  "oom ns argv0 =
     Option.bind (do_write ns argv0) (\<lambda>(r, out, rest).
       if r < 0 then Some out
       else Option.bind (do_write rest ('': no memory, exiting'' @ [CHR 0x0a])) (\<lambda>(r2, out2, _). Some (out @ out2)))"

text \<open>\<^verbatim>\<open>fatal\<close>: the message is formatted by \<^verbatim>\<open>vfprintf\<close>; the process exits with status 1.\<close>

definition fatal_output :: "string \<Rightarrow> string \<Rightarrow> string" where
  "fatal_output argv0 message = argv0 @ '': '' @ message @ [CHR 0x0a]"

text \<open>The wrappers of the allocator: whether it has memory, and the contents of what is returned.\<close>

definition xmalloc :: "bool \<Rightarrow> nat \<Rightarrow> np_error + u8 list" where
  "xmalloc ok sz = (if ok then Inr (replicate sz 0) else Inl (Fatal_Exit ''no memory''))"

definition xstrdup :: "bool \<Rightarrow> string option \<Rightarrow> np_error + string option" where
  "xstrdup ok s =
     (case s of None \<Rightarrow> Inr None | Some s \<Rightarrow> if ok then Inr (Some s) else Inl (Fatal_Exit ''no memory''))"

text \<open>The bytes of a block that grows are kept; \<open>fresh\<close> is what the new ones hold.\<close>

definition xrealloc :: "bool \<Rightarrow> u8 list \<Rightarrow> u8 list \<Rightarrow> nat \<Rightarrow> np_error + u8 list" where
  "xrealloc ok fresh p sz = (if ok then Inr (take sz (p @ fresh)) else Inl (Fatal_Exit ''no memory''))"

definition rel_timestamp :: "int \<Rightarrow> epoch_state \<Rightarrow> string \<times> epoch_state" where
  "rel_timestamp now st = (let (t, st') = rel_time now st in (rel_format_buf t 32, st'))"

text \<open>The static variable of \<^verbatim>\<open>page_size\<close>.\<close>

definition page_size :: "u64 \<Rightarrow> u64 \<Rightarrow> u64" where
  "page_size sysconf_pagesize ps = (if ps = 0 then sysconf_pagesize else ps)"

section \<open>The trace buffer\<close>

text \<open>The text written so far, if the buffer is mapped; the rest of the buffer holds line feeds.\<close>

type_synonym trace_buf = "string option"

definition np_trace_init :: "bool \<Rightarrow> bool \<Rightarrow> bool \<Rightarrow> trace_buf \<Rightarrow> np_error + trace_buf" where
  "np_trace_init open_ok ftruncate_ok mmap_ok buf =
     (if buf \<noteq> None then Inr buf
      else if \<not> open_ok then Inl (Fatal_Exit ''open'')
      else if \<not> ftruncate_ok then Inl (Fatal_Exit ''ftruncate'')
      else if \<not> mmap_ok then Inl (Fatal_Exit ''mmap'')
      else Inr (Some []))"

definition np_trace :: "string \<Rightarrow> trace_buf \<Rightarrow> trace_buf" where
  "np_trace msg buf = map_option (\<lambda>t. t @ msg) buf"

text \<open>The loop stores the digits from the last to the first.\<close>

fun trace_digits :: "nat \<Rightarrow> u64 \<Rightarrow> string" where
  "trace_digits 0 n = []"
| "trace_digits (Suc i) n = trace_digits i (drop_bit 4 n) @ [lower_digits ! unat (n AND 0xf)]"

definition np_trace_hex :: "u64 \<Rightarrow> trace_buf \<Rightarrow> trace_buf" where
  "np_trace_hex n buf = map_option (\<lambda>t. t @ ''0x'' @ trace_digits 16 n) buf"

section \<open>Probes\<close>

text \<open>
  The static variables of \<^verbatim>\<open>probe_t\<close> and the lines written to the file. A descriptor of -2 has not been
  opened yet, another negative one could not be.
\<close>

record probes =
  pb_depth :: int
  pb_log_fd :: int
  pb_lines :: "string list"

definition show_int :: "int \<Rightarrow> string" where
  "show_int x = (if x < 0 then CHR ''-'' # print_base lower_digits 10 (nat (- x)) else print_base lower_digits 10 (nat x))"

definition probe_log :: "int \<Rightarrow> int \<Rightarrow> int \<Rightarrow> string \<Rightarrow> string \<Rightarrow> probes \<Rightarrow> probes" where
  "probe_log open_fd time pid function which s =
     (let s1 = (if pb_log_fd s = - 2 then s\<lparr>pb_log_fd := open_fd\<rparr> else s)
      in if pb_log_fd s1 \<ge> 0
         then s1\<lparr>pb_lines := pb_lines s1 @ [snprintf 512 (show_int time @ '' '' @ show_int pid @ '' '' @ show_int (pb_depth s1)
                @ '' '' @ which @ '' '' @ function @ [CHR 0x0a])]\<rparr>
         else s1)"

definition probe_begin :: "int \<Rightarrow> int \<Rightarrow> int \<Rightarrow> string \<Rightarrow> probes \<Rightarrow> probes" where
  "probe_begin open_fd time pid function s =
     (let s1 = probe_log open_fd time pid function ''begin'' s in s1\<lparr>pb_depth := pb_depth s1 + 1\<rparr>)"

definition probe_end :: "int \<Rightarrow> int \<Rightarrow> int \<Rightarrow> string \<Rightarrow> probes \<Rightarrow> probes" where
  "probe_end open_fd time pid function s =
     (let s1 = s\<lparr>pb_depth := pb_depth s - 1\<rparr> in probe_log open_fd time pid function ''end'' s1)"

section \<open>What they do\<close>

text \<open>Whatever short writes the kernel makes, a write that succeeds has put out the whole text, and one that fails a part of it.\<close>

lemma do_write_loop_out:
  "do_write_loop ns buf = Some (ok, out, rest) \<Longrightarrow> (if ok then out = buf else prefix out buf)"
proof (induction ns buf arbitrary: ok out rest rule: do_write_loop.induct)
  case (3 n ns c cs)
  show ?case
  proof (cases "n < 0")
    case True
    with 3(2) show ?thesis by auto
  next
    case False
    with 3(2) obtain o' where o: "do_write_loop ns (drop (nat n) (c # cs)) = Some (ok, o', rest)"
      "out = take (nat n) (c # cs) @ o'" by (auto simp: Option.bind_eq_Some_conv simp del: drop_Cons')
    from 3(1) [OF False o(1)] have "if ok then o' = drop (nat n) (c # cs) else prefix o' (drop (nat n) (c # cs))" .
    moreover have "prefix (take k xs @ o') xs" if "prefix o' (drop k xs)" for k and xs :: string
      using that by (metis append_take_drop_id same_prefix_prefix)
    ultimately show ?thesis unfolding o(2) by (auto simp del: take_Cons' drop_Cons')
  qed
qed auto

lemma do_write_result:
  assumes "do_write ns buf = Some (r, out, rest)"
  shows "r = int (length buf) \<and> out = buf \<or> r = - 1 \<and> prefix out buf"
proof -
  from assms obtain ok where "do_write_loop ns buf = Some (ok, out, rest)" "r = (if ok then int (length buf) else - 1)"
    by (auto simp: do_write_def Option.bind_eq_Some_conv)
  with do_write_loop_out [OF this(1)] show ?thesis by (cases ok) auto
qed

text \<open>It returns as soon as there are as many answers that take at least one byte as there are bytes.\<close>

lemma do_write_returns:
  "length buf \<le> length ns \<Longrightarrow> (\<And>n. n \<in> set ns \<Longrightarrow> 0 < n) \<Longrightarrow> \<exists>out rest. do_write ns buf = Some (int (length buf), out, rest)"
proof -
  have "length buf \<le> length ns \<Longrightarrow> \<forall>n\<in>set ns. 0 < n \<Longrightarrow> \<exists>out rest. do_write_loop ns buf = Some (True, out, rest)"
  proof (induction ns buf rule: do_write_loop.induct)
    case (3 n ns c cs)
    have "0 < nat n" using 3(3) by simp
    then have "length (drop (nat n) (c # cs)) \<le> length ns" using 3(2) by simp
    with 3 show ?case by fastforce
  qed auto
  then show "length buf \<le> length ns \<Longrightarrow> (\<And>n. n \<in> set ns \<Longrightarrow> 0 < n) \<Longrightarrow> \<exists>out rest. do_write ns buf = Some (int (length buf), out, rest)"
    by (fastforce simp: do_write_def)
qed

text \<open>A traced number is read back from its sixteen digits.\<close>

lemma and_15_mod: "unat (n AND 0xf :: u64) = unat n mod 16"
proof -
  have "unat (n AND 0xf) = unat n AND mask 4" by (simp add: unsigned_and_eq mask_numeral)
  then show ?thesis by (simp add: take_bit_eq_mask [symmetric] take_bit_eq_mod)
qed

lemma trace_digits_parse:
  "digits_in 16 (trace_digits i n) \<and> length (trace_digits i n) = i \<and> parse_base 16 0 (trace_digits i n) = unat n mod 16 ^ i"
proof (induction i arbitrary: n)
  case (Suc i)
  have d: "digit_val (lower_digits ! (unat n mod 16)) = Some (unat n mod 16)" by (simp add: digit_val_lower)
  have "unat (drop_bit 4 n) = unat n div 16" by (simp add: drop_bit_eq_div unat_div)
  moreover have "unat n div 16 mod 16 ^ i * 16 + unat n mod 16 = unat n mod 16 ^ Suc i"
    by (simp add: mod_mult2_eq)
  ultimately show ?case
    using Suc [of "drop_bit 4 n"] d by (simp add: and_15_mod digits_in_def parse_base_append [unfolded digits_in_def])
qed (simp add: digits_in_def)

lemma np_trace_hex_value:
  "np_trace_hex n (Some t) = Some (t @ ''0x'' @ trace_digits 16 n) \<and> parse_base 16 0 (trace_digits 16 n) = unat n"
  using trace_digits_parse [of 16 n] unsigned_less [of n, where 'a = nat] by (simp add: np_trace_hex_def)

text \<open>A probe leaves the depth as it found it.\<close>

lemma probe_log_depth [simp]: "pb_depth (probe_log fd time pid f w s) = pb_depth s"
  by (simp add: probe_log_def Let_def)

lemma probe_depth:
  "pb_depth (probe_end fd t2 pid f (probe_begin fd t1 pid f s)) = pb_depth s"
  by (simp add: probe_begin_def probe_end_def Let_def)

end
