(* ===== verification/NP_Tree.thy ===== *)
theory NP_Tree
  imports NP_Testnode
begin

text \<open>
  Well-formed test trees: what every operation that builds the tree of \<^verbatim>\<open>np/testnode.cxx\<close> keeps, that no
  operation fails on such a tree for a well-formed request, and that in such a tree a node is found by
  its full name.
\<close>

section \<open>Well-formed trees\<close>

text \<open>Children have names, without a separator and all different; functions are stored in the four slots of the array.\<close>

fun wt_tree :: "testnode_t \<Rightarrow> bool" where
  "wt_tree (Testnode nm fs is ps cs) \<longleftrightarrow>
     (\<forall>ft\<in>{FT_MOCK, FT_PARAM}. fs ft = None) \<and>
     (\<forall>c\<in>set cs. wt_tree c \<and> (\<exists>x. tn_name c = Some x \<and> x \<noteq> [] \<and> SLASH \<notin> set x)) \<and>
     distinct (map tn_name cs)"

definition wt_name :: "testnode_t \<Rightarrow> bool" where
  "wt_name c \<longleftrightarrow> (\<exists>x. tn_name c = Some x \<and> x \<noteq> [] \<and> SLASH \<notin> set x)"

lemma wt_tree_iff:
  "wt_tree n \<longleftrightarrow> tn_funcs n FT_MOCK = None \<and> tn_funcs n FT_PARAM = None \<and>
     (\<forall>c\<in>set (tn_children n). wt_tree c \<and> wt_name c) \<and> distinct (map tn_name (tn_children n))"
  by (cases n) (auto simp: wt_name_def)

lemma wt_child: "wt_tree n \<Longrightarrow> i < length (tn_children n) \<Longrightarrow> wt_tree (tn_children n ! i) \<and> wt_name (tn_children n ! i)"
  by (simp add: wt_tree_iff [of n])

lemma wt_new [simp]: "wt_tree (testnode_new nm)"
  by (simp add: testnode_new_def)

text \<open>Replacing the children by others with the same names, or adding one of a new name.\<close>

lemma wt_replace:
  assumes "wt_tree n" "i < length (tn_children n)" "wt_tree c" "tn_name c = tn_name (tn_children n ! i)"
  shows "wt_tree (set_children ((tn_children n)[i := c]) n)"
proof -
  have "map tn_name ((tn_children n)[i := c]) = map tn_name (tn_children n)"
    using assms(2,4) by (simp add: map_update list_update_same_conv)
  moreover have "wt_name c" using wt_child [OF assms(1,2)] assms(4) by (simp add: wt_name_def)
  ultimately show ?thesis
    using assms(1-3) unfolding wt_tree_iff [of n] wt_tree_iff [of "set_children _ n"]
    by (auto dest: set_update_subset_insert [THEN subsetD])
qed

lemma child_index_None: "child_index part cs = None \<longleftrightarrow> Some part \<notin> tn_name ` set cs"
  by (induction cs) auto

lemma wt_add:
  assumes "wt_tree n" "child_index part (tn_children n) = None" "wt_tree c" "tn_name c = Some part"
    "part \<noteq> []" "SLASH \<notin> set part"
  shows "wt_tree (set_children (tn_children n @ [c]) n)"
  using assms unfolding wt_tree_iff [of n] wt_tree_iff [of "set_children _ n"]
  by (auto simp: child_index_None wt_name_def)

lemma wt_make_parts:
  assumes "wt_tree n" "\<forall>x\<in>set parts. x \<noteq> [] \<and> SLASH \<notin> set x"
  shows "wt_tree (fst (make_parts parts n))"
  using assms
proof (induction parts n rule: make_parts.induct)
  case (2 part parts n)
  show ?case
  proof (cases "child_index part (tn_children n)")
    case None
    obtain c p where c: "make_parts parts (testnode_new (Some part)) = (c, p)" by fastforce
    have "wt_tree c" "tn_name c = Some part"
      using 2(1) [OF None] 2(4) c make_parts_simps(1) [of parts "testnode_new (Some part)"] by auto
    with wt_add [OF 2(3) None] None c 2(4) show ?thesis by simp
  next
    case (Some i)
    obtain c p where c: "make_parts parts (tn_children n ! i) = (c, p)" by fastforce
    have i: "i < length (tn_children n)" using child_index_Some [OF Some] by simp
    have "wt_tree c" "tn_name c = tn_name (tn_children n ! i)"
      using 2(2) [OF Some] 2(4) c wt_child [OF 2(3) i] make_parts_simps(1) [of parts "tn_children n ! i"] by auto
    with wt_replace [OF 2(3) i] Some c show ?thesis by simp
  qed
qed simp

text \<open>Changing a node that keeps its name and its children.\<close>

lemma wt_update_at:
  assumes "wt_tree n" "node_at n p = Some m"
    "tn_name (f m) = tn_name m" "wt_tree (f m)"
  shows "wt_tree (update_at p f n) \<and> tn_name (update_at p f n) = tn_name n"
  using assms
proof (induction p f n rule: update_at.induct)
  case (2 i p f n)
  have i: "i < length (tn_children n)" "node_at (tn_children n ! i) p = Some m"
    using 2(3) by (auto split: if_splits)
  from 2(1) [OF i(1) _ i(2)] wt_child [OF 2(2) i(1)] 2(4,5) wt_replace [OF 2(2) i(1)] i(1)
  show ?case by (cases n) auto
qed simp

lemma wt_elide_walk: "elide_walk up n = (up', tn) \<Longrightarrow> wt_tree n \<Longrightarrow> (\<And>u. up = Some u \<Longrightarrow> wt_tree u) \<Longrightarrow>
   wt_tree tn \<and> (\<forall>u. up' = Some u \<longrightarrow> wt_tree u)"
proof (induction up n rule: elide_walk.induct)
  case (1 up n)
  show ?case
  proof (cases "\<exists>c cs. tn_children n = c # cs \<and> is_elidable n")
    case True
    then obtain c cs where c: "tn_children n = c # cs" "is_elidable n" by blast
    have "elide_walk (Some n) c = (up', tn)" using 1(2) c by (simp add: elide_walk.simps [of up n])
    from 1(1) [OF c this] 1(3) c show ?thesis by (auto simp: wt_tree_iff [of n])
  next
    case False
    with 1(2-) show ?thesis by (auto simp: elide_walk.simps [of up n] split: list.splits if_splits)
  qed
qed

lemma wt_detach: "wt_tree n \<Longrightarrow> wt_tree (detach_common n)"
  using wt_elide_walk [of None n] by (cases "elide_walk None n") (auto simp: detach_common_def split: option.split)

section \<open>Operations on a tree\<close>

text \<open>The calls that build a tree; a node is given by its position, a position without a node is a bad pointer.\<close>

datatype tree_op =
    Make_Path string
  | Set_Function pos functype_t function_t
  | Add_Mock pos "addr_t \<Rightarrow> addr_t" nat addr_t "string option" addr_t
  | Add_Parameter pos string addr_t string
  | Detach_Common

fun run_tree_op :: "tree_op \<Rightarrow> testnode_t \<Rightarrow> np_error + testnode_t" where
  "run_tree_op (Make_Path name) t = bindE (make_path name t) (\<lambda>(t', p). Inr t')"
| "run_tree_op (Set_Function p ft f) t =
     (case node_at t p of None \<Rightarrow> Inl Bad_Pointer
      | Some n \<Rightarrow> bindE (set_function ft f n) (\<lambda>n'. Inr (update_at p (\<lambda>_. n') t)))"
| "run_tree_op (Add_Mock p instr nid target name mock) t =
     (if node_at t p = None then Inl Bad_Pointer else Inr (update_at p (add_mock instr nid target name mock) t))"
| "run_tree_op (Add_Parameter p name var vals) t =
     (if node_at t p = None then Inl Bad_Pointer else Inr (update_at p (add_parameter name var vals) t))"
| "run_tree_op Detach_Common t = Inr (detach_common t)"

text \<open>The requests a caller may make: a path with a component, a node that exists, a function that is not a mock or a parameter.\<close>

fun tree_op_ok :: "tree_op \<Rightarrow> testnode_t \<Rightarrow> bool" where
  "tree_op_ok (Make_Path name) t \<longleftrightarrow> (\<exists>c\<in>set name. c \<noteq> SLASH)"
| "tree_op_ok (Set_Function p ft f) t \<longleftrightarrow> node_at t p \<noteq> None \<and> ft \<noteq> FT_MOCK \<and> ft \<noteq> FT_PARAM"
| "tree_op_ok (Add_Mock p instr nid target name mock) t \<longleftrightarrow> node_at t p \<noteq> None"
| "tree_op_ok (Add_Parameter p name var vals) t \<longleftrightarrow> node_at t p \<noteq> None"
| "tree_op_ok Detach_Common t \<longleftrightarrow> True"

inductive tree_built :: "testnode_t \<Rightarrow> bool" where
  new: "tree_built (testnode_new None)"
| op: "tree_built t \<Longrightarrow> run_tree_op op t = Inr t' \<Longrightarrow> tree_built t'"

lemma tokens_slash_parts: "x \<in> set (tokens ''/'' name) \<Longrightarrow> x \<noteq> [] \<and> SLASH \<notin> set x"
  using tokens_slash by (auto simp: SLASH_def)

lemma tokens_slash_empty: "tokens ''/'' name = [] \<longleftrightarrow> (\<forall>c\<in>set name. c = SLASH)"
proof -
  have "filter (\<lambda>w. w \<noteq> []) (pieces {CHR ''/''} s) = [] \<longleftrightarrow> (\<forall>c\<in>set s. c = CHR ''/'')" for s
    by (induction s) auto
  then show ?thesis by (simp add: tokens_eq SLASH_def)
qed

lemma node_ops_keep:
  "tn_name (add_mock i k a nm b n) = tn_name n" "wt_tree (add_mock i k a nm b n) = wt_tree n"
  "tn_name (add_parameter s v vs n) = tn_name n" "wt_tree (add_parameter s v vs n) = wt_tree n"
  by (cases n; simp add: add_mock_def)+

lemma set_function_wt:
  "set_function ft f n = Inr n' \<Longrightarrow> wt_tree n \<Longrightarrow> wt_tree n' \<and> tn_name n' = tn_name n"
  by (cases n; cases ft) (auto split: if_splits option.splits)

lemma wt_node_at: "wt_tree n \<Longrightarrow> node_at n p = Some m \<Longrightarrow> wt_tree m"
  by (induction n p rule: node_at.induct) (auto dest: wt_child split: if_splits)

lemma run_tree_op_wt:
  assumes "wt_tree t" "run_tree_op op t = Inr t'"
  shows "wt_tree t'"
proof (cases op)
  case (Make_Path name)
  with assms(2) have "t' = fst (make_parts (tokens ''/'' name) t)"
    by (auto simp: make_path_def bindE_Inr_iff Let_def split: if_splits prod.splits)
  then show ?thesis using wt_make_parts [OF assms(1)] tokens_slash_parts by blast
next
  case (Set_Function p ft f)
  with assms(2) obtain n n' where n: "node_at t p = Some n" "set_function ft f n = Inr n'" "t' = update_at p (\<lambda>_. n') t"
    by (auto simp: bindE_Inr_iff split: option.splits)
  with wt_update_at [OF assms(1) n(1), of "\<lambda>_. n'"] set_function_wt [OF n(2)] wt_node_at [OF assms(1) n(1)]
  show ?thesis by simp
next
  case (Add_Mock p instr nid target name mock)
  with assms(2) obtain n where n: "node_at t p = Some n" "t' = update_at p (add_mock instr nid target name mock) t"
    by (auto split: if_splits)
  with wt_update_at [OF assms(1) n(1), of "add_mock instr nid target name mock"] wt_node_at [OF assms(1) n(1)]
  show ?thesis by (simp add: node_ops_keep)
next
  case (Add_Parameter p name var vals)
  with assms(2) obtain n where n: "node_at t p = Some n" "t' = update_at p (add_parameter name var vals) t"
    by (auto split: if_splits)
  with wt_update_at [OF assms(1) n(1), of "add_parameter name var vals"] wt_node_at [OF assms(1) n(1)]
  show ?thesis by (simp add: node_ops_keep)
next
  case Detach_Common
  with assms show ?thesis by (auto simp: wt_detach)
qed

lemma run_tree_op_progress:
  assumes "tree_op_ok op t"
  shows "\<exists>t'. run_tree_op op t = Inr t'"
proof (cases op)
  case (Make_Path name)
  with assms have "tokens ''/'' name \<noteq> []" by (auto simp: tokens_slash_empty)
  with Make_Path show ?thesis by (simp add: make_path_def Let_def split: prod.split)
next
  case (Set_Function p ft f)
  with assms obtain n where n: "node_at t p = Some n" "ft \<noteq> FT_MOCK" "ft \<noteq> FT_PARAM" by auto
  then have "\<exists>n'. set_function ft f n = Inr n'" by (cases n; cases ft) (auto split: option.split)
  with n Set_Function show ?thesis by auto
qed (use assms in auto)

lemma tree_built_wt: "tree_built t \<Longrightarrow> wt_tree t"
  by (induction rule: tree_built.induct) (auto intro: run_tree_op_wt)

section \<open>Full names\<close>

text \<open>The names on the way down to a position.\<close>

fun path_names :: "testnode_t \<Rightarrow> pos \<Rightarrow> string list" where
  "path_names n [] = []"
| "path_names n (i # p) = the (tn_name (tn_children n ! i)) # path_names (tn_children n ! i) p"

lemma names_ancestors:
  "wt_tree n \<Longrightarrow> node_at n p = Some m \<Longrightarrow>
     rev (names (ancestors n p)) = (case tn_name n of None \<Rightarrow> [] | Some x \<Rightarrow> [x]) @ path_names n p"
proof (induction n p rule: node_at.induct)
  case (2 n i p)
  then have i: "i < length (tn_children n)" by (auto split: if_splits)
  from 2(1) [OF i] 2(3) wt_child [OF 2(2) i] i show ?case by (auto simp: wt_name_def split: option.split)
qed (simp split: option.split)

lemma path_names_inj:
  "wt_tree n \<Longrightarrow> node_at n p = Some m \<Longrightarrow> node_at n q = Some m' \<Longrightarrow> path_names n p = path_names n q \<Longrightarrow> p = q"
proof (induction n p arbitrary: q rule: node_at.induct)
  case (1 n)
  then show ?case by (cases q) auto
next
  case (2 n i p)
  then have i: "i < length (tn_children n)" by (auto split: if_splits)
  from 2(5) obtain j r where q: "q = j # r" by (cases q) auto
  with 2(4) have j: "j < length (tn_children n)" by (auto split: if_splits)
  have "tn_name (tn_children n ! i) = tn_name (tn_children n ! j)"
    using 2(5) q wt_child [OF 2(2) i] wt_child [OF 2(2) j] by (auto simp: wt_name_def)
  then have "i = j"
    using i j 2(2) unfolding wt_tree_iff [of n] by (auto simp: distinct_conv_nth)
  with 2(1) [OF i, of r] 2(3-5) q i wt_child [OF 2(2) i] show ?case by simp
qed

text \<open>Names without a dot can be read off a full name.\<close>

lemma dotted_inj:
  "dotted xs = dotted ys \<Longrightarrow> xs \<noteq> [] \<Longrightarrow> ys \<noteq> [] \<Longrightarrow>
     \<forall>x\<in>set xs \<union> set ys. CHR ''.'' \<notin> set x \<Longrightarrow> xs = ys"
proof (induction xs arbitrary: ys)
  case (Cons x xs)
  obtain y zs where ys: "ys = y # zs" using Cons.prems(3) by (cases ys) auto
  have tw: "takeWhile (\<lambda>c. c \<noteq> CHR ''.'') (dotted (w # ws)) = w"
    "dropWhile (\<lambda>c. c \<noteq> CHR ''.'') (dotted (w # ws)) = (if ws = [] then [] else CHR ''.'' # dotted ws)"
    if "CHR ''.'' \<notin> set w" for w ws
    using that by (cases ws; simp add: takeWhile_append takeWhile_eq_all_conv dropWhile_append; force)+
  have "x = y" using tw(1) [of x xs] tw(1) [of y zs] Cons.prems ys by simp
  moreover have "(if xs = [] then [] else CHR ''.'' # dotted xs) = (if zs = [] then [] else CHR ''.'' # dotted zs)"
    using tw(2) [of x xs] tw(2) [of y zs] Cons.prems ys by simp
  ultimately show ?case using Cons.IH [of zs] Cons.prems(4) ys by (auto split: if_splits)
qed simp

lemma find_unique: "x \<in> set xs \<Longrightarrow> P x \<Longrightarrow> (\<And>y. y \<in> set xs \<Longrightarrow> P y \<Longrightarrow> y = x) \<Longrightarrow> List.find P xs = Some x"
proof (induction xs)
  case (Cons y ys)
  show ?case
  proof (cases "P y")
    case True
    moreover have "y = x" using Cons.prems(3) True by (meson list.set_intros(1))
    ultimately show ?thesis by simp
  next
    case False
    with Cons.prems(1,2) have "x \<in> set ys" by auto
    from Cons.IH [OF this Cons.prems(2)] Cons.prems(3) have "List.find P ys = Some x" by (meson list.set_intros(2))
    with False show ?thesis by simp
  qed
qed simp

definition dot_free :: "testnode_t \<Rightarrow> bool" where
  "dot_free t \<longleftrightarrow> (\<forall>p\<in>set (preorder [] t). \<forall>x\<in>set_option (Option.bind (node_at t p) tn_name). CHR ''.'' \<notin> set x)"

lemma dot_free_ancestors:
  assumes "dot_free t" "node_at t p = Some m" "x \<in> set (names (ancestors t p))"
  shows "CHR ''.'' \<notin> set x"
proof -
  have "\<exists>q m. node_at n q = Some m \<and> tn_name m = Some x" if "x \<in> set (names (ancestors n p))" for n
    using that
  proof (induction n p rule: ancestors.induct)
    case (1 n)
    then show ?case by (auto split: option.splits intro!: exI [of _ "[]"])
  next
    case (2 n i p)
    show ?case
    proof (cases "i < length (tn_children n) \<and> x \<in> set (names (ancestors (tn_children n ! i) p))")
      case True
      with 2(1) obtain q m where "node_at (tn_children n ! i) q = Some m" "tn_name m = Some x" by blast
      with True show ?thesis by (intro exI [of _ "i # q"]) simp
    next
      case False
      with 2(2) show ?thesis by (auto split: option.splits if_splits intro!: exI [of _ "[]"])
    qed
  qed
  with assms(3) obtain q m where q: "node_at t q = Some m" "tn_name m = Some x" by blast
  then have "q \<in> set (preorder [] t)" by (simp add: set_preorder)
  with assms(1) q show ?thesis by (fastforce simp: dot_free_def)
qed

lemma find_fullname:
  assumes "wt_tree t" "dot_free t" "node_at t p = Some m" "tn_name m \<noteq> None"
  shows "find_node t (get_fullname t p) = Some p"
  unfolding find_first_in_preorder
proof (rule find_unique)
  show "p \<in> set (preorder [] t)" using assms(3) by (simp add: set_preorder)
  fix q assume "(\<exists>m. node_at t q = Some m \<and> tn_name m \<noteq> None) \<and> get_fullname t q = get_fullname t p"
  then obtain m' where q: "node_at t q = Some m'" "tn_name m' \<noteq> None" "get_fullname t q = get_fullname t p" by blast
  have "names (ancestors t r) \<noteq> []" if "node_at t r = Some l" "tn_name l \<noteq> None" for r l
    using ancestors_nonempty [OF that(1)] that(2) by auto
  then have "rev (names (ancestors t q)) = rev (names (ancestors t p))"
    using q(3) dot_free_ancestors [OF assms(2) assms(3)] dot_free_ancestors [OF assms(2) q(1)] q assms(3,4)
    unfolding get_fullname_dotted [OF q(1,2)] get_fullname_dotted [OF assms(3,4)] by (intro dotted_inj) auto
  then show "q = p"
    using path_names_inj [OF assms(1) q(1) assms(3)] names_ancestors [OF assms(1) q(1)] names_ancestors [OF assms(1,3)]
    by simp
qed (use assms(3,4) in auto)

text \<open>
  C18. Every tree that calls of the operations build from a new root is well formed: all nodes below the root have a name
  without a separator, different from those of their siblings, and only the functions the array has a slot
  for. On such a tree each operation with a proper request succeeds and gives a well-formed tree
  again, and each node with a name is found by its full name, if no name holds a dot.
\<close>

theorem tree_built_well_formed:
  assumes "tree_built t"
  shows "wt_tree t
    \<and> (\<forall>op. tree_op_ok op t \<longrightarrow> (\<exists>t'. run_tree_op op t = Inr t' \<and> wt_tree t'))
    \<and> (dot_free t \<longrightarrow> (\<forall>p m. node_at t p = Some m \<and> tn_name m \<noteq> None \<longrightarrow> find_node t (get_fullname t p) = Some p))"
  using tree_built_wt [OF assms] run_tree_op_progress [of _ t] run_tree_op_wt [of t] find_fullname [of t] by blast

definition demo_ops :: testnode_t where
  "demo_ops = fst (make_parts [''lib'', ''foo''] (testnode_new None))"

theorem tree_built_well_formed_witness:
  "find_node demo_ops ''lib.foo'' = Some [0, 0] \<and> (\<exists>t'. run_tree_op (Add_Parameter [0, 0] ''size'' 0x10 ''1,2'') demo_ops = Inr t' \<and> wt_tree t')"
proof -
  have "tokens ''/'' ''lib/foo'' = [''lib'', ''foo'']" by (simp add: tokens_eq)
  then have "run_tree_op (Make_Path ''lib/foo'') (testnode_new None) = Inr demo_ops"
    by (simp add: make_path_def demo_ops_def split: prod.split)
  then have b: "tree_built demo_ops" by (rule tree_built.op [OF tree_built.new])
  have d: "demo_ops = Testnode None (\<lambda>ft. None) [] [] [Testnode (Some ''lib'') (\<lambda>ft. None) [] [] [testnode_new (Some ''foo'')]]"
    by (simp add: demo_ops_def testnode_new_def)
  have n: "node_at demo_ops [0, 0] = Some (testnode_new (Some ''foo''))" by (simp add: d)
  moreover have "get_fullname demo_ops [0, 0] = ''lib.foo''" by (simp add: get_fullname_def d)
  moreover have "dot_free demo_ops" by (simp add: dot_free_def d testnode_new_def)
  moreover have "tree_op_ok (Add_Parameter [0, 0] ''size'' 0x10 ''1,2'') demo_ops" by (simp add: n del: node_at.simps)
  moreover have "tn_name (testnode_new (Some ''foo'')) \<noteq> None" by simp
  ultimately show ?thesis using tree_built_well_formed [OF b] by metis
qed

end
