(* ===== verification/NP_Darwin.thy ===== *)
theory NP_Darwin
  imports NP_Platform
begin

unbundle bit_operations_syntax

text \<open>
  \<^verbatim>\<open>np/spiegel/platform/darwin.cxx\<close>: what is asked of Darwin and its dynamic linker. The images the
  linker has loaded and the answers of the kernel and of the C library are arguments.
\<close>

section \<open>The program\<close>

text \<open>The arguments stored by \<^verbatim>\<open>stash_argv\<close> before the main program runs.\<close>

record argv_t =
  av_argc :: int
  av_argv :: "string list"

definition stash_argv :: "int \<Rightarrow> string list \<Rightarrow> argv_t \<Rightarrow> argv_t" where
  "stash_argv argc argv g = g\<lparr>av_argc := argc, av_argv := argv\<rparr>"

definition darwin_get_argv :: "argv_t \<Rightarrow> bool \<times> int \<times> string list" where
  "darwin_get_argv g = (True, av_argc g, av_argv g)"

text \<open>The answer of \<^verbatim>\<open>_NSGetExecutablePath\<close>: its result and the buffer.\<close>

definition darwin_self_exe :: "int \<times> string \<Rightarrow> string option" where
  "darwin_self_exe ans = (let (r, buf) = ans in if r \<noteq> 0 then None else Some buf)"

section \<open>Link objects\<close>

definition MH_EXECUTE :: u32 where "MH_EXECUTE = 2"
definition MH_DYLIB :: u32 where "MH_DYLIB = 6"
definition MH_MAGIC_64 :: u32 where "MH_MAGIC_64 = 0xfeedfacf"
definition MH_CIGAM_64 :: u32 where "MH_CIGAM_64 = 0xcffaedfe"
definition LC_SEGMENT_64 :: u32 where "LC_SEGMENT_64 = 0x19"

record mach_header =
  mh_magic :: u32
  mh_filetype :: u32
  mh_ncmds :: u32
  mh_sizeofcmds :: u32

text \<open>A load command; the last three members have a meaning in segments only.\<close>

record load_command =
  lc_cmd :: u32
  lc_cmdsize :: u32
  seg_vmaddr :: u64
  seg_vmsize :: u64
  seg_fileoff :: u64

text \<open>An image: its header, if there is one, and the load command that starts at a distance from the header.\<close>

record image =
  im_header :: "mach_header option"
  im_name :: "string option"
  im_slide :: u64
  im_command :: "u64 \<Rightarrow> load_command"

definition cmds_start :: "mach_header \<Rightarrow> u64" where
  "cmds_start hdr = (if mh_magic hdr = MH_MAGIC_64 \<or> mh_magic hdr = MH_CIGAM_64 then 32 else 28)"

definition seg_mapping :: "u64 \<Rightarrow> load_command \<Rightarrow> mapping_t" where
  "seg_mapping slide seg = \<lparr>mp_offset = seg_fileoff seg, mp_size = seg_vmsize seg, mp_map = seg_vmaddr seg + slide\<rparr>"

text \<open>
  The loop over the load commands of an image on 64-bit processes, \<open>off\<close> being \<^verbatim>\<open>cmd - cmds\<close>. The
  \<^verbatim>\<open>continue\<close> for a segment of no size goes back to the condition with nothing changed.
\<close>

partial_function (option) cmds_loop :: "mach_header \<Rightarrow> (u64 \<Rightarrow> load_command) \<Rightarrow> u64 \<Rightarrow> u32 \<Rightarrow> u64 \<Rightarrow> mapping_t list \<Rightarrow> mapping_t list option" where
  "cmds_loop hdr command slide j off ms =
     (if j < mh_ncmds hdr \<and> off < ucast (mh_sizeofcmds hdr)
      then (let cmd = command (cmds_start hdr + off)
            in if lc_cmd cmd = LC_SEGMENT_64
               then (if seg_vmsize cmd = 0 then cmds_loop hdr command slide j off ms
                     else cmds_loop hdr command slide (j + 1) (off + ucast (lc_cmdsize cmd)) (ms @ [seg_mapping slide cmd]))
               else cmds_loop hdr command slide (j + 1) (off + ucast (lc_cmdsize cmd)) ms)
      else Some ms)"

definition add_image :: "image \<Rightarrow> linkobj_t list \<Rightarrow> linkobj_t list option" where
  "add_image im vec =
     (case im_header im of
        None \<Rightarrow> Some vec
      | Some hdr \<Rightarrow>
          if mh_filetype hdr \<noteq> MH_EXECUTE \<and> mh_filetype hdr \<noteq> MH_DYLIB then Some vec
          else Option.bind (cmds_loop hdr (im_command im) (im_slide im) 0 0 [])
                 (\<lambda>ms. Some (vec @ [\<lparr>lj_name = im_name im, lj_slide = im_slide im, lj_mappings = ms\<rparr>])))"

fun images_loop :: "image list \<Rightarrow> linkobj_t list \<Rightarrow> linkobj_t list option" where
  "images_loop [] vec = Some vec"
| "images_loop (im # ims) vec = Option.bind (add_image im vec) (images_loop ims)"

definition darwin_get_linkobjs :: "image list \<Rightarrow> linkobj_t list option" where
  "darwin_get_linkobjs images = images_loop images []"

definition darwin_is_plt_section :: "string \<Rightarrow> bool" where
  "darwin_is_plt_section secname \<longleftrightarrow> secname = ''__DATA.__nl_symbol_ptr'' \<or> secname = ''__DATA.__la_symbol_ptr''"

definition darwin_follow_plt :: "(addr_t \<Rightarrow> string option option) \<Rightarrow> (string option \<Rightarrow> addr_t) \<Rightarrow> addr_t \<Rightarrow> addr_t" where
  "darwin_follow_plt dladdr dlsym addr = (case dladdr addr of Some sname \<Rightarrow> dlsym sname | None \<Rightarrow> addr)"

section \<open>Debuggers\<close>

definition PROC_FLAG_TRACED :: u32 where "PROC_FLAG_TRACED = 2"

text \<open>The result of \<^verbatim>\<open>proc_pidinfo\<close> and the flags it stores, which are zero before.\<close>

definition darwin_is_running_under_debugger :: "int \<times> u32 \<Rightarrow> bool" where
  "darwin_is_running_under_debugger ans =
     (let (r, pbi_flags) = ans in if r < 0 then False else pbi_flags AND PROC_FLAG_TRACED \<noteq> 0)"

section \<open>File descriptors\<close>

text \<open>
  Socket addresses: the text \<^verbatim>\<open>inet_ntop\<close> makes of an address and the two bytes of a port in the order
  of the network.
\<close>

datatype sockaddr = AF_INET string "u8 \<times> u8" | AF_INET6 string "u8 \<times> u8" | AF_UNIX string | AF_OTHER

definition ntohs :: "u8 \<times> u8 \<Rightarrow> nat" where
  "ntohs p = 256 * unat (fst p) + unat (snd p)"

definition show_nat :: "nat \<Rightarrow> string" where
  "show_nat n = print_base lower_digits 10 n"

definition describe_sockaddr :: "sockaddr \<Rightarrow> string" where
  "describe_sockaddr sa =
     (case sa of
        AF_INET addr port \<Rightarrow> ''inet '' @ addr @ '':'' @ show_nat (ntohs port)
      | AF_INET6 addr port \<Rightarrow> ''inet6 '' @ addr @ ''.'' @ show_nat (ntohs port)
      | AF_UNIX path \<Rightarrow> ''unix '' @ path
      | AF_OTHER \<Rightarrow> [])"

datatype file_mode = S_IFIFO | S_IFCHR | S_IFDIR | S_IFBLK | S_IFREG | S_IFSOCK | S_OTHER

text \<open>What the system answers about a descriptor; nothing stands for a call that failed.\<close>

record fd_info =
  fi_mode :: file_mode
  fi_dev :: u32
  fi_ino :: u64
  fi_major :: nat
  fi_minor :: nat
  fi_path :: "string option"
  fi_sockname :: "sockaddr option"
  fi_peername :: "sockaddr option"

definition describe_socket :: "fd_info \<Rightarrow> string \<Rightarrow> bool \<times> string" where
  "describe_socket st o1 =
     (case fi_sockname st of
        None \<Rightarrow> (False, o1)
      | Some sa \<Rightarrow>
          let o2 = o1 @ ''local '' @ describe_sockaddr sa
          in case sa of
               AF_UNIX _ \<Rightarrow> (True, o2)
             | _ \<Rightarrow> (case fi_peername st of
                       None \<Rightarrow> (False, o2)
                     | Some peer \<Rightarrow> (True, o2 @ '' remote '' @ describe_sockaddr peer)))"

definition describe_fd :: "fd_info option \<Rightarrow> bool \<times> string" where
  "describe_fd fst_ans =
     (case fst_ans of
        None \<Rightarrow> (False, [])
      | Some sb \<Rightarrow>
          let dev = show_nat (fi_major sb) @ '':'' @ show_nat (fi_minor sb);
              path = (case fi_path sb of None \<Rightarrow> (False, []) | Some p \<Rightarrow> (True, p))
          in case fi_mode sb of
               S_IFIFO \<Rightarrow> (if fi_dev sb = 0 then (True, ''pipe:0x'' @ print_base lower_digits 16 (unat (fi_ino sb))) else path)
             | S_IFCHR \<Rightarrow> (True, ''char device '' @ dev)
             | S_IFDIR \<Rightarrow> path
             | S_IFBLK \<Rightarrow> (True, ''block device '' @ dev)
             | S_IFREG \<Rightarrow> path
             | S_IFSOCK \<Rightarrow> describe_socket sb ''socket ''
             | S_OTHER \<Rightarrow> (False, []))"

definition darwin_add_fd :: "(nat \<Rightarrow> fd_info option) \<Rightarrow> nat \<Rightarrow> string list \<Rightarrow> string list" where
  "darwin_add_fd fstat_fd fd fds =
     (let (ok, text_o) = describe_fd (fstat_fd fd)
      in if ok then (let fds' = (if fd \<ge> length fds then fds @ replicate (fd + 1 - length fds) [] else fds) in fds'[fd := text_o])
         else fds)"

definition darwin_get_file_descriptors :: "nat \<Rightarrow> (nat \<Rightarrow> fd_info option) \<Rightarrow> string list" where
  "darwin_get_file_descriptors numfds fstat_fd = fold (darwin_add_fd fstat_fd) [0..<numfds] []"

section \<open>The clock\<close>

record clock_state =
  cs_epoch :: u64
  cs_numer :: u32
  cs_denom :: u32

record clock_answers =
  ca_timebase :: "u32 \<times> u32"
  ca_first :: u64
  ca_now :: u64
  ca_timeofday :: "int \<times> int"

abbreviation (input) NP_CLOCK_REALTIME :: int where "NP_CLOCK_REALTIME \<equiv> 0"
abbreviation (input) NP_CLOCK_MONOTONIC :: int where "NP_CLOCK_MONOTONIC \<equiv> 1"

text \<open>The seconds and nanoseconds stored, or nothing if the clock is unknown, and the static variables.\<close>

definition darwin_clock_gettime :: "int \<Rightarrow> clock_answers \<Rightarrow> clock_state \<Rightarrow> (int \<times> int) option \<times> clock_state" where
  "darwin_clock_gettime clk_id ca cs =
     (if clk_id = NP_CLOCK_MONOTONIC then
        let cs1 = (if cs_epoch cs = 0
                   then \<lparr>cs_epoch = ca_first ca, cs_numer = fst (ca_timebase ca), cs_denom = snd (ca_timebase ca)\<rparr> else cs);
            elapsed_ns = ((ca_now ca - cs_epoch cs1) * ucast (cs_numer cs1)) div ucast (cs_denom cs1);
            tv_sec = sint (elapsed_ns div 1000000000);
            tv_nsec = sint (elapsed_ns - word_of_int tv_sec * 1000000000)
        in (Some (tv_sec, tv_nsec), cs1)
      else if clk_id = NP_CLOCK_REALTIME then (Some (fst (ca_timeofday ca), snd (ca_timeofday ca) * 1000), cs)
      else (None, cs))"

section \<open>Symbols and exceptions\<close>

text \<open>
  \<open>stat_errno\<close> is zero if \<^verbatim>\<open>stat\<close> succeeds on a file, else the error. The result is whether there
  is a symbol file, and its name.
\<close>

definition symbol_filename :: "(string \<Rightarrow> int) \<Rightarrow> string \<Rightarrow> np_error + string option" where
  "symbol_filename stat_errno filename =
     (let base = basename filename
      in bindE (push_back (filename @ ''.dSYM'') ''Contents/Resources/DWARF'') (\<lambda>p1.
         bindE (push_back p1 base) (\<lambda>path.
           if stat_errno path = 2 then Inr None else Inr (Some path))))"

definition darwin_current_exception_type :: "string option \<Rightarrow> (string \<Rightarrow> int \<times> string) \<Rightarrow> exception_result" where
  "darwin_current_exception_type tinfo demangle =
     (case tinfo of
        None \<Rightarrow> NoException
      | Some name \<Rightarrow>
          (case demangle name of (status, demangled) \<Rightarrow>
             if status = - 1 then Oom
             else if status = 0 then ExceptionType demangled
             else ExceptionType name))"

section \<open>Reading the load commands\<close>

text \<open>The load commands of an image as its header delimits them: by their number and by their size together.\<close>

fun commands_from :: "mach_header \<Rightarrow> (u64 \<Rightarrow> load_command) \<Rightarrow> nat \<Rightarrow> u64 \<Rightarrow> load_command list" where
  "commands_from hdr command 0 off = []"
| "commands_from hdr command (Suc n) off =
     (if off < ucast (mh_sizeofcmds hdr)
      then (let cmd = command (cmds_start hdr + off) in cmd # commands_from hdr command n (off + ucast (lc_cmdsize cmd)))
      else [])"

definition commands :: "image \<Rightarrow> mach_header \<Rightarrow> load_command list" where
  "commands im hdr = commands_from hdr (im_command im) (unat (mh_ncmds hdr)) 0"

definition is_segment :: "load_command \<Rightarrow> bool" where
  "is_segment c \<longleftrightarrow> lc_cmd c = LC_SEGMENT_64"

definition empty_segment :: "load_command \<Rightarrow> bool" where
  "empty_segment c \<longleftrightarrow> is_segment c \<and> seg_vmsize c = 0"

lemma cmds_loop_stuck:
  assumes "j < mh_ncmds hdr" "off < ucast (mh_sizeofcmds hdr)" "empty_segment (command (cmds_start hdr + off))"
  shows "cmds_loop hdr command slide j off ms = None"
proof -
  have "j < mh_ncmds hdr \<and> off < ucast (mh_sizeofcmds hdr) \<and> empty_segment (command (cmds_start hdr + off)) \<longrightarrow> False"
    if "cmds_loop hdr command slide j off ms = Some r" for r
    using that
    by (rule cmds_loop.raw_induct [rotated]) (auto simp: Let_def empty_segment_def is_segment_def split: if_splits)
  with assms show ?thesis by (cases "cmds_loop hdr command slide j off ms") auto
qed

lemma cmds_loop_eq:
  assumes "unat (mh_ncmds hdr) - unat j = n"
  shows "cmds_loop hdr command slide j off ms =
    (if \<exists>c\<in>set (commands_from hdr command n off). empty_segment c then None
     else Some (ms @ map (seg_mapping slide) (filter is_segment (commands_from hdr command n off))))"
  using assms
proof (induction n arbitrary: j off ms)
  case 0
  then have "\<not> j < mh_ncmds hdr" by (simp add: word_less_nat_alt)
  then show ?case by (subst cmds_loop.simps) simp
next
  case (Suc n)
  then have j: "j < mh_ncmds hdr" by (simp add: word_less_nat_alt)
  then have "unat (j + 1) = Suc (unat j)"
    using unsigned_less [of "mh_ncmds hdr", where 'a = nat] by (simp add: unat_word_ariths word_less_nat_alt)
  then have "unat (mh_ncmds hdr) - unat (j + 1) = n" using Suc.prems by simp
  note IH = Suc.IH [OF this]
  let ?cmd = "command (cmds_start hdr + off)"
  show ?case
  proof (cases "off < ucast (mh_sizeofcmds hdr) \<and> empty_segment ?cmd")
    case True
    then show ?thesis using cmds_loop_stuck [of j hdr off command slide ms] j by (auto simp: Let_def)
  next
    case False
    then show ?thesis
      using j by (subst cmds_loop.simps) (auto simp: Let_def IH empty_segment_def is_segment_def [symmetric])
  qed
qed

text \<open>The images that become link objects.\<close>

definition wanted :: "image \<Rightarrow> bool" where
  "wanted im \<longleftrightarrow> (case im_header im of None \<Rightarrow> False | Some hdr \<Rightarrow> mh_filetype hdr = MH_EXECUTE \<or> mh_filetype hdr = MH_DYLIB)"

definition image_commands :: "image \<Rightarrow> load_command list" where
  "image_commands im = (case im_header im of None \<Rightarrow> [] | Some hdr \<Rightarrow> commands im hdr)"

definition image_linkobj :: "image \<Rightarrow> linkobj_t" where
  "image_linkobj im = \<lparr>lj_name = im_name im, lj_slide = im_slide im,
     lj_mappings = map (\<lambda>seg. \<lparr>mp_offset = seg_fileoff seg, mp_size = seg_vmsize seg, mp_map = seg_vmaddr seg + im_slide im\<rparr>)
       (filter is_segment (image_commands im))\<rparr>"

definition hangs :: "image \<Rightarrow> bool" where
  "hangs im \<longleftrightarrow> wanted im \<and> (\<exists>c\<in>set (image_commands im). empty_segment c)"

lemma add_image_eq:
  "add_image im vec = (if hangs im then None else Some (vec @ (if wanted im then [image_linkobj im] else [])))"
  by (auto simp: add_image_def hangs_def wanted_def image_commands_def image_linkobj_def seg_mapping_def [abs_def] commands_def cmds_loop_eq
      split: option.split)

lemma images_loop_eq:
  "images_loop ims vec = (if \<exists>im\<in>set ims. hangs im then None else Some (vec @ map image_linkobj (filter wanted ims)))"
  by (induction ims arbitrary: vec) (auto simp: add_image_eq)

text \<open>
  C39. Listing the link objects on Darwin returns exactly if no executable or library has a segment of no
  size among the load commands its header delimits: the loop over the commands stays at such a
  segment. Otherwise there is one link object for each executable and library, in the order of the linker, with
  its name and slide and a mapping for each segment at the slid address.
\<close>

theorem darwin_get_linkobjs_terminates:
  "darwin_get_linkobjs ims =
     (if \<exists>im\<in>set ims. wanted im \<and> (\<exists>c\<in>set (image_commands im). empty_segment c) then None
      else Some (map image_linkobj (filter wanted ims)))"
  by (simp add: darwin_get_linkobjs_def images_loop_eq hangs_def)

section \<open>Descriptors, clocks and symbol files\<close>

text \<open>The list of descriptors holds, at each descriptor that could be described, its description, and elsewhere nothing.\<close>

lemma length_darwin_add_fd:
  "length fds \<le> fd \<Longrightarrow> length (darwin_add_fd f fd fds) = (if fst (describe_fd (f fd)) then Suc fd else length fds)"
  by (auto simp: darwin_add_fd_def Let_def split: prod.split)

lemma nth_darwin_add_fd:
  "length fds \<le> fd \<Longrightarrow> i < length (darwin_add_fd f fd fds) \<Longrightarrow> darwin_add_fd f fd fds ! i =
     (if i = fd then snd (describe_fd (f fd)) else if i < length fds then fds ! i else [])"
  by (auto simp: darwin_add_fd_def Let_def nth_append nth_list_update split: prod.split)

lemma darwin_get_file_descriptors_nth:
  "length (darwin_get_file_descriptors n f) \<le> n \<and>
   (\<forall>fd<n. if fst (describe_fd (f fd))
            then fd < length (darwin_get_file_descriptors n f) \<and> darwin_get_file_descriptors n f ! fd = snd (describe_fd (f fd))
            else fd < length (darwin_get_file_descriptors n f) \<longrightarrow> darwin_get_file_descriptors n f ! fd = [])"
proof (induction n)
  case 0
  then show ?case by (simp add: darwin_get_file_descriptors_def)
next
  case (Suc n)
  let ?fds = "darwin_get_file_descriptors n f"
  have "darwin_get_file_descriptors (Suc n) f = darwin_add_fd f n ?fds"
    by (simp add: darwin_get_file_descriptors_def)
  then show ?case
    using Suc by (auto simp: less_Suc_eq length_darwin_add_fd nth_darwin_add_fd split: if_splits)
qed

text \<open>The monotonic clock splits the nanoseconds since the first call, however they came about.\<close>

lemma sint_small: "0 \<le> k \<Longrightarrow> k < 2 ^ 63 \<Longrightarrow> sint (word_of_int k :: u64) = k"
  by (simp add: signed_of_int signed_take_bit_int_eq_self_iff)

lemma darwin_clock_monotonic:
  assumes "darwin_clock_gettime 1 ca cs = (Some (sec, nsec), cs')"
  shows "0 \<le> nsec \<and> nsec < NANOSEC_PER_SEC \<and> 0 \<le> sec \<and>
    sec * NANOSEC_PER_SEC + nsec = uint (((ca_now ca - cs_epoch cs') * ucast (cs_numer cs')) div ucast (cs_denom cs'))"
proof -
  define e where "e = ((ca_now ca - cs_epoch cs') * ucast (cs_numer cs')) div ucast (cs_denom cs')"
  have r: "sec = sint (e div 1000000000)" "nsec = sint (e - word_of_int sec * 1000000000)"
    using assms by (auto simp: darwin_clock_gettime_def e_def Let_def)
  have "e div 1000000000 = word_of_int (uint e div 1000000000)" by (simp add: word_div_def)
  moreover have "uint e div 1000000000 < 2 ^ 63"
    using zdiv_mono2 [of "uint e" 2 1000000000] unsigned_less [of e, where 'a = int] by simp
  ultimately have s: "sec = uint e div 1000000000" unfolding r(1) using sint_small [of "uint e div 1000000000"] by (simp add: pos_imp_zdiv_nonneg_iff)
  have "e - word_of_int sec * 1000000000 = word_of_int (uint e - sec * 1000000000)"
    by (simp add: wi_hom_syms)
  also have "uint e - sec * 1000000000 = uint e mod 1000000000" unfolding s by (simp add: minus_div_mult_eq_mod)
  finally have "nsec = uint e mod 1000000000" unfolding r(2) by (simp add: sint_small)
  with s show ?thesis by (simp add: NANOSEC_PER_SEC_def e_def pos_imp_zdiv_nonneg_iff)
qed

lemma symbol_filename_path:
  assumes "filename \<noteq> []"
  shows "symbol_filename st filename =
    (let path = filename @ ''.dSYM/Contents/Resources/DWARF/'' @ basename filename
     in Inr (if st path = 2 then None else Some path))"
  using assms by (simp add: symbol_filename_def push_back_def Let_def SLASH_def nth_append)

end
