(* ===== verification/NP_Darwin_x86_64.thy ===== *)
theory NP_Darwin_x86_64
  imports NP_Intercept
begin

unbundle bit_operations_syntax

text \<open>
  \<^verbatim>\<open>np/spiegel/platform/mach_vm_protect.cxx\<close> and \<^verbatim>\<open>np/spiegel/platform/darwin_x86_64.cxx\<close>: writing
  to the text segment, breakpoints, the signal handler and the trampoline on Darwin. Behind
  the called function no label of the trampoline runs but one of two stubs in
  assembly, which find the trampoline's frame from the stack pointer. The Mach kernel, Valgrind
  and the page size are a record of answers, as for Linux.
\<close>

section \<open>Writing to the text segment\<close>

datatype vm_prot = VM_READ_WRITE_COPY | VM_READ_EXECUTE

record mach =
  mk_vm_protect :: "addr_t \<Rightarrow> u64 \<Rightarrow> vm_prot \<Rightarrow> int"
  mk_page_size :: u64
  mk_valgrind :: bool
  mk_sigaction :: int

text \<open>How pages are protected after a request was granted.\<close>

fun vm_pages :: "vm_prot \<Rightarrow> prot" where
  "vm_pages VM_READ_WRITE_COPY = PROT_RW"
| "vm_pages VM_READ_EXECUTE = PROT_RX"

definition np_vm_protect :: "mach \<Rightarrow> addr_t \<Rightarrow> u64 \<Rightarrow> vm_prot \<Rightarrow> machine \<Rightarrow> int \<times> machine" where
  "np_vm_protect k start len p m =
     (let r = mk_vm_protect k start len p
      in (r, if r = 0 then m\<lparr>m_prot := (\<lambda>a. if a - start < len then vm_pages p else m_prot m a)\<rparr> else m))"

definition darwin_text_map_writable :: "mach \<Rightarrow> addr_t \<Rightarrow> u64 \<Rightarrow> machine \<Rightarrow> int \<times> machine" where
  "darwin_text_map_writable k addr len m =
     (let start = page_round_down (mk_page_size k) addr;
          stop = page_round_up (mk_page_size k) (addr + len);
          (r, m') = np_vm_protect k start (stop - start) VM_READ_WRITE_COPY m
      in if r \<noteq> 0 then (- 1, m') else (0, m'))"

definition darwin_text_restore :: "mach \<Rightarrow> addr_t \<Rightarrow> u64 \<Rightarrow> machine \<Rightarrow> int \<times> machine" where
  "darwin_text_restore k addr len m =
     (let start = page_round_down (mk_page_size k) addr;
          stop = page_round_up (mk_page_size k) (addr + len);
          (r, m') = np_vm_protect k start (stop - start) VM_READ_EXECUTE m
      in if r \<noteq> 0 then (- 1, m') else (0, m'))"

definition darwin_text_write :: "mach \<Rightarrow> addr_t \<Rightarrow> u8 list \<Rightarrow> machine \<Rightarrow> int \<times> machine" where
  "darwin_text_write k dst bs m =
     (let len = of_nat (length bs);
          (r, m1) = darwin_text_map_writable k dst len m
      in if r \<noteq> 0 then (r, m1)
         else darwin_text_restore k dst len (m1\<lparr>m_mem := copy_bytes dst bs (m_mem m1)\<rparr>))"

section \<open>Breakpoints\<close>

definition darwin_install_intercept :: "mach \<Rightarrow> addr_t \<Rightarrow> intstate_t \<Rightarrow> machine \<Rightarrow> int \<times> intstate_t \<times> machine" where
  "darwin_install_intercept k addr st m =
     (if addr = 0 then (- 1, st, m)
      else
        let b = m_mem m addr;
            st1 = (if b = INSN_PUSH_RBP then st\<lparr>is_type := PUSHBP\<rparr>
                   else if b = INSN_HLT \<or> b = INSN_INT3 then st
                   else st\<lparr>is_type := OTHER\<rparr>);
            st2 = st1\<lparr>is_orig := b\<rparr>;
            m1 = (if m_sigaction m then m
                  else m\<lparr>m_using_int3 := m_using_int3 m \<or> mk_valgrind k\<rparr>)
        in if \<not> m_sigaction m \<and> mk_sigaction k < 0 then (- 1, st2, m1)
           else
             let m2 = m1\<lparr>m_sigaction := True\<rparr>;
                 (r, m3) = darwin_text_write k addr [trap_byte m2] m2
             in if r \<noteq> 0 then (r, st2, m3) else (0, st2, m3))"

definition darwin_uninstall_intercept :: "mach \<Rightarrow> addr_t \<Rightarrow> intstate_t \<Rightarrow> machine \<Rightarrow> int \<times> machine" where
  "darwin_uninstall_intercept k addr st m =
     (if addr = 0 then (- 1, m)
      else if m_mem m addr \<noteq> trap_byte m then (- 1, m)
      else darwin_text_write k addr [is_orig st] m)"

definition darwin_is_intercept_installed :: "addr_t \<Rightarrow> machine \<Rightarrow> bool" where
  "darwin_is_intercept_installed addr m \<longleftrightarrow> (if addr = 0 then False else m_mem m addr = trap_byte m)"

section \<open>The signal handler\<close>

text \<open>The codes of the signal are not looked at; \<open>si_kernel\<close> and \<open>si_brkpt\<close> have no influence.\<close>

definition darwin_handle_signal :: "siginfo \<Rightarrow> uctx \<Rightarrow> ireg \<Rightarrow> sigaction_t" where
  "darwin_handle_signal si uc s =
     (let m = r_mach s;
          rip = (if m_using_int3 m then uc_rip uc - 1 else uc_rip uc)
      in if m_using_int3 m \<and> \<not> si_trap si \<or> \<not> m_using_int3 m \<and> \<not> si_segv si then Sig_Ignore
         else if m_using_int3 m \<and> m_mem m rip \<noteq> INSN_INT3 \<or> \<not> m_using_int3 m \<and> m_mem m rip \<noteq> INSN_HLT
         then Sig_Default
         else if si_pid si \<noteq> 0 then Sig_Ignore
         else case get_intstate rip s of None \<Rightarrow> Sig_Default | Some st \<Rightarrow> Sig_Tramp st)"

section \<open>The trampoline\<close>

definition FRAME_MAGIC :: u32 where
  "FRAME_MAGIC = 0x0fa30411"

text \<open>
  \<^verbatim>\<open>struct frame\<close>: the 28 words of the fake stack as bytes, and what has to survive the call. A call
  object reads and writes its arguments in the saved registers and in the fake stack.
\<close>

record frame =
  fm_stack :: "u8 list"
  fm_call :: call_t
  fm_addr :: addr_t
  fm_our_rsp :: u64
  fm_magic :: u32

text \<open>
  \<^verbatim>\<open>argp\<close>: the first six arguments are in \<open>regs\<close>, in the order of \<^verbatim>\<open>abi_arg_offsets\<close>. Words behind the
  array are not part of it: there is no value.
\<close>

definition darwin_get_arg :: "u64 list \<Rightarrow> u8 list \<Rightarrow> nat \<Rightarrow> u64 option" where
  "darwin_get_arg regs stk i =
     (if i < 6 then Some (regs ! i)
      else if 8 * (2 + (i - 6)) + 8 \<le> length stk then Some (get_word (2 + (i - 6)) stk) else None)"

definition darwin_set_arg :: "nat \<Rightarrow> u64 \<Rightarrow> u64 list \<Rightarrow> u8 list \<Rightarrow> (u64 list \<times> u8 list) option" where
  "darwin_set_arg i v regs stk =
     (if i < 6 then Some (regs[i := v], stk)
      else if 8 * (2 + (i - 6)) + 8 \<le> length stk then Some (regs, put_word (2 + (i - 6)) v stk) else None)"

text \<open>
  Where the trampoline's frame is, what it holds before it is written, the trampoline's own frame and
  stack pointer, and the addresses of the two stubs.
\<close>

record darwin_tramp =
  dt_frame :: u64
  dt_stack :: "u8 list"
  dt_rbp :: u64
  dt_rsp :: u64
  dt_tramp0 :: u64
  dt_tramp1 :: u64

text \<open>The new stack pointer as an index of the fake stack, its words, where to continue, and the text.\<close>

definition darwin_tramp_frame ::
  "mach \<Rightarrow> darwin_tramp \<Rightarrow> intstate_t \<Rightarrow> addr_t \<Rightarrow> uctx \<Rightarrow> machine \<Rightarrow> nat \<times> u8 list \<times> u64 \<times> machine" where
  "darwin_tramp_frame k t st addr uc m =
     (case is_type st of
        PUSHBP \<Rightarrow> (0, put_word 0 (uc_rbp uc) (put_word 1 (dt_tramp1 t) (dt_stack t)), addr + 1, m)
      | OTHER \<Rightarrow> (1, put_word 1 (dt_tramp0 t) (dt_stack t), addr, snd (darwin_text_write k addr [is_orig st] m))
      | UNKNOWN \<Rightarrow> (2, dt_stack t, uc_rip uc, m))"

definition darwin_tramp_args :: "uctx \<Rightarrow> machine \<Rightarrow> u8 list \<Rightarrow> u8 list" where
  "darwin_tramp_args uc m stk =
     (let parent_size = uc_rbp uc - (uc_rsp uc + 8);
          n = unat (min parent_size (224 - 2 * 8))
      in take 16 stk @ map (\<lambda>j. m_mem m (uc_rsp uc + 8 + of_nat j)) [0..<n] @ drop (16 + n) stk)"

definition darwin_rearm :: "mach \<Rightarrow> intstate_t \<Rightarrow> addr_t \<Rightarrow> machine \<Rightarrow> machine" where
  "darwin_rearm k st addr m =
     (case is_type st of PUSHBP \<Rightarrow> m | OTHER \<Rightarrow> snd (darwin_text_write k addr [trap_byte m] m) | UNKNOWN \<Rightarrow> m)"

text \<open>The trampoline returns a value to the caller of the function, or goes on with a context.\<close>

datatype darwin_out = DW_Return u64 | DW_Setcontext uctx

definition darwin_intercept_tramp ::
  "mach \<Rightarrow> darwin_tramp \<Rightarrow> intstate_t \<Rightarrow> uctx \<Rightarrow> ireg \<Rightarrow> darwin_out \<times> frame \<times> ireg" where
  "darwin_intercept_tramp k t st tramp_uc s =
     (let m = r_mach s;
          addr = uc_rip tramp_uc - (if m_using_int3 m then 1 else 0);
          uc = tramp_uc\<lparr>uc_rbp := dt_rbp t\<rparr>;
          (top, stk, rip, m1) = darwin_tramp_frame k t st addr uc m;
          stk' = darwin_tramp_args uc m1 stk;
          uc' = uc\<lparr>uc_rip := rip, uc_rsp := dt_frame t + of_nat (8 * top)\<rparr>;
          c = dispatch_before addr s call_init;
          fm = \<lparr>fm_stack = stk', fm_call = c, fm_addr = addr, fm_our_rsp = dt_rsp t, fm_magic = FRAME_MAGIC\<rparr>
      in if call_skip c then (DW_Return (call_retval c), fm, s\<lparr>r_mach := darwin_rearm k st addr m1\<rparr>)
         else if call_redirect c \<noteq> 0
         then (DW_Setcontext (uc'\<lparr>uc_rip := call_redirect c,
                 uc_rsp := (if is_type st = PUSHBP then uc_rsp uc' + 8 else uc_rsp uc')\<rparr>), fm,
               s\<lparr>r_mach := darwin_rearm k st addr m1\<rparr>)
         else (DW_Setcontext uc', fm, s\<lparr>r_mach := m1\<rparr>))"

section \<open>The stubs\<close>

text \<open>
  The two stubs: the first and second argument and the stack pointer with which they call
  \<^verbatim>\<open>__np_intercept_after\<close>, from the value returned and the stack pointer they start with.
\<close>

definition np_intercept_tramp1 :: "u64 \<Rightarrow> u64 \<Rightarrow> u64 \<times> u64 \<times> u64" where
  "np_intercept_tramp1 rax rsp = (let rdi = rax; rsi = rsp; rsi = rsi - 16; rsp = rsp - 32 in (rdi, rsi, rsp))"

definition np_intercept_tramp0 :: "u64 \<Rightarrow> u64 \<Rightarrow> u64 \<times> u64 \<times> u64" where
  "np_intercept_tramp0 rax rsp = (let rdi = rax; rsi = rsp; rsi = rsi - 16; rsp = rsp - 24 in (rdi, rsi, rsp))"

text \<open>Their end, from the frame pointer: the address returned to, the frame pointer and the stack pointer then.\<close>

definition stub_return :: "(u64 \<Rightarrow> u64) \<Rightarrow> u64 \<Rightarrow> u64 \<times> u64 \<times> u64" where
  "stub_return word_at rbp =
     (let rsp = rbp; rbp' = word_at rsp; rsp = rsp + 8; ra = word_at rsp in (ra, rbp', rsp + 8))"

text \<open>
  \<^verbatim>\<open>__np_intercept_after\<close>: the address of the frame and what is stored there as one; \<open>st\<close> is the state the
  signal handler found last.
\<close>

definition np_intercept_after ::
  "mach \<Rightarrow> intstate_t \<Rightarrow> u64 \<Rightarrow> u64 \<Rightarrow> frame \<Rightarrow> ireg \<Rightarrow> u64 \<times> frame \<times> ireg" where
  "np_intercept_after k st rax addr fm s =
     (if addr AND 0xf \<noteq> 0 \<or> fm_magic fm \<noteq> FRAME_MAGIC then (NOT 0, fm, s)
      else
        let c = (fm_call fm)\<lparr>call_retval := rax\<rparr>;
            s1 = s\<lparr>r_mach := darwin_rearm k st (fm_addr fm) (r_mach s)\<rparr>;
            c1 = dispatch_after (fm_addr fm) s1 c
        in (call_retval c1, fm\<lparr>fm_call := c1\<rparr>, s1))"

section \<open>The Mach kernel as a provider of the same contract\<close>

lemma darwin_text_write_single:
  "darwin_text_write k a [b] m =
     (let (r, m1) = darwin_text_map_writable k a 1 m
      in if r \<noteq> 0 then (r, m1) else darwin_text_restore k a 1 (m1\<lparr>m_mem := (m_mem m1)(a := b)\<rparr>))"
  by (simp add: darwin_text_write_def split: prod.split)

lemmas darwin_text_defs = darwin_text_write_single darwin_text_map_writable_def darwin_text_restore_def np_vm_protect_def

interpretation dtw: text_writer "\<lambda>a b. darwin_text_write k a [b]" for k
  by unfold_locales (auto simp: darwin_text_defs Let_def split: if_splits)

text \<open>
  The same answers given by a kernel with \<^verbatim>\<open>mprotect\<close>. The registry is common to the platforms; over that kernel
  its calls of the functions for Linux are calls of the ones above.
\<close>

definition mprotect_kernel :: "mach \<Rightarrow> kernel" where
  "mprotect_kernel k = \<lparr>k_mprotect = (\<lambda>a l p. mk_vm_protect k a l (case p of PROT_RW \<Rightarrow> VM_READ_WRITE_COPY | PROT_RX \<Rightarrow> VM_READ_EXECUTE)),
     k_page_size = mk_page_size k, k_valgrind = mk_valgrind k, k_sigaction = mk_sigaction k\<rparr>"

lemma mprotect_kernel_simps [simp]:
  "k_page_size (mprotect_kernel k) = mk_page_size k" "k_valgrind (mprotect_kernel k) = mk_valgrind k"
  "k_sigaction (mprotect_kernel k) = mk_sigaction k"
  "k_mprotect (mprotect_kernel k) a l PROT_RW = mk_vm_protect k a l VM_READ_WRITE_COPY"
  "k_mprotect (mprotect_kernel k) a l PROT_RX = mk_vm_protect k a l VM_READ_EXECUTE"
  by (simp_all add: mprotect_kernel_def)

lemma protect_mprotect:
  "np_mprotect (mprotect_kernel k) a l PROT_RW m = np_vm_protect k a l VM_READ_WRITE_COPY m"
  "np_mprotect (mprotect_kernel k) a l PROT_RX m = np_vm_protect k a l VM_READ_EXECUTE m"
  by (simp_all add: np_mprotect_def np_vm_protect_def Let_def cong: if_cong)

lemma text_write_mprotect: "text_write (mprotect_kernel k) = darwin_text_write k"
proof -
  have "text_map_writable (mprotect_kernel k) a l m = darwin_text_map_writable k a l m"
    "text_restore (mprotect_kernel k) a l m = darwin_text_restore k a l m" for a l m
    by (simp_all add: text_map_writable_def darwin_text_map_writable_def text_restore_def
        darwin_text_restore_def protect_mprotect)
  then show ?thesis by (intro ext) (simp add: text_write_def darwin_text_write_def cong: if_cong)
qed

lemma install_mprotect: "install_intercept (mprotect_kernel k) = darwin_install_intercept k"
  unfolding install_intercept_def darwin_install_intercept_def text_write_mprotect mprotect_kernel_simps fun_eq_iff
  by blast

lemma uninstall_mprotect: "uninstall_intercept (mprotect_kernel k) = darwin_uninstall_intercept k"
  by (intro ext) (simp add: uninstall_intercept_def darwin_uninstall_intercept_def text_write_mprotect)

lemma rearm_mprotect: "rearm (mprotect_kernel k) = darwin_rearm k"
  by (intro ext) (simp add: rearm_def darwin_rearm_def text_write_mprotect split: inttype.split)

definition mach_ok :: "mach \<Rightarrow> bool" where
  "mach_ok k \<longleftrightarrow> (\<forall>a l p. mk_vm_protect k a l p = 0) \<and> 0 \<le> mk_sigaction k"

lemma kernel_ok_mprotect: "mach_ok k \<Longrightarrow> kernel_ok (mprotect_kernel k)"
  by (simp add: mach_ok_def kernel_ok_def mprotect_kernel_def)


section \<open>Mocked calls\<close>

text \<open>A word of the caller's stack.\<close>

definition mem_word :: "machine \<Rightarrow> u64 \<Rightarrow> u64" where
  "mem_word m a = word_of_bytes (map (\<lambda>j. m_mem m (a + of_nat j)) [0..<8])"

lemma darwin_tramp_args_eq: "darwin_tramp_args uc m stk = tramp_args uc m stk"
proof -
  have "unat (min p 208) = (if p < 208 then unat p else 208)" for p :: u64
    by (auto simp: min_def not_less)
  then show ?thesis by (simp add: darwin_tramp_args_def tramp_args_def Let_def)
qed

lemma length_tramp_args:
  assumes "length stk = 224"
  shows "length (tramp_args uc m stk) = 224"
proof -
  have "unat p \<le> 208" if "p < 208" for p :: u64 using that by (simp add: word_less_nat_alt)
  with assms show ?thesis by (simp add: tramp_args_def Let_def min_def)
qed

lemma darwin_args_copied:
  assumes "length stk = 224" "i < 26" "208 \<le> uc_rbp uc - (uc_rsp uc + 8)"
  shows "get_word (2 + i) (darwin_tramp_args uc m stk) = mem_word m (uc_rsp uc + 8 + of_nat (8 * i))"
proof -
  let ?g = "\<lambda>j. m_mem m (uc_rsp uc + 8 + of_nat j)"
  have "min (uc_rbp uc - (uc_rsp uc + 8)) 208 = 208" using assms(3) by (simp add: min_def)
  then have args: "darwin_tramp_args uc m stk = take 16 stk @ map ?g [0..<208] @ drop 224 stk"
    by (simp add: darwin_tramp_args_def)
  have "drop (8 * (2 + i)) (darwin_tramp_args uc m stk) = map ?g [8 * i..<208] @ drop 224 stk"
    using assms(1,2) unfolding args by (simp add: drop_map)
  moreover have "take 8 (map ?g [8 * i..<208] @ xs) = map ?g [8 * i..<8 * i + 8]" for xs
    using assms(2) by (simp add: take_map)
  moreover have "map ?g [8 * i..<8 * i + 8] = map (\<lambda>j. m_mem m (uc_rsp uc + 8 + of_nat (8 * i) + of_nat j)) [0..<8]"
    by (rule nth_equalityI) (simp_all add: add.assoc)
  ultimately show ?thesis by (simp add: get_word_def mem_word_def)
qed

lemma darwin_handle_signal_tramp:
  assumes "reg_inv T s" "r_installed s a = Some as"
    "uc_rip uc = (if m_using_int3 (r_mach s) then a + 1 else a)"
    "si_pid si = 0" "if m_using_int3 (r_mach s) then si_trap si else si_segv si"
  shows "darwin_handle_signal si uc s = Sig_Tramp (as_state as)"
  using reg_inv_Some [OF assms(1,2)] assms(2-) by (auto simp: darwin_handle_signal_def get_intstate_def trap_byte_def Let_def)

text \<open>The stubs give the frame; the one for intercepts that replaced an instruction leaves the stack unaligned.\<close>

lemma aligned_16:
  assumes "(f :: u64) AND 0xf = 0"
  shows "(f - 16) AND 0xf = 0" "(f - 8) AND 0xf \<noteq> 0"
proof -
  have m: "(x AND 0xf = 0) = (uint x mod 16 = 0)" for x :: u64
  proof -
    have "uint (x AND 0xf) = uint x AND mask 4" by (simp add: unsigned_and_eq mask_numeral)
    then have "uint (x AND 0xf) = uint x mod 16" by (simp add: take_bit_eq_mask [symmetric] take_bit_eq_mod)
    then show ?thesis by (metis unsigned_0 unsigned_eq_0_iff)
  qed
  have d: "uint (f - c) mod 16 = (uint f - uint c) mod 16" for c
    by (simp add: uint_word_ariths mod_mod_cancel)
  show "(f - 16) AND 0xf = 0" using assms unfolding m d by simp
  show "(f - 8) AND 0xf \<noteq> 0" using assms unfolding m d by simp presburger
qed

lemma stub_frame:
  "np_intercept_tramp1 rax (16 + f) = (rax, f, f - 16)" "np_intercept_tramp0 rax (16 + f) = (rax, f, f - 8)"
  by (simp_all add: np_intercept_tramp1_def np_intercept_tramp0_def)

lemma darwin_rearm_trap: "trap_byte (darwin_rearm k st a m) = trap_byte m"
  by (cases "darwin_text_write k a [trap_byte m] m") (auto simp: darwin_rearm_def dtw.tw_trap split: inttype.split)

lemma darwin_after_value:
  assumes "mach_ok k" "f AND 0xf = 0" "fm_magic fm = FRAME_MAGIC" "fm_addr fm = a"
    "m_mem (r_mach s) a = trap_byte (r_mach s)"
  shows "\<exists>fm' s'. np_intercept_after k st rax f fm s = (rax, fm', s') \<and> m_mem (r_mach s') = m_mem (r_mach s)"
proof -
  have "m_mem (darwin_rearm k st a (r_mach s)) = m_mem (r_mach s)"
  proof (cases "is_type st")
    case OTHER
    obtain m' where w: "text_write (mprotect_kernel k) a [trap_byte (r_mach s)] (r_mach s) = (0, m')"
      using text_write_ok [OF kernel_ok_mprotect [OF assms(1)]] .
    then show ?thesis using OTHER tw.tw_success [OF w] assms(5)
      by (simp add: darwin_rearm_def text_write_mprotect fun_upd_idem)
  qed (simp_all add: darwin_rearm_def)
  with assms(2-4) show ?thesis by (simp add: np_intercept_after_def dispatch_after_id)
qed

text \<open>
  C12. On Darwin a call of a mocked function continues at the mock installed last, with the frame pointer of
  the trampoline, the stack pointer at the address of a stub and behind it the words of the caller's
  stack, so that the mock finds the arguments from the seventh on; the breakpoint is in place while the mock runs. When
  the mock has returned, the stub hands the trampoline's frame and the value to
  \<^verbatim>\<open>__np_intercept_after\<close>, which accepts the frame, returns the value and keeps the text. The
  stack pointer at that call is a multiple of 16, as the calling convention asks, exactly if the function
  starts with a push of the frame pointer.
\<close>

theorem darwin_mocked_call:
  assumes "mach_ok k" "ireg_start T s0" "ireachable (mprotect_kernel k) s0 s"
    and a: "handlers s a \<noteq> []" "T a \<noteq> INSN_HLT" "T a \<noteq> INSN_INT3"
    and mock: "ic_to (last (handlers s a)) \<noteq> 0"
    and uc: "uc_rip uc = (if m_using_int3 (r_mach s) then a + 1 else a)" "208 \<le> dt_rbp t - (uc_rsp uc + 8)"
    and si: "si_pid si = 0" "if m_using_int3 (r_mach s) then si_trap si else si_segv si"
    and t: "length (dt_stack t) = 224" "dt_frame t AND 0xf = 0"
    and apart: "\<forall>j<208. uc_rsp uc + 8 + of_nat j \<noteq> a"
  shows "\<exists>st fm s'. darwin_handle_signal si uc s = Sig_Tramp st
    \<and> darwin_intercept_tramp k t st uc s = (DW_Setcontext \<lparr>uc_rip = ic_to (last (handlers s a)),
        uc_rsp = dt_frame t + 8, uc_rbp = dt_rbp t\<rparr>, fm, s')
    \<and> get_word 1 (fm_stack fm) = (if T a = INSN_PUSH_RBP then dt_tramp1 t else dt_tramp0 t)
    \<and> (\<forall>i<26. darwin_get_arg regs (fm_stack fm) (6 + i) = Some (mem_word (r_mach s) (uc_rsp uc + 8 + of_nat (8 * i))))
    \<and> m_mem (r_mach s') = m_mem (r_mach s) \<and> handlers s' = handlers s
    \<and> (\<forall>rax rdi rsi rsp.
         (if T a = INSN_PUSH_RBP then np_intercept_tramp1 else np_intercept_tramp0) rax (dt_frame t + 8 + 8) = (rdi, rsi, rsp) \<longrightarrow>
         rsi = dt_frame t \<and> (rsp AND 0xf = 0 \<longleftrightarrow> T a = INSN_PUSH_RBP) \<and>
         (\<exists>fm' s''. np_intercept_after k st rdi rsi fm s' = (rax, fm', s'') \<and> m_mem (r_mach s'') = m_mem (r_mach s)))"
proof -
  note k = kernel_ok_mprotect [OF assms(1)]
  note inv = ireachable_inv [OF k assms(2,3)]
  obtain as where as: "r_installed s a = Some as"
    using a(1) by (cases "r_installed s a") (auto simp: handlers_def)
  note I = reg_inv_Some [OF inv as]
  let ?st = "as_state as" and ?m = "r_mach s" and ?uc = "uc\<lparr>uc_rbp := dt_rbp t\<rparr>"
  have ty: "is_type ?st = (if T a = INSN_PUSH_RBP then PUSHBP else OTHER)"
    using I a(2,3) by (auto simp: classify_def)
  obtain top stk rip m1 where f: "darwin_tramp_frame k t ?st a ?uc ?m = (top, stk, rip, m1)"
    by (metis prod_cases4)
  have stk: "get_word 1 stk = (if T a = INSN_PUSH_RBP then dt_tramp1 t else dt_tramp0 t)" "length stk = 224"
    and top: "top = (if is_type ?st = PUSHBP then 0 else 1)"
    and m1: "m1 = (case is_type ?st of OTHER \<Rightarrow> snd (text_write (mprotect_kernel k) a [is_orig ?st] ?m) | _ \<Rightarrow> ?m)"
    using f ty t(1)
    by (auto simp: darwin_tramp_frame_def get_put_word get_put_word_0_1 [unfolded One_nat_def] text_write_mprotect
        split: if_splits)
  let ?m2 = "darwin_rearm k ?st a m1" and ?stk = "darwin_tramp_args ?uc m1 stk"
  have mem: "m_mem ?m2 = m_mem ?m"
    unfolding m1 rearm_mprotect [symmetric] by (rule rearm_known [OF k]) (use I in simp_all)
  have trap: "trap_byte ?m2 = trap_byte ?m"
    using dtw.tw_trap [of k a "is_orig ?st" ?m] unfolding darwin_rearm_trap m1 text_write_mprotect
    by (cases "darwin_text_write k a [is_orig ?st] ?m") (simp split: inttype.split)
  have m1_mem: "m_mem m1 x = m_mem ?m x" if "x \<noteq> a" for x
    using dtw.tw_other [of k a "is_orig ?st" ?m _ _ x] that unfolding m1 text_write_mprotect
    by (cases "darwin_text_write k a [is_orig ?st] ?m") (simp split: inttype.split)
  have c: "dispatch_before a s call_init = call_init\<lparr>call_redirect := ic_to (last (handlers s a))\<rparr>"
    using a(1) by (simp add: dispatch_before_last)
  have addr: "uc_rip uc - (if m_using_int3 ?m then 1 else 0) = a" using uc(1) by simp
  define fm where "fm = \<lparr>fm_stack = ?stk, fm_call = call_init\<lparr>call_redirect := ic_to (last (handlers s a))\<rparr>,
    fm_addr = a, fm_our_rsp = dt_rsp t, fm_magic = FRAME_MAGIC\<rparr>"
  let ?s = "s\<lparr>r_mach := ?m2\<rparr>"
  have "darwin_intercept_tramp k t ?st uc s = (DW_Setcontext \<lparr>uc_rip = ic_to (last (handlers s a)),
        uc_rsp = dt_frame t + 8, uc_rbp = dt_rbp t\<rparr>, fm, ?s)"
    unfolding darwin_intercept_tramp_def Let_def addr f c
    using mock top ty by (auto simp: call_init_def fm_def)
  moreover have "get_word 1 (fm_stack fm) = (if T a = INSN_PUSH_RBP then dt_tramp1 t else dt_tramp0 t)"
    using stk by (simp add: fm_def darwin_tramp_args_eq get_word_args)
  moreover have "darwin_get_arg regs (fm_stack fm) (6 + i) = Some (mem_word ?m (uc_rsp uc + 8 + of_nat (8 * i)))" if "i < 26" for i
  proof -
    have "m_mem m1 (uc_rsp uc + 8 + of_nat (8 * i) + of_nat j) = m_mem ?m (uc_rsp uc + 8 + of_nat (8 * i) + of_nat j)"
      if "j < 8" for j
      using apart [rule_format, of "8 * i + j"] \<open>i < 26\<close> that by (intro m1_mem) (simp add: add.assoc)
    then have "mem_word m1 (uc_rsp uc + 8 + of_nat (8 * i)) = mem_word ?m (uc_rsp uc + 8 + of_nat (8 * i))"
      unfolding mem_word_def by (intro arg_cong [where f = word_of_bytes] map_cong) auto
    moreover have "length (fm_stack fm) = 224"
      using stk(2) by (simp add: fm_def darwin_tramp_args_eq length_tramp_args)
    ultimately show ?thesis
      using darwin_args_copied [OF stk(2) that, of ?uc m1] that uc(2) by (simp add: darwin_get_arg_def fm_def)
  qed
  moreover have "\<exists>fm' s''. np_intercept_after k ?st rax (dt_frame t) fm ?s = (rax, fm', s'') \<and> m_mem (r_mach s'') = m_mem ?m" for rax
    using darwin_after_value [OF assms(1) t(2), of fm a ?s ?st rax] I mem trap by (simp add: fm_def)
  moreover have "handlers ?s = handlers s" by (auto simp: handlers_def)
  ultimately show ?thesis
    using darwin_handle_signal_tramp [OF inv as uc(1) si] mem aligned_16 [OF t(2)]
    by (intro exI [of _ ?st] exI [of _ fm] exI [of _ ?s])
       (simp add: stub_frame)
qed

definition demo_mach :: mach where
  "demo_mach = \<lparr>mk_vm_protect = (\<lambda>a l p. 0), mk_page_size = 4096, mk_valgrind = False, mk_sigaction = 0\<rparr>"

definition demo_darwin_tramp :: darwin_tramp where
  "demo_darwin_tramp = \<lparr>dt_frame = 0x7000, dt_stack = replicate 224 0, dt_rbp = 0x8000, dt_rsp = 0x6ff0,
     dt_tramp0 = 0x400, dt_tramp1 = 0x500\<rparr>"

lemma demo_mprotect: "mprotect_kernel demo_mach = demo_kernel"
  by (simp add: mprotect_kernel_def demo_mach_def demo_kernel_def)

lemma demo_darwin_apart: "\<forall>j<208. (0x7f00 :: u64) + 8 + of_nat j \<noteq> 0x1000"
proof (intro allI impI)
  fix j :: nat assume "j < 208"
  then have "unat ((0x7f00 :: u64) + 8 + of_nat j) = 0x7f08 + j"
    by (simp add: unat_word_ariths unat_of_nat)
  then have "unat ((0x7f00 :: u64) + 8 + of_nat j) \<noteq> unat (0x1000 :: u64)" by simp
  then show "(0x7f00 :: u64) + 8 + of_nat j \<noteq> 0x1000" by metis
qed

theorem darwin_mocked_call_witness:
  "\<exists>st fm s'. darwin_intercept_tramp demo_mach demo_darwin_tramp st \<lparr>uc_rip = 0x1000, uc_rsp = 0x7f00, uc_rbp = 0\<rparr> demo_mocked
      = (DW_Setcontext \<lparr>uc_rip = 0x2000, uc_rsp = 0x7008, uc_rbp = 0x8000\<rparr>, fm, s')
    \<and> (\<exists>fm' s''. np_intercept_after demo_mach st 42 0x7000 fm s' = (42, fm', s''))"
proof -
  let ?uc = "\<lparr>uc_rip = 0x1000, uc_rsp = 0x7f00, uc_rbp = 0\<rparr>" and ?si = "Siginfo False True False False 0"
  let ?T = "\<lambda>a :: addr_t. 0x55 :: u8" and ?t = demo_darwin_tramp
  have k: "mach_ok demo_mach" by (simp add: mach_ok_def demo_mach_def)
  have s: "ireachable (mprotect_kernel demo_mach) demo_ireg demo_mocked"
    using demo_mocked_simps(1) by (simp add: demo_mprotect)
  have T: "?T 0x1000 \<noteq> INSN_HLT" "?T 0x1000 \<noteq> INSN_INT3" "?T 0x1000 = INSN_PUSH_RBP"
    by (simp_all add: INSN_HLT_def INSN_INT3_def INSN_PUSH_RBP_def)
  have h: "handlers demo_mocked 0x1000 \<noteq> []" "ic_to (last (handlers demo_mocked 0x1000)) = 0x2000"
    by (simp_all add: demo_mocked_simps demo_mock_def)
  have uc: "uc_rip ?uc = (if m_using_int3 (r_mach demo_mocked) then 0x1000 + 1 else 0x1000)"
    "208 \<le> dt_rbp ?t - (uc_rsp ?uc + 8)" "\<forall>j<208. uc_rsp ?uc + 8 + of_nat j \<noteq> 0x1000"
    using demo_darwin_apart by (simp_all add: demo_mocked_simps demo_darwin_tramp_def)
  have si: "si_pid ?si = 0" "if m_using_int3 (r_mach demo_mocked) then si_trap ?si else si_segv ?si"
    by (simp_all add: demo_mocked_simps)
  have t: "length (dt_stack ?t) = 224" "dt_frame ?t AND 0xf = 0" "dt_frame ?t = 0x7000" "dt_rbp ?t = 0x8000"
    by (simp_all add: demo_darwin_tramp_def)
  have "ic_to (last (handlers demo_mocked 0x1000)) \<noteq> 0" by (simp add: h(2))
  from darwin_mocked_call [where regs = "[]", OF k demo_ok(2) s h(1) T(1,2) this uc(1,2) si t(1,2) uc(3)]
  obtain st fm s' where r: "darwin_intercept_tramp demo_mach ?t st ?uc demo_mocked
       = (DW_Setcontext \<lparr>uc_rip = 0x2000, uc_rsp = 0x7008, uc_rbp = 0x8000\<rparr>, fm, s')"
    "\<forall>rax rdi rsi rsp. np_intercept_tramp1 rax 0x7010 = (rdi, rsi, rsp) \<longrightarrow>
       (\<exists>fm' s''. np_intercept_after demo_mach st rdi rsi fm s' = (rax, fm', s''))"
    unfolding h(2) t(3,4) T(3) by auto blast
  have "np_intercept_tramp1 42 0x7010 = (42, 0x7000, 0x6ff0)" by (simp add: np_intercept_tramp1_def)
  with r show ?thesis by blast
qed

end
