(* ===== verification/NP_Junit.thy ===== *)
theory NP_Junit
  imports NP_Listeners NP_Tree
begin

text \<open>
  Which jobs share a case of the JUnit report. The names that \<^verbatim>\<open>find_case\<close> of \<^verbatim>\<open>np/junit_listener.cxx\<close>
  cuts out of the name of a job are compared with a description that looks at the test tree and
  the parameter values only, and they are shown to tell jobs apart by their test and values.
\<close>

section \<open>The names of a job\<close>

text \<open>The names from the root of the tree down to a node; the root may have none.\<close>

definition node_path :: "testnode_t \<Rightarrow> pos \<Rightarrow> string list" where
  "node_path root p = (case tn_name root of None \<Rightarrow> [] | Some x \<Rightarrow> [x]) @ path_names root p"

definition job_values :: "job_t \<Rightarrow> (string \<times> string) list" where
  "job_values j = map (\<lambda>a. (pm_name (as_param a), pm_values (as_param a) ! as_idx a)) (jb_assigns j)"

text \<open>A job's test and the values it runs with.\<close>

definition job_key :: "job_t \<Rightarrow> pos \<times> (string \<times> string) list" where
  "job_key j = (jb_node j, job_values j)"

fun bracketed :: "(string \<times> string) list \<Rightarrow> string" where
  "bracketed [] = []"
| "bracketed ((n, v) # nvs) = ''['' @ n @ ''='' @ v @ '']'' @ bracketed nvs"

text \<open>The suite is the dotted path of the test's parent, the case the test's own name with the values in brackets.\<close>

definition job_suite :: "testnode_t \<Rightarrow> job_t \<Rightarrow> string" where
  "job_suite root j = dotted (node_path root (butlast (jb_node j)))"

definition job_case :: "testnode_t \<Rightarrow> job_t \<Rightarrow> string" where
  "job_case root j = last (path_names root (jb_node j)) @ bracketed (job_values j)"

text \<open>
  Jobs the description is for: of a node below a named parent, each index within the values of its
  parameter, and no bracket or equals sign where it would make the name ambiguous.
\<close>

definition job_ok :: "testnode_t \<Rightarrow> job_t \<Rightarrow> bool" where
  "job_ok root j \<longleftrightarrow>
     jb_node j \<noteq> [] \<and> node_at root (jb_node j) \<noteq> None \<and> node_path root (butlast (jb_node j)) \<noteq> [] \<and>
     CHR ''['' \<notin> set (last (path_names root (jb_node j))) \<and>
     (\<forall>a\<in>set (jb_assigns j). as_idx a < length (pm_values (as_param a))) \<and>
     (\<forall>(n, v)\<in>set (job_values j). CHR ''='' \<notin> set n \<and> CHR '']'' \<notin> set v)"

lemma node_at_butlast: "node_at n p = Some m \<Longrightarrow> p \<noteq> [] \<Longrightarrow> \<exists>l. node_at n (butlast p) = Some l"
  using node_at_append [of n "butlast p" "[last p]"] by (cases "node_at n (butlast p)") auto

lemma path_names_snoc: "path_names n (p @ [i]) = path_names n p @ [last (path_names n (p @ [i]))]"
  by (induction n p rule: path_names.induct) auto

lemma dotted_append_last: "xs \<noteq> [] \<Longrightarrow> dotted (xs @ [x]) = dotted xs @ CHR ''.'' # x"
  by (induction xs rule: dotted.induct) auto

lemma assigns_string_values:
  "\<forall>a\<in>set as. as_idx a < length (pm_values (as_param a)) \<Longrightarrow>
     assigns_string as = Inr (bracketed (map (\<lambda>a. (pm_name (as_param a), pm_values (as_param a) ! as_idx a)) as))"
  by (induction as) (auto simp: assignment_as_string_def)

lemma string_find_prefix: "string_find s (s @ t) = Some 0"
  by (cases "s @ t") (auto, metis append_eq_conv_conj)

lemma wt_path_named:
  "wt_tree n \<Longrightarrow> node_at n p = Some m \<Longrightarrow> p \<noteq> [] \<Longrightarrow> tn_name m = Some (last (path_names n p))"
proof (induction n p rule: node_at.induct)
  case (2 n i p)
  then have i: "i < length (tn_children n)" by (auto split: if_splits)
  from wt_child [OF 2(2) i] obtain x where x: "tn_name (tn_children n ! i) = Some x" "wt_tree (tn_children n ! i)"
    by (auto simp: wt_name_def)
  show ?case
  proof (cases "p = []")
    case True
    with 2(3) i x show ?thesis by simp
  next
    case False
    then have "path_names (tn_children n ! i) p \<noteq> []" by (cases p) auto
    with 2(1) [OF i x(2)] 2(3) i False show ?thesis by simp
  qed
qed simp

lemma fullname_path:
  assumes "wt_tree root" "node_at root p = Some m" "node_path root p \<noteq> []"
  shows "get_fullname root p = dotted (node_path root p)"
proof -
  have "tn_name m \<noteq> None"
  proof (cases "p = []")
    case True
    with assms(2,3) show ?thesis by (auto simp: node_path_def split: option.splits)
  qed (use wt_path_named [OF assms(1,2)] in simp)
  from get_fullname_dotted [OF assms(2) this] names_ancestors [OF assms(1,2)] show ?thesis
    by (simp add: node_path_def)
qed

text \<open>The names the listener looks up are those of the description.\<close>

lemma case_names_job:
  assumes "wt_tree root" "job_ok root j"
  shows "case_names root j = Inr (job_suite root j, job_case root j)"
proof -
  obtain p i where p: "jb_node j = p @ [i]" using assms(2) by (cases "jb_node j" rule: rev_cases) (auto simp: job_ok_def)
  obtain n where n: "node_at root (p @ [i]) = Some n" using assms(2) p by (auto simp: job_ok_def)
  then obtain m where m: "node_at root p = Some m" using node_at_butlast [OF n] by auto
  have ne: "node_path root p \<noteq> []" using assms(2) p by (simp add: job_ok_def)
  have np: "node_path root (p @ [i]) = node_path root p @ [last (path_names root (p @ [i]))]"
    using path_names_snoc [of root p i] by (simp add: node_path_def)
  have full: "get_fullname root (p @ [i]) = job_suite root j @ CHR ''.'' # last (path_names root (p @ [i]))"
    using fullname_path [OF assms(1) n] dotted_append_last [OF ne] by (simp add: np job_suite_def p)
  have suite: "get_fullname root p = job_suite root j" using fullname_path [OF assms(1) m ne] by (simp add: job_suite_def p)
  have str: "job_as_string root j = Inr (job_suite root j @ CHR ''.'' # job_case root j)"
    using assms(2) assigns_string_values [of "jb_assigns j"]
    by (simp add: job_as_string_def job_ok_def p full job_case_def job_values_def)
  show ?thesis
    using str by (simp add: case_names_def p suite string_find_prefix)
qed

section \<open>Telling jobs apart\<close>

lemma append_marked_eq:
  assumes "xs @ c # ys = xs' @ c # ys'" "c \<notin> set xs" "c \<notin> set xs'"
  shows "xs = xs' \<and> ys = ys'"
  using assms by (induction xs xs' rule: list_induct2') auto

lemma bracketed_inj:
  "bracketed nvs = bracketed nvs' \<Longrightarrow>
     \<forall>(n, v)\<in>set nvs \<union> set nvs'. CHR ''='' \<notin> set n \<and> CHR '']'' \<notin> set v \<Longrightarrow> nvs = nvs'"
proof (induction nvs arbitrary: nvs' rule: bracketed.induct)
  case 1
  then show ?case by (cases nvs' rule: bracketed.cases) auto
next
  case (2 n v nvs)
  then obtain n' v' ms where nvs': "nvs' = (n', v') # ms" by (cases nvs' rule: bracketed.cases) auto
  have "n = n' \<and> v @ CHR '']'' # bracketed nvs = v' @ CHR '']'' # bracketed ms"
    using 2(2,3) by (intro append_marked_eq) (auto simp: nvs')
  moreover from this have "v = v' \<and> bracketed nvs = bracketed ms"
    using 2(3) by (intro append_marked_eq) (auto simp: nvs')
  ultimately show ?case using 2(1) [of ms] 2(3) by (auto simp: nvs')
qed

lemma before_bracket:
  assumes "x @ bracketed nvs = y @ bracketed mvs" "CHR ''['' \<notin> set x" "CHR ''['' \<notin> set y"
  shows "x = y \<and> bracketed nvs = bracketed mvs"
proof -
  have "takeWhile (\<lambda>c. c \<noteq> CHR ''['') (x @ bracketed nvs) = x" if "CHR ''['' \<notin> set x" for x nvs
    using that by (cases nvs rule: bracketed.cases) (auto simp: takeWhile_append takeWhile_eq_all_conv)
  from this [OF assms(2), of nvs] this [OF assms(3), of mvs] assms(1) show ?thesis by simp
qed

lemma node_path_dot_free:
  assumes "wt_tree root" "dot_free root" "node_at root p = Some m" "x \<in> set (node_path root p)"
  shows "CHR ''.'' \<notin> set x"
  using dot_free_ancestors [OF assms(2,3)] names_ancestors [OF assms(1,3)] assms(4)
  by (metis node_path_def set_rev)

text \<open>Two jobs have the same names exactly when they are of the same test with the same values.\<close>

lemma job_names_inj:
  assumes "wt_tree root" "dot_free root" "job_ok root j" "job_ok root k"
  shows "job_suite root j = job_suite root k \<and> job_case root j = job_case root k \<longleftrightarrow> job_key j = job_key k"
proof
  assume eq: "job_suite root j = job_suite root k \<and> job_case root j = job_case root k"
  let ?p = "jb_node j" and ?q = "jb_node k"
  obtain m m' where n: "node_at root ?p = Some m" "node_at root ?q = Some m'" and ne: "?p \<noteq> []" "?q \<noteq> []"
    using assms(3,4) by (auto simp: job_ok_def)
  then obtain l l' where l: "node_at root (butlast ?p) = Some l" "node_at root (butlast ?q) = Some l'"
    using node_at_butlast by blast
  have "node_path root (butlast ?p) = node_path root (butlast ?q)"
    using eq assms(3,4) node_path_dot_free [OF assms(1,2)] l
    by (intro dotted_inj) (auto simp: job_suite_def job_ok_def)
  then have up: "path_names root (butlast ?p) = path_names root (butlast ?q)" by (simp add: node_path_def)
  have c: "last (path_names root ?p) = last (path_names root ?q) \<and> bracketed (job_values j) = bracketed (job_values k)"
    using eq assms(3,4) by (intro before_bracket) (auto simp: job_case_def job_ok_def)
  have "path_names root ?p = path_names root ?q"
    using c up ne path_names_snoc [of root "butlast ?p" "last ?p"] path_names_snoc [of root "butlast ?q" "last ?q"] by simp
  then have "?p = ?q" using path_names_inj [OF assms(1) n] by blast
  moreover have "job_values j = job_values k"
    using c assms(3,4) by (intro bracketed_inj) (auto simp: job_ok_def)
  ultimately show "job_key j = job_key k" by (simp add: job_key_def)
qed (auto simp: job_key_def job_suite_def job_case_def)

text \<open>
  The named parent is needed: for a test right below a root without a name the suite's name is
  empty, and the separator that is skipped is the first character of the test's name.
\<close>

lemma case_names_top:
  assumes "wt_tree root" "tn_name root = None" "node_at root [i] = Some n" "jb_node j = [i]"
    "\<forall>a\<in>set (jb_assigns j). as_idx a < length (pm_values (as_param a))"
  shows "case_names root j = Inr ([], tl (job_case root j))"
proof -
  have np: "node_path root [i] = [last (path_names root [i])]" using assms(2) by (simp add: node_path_def)
  have "get_fullname root [i] = last (path_names root [i])" using fullname_path [OF assms(1,3)] np by simp
  moreover have "i < length (tn_children root)" using assms(3) by (auto split: if_splits)
  then have "last (path_names root [i]) \<noteq> []" using wt_child [OF assms(1), of i] by (auto simp: wt_name_def)
  moreover have "get_fullname root [] = []" using assms(2) by (simp add: get_fullname_def)
  moreover have "string_find [] s = Some 0" for s by (cases s) auto
  ultimately show ?thesis
    using assigns_string_values [OF assms(5)] assms(4)
    by (cases "last (path_names root [i])") (auto simp: case_names_def job_as_string_def job_case_def job_values_def)
qed

section \<open>The cases of a run\<close>

text \<open>A call about a job that has the test and the values of another.\<close>

definition about :: "job_t \<Rightarrow> lcall \<Rightarrow> bool" where
  "about j c \<longleftrightarrow> (case call_job c of None \<Rightarrow> False | Some k \<Rightarrow> job_key k = job_key j)"

fun call_ok :: "testnode_t \<Rightarrow> lcall \<Rightarrow> bool" where
  "call_ok root (L_End_Job j res) \<longleftrightarrow> job_ok root j"
| "call_ok root (L_Add_Event j ev) \<longleftrightarrow> job_ok root j \<and> \<not> isl (save_strings ev)"
| "call_ok root _ \<longleftrightarrow> True"

lemma call_ok_job: "call_ok root c \<Longrightarrow> call_job c = Some j \<Longrightarrow> job_ok root j"
  by (cases c) auto

lemma call_ok_reportable: "wt_tree root \<Longrightarrow> call_ok root c \<Longrightarrow> reportable root c"
  by (cases c) (simp_all add: case_names_job)

lemma names_of_job:
  assumes "wt_tree root" "call_ok root c"
  shows "names_of root c = map_option (\<lambda>k. (job_suite root k, job_case root k)) (call_job c)"
  using case_names_job [OF assms(1) call_ok_job [OF assms(2)]] by (cases "call_job c") (simp_all add: names_of_def)

lemma names_of_about:
  assumes "wt_tree root" "dot_free root" "call_ok root c" "job_ok root j"
  shows "names_of root c = Some (job_suite root j, job_case root j) \<longleftrightarrow> about j c"
  using job_names_inj [OF assms(1,2) call_ok_job [OF assms(3)] assms(4)]
  by (cases "call_job c") (auto simp: names_of_job [OF assms(1,3)] about_def)

text \<open>
  C20. The JUnit listener keeps the jobs of a run apart: after any calls, whatever their order, the
  suite named by the path of a test's parent has under the test's name and parameter values a case
  for exactly the jobs that were told about, with the result, time and output of the job as it ended
  last and the first failing event that was raised for it, whatever was told of jobs with
  another test or other values; there are no other cases, and suites and cases are in the order of
  their names. Jobs of one test whose values are spelled alike (a value listed twice) are not told
  apart: they share a case, and the later one overwrites the result of the earlier.
\<close>

theorem junit_jobs_apart:
  assumes "wt_tree root" "dot_free root" "\<forall>c\<in>set cs. call_ok root c"
  shows "\<exists>js. listener_calls (junit_call root files now) cs [] = Inr js \<and> keys_sorted js \<and>
    (\<forall>j. job_ok root j \<longrightarrow> told_case files now (filter (about j) cs) (look (job_suite root j, job_case root j) js)) \<and>
    (\<forall>nm. look nm js \<noteq> None \<longrightarrow> (\<exists>c\<in>set cs. \<exists>j. call_job c = Some j \<and> nm = (job_suite root j, job_case root j)))"
proof -
  have "list_all (reportable root) cs" using assms call_ok_reportable by (auto simp: list_all_iff)
  from junit_cases_by_name [OF this, of files now] obtain js where js:
    "listener_calls (junit_call root files now) cs [] = Inr js" "keys_sorted js"
    "\<And>nm. told_case files now (filter (\<lambda>c. names_of root c = Some nm) cs) (look nm js)" by blast
  have "filter (\<lambda>c. names_of root c = Some (job_suite root j, job_case root j)) cs = filter (about j) cs" if "job_ok root j" for j
    using names_of_about [OF assms(1,2) _ that] assms(3) by (intro filter_cong) auto
  then have told: "told_case files now (filter (about j) cs) (look (job_suite root j, job_case root j) js)" if "job_ok root j" for j
    using js(3) that by metis
  have "\<exists>c\<in>set cs. \<exists>j. call_job c = Some j \<and> nm = (job_suite root j, job_case root j)" if "look nm js \<noteq> None" for nm
  proof -
    have "filter (\<lambda>c. names_of root c = Some nm) cs \<noteq> []" using js(3) [of nm] that by (auto simp: told_case_def)
    then obtain c where c: "c \<in> set cs" "names_of root c = Some nm" by (auto simp: filter_empty_conv)
    with names_of_job [OF assms(1)] assms(3) show ?thesis by (intro bexI [of _ c]) auto
  qed
  with js(1,2) told show ?thesis by blast
qed

text \<open>Two jobs of one test with different values, whose calls are interleaved.\<close>

lemma demo_calls_ok:
  "wt_tree demo_suite" "dot_free demo_suite" "\<forall>c\<in>set demo_calls. call_ok demo_suite c"
  "job_ok demo_suite (demo_case_job 1)" "job_suite demo_suite (demo_case_job 1) = ''a''"
  "job_case demo_suite (demo_case_job 1) = ''b[p=y]''"
  "filter (about (demo_case_job 1)) demo_calls =
     [L_Add_Event (demo_case_job 1) (mk_event EV_EXFAIL ''bad''), L_End_Job (demo_case_job 1) R_FAIL]"
proof -
  show "wt_tree demo_suite" by (simp add: demo_suite_def SLASH_def)
  show "dot_free demo_suite" by (simp add: dot_free_def demo_suite_def)
  show "\<forall>c\<in>set demo_calls. call_ok demo_suite c" by (simp flip: list_all_iff) code_simp
  show "job_ok demo_suite (demo_case_job 1)" by code_simp
  show "job_suite demo_suite (demo_case_job 1) = ''a''" by code_simp
  show "job_case demo_suite (demo_case_job 1) = ''b[p=y]''" by code_simp
  show "filter (about (demo_case_job 1)) demo_calls =
     [L_Add_Event (demo_case_job 1) (mk_event EV_EXFAIL ''bad''), L_End_Job (demo_case_job 1) R_FAIL]"
    by (simp add: demo_calls_def about_def job_key_def job_values_def demo_case_job_def)
qed

theorem junit_jobs_apart_witness:
  "\<exists>js c. listener_calls (junit_call demo_suite (\<lambda>_. (Open_Fails, Open_Fails)) 0) demo_calls [] = Inr js \<and>
     look (''a'', ''b[p=y]'') js = Some c \<and> cs_result c = R_FAIL \<and> cs_event c = Some (mk_event EV_EXFAIL ''bad'')"
proof -
  obtain js where js: "listener_calls (junit_call demo_suite (\<lambda>_. (Open_Fails, Open_Fails)) 0) demo_calls [] = Inr js"
    "told_case (\<lambda>_. (Open_Fails, Open_Fails)) 0 (filter (about (demo_case_job 1)) demo_calls) (look (''a'', ''b[p=y]'') js)"
    using junit_jobs_apart [OF demo_calls_ok(1-3)] demo_calls_ok(4-6) by metis
  moreover have "get_result (mk_event EV_EXFAIL ''bad'') = R_FAIL" by code_simp
  ultimately show ?thesis
    by (auto simp: demo_calls_ok(7) told_case_def case_outcome_def map_filter_simps first_of_def simp del: One_nat_def split: option.splits)
qed

end
