(* ===== verification/Spec2Isabelle.thy ===== *)
theory Spec2Isabelle
  imports NP_Types NP_Common NP_Filename NP_Rangetree NP_Reader NP_Event NP_Proxy NP_Intercept
    NP_Testnode NP_Plan NP_Job NP_Runner NP_Enumerations NP_Lineno NP_Dwarf NP_Walker NP_Link NP_State NP_Intercept_x86 NP_Serial NP_Spiegel NP_Dump NP_Classifier NP_Testmanager NP_Listeners NP_Interpose NP_Platform NP_Main NP_Assert NP_Util NP_Tree NP_Darwin NP_Darwin_x86_64 NP_Junit
begin

text \<open>
  A verification library of NovaProva (\<^verbatim>\<open>src/np\<close>), a unit test framework for C that discovers
  its tests by reflection over the DWARF debugging information of the program it is linked into
  and runs each test in a child process.

  \<^bold>\<open>The parts of the program and how they interact.\<close> At start-up the reflection layer
  (\<^verbatim>\<open>np/spiegel\<close>) lists the link objects of the process, maps their DWARF sections, reads the
  compile units and builds an index from addresses to functions. The test manager turns the
  functions whose names look like tests, fixtures, mocks and parameters into a tree of test nodes.
  A plan selects nodes of that tree and is iterated over every test and every combination of
  parameter values; each step is a job. The runner forks a child per job. In the child the job's
  parameters are set, mocks are installed as breakpoints in the program text, fixtures and the test
  function run, and every event is sent through a pipe by the proxy listener. The parent polls the
  pipes and deadlines, decodes the calls, merges the results, reaps the children, informs its
  listeners and computes the exit code.

  \<^bold>\<open>Theories.\<close>
  \<^item> \<^verbatim>\<open>NP_Prelude\<close>: types of machine words, the error values, bytes and strings, and the lemmas the
    components share.
  \<^item> \<^verbatim>\<open>NP_Types\<close> (\<^verbatim>\<open>types.{hxx,cxx}\<close>): results with their merge, and the classes of functions.
  \<^item> \<^verbatim>\<open>NP_Common\<close> (\<^verbatim>\<open>util/common.cxx\<close>): numbers as text, times, comparisons, rounding to pages.
  \<^item> \<^verbatim>\<open>NP_Filename\<close> (\<^verbatim>\<open>util/tok.cxx\<close>, \<^verbatim>\<open>util/filename.cxx\<close>): the tokenizer and file names; resolving
    and normalising are shown to be walks over path components.
  \<^item> \<^verbatim>\<open>NP_Rangetree\<close> (\<^verbatim>\<open>util/rangetree.hxx\<close>): the ranged map. The locale \<open>range_index\<close> is the
    interface its clients use and is interpreted on the model of the map.
  \<^item> \<^verbatim>\<open>NP_Reader\<close> (\<^verbatim>\<open>dwarf/reader.hxx\<close>): the bounds-checked cursor. The locale \<open>reader_op\<close> says what
    every operation keeps, and is interpreted for each of them.
  \<^item> \<^verbatim>\<open>NP_Event\<close> (\<^verbatim>\<open>event.{hxx,cxx}\<close>), \<^verbatim>\<open>NP_Proxy\<close> (\<^verbatim>\<open>proxy_listener.cxx\<close>): events and their transport
    through a pipe that may split the bytes anywhere.
  \<^item> \<^verbatim>\<open>NP_Intercept\<close> (\<^verbatim>\<open>spiegel/intercept.cxx\<close>, \<^verbatim>\<open>platform/linux_x86_64.cxx\<close>, \<^verbatim>\<open>platform/mprotect.cxx\<close>,
    \<^verbatim>\<open>redirect.hxx\<close>): breakpoints in the text segment, the trampoline and redirections.
  \<^item> \<^verbatim>\<open>NP_Testnode\<close> (\<^verbatim>\<open>testnode.{hxx,cxx}\<close>), \<^verbatim>\<open>NP_Plan\<close> (\<^verbatim>\<open>plan.{hxx,cxx}\<close>): the tree of tests, its
    iterators, fixtures, mocks and parameters, and plans.
  \<^item> \<^verbatim>\<open>NP_Job\<close> (\<^verbatim>\<open>job.cxx\<close>, \<^verbatim>\<open>child.cxx\<close>), \<^verbatim>\<open>NP_Runner\<close> (\<^verbatim>\<open>runner.cxx\<close>): jobs, children and the main
    loop. The steps of the parent are the inductive relation \<open>rstep\<close>, the counters are an
    invariant of its reachable states.
  \<^item> \<^verbatim>\<open>NP_Enumerations\<close> (\<^verbatim>\<open>dwarf/enumerations.{hxx,cxx}\<close>, \<^verbatim>\<open>dwarf/string_table.cxx\<close>): names of DWARF
    constants.
  \<^item> \<^verbatim>\<open>NP_Lineno\<close> (\<^verbatim>\<open>dwarf/lineno_program.{hxx,cxx}\<close>): line number programs, compared with the
    state machine of the DWARF standard.
  \<^item> \<^verbatim>\<open>NP_Dwarf\<close> (\<^verbatim>\<open>dwarf/{reference,value,abbrev,entry,compile_unit,section}.*\<close>), \<^verbatim>\<open>NP_Walker\<close>
    (\<^verbatim>\<open>dwarf/walker.{hxx,cxx}\<close>): units, abbreviations, entries and the walker, compared with a tree
    of entries and its encoding.
  \<^item> \<^verbatim>\<open>NP_Link\<close> (\<^verbatim>\<open>spiegel/mapping.{hxx,cxx}\<close>, \<^verbatim>\<open>dwarf/link_object.{hxx,cxx}\<close>), \<^verbatim>\<open>NP_State\<close>
    (\<^verbatim>\<open>dwarf/state.{hxx,cxx}\<close>): link objects and their sections, the vector of units, the indexes of
    addresses and the lookups.
  \<^item> \<^verbatim>\<open>NP_Intercept_x86\<close> (\<^verbatim>\<open>platform/linux_x86.cxx\<close>): breakpoints and the trampoline of 32-bit processes, over
    the registry of \<^verbatim>\<open>NP_Intercept\<close>; a mocked call reaches the mock with its arguments.
  \<^item> \<^verbatim>\<open>NP_Serial\<close>: a whole run with one process at a time, from the plan over the pipes to the listeners; given
    processes that keep to the protocol and end, it ends, and tells every test and verdict once.
  \<^item> \<^verbatim>\<open>NP_Spiegel\<close> (\<^verbatim>\<open>spiegel/spiegel.{hxx,cxx}\<close>): the reflection interface: types, functions, locations
    and stack traces; the functions of a unit are compared with its tree of entries, and the classes
    of types with an inductive description of chains of aliases, which also says when classifying returns.
  \<^item> \<^verbatim>\<open>NP_Dump\<close> (\<^verbatim>\<open>spiegel/dwarf/state.cxx\<close>): what the dump functions print; by recursion or in preorder the
    entries are printed the same.
  \<^item> \<^verbatim>\<open>NP_Classifier\<close> (\<^verbatim>\<open>classifier.{hxx,cxx}\<close>): the classifiers and the regular expressions they use,
    and the function names they stand for.
  \<^item> \<^verbatim>\<open>NP_Testmanager\<close> (\<^verbatim>\<open>testmanager.{hxx,cxx}\<close>): discovery of the tests, fixtures, mocks and
    parameters through reflection, and the tree it builds.
  \<^item> \<^verbatim>\<open>NP_Listeners\<close> (\<^verbatim>\<open>text_listener.cxx\<close>, \<^verbatim>\<open>junit_listener.cxx\<close>): the reports, driven by the calls of
    the runner; the text report agrees with the runner's counters and exit code.
  \<^item> \<^verbatim>\<open>NP_Junit\<close>: the names under which the JUnit report keeps the jobs, described by the tree and the
    parameter values, and that they tell the jobs of a run apart.
  \<^item> \<^verbatim>\<open>NP_Interpose\<close> (\<^verbatim>\<open>uasserts.c\<close>, \<^verbatim>\<open>iassert.c\<close>, \<^verbatim>\<open>icunit.c\<close>, \<^verbatim>\<open>iexit.c\<close>, \<^verbatim>\<open>iexcept.c\<close>, \<^verbatim>\<open>isyslog.c\<close>): what the code
    under test calls; the judgement on messages to the system log.
  \<^item> \<^verbatim>\<open>NP_Platform\<close> (\<^verbatim>\<open>platform/x86x.cxx\<close>, \<^verbatim>\<open>platform/linux.cxx\<close>): the walk over stack frames and when it ends,
    the linker's objects, debuggers and descriptors.
  \<^item> \<^verbatim>\<open>NP_Log\<close> (\<^verbatim>\<open>util/log.{hxx,cxx}\<close>): log messages, line by line.
  \<^item> \<^verbatim>\<open>NP_Main\<close> (\<^verbatim>\<open>main.c\<close>, \<^verbatim>\<open>np.c\<close>): options, starting over under Valgrind, and the composition of plan,
    runner and formats into the exit code.
  \<^item> \<^verbatim>\<open>NP_Assert\<close> (\<^verbatim>\<open>np.h\<close>): the assertion macros with the messages they format.
  \<^item> \<^verbatim>\<open>NP_Util\<close> (\<^verbatim>\<open>util/common.cxx\<close>, \<^verbatim>\<open>util/trace.{h,c}\<close>, \<^verbatim>\<open>util/profile.cxx\<close>): writing in full, the allocation
    wrappers, the trace buffer and the probes.
  \<^item> \<^verbatim>\<open>NP_Tree\<close>: well-formed test trees; what the operations of \<^verbatim>\<open>NP_Testnode\<close> build is one, and each of its nodes is
    found by its full name.
  \<^item> \<^verbatim>\<open>NP_Darwin\<close> (\<^verbatim>\<open>platform/darwin.cxx\<close>): what is asked of Darwin and its linker; when the list of link
    objects ends.
  \<^item> \<^verbatim>\<open>NP_Darwin_x86_64\<close> (\<^verbatim>\<open>platform/mach_vm_protect.cxx\<close>, \<^verbatim>\<open>platform/darwin_x86_64.cxx\<close>): a second provider of the locale
    \<^verbatim>\<open>text_writer\<close> under the same registry, and the trampoline with its two stubs.

  \<^bold>\<open>State and effects.\<close> A class is a record or a datatype and a method a function on it; a pointer
  that may be null is an option; an object that the code shares is an index into a list. An
  assertion, a null pointer, an access out of range, a division by zero or an exit is a value of
  \<^typ>\<open>np_error\<close> on the left of a sum. Words keep their width and wrap. What the kernel, Valgrind, the
  object file library, other processes and the test functions do is an argument of the definition
  that uses it; what is assumed of it is a named predicate in the statement (for example
  \<^verbatim>\<open>mmap_contract\<close> and \<^verbatim>\<open>mmap_serves\<close> in \<^verbatim>\<open>NP_Link\<close>), with a witness that satisfies it.

  \<^bold>\<open>What the lemmas show.\<close> For each component its invariant and that the operations keep it, the
  behaviour of each operation on every branch, and a refinement of an abstract description: the
  verdict on a test is the worst of its events (\<^verbatim>\<open>NP_Runner\<close>); an event crosses the pipe unchanged
  (\<^verbatim>\<open>NP_Proxy\<close>); a plan visits every test with every combination of parameter values
  (\<^verbatim>\<open>NP_Plan\<close>); mocks leave no trace in the program text (\<^verbatim>\<open>NP_Intercept\<close>, \<^verbatim>\<open>NP_Testnode\<close>); a line
  number program reports the rows of the standard (\<^verbatim>\<open>NP_Lineno\<close>); a walk over a unit shows the tree
  it encodes (\<^verbatim>\<open>NP_Walker\<close>); an address is described by the function that covers it
  (\<^verbatim>\<open>NP_State\<close>); reflection lists the functions a unit declares (\<^verbatim>\<open>NP_Spiegel\<close>) and discovery hangs
  the first function that leads to a node there (\<^verbatim>\<open>NP_Testmanager\<close>); the reports agree with what
  the runner did (\<^verbatim>\<open>NP_Listeners\<close>); and a serial run of test processes that keep to the
  protocol ends, with every test run and told once (\<^verbatim>\<open>NP_Serial\<close>).

  \<^bold>\<open>Loops and bounds.\<close> Loops over input are total functions whose measure is the number of bytes
  left. Loops that wait for other processes take the list of the kernel's answers, one per round,
  and end with it. Loops that follow references of the debugging information, which may be
  circular, are partial functions in the option type. The main loop of the runner, the iterator of
  plans and the printer of types take a bound on their rounds or their depth and have no value
  when it runs out; \<^verbatim>\<open>plan_visits_all_tests\<close> and \<^verbatim>\<open>serial_run_completes\<close> give bounds that are
  enough, and \<^verbatim>\<open>dump_info_orders_agree\<close> shows that there is one for the dump by recursion. Statements about
  encoded units assume a unit below four gigabytes, so that the offset, the depth and the number of
  entries read fit their 32-bit fields; a count past that would wrap.

  \<^bold>\<open>Not modelled.\<close> The switch of register contexts in assembly (\<^verbatim>\<open>platform/darwin_setcontext.S\<close>), whose
  effect is an outcome of the trampoline; the system calls made in assembly; the functions of \<^verbatim>\<open>spiegel.cxx\<close>
  and \<^verbatim>\<open>testnode.cxx\<close> that print what is modelled; destructors and wrappers that only
  pass a call on; the experiments under \<^verbatim>\<open>junk\<close> and \<^verbatim>\<open>doc\<close>, which are not part of the program.
\<close>

end
